(* ===== verification/Prelude.thy ===== *)
theory Prelude
  imports Main "HOL-Library.Multiset" "HOL-Library.AList" "HOL-Library.Word"
begin

text \<open>
  Shared vocabulary of the development: the standard containers the C++ code uses
  (\<open>std::unordered_map\<close>, \<open>std::unordered_set\<close>, FIFO queues), the narrowing integer
  cast, and the interface of a FIFO queue as a locale.

  An \<open>unordered_map\<close> is an association list with distinct keys whose list order is the
  iteration order. The C++ standard leaves that order open; the model iterates in
  insertion order, and no property of the development depends on the order beyond the
  multiset of what is visited unless it says so.
\<close>

named_theorems container_simps \<open>rewriting of the container operations\<close>

section \<open>Containers\<close>

type_synonym ('k, 'v) umap = "('k \<times> 'v) list"

abbreviation um_find :: "('k, 'v) umap \<Rightarrow> 'k \<Rightarrow> 'v option" where
  "um_find m k \<equiv> map_of m k"

definition um_insert :: "'k \<Rightarrow> 'v \<Rightarrow> ('k, 'v) umap \<Rightarrow> ('k, 'v) umap" where
  \<comment> \<open>\<open>unordered_map::insert\<close>: an existing key keeps its value\<close>
  "um_insert k v m = (if map_of m k = None then m @ [(k, v)] else m)"

abbreviation um_put :: "'k \<Rightarrow> 'v \<Rightarrow> ('k, 'v) umap \<Rightarrow> ('k, 'v) umap" where
  \<comment> \<open>assignment through the iterator of an existing key, else insertion\<close>
  "um_put k v m \<equiv> AList.update k v m"

abbreviation um_erase :: "'k \<Rightarrow> ('k, 'v) umap \<Rightarrow> ('k, 'v) umap" where
  "um_erase k m \<equiv> AList.delete k m"

abbreviation um_wf :: "('k, 'v) umap \<Rightarrow> bool" where
  "um_wf m \<equiv> distinct (map fst m)"

definition us_insert :: "'a \<Rightarrow> 'a list \<Rightarrow> 'a list" where
  "us_insert x xs = (if x \<in> set xs then xs else xs @ [x])"

abbreviation us_erase :: "'a \<Rightarrow> 'a list \<Rightarrow> 'a list" where
  "us_erase x xs \<equiv> removeAll x xs"

definition is_some :: "'a option \<Rightarrow> bool" where
  "is_some x = (case x of None \<Rightarrow> False | Some _ \<Rightarrow> True)"

definition to_int32 :: "int \<Rightarrow> int" where
  \<comment> \<open>\<open>static_cast<int>\<close> of a wider integer: reduction modulo \<open>2^32\<close>, read as signed\<close>
  "to_int32 x = (x + 2147483648) mod 4294967296 - 2147483648"

fun nat_to_string :: "nat \<Rightarrow> string" where
  \<comment> \<open>\<open>std::to_string\<close>\<close>
  "nat_to_string n =
     (if n < 10 then [char_of (48 + n)]
      else nat_to_string (n div 10) @ [char_of (48 + n mod 10)])"

declare nat_to_string.simps [simp del]

definition int_to_string :: "int \<Rightarrow> string" where
  "int_to_string i = (if i < 0 then ''-'' @ nat_to_string (nat (- i)) else nat_to_string (nat i))"

fun popn :: "('q \<Rightarrow> 'a option \<times> 'q) \<Rightarrow> nat \<Rightarrow> 'q \<Rightarrow> 'a list \<times> 'q" where
  "popn pop 0 q = ([], q)"
| "popn pop (Suc n) q =
     (case pop q of
        (None, q') \<Rightarrow> ([], q')
      | (Some x, q') \<Rightarrow> (let (xs, q'') = popn pop n q' in (x # xs, q'')))"

section \<open>Lemmas on the containers\<close>

lemma is_some_simps [simp]: "is_some (Some x) = True" "is_some None = False"
  by (simp_all add: is_some_def)

lemma is_some_iff: "is_some x \<longleftrightarrow> x \<noteq> None"
  by (cases x) simp_all

lemma um_find_insert [container_simps]:
  "um_find (um_insert k v m) k' =
     (if k' = k \<and> um_find m k = None then Some v else um_find m k')"
  by (auto simp: um_insert_def map_add_def split: option.splits)

lemma um_find_put [container_simps]:
  "um_find (um_put k v m) k' = (if k' = k then Some v else um_find m k')"
  by (simp add: update_conv')

lemma um_find_erase [container_simps]:
  "um_find (um_erase k m) k' = (if k' = k then None else um_find m k')"
  by (simp add: delete_conv')

lemma um_wf_insert [simp]: "um_wf m \<Longrightarrow> um_wf (um_insert k v m)"
  by (auto simp: um_insert_def map_of_eq_None_iff)

lemma um_wf_put [simp]: "um_wf m \<Longrightarrow> um_wf (um_put k v m)"
  by (rule distinct_update)

lemma um_wf_erase [simp]: "um_wf m \<Longrightarrow> um_wf (um_erase k m)"
  by (rule distinct_delete)

lemma fst_set_erase [container_simps]: "fst ` set (um_erase k m) = fst ` set m - {k}"
  by (force simp: AList.delete_eq)

lemma fst_set_put [container_simps]: "fst ` set (um_put k v m) = insert k (fst ` set m)"
  by (induction m) auto

lemma fst_set_insert [container_simps]: "fst ` set (um_insert k v m) = insert k (fst ` set m)"
  by (auto simp: um_insert_def map_of_eq_None_iff image_iff dest!: map_of_SomeD)

lemma um_find_None_iff: "um_find m k = None \<longleftrightarrow> k \<notin> fst ` set m"
  by (simp add: map_of_eq_None_iff)

lemma um_find_Some_mem: "um_find m k = Some v \<Longrightarrow> (k, v) \<in> set m"
  by (rule map_of_SomeD)

lemma um_mem_find: "um_wf m \<Longrightarrow> (k, v) \<in> set m \<Longrightarrow> um_find m k = Some v"
  by simp

lemma length_um_erase:
  "um_wf m \<Longrightarrow> length (um_erase k m) = (if um_find m k = None then length m else length m - 1)"
proof (induction m)
  case (Cons p m)
  show ?case
  proof (cases "fst p = k")
    case True
    with Cons.prems have "k \<notin> fst ` set m" by auto
    then have "um_erase k m = m" by (simp add: AList.delete_notin_dom dom_map_of_conv_image_fst)
    with True show ?thesis by (cases p) simp
  next
    case False
    with Cons show ?thesis
      by (cases p; cases m) (auto simp: map_of_eq_None_iff)
  qed
qed simp

lemma length_um_put_new: "um_find m k = None \<Longrightarrow> length (um_put k v m) = Suc (length m)"
  by (induction m) (auto split: if_splits)

lemma set_us_insert [container_simps]: "set (us_insert x xs) = insert x (set xs)"
  by (auto simp: us_insert_def)

lemma distinct_us_insert [simp]: "distinct xs \<Longrightarrow> distinct (us_insert x xs)"
  by (simp add: us_insert_def)

lemma length_us_insert_new: "x \<notin> set xs \<Longrightarrow> length (us_insert x xs) = Suc (length xs)"
  by (simp add: us_insert_def)

lemma length_us_erase:
  "distinct xs \<Longrightarrow> length (us_erase x xs) = (if x \<in> set xs then length xs - 1 else length xs)"
  by (simp add: distinct_remove1_removeAll[symmetric] length_remove1)

lemma to_int32_id: "- 2147483648 \<le> x \<Longrightarrow> x < 2147483648 \<Longrightarrow> to_int32 x = x"
  by (simp add: to_int32_def)

lemma to_int32_range: "- 2147483648 \<le> to_int32 x \<and> to_int32 x < 2147483648"
proof -
  have "0 \<le> (x + 2147483648) mod 4294967296" "(x + 2147483648) mod 4294967296 < 4294967296"
    by simp_all
  then show ?thesis by (simp add: to_int32_def)
qed

section \<open>The FIFO queue interface\<close>

text \<open>
  Several components hand work from one thread to another through a queue that is pushed
  at the back and popped at the front (the message queues, the dispatch queues of a
  thread worker, the publish queue of the broker client). \<open>popn\<close> pops repeatedly.
\<close>

locale fifo =
  fixes push :: "'a \<Rightarrow> 'q \<Rightarrow> 'q"
    and pop :: "'q \<Rightarrow> 'a option \<times> 'q"
    and content :: "'q \<Rightarrow> 'a list"
    and invar :: "'q \<Rightarrow> bool"
  assumes content_push: "invar q \<Longrightarrow> content (push x q) = content q @ [x]"
    and invar_push: "invar q \<Longrightarrow> invar (push x q)"
    and pop_empty: "invar q \<Longrightarrow> content q = [] \<Longrightarrow> pop q = (None, q)"
    and pop_first: "invar q \<Longrightarrow> content q = x # xs \<Longrightarrow> fst (pop q) = Some x"
    and content_pop: "invar q \<Longrightarrow> content q = x # xs \<Longrightarrow> content (snd (pop q)) = xs"
    and invar_pop: "invar q \<Longrightarrow> invar (snd (pop q))"
begin

lemma push_all:
  "invar q \<Longrightarrow> invar (fold push xs q) \<and> content (fold push xs q) = content q @ xs"
  by (induction xs arbitrary: q) (simp_all add: content_push invar_push)

lemma popn_content:
  "invar q \<Longrightarrow> fst (popn pop n q) = take n (content q)
     \<and> content (snd (popn pop n q)) = drop n (content q) \<and> invar (snd (popn pop n q))"
proof (induction n arbitrary: q)
  case 0
  then show ?case by simp
next
  case (Suc n)
  show ?case
  proof (cases "content q")
    case Nil
    with Suc.prems show ?thesis by (simp add: pop_empty)
  next
    case (Cons x xs)
    with Suc.prems have "fst (pop q) = Some x" and xs: "content (snd (pop q)) = xs"
      and inv: "invar (snd (pop q))"
      by (simp_all add: pop_first content_pop invar_pop)
    then obtain q' where q': "pop q = (Some x, q')" by (cases "pop q") auto
    with Suc.IH[of q'] xs inv Cons show ?thesis
      by (simp add: split_beta)
  qed
qed

lemma fifo_order:
  assumes "invar q" and "content q = []"
  shows "fst (popn pop (length xs) (fold push xs q)) = xs"
  using popn_content[of "fold push xs q" "length xs"] push_all[of q xs] assms by simp

lemma no_loss:
  assumes "invar q"
  shows "content q @ xs
    = fst (popn pop n (fold push xs q)) @ content (snd (popn pop n (fold push xs q)))"
  by (metis append_take_drop_id assms popn_content push_all)

end

end
