(* ===== verification/Timers.thy ===== *)
theory Timers
  imports Prelude
begin

text \<open>
  The two timer holders: \<open>SyncTimer\<close>/\<open>SyncTimerHolder\<close> of \<open>Thread/ThreadWorker.cpp\<close>
  (timers of one worker thread) and \<open>AsyncTimer\<close>/\<open>AsyncTimerHolder\<close> with
  \<open>TimerThreadWorker::oneLoopEx\<close> of \<open>Timer/TimerManager.cpp\<close> (timers shared by the timer
  pool).

  A callback is a name \<open>'h\<close>; what it does is the parameter \<open>call\<close>: from the world it
  returns the boolean the C++ handler returns (\<open>None\<close> when it throws), the timers it adds
  to the same holder (interval, handler, the clock the constructor of the timer reads)
  and the new world. The loops read the stop flag through \<open>stopped\<close>. Both loops take
  fuel; the lemmas of the locale \<open>timer_pass\<close> show how much is enough. Every timer of a
  holder was built by \<open>make_shared\<close>, so the null test in the capture functions never
  fails and the lists hold timers, not pointers.
\<close>

section \<open>Callbacks\<close>

type_synonym 'h added_timer = "int \<times> 'h \<times> int"

type_synonym ('h, 'w) timer_call = "'h \<Rightarrow> 'w \<Rightarrow> bool option \<times> 'h added_timer list \<times> 'w"

section \<open>Synchronous timers\<close>

record 'h SyncTimer =
  st_interval :: int
  st_handler :: 'h
  st_triggerTime :: int

definition SyncTimer_setTriggerTime :: "int \<Rightarrow> 'h SyncTimer \<Rightarrow> 'h SyncTimer" where
  "SyncTimer_setTriggerTime nowTime t = t\<lparr>st_triggerTime := nowTime + st_interval t\<rparr>"

definition SyncTimer_new :: "int \<Rightarrow> 'h \<Rightarrow> int \<Rightarrow> 'h SyncTimer" where
  "SyncTimer_new interval handler clock =
     SyncTimer_setTriggerTime clock
       \<lparr>st_interval = interval, st_handler = handler, st_triggerTime = 0\<rparr>"

definition SyncTimer_trigger ::
  "('h, 'w) timer_call \<Rightarrow> int \<Rightarrow> 'h SyncTimer \<Rightarrow> 'w
     \<Rightarrow> bool option \<times> 'h SyncTimer \<times> 'h added_timer list \<times> 'w" where
  "SyncTimer_trigger call nowtime t w =
     (let t' = SyncTimer_setTriggerTime nowtime t; (ret, added, w') = call (st_handler t') w
      in (ret, t', added, w'))"

fun insert2SortedList :: "'h SyncTimer \<Rightarrow> 'h SyncTimer list \<Rightarrow> 'h SyncTimer list" where
  \<comment> \<open>both times the loop compares are read from \<open>timer\<close>, never from \<open>*it\<close>\<close>
  "insert2SortedList timer [] = [timer]"
| "insert2SortedList timer (it # rest) =
     (let nowTime2 = st_triggerTime timer; nowTime1 = st_triggerTime timer
      in if nowTime1 > nowTime2 then timer # it # rest
         else it # insert2SortedList timer rest)"

definition SyncTimerHolder_addTimer ::
  "int \<Rightarrow> 'h \<Rightarrow> int \<Rightarrow> 'h SyncTimer list \<Rightarrow> 'h SyncTimer list" where
  "SyncTimerHolder_addTimer interval handler clock l =
     insert2SortedList (SyncTimer_new interval handler clock) l"

definition captureFirstTimer ::
  "int \<Rightarrow> 'h SyncTimer list \<Rightarrow> 'h SyncTimer option \<times> 'h SyncTimer list" where
  "captureFirstTimer nowTime l =
     (case l of
        [] \<Rightarrow> (None, l)
      | timer # rest \<Rightarrow>
          if st_triggerTime timer > nowTime then (None, l) else (Some timer, rest))"

definition SyncTimerHolder_returnTimer ::
  "'h SyncTimer \<Rightarrow> 'h SyncTimer list \<Rightarrow> 'h SyncTimer list" where
  "SyncTimerHolder_returnTimer timer l = insert2SortedList timer l"

definition SyncTimerHolder_delta :: "int \<Rightarrow> 'h SyncTimer list \<Rightarrow> int" where
  "SyncTimerHolder_delta nowTime l =
     (case l of
        [] \<Rightarrow> 100
      | timer # _ \<Rightarrow>
          let ret = to_int32 (st_triggerTime timer - nowTime) in if ret < 1 then 1 else ret)"

definition addSyncTimer_here :: "'h added_timer \<Rightarrow> 'h SyncTimer list \<Rightarrow> 'h SyncTimer list" where
  \<comment> \<open>\<open>ThreadWorker::addSyncTimer\<close> called by the worker's own thread\<close>
  "addSyncTimer_here = (\<lambda>(interval, handler, clock) l.
     if interval < 5 then l else SyncTimerHolder_addTimer interval handler clock l)"

fun oneLoop_timers ::
  "nat \<Rightarrow> ('w \<Rightarrow> bool) \<Rightarrow> ('h, 'w) timer_call \<Rightarrow> int \<Rightarrow> 'h SyncTimer list \<Rightarrow> 'w
     \<Rightarrow> ('h SyncTimer list \<times> 'w) option" where
  \<comment> \<open>the timer phase of \<open>ThreadWorker::oneLoop\<close>\<close>
  "oneLoop_timers 0 stopped call nowTime l w = None"
| "oneLoop_timers (Suc n) stopped call nowTime l w =
     (if stopped w then Some (l, w)
      else case captureFirstTimer nowTime l of
             (None, l1) \<Rightarrow> Some (l1, w)
           | (Some timer, l1) \<Rightarrow>
               let (ret, timer', added, w') = SyncTimer_trigger call nowTime timer w;
                   l2 = fold addSyncTimer_here added l1
               in if ret = Some True then oneLoop_timers n stopped call nowTime l2 w'
                  else oneLoop_timers n stopped call nowTime
                         (SyncTimerHolder_returnTimer timer' l2) w')"

definition oneLoop ::
  "nat \<Rightarrow> ('w \<Rightarrow> bool) \<Rightarrow> ('h, 'w) timer_call \<Rightarrow> ('w \<Rightarrow> int \<times> 'w) \<Rightarrow> int
     \<Rightarrow> 'h SyncTimer list \<Rightarrow> 'w \<Rightarrow> (int \<times> 'h SyncTimer list \<times> 'w) option" where
  \<comment> \<open>\<open>ThreadWorker::oneLoop\<close>; the first component is the number of milliseconds slept\<close>
  "oneLoop fuel stopped call oneLoopEx nowTime l w =
     (case oneLoop_timers fuel stopped call nowTime l w of
        None \<Rightarrow> None
      | Some (l', w') \<Rightarrow>
          let delta = SyncTimerHolder_delta nowTime l';
              (ms, w'') = oneLoopEx w';
              delta' = (if delta > ms then ms else delta)
          in Some (if delta' > 0 then delta' else 0, l', w''))"

section \<open>Asynchronous timers\<close>

record 'h AsyncTimer =
  at_interval :: int
  at_handler :: 'h
  at_triggerTime :: int

definition AsyncTimer_setTriggerTime :: "int \<Rightarrow> 'h AsyncTimer \<Rightarrow> 'h AsyncTimer" where
  "AsyncTimer_setTriggerTime nowtime t = t\<lparr>at_triggerTime := nowtime + at_interval t\<rparr>"

definition AsyncTimer_new :: "int \<Rightarrow> 'h \<Rightarrow> int \<Rightarrow> 'h AsyncTimer" where
  "AsyncTimer_new interval handler clock =
     AsyncTimer_setTriggerTime clock
       \<lparr>at_interval = interval, at_handler = handler, at_triggerTime = 0\<rparr>"

definition triggle ::
  "('h, 'w) timer_call \<Rightarrow> int \<Rightarrow> 'h AsyncTimer \<Rightarrow> 'w
     \<Rightarrow> bool option \<times> 'h AsyncTimer \<times> 'h added_timer list \<times> 'w" where
  "triggle call nowTime t w =
     (let t' = AsyncTimer_setTriggerTime nowTime t; (ret, added, w') = call (at_handler t') w
      in (ret, t', added, w'))"

fun Insert2SortedList :: "'h AsyncTimer \<Rightarrow> 'h AsyncTimer list \<Rightarrow> 'h AsyncTimer list" where
  "Insert2SortedList timer [] = [timer]"
| "Insert2SortedList timer (tmp # rest) =
     (let time2 = at_triggerTime timer; time1 = at_triggerTime tmp
      in if time1 > time2 then timer # tmp # rest
         else tmp # Insert2SortedList timer rest)"

definition AsyncTimerHolder_addTimer ::
  "int \<Rightarrow> 'h \<Rightarrow> int \<Rightarrow> 'h AsyncTimer list \<Rightarrow> bool \<times> 'h AsyncTimer list" where
  "AsyncTimerHolder_addTimer interval handler clock l =
     (if interval < 5 then (False, l)
      else (True, Insert2SortedList (AsyncTimer_new interval handler clock) l))"

definition CaptureFirstTimer ::
  "int \<Rightarrow> 'h AsyncTimer list \<Rightarrow> 'h AsyncTimer option \<times> 'h AsyncTimer list" where
  "CaptureFirstTimer nowTime l =
     (case l of
        [] \<Rightarrow> (None, l)
      | timer # rest \<Rightarrow>
          if at_triggerTime timer > nowTime then (None, l) else (Some timer, rest))"

definition AsyncTimerHolder_returnTimer ::
  "'h AsyncTimer \<Rightarrow> 'h AsyncTimer list \<Rightarrow> 'h AsyncTimer list" where
  "AsyncTimerHolder_returnTimer timer l = l @ [timer]"

definition addAsyncTimer :: "'h added_timer \<Rightarrow> 'h AsyncTimer list \<Rightarrow> 'h AsyncTimer list" where
  \<comment> \<open>\<open>TimerManager::addAsyncTimer\<close> as a callback uses it, the returned flag dropped\<close>
  "addAsyncTimer = (\<lambda>(interval, handler, clock) l.
     snd (AsyncTimerHolder_addTimer interval handler clock l))"

fun oneLoopEx_timers ::
  "nat \<Rightarrow> ('w \<Rightarrow> bool) \<Rightarrow> ('h, 'w) timer_call \<Rightarrow> int \<Rightarrow> 'h AsyncTimer list \<Rightarrow> 'w
     \<Rightarrow> ('h AsyncTimer list \<times> 'w) option" where
  \<comment> \<open>\<open>TimerThreadWorker::oneLoopEx\<close>, which always returns a sleep of one millisecond\<close>
  "oneLoopEx_timers 0 stopped call nowTime l w = None"
| "oneLoopEx_timers (Suc n) stopped call nowTime l w =
     (if stopped w then Some (l, w)
      else case CaptureFirstTimer nowTime l of
             (None, l1) \<Rightarrow> Some (l1, w)
           | (Some timer, l1) \<Rightarrow>
               let (ret, timer', added, w') = triggle call nowTime timer w;
                   l2 = fold addAsyncTimer added l1
               in if ret = Some True then oneLoopEx_timers n stopped call nowTime l2 w'
                  else oneLoopEx_timers n stopped call nowTime
                         (AsyncTimerHolder_returnTimer timer' l2) w')"

definition TimerManager_threadNum :: "int \<Rightarrow> int" where
  \<comment> \<open>the number of workers \<open>TimerManager::Start\<close> creates\<close>
  "TimerManager_threadNum threadNum =
     (if threadNum < 1 then 1 else if threadNum > 8 then 8 else threadNum)"

section \<open>Vocabulary of the properties\<close>

definition clock_ok :: "int \<Rightarrow> ('h, 'w) timer_call \<Rightarrow> bool" where
  \<comment> \<open>the clock read by a callback is not before the time the pass started at\<close>
  "clock_ok nowTime call =
     (\<forall>h w. \<forall>(i, h', c) \<in> set (fst (snd (call h w))). nowTime \<le> c)"

fun run_callbacks ::
  "('h, 'w) timer_call \<Rightarrow> int \<Rightarrow> 'h AsyncTimer list \<Rightarrow> 'w \<Rightarrow> 'h AsyncTimer list \<times> 'w" where
  \<comment> \<open>what one pass should do with the due timers: run each once, in order, keep and
      re-arm those whose callback did not return true\<close>
  "run_callbacks call nowTime [] w = ([], w)"
| "run_callbacks call nowTime (t # ts) w =
     (let (ret, added, w') = call (at_handler t) w;
          (kept, w'') = run_callbacks call nowTime ts w'
      in (if ret = Some True then kept
          else t\<lparr>at_triggerTime := nowTime + at_interval t\<rparr> # kept, w''))"

abbreviation async_sorted :: "'h AsyncTimer list \<Rightarrow> bool" where
  "async_sorted l \<equiv> sorted (map at_triggerTime l)"

definition demo_call :: "(nat, nat) timer_call" where
  \<comment> \<open>callbacks that count; callback 1 ends itself, callback 3 throws, callback 4 adds a
      timer, the others go on\<close>
  "demo_call h w = (if h = 3 then None else Some (h = 1), if h = 4 then [(6, 1, 12)] else [], w + 1)"

definition demo_quiet :: "(nat, nat list) timer_call" where
  "demo_quiet h w = (if h = 3 then None else Some (h = 1), [], w @ [h])"

section \<open>The contract both loops satisfy\<close>

locale timer_pass =
  fixes capture :: "int \<Rightarrow> 't list \<Rightarrow> 't option \<times> 't list"
    and giveback :: "'t \<Rightarrow> 't list \<Rightarrow> 't list"
    and newt :: "int \<Rightarrow> 'h \<Rightarrow> int \<Rightarrow> 't"
    and addt :: "'h added_timer \<Rightarrow> 't list \<Rightarrow> 't list"
    and trig :: "'t \<Rightarrow> int"
    and intv :: "'t \<Rightarrow> int"
    and fire :: "('h, 'w) timer_call \<Rightarrow> int \<Rightarrow> 't \<Rightarrow> 'w
                   \<Rightarrow> bool option \<times> 't \<times> 'h added_timer list \<times> 'w"
    and pass :: "nat \<Rightarrow> ('w \<Rightarrow> bool) \<Rightarrow> ('h, 'w) timer_call \<Rightarrow> int \<Rightarrow> 't list \<Rightarrow> 'w
                   \<Rightarrow> ('t list \<times> 'w) option"
  assumes capture_Nil: "capture now [] = (None, [])"
    and capture_Cons: "capture now (t # l) = (if trig t > now then (None, t # l) else (Some t, l))"
    and mset_giveback: "mset (giveback t l) = add_mset t (mset l)"
    and mset_addt: "mset (addt (i, h, c) l) =
          (if i < 5 then mset l else add_mset (newt i h c) (mset l))"
    and trig_newt: "trig (newt i h c) = c + i"
    and intv_newt: "intv (newt i h c) = i"
    and trig_fire: "fire call now t w = (r, t', a, w') \<Longrightarrow> trig t' = now + intv t"
    and intv_fire: "fire call now t w = (r, t', a, w') \<Longrightarrow> intv t' = intv t"
    and fire_added: "fire call now t w = (r, t', a, w') \<Longrightarrow> \<exists>h. a = fst (snd (call h w))"
    and pass_0: "pass 0 stopped call now l w = None"
    and pass_Suc: "pass (Suc n) stopped call now l w =
          (if stopped w then Some (l, w)
           else case capture now l of
                  (None, l1) \<Rightarrow> Some (l1, w)
                | (Some t, l1) \<Rightarrow>
                    (case fire call now t w of
                       (r, t', a, w') \<Rightarrow>
                         pass n stopped call now
                           (if r = Some True then fold addt a l1
                            else giveback t' (fold addt a l1)) w'))"
begin

definition due :: "int \<Rightarrow> 't list \<Rightarrow> nat" where
  "due now l = size (filter_mset (\<lambda>t. trig t \<le> now) (mset l))"

definition long_enough :: "'t list \<Rightarrow> bool" where
  "long_enough l \<longleftrightarrow> (\<forall>t \<in># mset l. 5 \<le> intv t)"

lemma set_giveback: "set (giveback t l) = insert t (set l)"
  by (metis mset_giveback set_mset_add_mset_insert set_mset_mset)

lemma due_addt: "now \<le> c \<Longrightarrow> due now (addt (i, h, c) l) = due now l"
  by (simp add: due_def mset_addt trig_newt)

lemma long_addt: "long_enough l \<Longrightarrow> long_enough (addt (i, h, c) l)"
  by (simp add: long_enough_def mset_addt intv_newt)

lemma fold_addt:
  "\<forall>(i, h, c) \<in> set a. now \<le> c \<Longrightarrow> due now (fold addt a l) = due now l"
  by (induction a arbitrary: l) (auto simp: due_addt)

lemma long_fold_addt: "long_enough l \<Longrightarrow> long_enough (fold addt a l)"
proof (induction a arbitrary: l)
  case (Cons x a)
  obtain i h c where x: "x = (i, h, c)" by (cases x) auto
  show ?case
    using Cons.IH[OF long_addt[OF Cons.prems]] by (simp add: x)
qed simp

lemma added_clock:
  assumes "clock_ok now call" and "fire call now t w = (r, t', a, w')"
  shows "\<forall>(i, h, c) \<in> set a. now \<le> c"
  using assms fire_added[OF assms(2)] unfolding clock_ok_def by blast

lemma pass_step:
  assumes "long_enough (t # l)" and "clock_ok now call"
    and "fire call now t w = (r, t', a, w')" and "\<not> trig t > now"
  defines "l' \<equiv> (if r = Some True then fold addt a l else giveback t' (fold addt a l))"
  shows "due now (t # l) = Suc (due now l')" and "long_enough l'"
proof -
  have f: "due now (fold addt a l) = due now l"
    by (rule fold_addt[OF added_clock[OF assms(2,3)]])
  have i: "intv t' = intv t" "trig t' = now + intv t"
    using intv_fire[OF assms(3)] trig_fire[OF assms(3)] by simp_all
  have i5: "5 \<le> intv t" using assms(1) by (simp add: long_enough_def)
  have "due now (giveback t' (fold addt a l)) = due now (fold addt a l)"
    using i i5 by (simp add: due_def mset_giveback)
  then show "due now (t # l) = Suc (due now l')"
    using f assms(4) by (simp add: l'_def due_def)
  have "long_enough l" using assms(1) by (simp add: long_enough_def)
  then have "long_enough (fold addt a l)" by (rule long_fold_addt)
  then show "long_enough l'"
    using i i5 by (cases "r = Some True") (simp_all add: l'_def long_enough_def set_giveback)
qed

lemma pass_terminates:
  assumes "long_enough l" and "clock_ok now call" and "due now l < fuel"
  shows "\<exists>l' w'. pass fuel stopped call now l w = Some (l', w')
           \<and> (stopped w' \<or> l' = [] \<or> now < trig (hd l')) \<and> long_enough l'"
  using assms
proof (induction fuel arbitrary: l w)
  case (Suc n)
  show ?case
  proof (cases l)
    case (Cons t k)
    show ?thesis
    proof (cases "stopped w \<or> trig t > now")
      case False
      obtain r t' a w' where f: "fire call now t w = (r, t', a, w')"
        by (cases "fire call now t w") auto
      define l2 where "l2 = (if r = Some True then fold addt a k else giveback t' (fold addt a k))"
      have s: "due now (t # k) = Suc (due now l2)" "long_enough l2"
        using pass_step[of t k now call w r t' a w'] Suc.prems Cons f False
        by (simp_all add: l2_def)
      have "pass (Suc n) stopped call now l w = pass n stopped call now l2 w'"
        using False f by (simp add: pass_Suc Cons capture_Cons l2_def)
      then show ?thesis
        using Suc.IH[of l2 w'] s Suc.prems Cons by simp
    qed (use Suc.prems Cons in \<open>auto simp: pass_Suc capture_Cons\<close>)
  qed (use Suc.prems in \<open>auto simp: pass_Suc capture_Nil\<close>)
qed (simp add: pass_0)

end

section \<open>Interpretations\<close>

lemma insert2SortedList_append: "insert2SortedList timer l = l @ [timer]"
  by (induction l) simp_all

lemma mset_Insert2SortedList: "mset (Insert2SortedList t l) = add_mset t (mset l)"
  by (induction l) simp_all

interpretation sync_pass: timer_pass captureFirstTimer SyncTimerHolder_returnTimer SyncTimer_new
  addSyncTimer_here st_triggerTime st_interval SyncTimer_trigger oneLoop_timers
proof unfold_locales
  fix n stopped call now l w
  show "oneLoop_timers (Suc n) stopped call now l w =
    (if stopped w then Some (l, w)
     else case captureFirstTimer now l of
            (None, l1) \<Rightarrow> Some (l1, w)
          | (Some t, l1) \<Rightarrow>
              (case SyncTimer_trigger call now t w of
                 (r, t', a, w') \<Rightarrow>
                   oneLoop_timers n stopped call now
                     (if r = Some True then fold addSyncTimer_here a l1
                      else SyncTimerHolder_returnTimer t' (fold addSyncTimer_here a l1)) w'))"
    by (simp add: Let_def split: prod.splits option.splits)
next
  fix call now t w r t' a w'
  assume "SyncTimer_trigger call now t w = (r, t', a, w')"
  then show "\<exists>h. a = fst (snd (call h w))"
    by (intro exI[of _ "st_handler t"])
      (auto simp: SyncTimer_trigger_def SyncTimer_setTriggerTime_def Let_def split: prod.splits)
qed (auto simp: captureFirstTimer_def SyncTimerHolder_returnTimer_def insert2SortedList_append
       addSyncTimer_here_def SyncTimerHolder_addTimer_def SyncTimer_new_def
       SyncTimer_setTriggerTime_def SyncTimer_trigger_def Let_def split: prod.splits)

interpretation async_pass: timer_pass CaptureFirstTimer AsyncTimerHolder_returnTimer AsyncTimer_new
  addAsyncTimer at_triggerTime at_interval triggle oneLoopEx_timers
proof unfold_locales
  fix n stopped call now l w
  show "oneLoopEx_timers (Suc n) stopped call now l w =
    (if stopped w then Some (l, w)
     else case CaptureFirstTimer now l of
            (None, l1) \<Rightarrow> Some (l1, w)
          | (Some t, l1) \<Rightarrow>
              (case triggle call now t w of
                 (r, t', a, w') \<Rightarrow>
                   oneLoopEx_timers n stopped call now
                     (if r = Some True then fold addAsyncTimer a l1
                      else AsyncTimerHolder_returnTimer t' (fold addAsyncTimer a l1)) w'))"
    by (simp add: Let_def split: prod.splits option.splits)
next
  fix call now t w r t' a w'
  assume "triggle call now t w = (r, t', a, w')"
  then show "\<exists>h. a = fst (snd (call h w))"
    by (intro exI[of _ "at_handler t"])
      (auto simp: triggle_def AsyncTimer_setTriggerTime_def Let_def split: prod.splits)
qed (auto simp: CaptureFirstTimer_def AsyncTimerHolder_returnTimer_def mset_Insert2SortedList
       addAsyncTimer_def AsyncTimerHolder_addTimer_def AsyncTimer_new_def
       AsyncTimer_setTriggerTime_def triggle_def Let_def split: prod.splits)

section \<open>Lemmas and properties\<close>

lemma Insert2SortedList_split:
  "async_sorted l \<Longrightarrow> Insert2SortedList t l =
     takeWhile (\<lambda>x. at_triggerTime x \<le> at_triggerTime t) l @
     t # dropWhile (\<lambda>x. at_triggerTime x \<le> at_triggerTime t) l"
  by (induction l) auto

lemma sorted_Insert2SortedList:
  "async_sorted l \<Longrightarrow> async_sorted (Insert2SortedList t l)"
proof (induction l)
  case (Cons x l)
  have "set (Insert2SortedList t l) = insert t (set l)"
    by (metis mset_Insert2SortedList set_mset_add_mset_insert set_mset_mset)
  with Cons show ?case by (auto simp: Let_def)
qed simp

lemma length_filter_due: "async_pass.due now l = length (filter (\<lambda>t. at_triggerTime t \<le> now) l)"
  by (simp add: async_pass.due_def flip: mset_filter)

lemma oneLoopEx_due_step:
  assumes "\<not> stopped w" and "at_triggerTime t \<le> now" and "call (at_handler t) w = (r, a, w')"
  shows "oneLoopEx_timers (Suc n) stopped call now (t # l) w =
    oneLoopEx_timers n stopped call now
      (if r = Some True then fold addAsyncTimer a l
       else fold addAsyncTimer a l @ [t\<lparr>at_triggerTime := now + at_interval t\<rparr>]) w'"
  using assms
  by (simp add: CaptureFirstTimer_def triggle_def AsyncTimer_setTriggerTime_def
      AsyncTimerHolder_returnTimer_def)

lemma sorted_filter_split:
  "sorted (map f l) \<Longrightarrow> filter (\<lambda>t. f t \<le> b) l @ filter (\<lambda>t. b < f t) l = l" for b :: int
proof (induction l)
  case (Cons x l)
  show ?case
  proof (cases "f x \<le> b")
    case False
    with Cons.prems have "filter (\<lambda>t. f t \<le> b) l = []" by (auto simp: filter_empty_conv)
    with False Cons show ?thesis by auto
  qed (use Cons in auto)
qed simp

lemma oneLoopEx_prefix:
  assumes "\<forall>t \<in> set ds. at_triggerTime t \<le> now \<and> 5 \<le> at_interval t"
    and "\<And>h w. fst (snd (call h w)) = []" and "\<And>w. \<not> stopped w"
    and "rest = [] \<or> now < at_triggerTime (hd rest)"
    and "\<forall>t \<in> set kept. now < at_triggerTime t"
  shows "oneLoopEx_timers (Suc (length ds + n)) stopped call now (ds @ rest @ kept) w =
    (case run_callbacks call now ds w of (k, w') \<Rightarrow> Some (rest @ kept @ k, w'))"
  using assms(1,5)
proof (induction ds arbitrary: kept w)
  case Nil
  then show ?case
    using assms(3,4) by (cases rest; cases kept) (auto simp: CaptureFirstTimer_def)
next
  case (Cons t ds)
  obtain r w' where c: "call (at_handler t) w = (r, [], w')"
    using assms(2)[of "at_handler t" w] by (cases "call (at_handler t) w") auto
  define t' where "t' = t\<lparr>at_triggerTime := now + at_interval t\<rparr>"
  have "oneLoopEx_timers (Suc (length (t # ds) + n)) stopped call now ((t # ds) @ rest @ kept) w
      = oneLoopEx_timers (Suc (length ds + n)) stopped call now
          (ds @ rest @ (if r = Some True then kept else kept @ [t'])) w'"
    using Cons.prems(1) assms(3)
      oneLoopEx_due_step[of stopped w t now call r "[]" w' "Suc (length ds + n)"] c
    by (simp add: t'_def del: oneLoopEx_timers.simps)
  also have "\<dots> = (case run_callbacks call now ds w' of
      (k, w'') \<Rightarrow> Some (rest @ (if r = Some True then kept else kept @ [t']) @ k, w''))"
    using Cons.prems by (intro Cons.IH) (auto simp: t'_def)
  finally show ?case
    by (simp add: c t'_def split: prod.splits)
qed

text \<open>\<open>AsyncTimerHolder::addTimer\<close> refuses intervals under five milliseconds and leaves
  the list alone; otherwise the new timer is put into the sorted list behind the timers
  that are due no later than it and before all others, so the list stays sorted.\<close>
theorem addTimer_inserts_in_order:
  assumes "async_sorted l"
  shows "case AsyncTimerHolder_addTimer interval handler clock l of (ok, l') \<Rightarrow>
     (ok \<longleftrightarrow> 5 \<le> interval) \<and> async_sorted l' \<and>
     l' = (if ok
           then takeWhile (\<lambda>x. at_triggerTime x \<le> clock + interval) l
                @ \<lparr>at_interval = interval, at_handler = handler,
                   at_triggerTime = clock + interval\<rparr>
                # dropWhile (\<lambda>x. at_triggerTime x \<le> clock + interval) l
           else l)"
  using assms sorted_Insert2SortedList[OF assms, of "AsyncTimer_new interval handler clock"]
    Insert2SortedList_split[OF assms, of "AsyncTimer_new interval handler clock"]
  by (auto simp: AsyncTimerHolder_addTimer_def AsyncTimer_new_def AsyncTimer_setTriggerTime_def)

theorem addTimer_inserts_in_order_witness:
  "case AsyncTimerHolder_addTimer 10 (7::nat) 0
      [\<lparr>at_interval = 5, at_handler = 1, at_triggerTime = 5\<rparr>,
       \<lparr>at_interval = 30, at_handler = 2, at_triggerTime = 30\<rparr>] of (ok, l') \<Rightarrow>
     ok \<and> map at_handler l' = [1, 7, 2]"
  using addTimer_inserts_in_order
    [of "[\<lparr>at_interval = 5, at_handler = 1, at_triggerTime = 5\<rparr>,
          \<lparr>at_interval = 30, at_handler = 2, at_triggerTime = 30\<rparr>]" 10 0 "7::nat"]
  by (auto split: prod.splits)

text \<open>A pass of the timer pool over its timers returns: with the interval check of
  \<open>addTimer\<close> in force and a clock that does not run backwards, as many rounds as there are
  due timers (and one) are enough, whatever the callbacks do and add; and when it returns
  without having been stopped the first timer of the list is not due.\<close>
theorem oneLoopEx_terminates:
  assumes "\<forall>t \<in> set l. 5 \<le> at_interval t" and "clock_ok nowTime call"
    and "length (filter (\<lambda>t. at_triggerTime t \<le> nowTime) l) < fuel"
  shows "\<exists>l' w'. oneLoopEx_timers fuel stopped call nowTime l w = Some (l', w')
           \<and> (stopped w' \<or> l' = [] \<or> nowTime < at_triggerTime (hd l'))
           \<and> (\<forall>t \<in> set l'. 5 \<le> at_interval t)"
  using async_pass.pass_terminates[of l nowTime call fuel stopped w] assms
  by (simp add: length_filter_due async_pass.long_enough_def)

theorem oneLoopEx_terminates_witness:
  "\<exists>l' w'. oneLoopEx_timers 3 (\<lambda>_. False) demo_call 12
       [\<lparr>at_interval = 5, at_handler = 4, at_triggerTime = 10\<rparr>,
        \<lparr>at_interval = 30, at_handler = 1, at_triggerTime = 11\<rparr>] 0 = Some (l', w')
     \<and> (False \<or> l' = [] \<or> 12 < at_triggerTime (hd l')) \<and> (\<forall>t \<in> set l'. 5 \<le> at_interval t)"
  by (rule oneLoopEx_terminates) (simp_all add: clock_ok_def demo_call_def)

text \<open>On a sorted list a pass of the timer pool runs the callback of every due timer
  exactly once and in the order of the trigger times, drops the timers whose callback
  returned true, and puts the others (also those whose callback threw) re-armed behind the
  timers that are not due yet.\<close>
theorem oneLoopEx_runs_due_timers:
  assumes "async_sorted l" and "\<forall>t \<in> set l. 5 \<le> at_interval t"
    and "\<And>h w. fst (snd (call h w)) = []" and "\<And>w. \<not> stopped w"
    and "length (filter (\<lambda>t. at_triggerTime t \<le> nowTime) l) < fuel"
  shows "oneLoopEx_timers fuel stopped call nowTime l w =
    (case run_callbacks call nowTime (filter (\<lambda>t. at_triggerTime t \<le> nowTime) l) w of
       (kept, w') \<Rightarrow> Some (filter (\<lambda>t. nowTime < at_triggerTime t) l @ kept, w'))"
proof -
  define ds where "ds = filter (\<lambda>t. at_triggerTime t \<le> nowTime) l"
  define rest where "rest = filter (\<lambda>t. nowTime < at_triggerTime t) l"
  have l: "l = ds @ rest @ []"
    unfolding ds_def rest_def by (simp add: sorted_filter_split[OF assms(1)])
  obtain n where fuel: "fuel = Suc (length ds + n)"
    using assms(5) by (metis add_Suc less_iff_Suc_add ds_def add_Suc_right)
  have "rest = [] \<or> nowTime < at_triggerTime (hd rest)"
    unfolding rest_def using hd_in_set[of "filter (\<lambda>t. nowTime < at_triggerTime t) l"] by auto
  then have "oneLoopEx_timers fuel stopped call nowTime (ds @ rest @ []) w =
    (case run_callbacks call nowTime ds w of (k, w') \<Rightarrow> Some (rest @ [] @ k, w'))"
    unfolding fuel using assms(2,3,4) by (intro oneLoopEx_prefix) (auto simp: ds_def)
  then show ?thesis unfolding l[symmetric] by (simp flip: ds_def rest_def)
qed

theorem oneLoopEx_runs_due_timers_witness:
  "oneLoopEx_timers 4 (\<lambda>_. False) demo_quiet 12
       [\<lparr>at_interval = 5, at_handler = 3, at_triggerTime = 10\<rparr>,
        \<lparr>at_interval = 30, at_handler = 1, at_triggerTime = 11\<rparr>,
        \<lparr>at_interval = 30, at_handler = 2, at_triggerTime = 13\<rparr>] []
   = Some ([\<lparr>at_interval = 30, at_handler = 2, at_triggerTime = 13\<rparr>,
            \<lparr>at_interval = 5, at_handler = 3, at_triggerTime = 17\<rparr>], [3, 1])"
  by (subst oneLoopEx_runs_due_timers) (simp_all add: demo_quiet_def)

text \<open>The list of a worker's synchronous timers is in insertion order, not in the order
  of the trigger times: a timer that is due waits as long as one that was added before it is
  not due, however far that is in the future.\<close>
theorem sync_timer_waits_for_earlier_added:
  assumes "5 \<le> i1" and "nowTime < c1 + i1"
  shows "oneLoop_timers (Suc n) stopped call nowTime
       (SyncTimerHolder_addTimer i2 h2 c2 (SyncTimerHolder_addTimer i1 h1 c1 [])) w
     = Some ([SyncTimer_new i1 h1 c1, SyncTimer_new i2 h2 c2], w)"
  using assms
  by (simp add: SyncTimerHolder_addTimer_def captureFirstTimer_def SyncTimer_new_def
      SyncTimer_setTriggerTime_def)

theorem sync_timer_waits_for_earlier_added_witness:
  "oneLoop_timers 5 (\<lambda>_. False) demo_call 50
       (SyncTimerHolder_addTimer 10 2 0 (SyncTimerHolder_addTimer 100 1 0 [])) 0
     = Some ([SyncTimer_new 100 1 0, SyncTimer_new 10 2 0], 0)"
  using sync_timer_waits_for_earlier_added[of 100 50 0 4] by simp

text \<open>One round of a worker thread returns, too, and the time it sleeps afterwards is at
  most what the derived class asks for, and at most the time to the first timer (one
  millisecond at least, a tenth of a second when there is none).\<close>
theorem oneLoop_returns_and_sleeps:
  assumes "\<forall>t \<in> set l. 5 \<le> st_interval t" and "clock_ok nowTime call"
    and "length (filter (\<lambda>t. st_triggerTime t \<le> nowTime) l) < fuel"
  shows "\<exists>ms l' w' w''. oneLoop_timers fuel stopped call nowTime l w = Some (l', w')
     \<and> oneLoop fuel stopped call oneLoopEx nowTime l w = Some (ms, l', w'')
     \<and> 0 \<le> ms \<and> ms \<le> max 0 (fst (oneLoopEx w')) \<and> ms \<le> SyncTimerHolder_delta nowTime l'
     \<and> 1 \<le> SyncTimerHolder_delta nowTime l'"
proof -
  have "sync_pass.due nowTime l < fuel" "sync_pass.long_enough l"
    using assms(1,3)
    by (simp_all add: sync_pass.due_def sync_pass.long_enough_def flip: mset_filter)
  then obtain l' w' where p: "oneLoop_timers fuel stopped call nowTime l w = Some (l', w')"
    using sync_pass.pass_terminates[of l nowTime call fuel stopped w] assms(2) by auto
  have d: "1 \<le> SyncTimerHolder_delta nowTime l'"
    by (auto simp: SyncTimerHolder_delta_def Let_def split: list.splits)
  show ?thesis
    using d by (cases "oneLoopEx w'") (auto simp: oneLoop_def p Let_def)
qed

theorem oneLoop_returns_and_sleeps_witness:
  "\<exists>ms l' w' w''. oneLoop_timers 3 (\<lambda>_. False) demo_call 12
       [\<lparr>st_interval = 5, st_handler = 4, st_triggerTime = 10\<rparr>] 0 = Some (l', w')
     \<and> oneLoop 3 (\<lambda>_. False) demo_call (\<lambda>w. (3, w)) 12
       [\<lparr>st_interval = 5, st_handler = 4, st_triggerTime = 10\<rparr>] 0 = Some (ms, l', w'')
     \<and> 0 \<le> ms \<and> ms \<le> max 0 (fst (((\<lambda>w. (3, w)) :: nat \<Rightarrow> int \<times> nat) w'))
     \<and> ms \<le> SyncTimerHolder_delta 12 l' \<and> 1 \<le> SyncTimerHolder_delta 12 l'"
  by (rule oneLoop_returns_and_sleeps) (simp_all add: clock_ok_def demo_call_def)

end
