(* ===== verification/Thread_Worker.thy ===== *)
theory Thread_Worker
  imports Timers
begin

text \<open>
  Worker threads and thread pools: \<open>Thread/ThreadWorker.cpp\<close> (\<open>ThreadStopFlag\<close>,
  \<open>ThreadWorker\<close>), \<open>Thread/ThreadDispatch.cpp\<close>, \<open>Thread/ThreadPool.cpp\<close> and
  \<open>Thread/ThreadBlocker.cpp\<close>.

  A dispatch is a callback name or the timer registration that \<open>addSyncTimer\<close> sends to the
  worker's own thread, together with the worker it reports back to. The thread function
  \<open>run\<close> is a state machine: one step per test of the stop flag or per call that changes
  state, interleaved with the steps of the other threads (\<open>dispatch\<close>, \<open>executed\<close> and
  \<open>Stop\<close>), which is how its waiting loops are expressed. The log lists what the thread ran.
\<close>

section \<open>State\<close>

datatype 'h dispatch_body =
  DispatchCB nat
| AddSyncTimerImpl int 'h

record 'h ThreadDispatch =
  td_body :: "'h dispatch_body"
  td_dispatcher :: "nat option"

record 'h ThreadWorker =
  tw_threadId :: nat
  tw_stopFlag :: "bool option"
  tw_waittingDispatches :: "'h ThreadDispatch list"
  tw_executedDispatches :: "'h ThreadDispatch list"
  tw_holder :: "'h SyncTimer list"

definition ThreadStopFlag_new :: bool where
  \<comment> \<open>the constructor initialises the flag with true\<close>
  "ThreadStopFlag_new = True"

definition ThreadWorker_new :: "bool option \<Rightarrow> 'h ThreadWorker" where
  "ThreadWorker_new flag =
     \<lparr>tw_threadId = 0, tw_stopFlag = flag, tw_waittingDispatches = [],
      tw_executedDispatches = [], tw_holder = []\<rparr>"

definition ThreadStopFlag_Stop :: "'h ThreadWorker \<Rightarrow> 'h ThreadWorker" where
  \<comment> \<open>\<open>Stop\<close> on the flag the worker shares with its pool\<close>
  "ThreadStopFlag_Stop w = w\<lparr>tw_stopFlag := map_option (\<lambda>_. True) (tw_stopFlag w)\<rparr>"

definition isStop :: "'h ThreadWorker \<Rightarrow> bool" where
  "isStop w = (case tw_stopFlag w of Some True \<Rightarrow> True | _ \<Rightarrow> False)"

section \<open>Queues of a worker\<close>

definition dispatch :: "'h ThreadDispatch option \<Rightarrow> 'h ThreadWorker \<Rightarrow> 'h ThreadWorker" where
  "dispatch task w =
     (case task of
        None \<Rightarrow> w
      | Some t \<Rightarrow> w\<lparr>tw_waittingDispatches := tw_waittingDispatches w @ [t]\<rparr>)"

definition dispatch_cb :: "'h dispatch_body \<Rightarrow> 'h ThreadWorker \<Rightarrow> 'h ThreadWorker" where
  \<comment> \<open>the overload that wraps a callback, with no worker to report back to\<close>
  "dispatch_cb cb w = dispatch (Some \<lparr>td_body = cb, td_dispatcher = None\<rparr>) w"

definition executed :: "'h ThreadDispatch option \<Rightarrow> 'h ThreadWorker \<Rightarrow> 'h ThreadWorker" where
  "executed task w =
     (case task of
        None \<Rightarrow> w
      | Some t \<Rightarrow> w\<lparr>tw_executedDispatches := tw_executedDispatches w @ [t]\<rparr>)"

definition getWattingDispatchNums :: "'h ThreadWorker \<Rightarrow> int" where
  "getWattingDispatchNums w = to_int32 (int (length (tw_waittingDispatches w)))"

definition PopWaittingDispatch ::
  "'h ThreadWorker \<Rightarrow> 'h ThreadDispatch option \<times> 'h ThreadWorker" where
  "PopWaittingDispatch w =
     (case tw_waittingDispatches w of
        [] \<Rightarrow> (None, w)
      | d # ds \<Rightarrow> (Some d, w\<lparr>tw_waittingDispatches := ds\<rparr>))"

definition PopExecutedDispatch ::
  "'h ThreadWorker \<Rightarrow> 'h ThreadDispatch option \<times> 'h ThreadWorker" where
  "PopExecutedDispatch w =
     (case tw_executedDispatches w of
        [] \<Rightarrow> (None, w)
      | d # ds \<Rightarrow> (Some d, w\<lparr>tw_executedDispatches := ds\<rparr>))"

definition addSyncTimerImpl :: "int \<Rightarrow> int \<Rightarrow> 'h \<Rightarrow> 'h ThreadWorker \<Rightarrow> 'h ThreadWorker" where
  "addSyncTimerImpl clock interval handler w =
     w\<lparr>tw_holder := SyncTimerHolder_addTimer interval handler clock (tw_holder w)\<rparr>"

definition addSyncTimer ::
  "int \<Rightarrow> nat \<Rightarrow> int \<Rightarrow> 'h \<Rightarrow> 'h ThreadWorker \<Rightarrow> bool \<times> 'h ThreadWorker" where
  \<comment> \<open>\<open>caller\<close> is the id of the calling thread, \<open>clock\<close> the time it reads\<close>
  "addSyncTimer clock caller interval handler w =
     (if interval < 5 then (False, w)
      else if caller = tw_threadId w then (True, addSyncTimerImpl clock interval handler w)
      else (True, dispatch_cb (AddSyncTimerImpl interval handler) w))"

section \<open>The thread function\<close>

datatype pc = AtOuter | AtInner | AtPop | AtExecuted | AtOneLoop | Finished | Crashed

record 'h run_state =
  rs_pc :: pc
  rs_worker :: "'h ThreadWorker"
  rs_ran :: "'h ThreadDispatch list"       \<comment> \<open>dispatches executed\<close>
  rs_onExecuted :: "'h ThreadDispatch list" \<comment> \<open>dispatches whose \<open>OnExecuted\<close> ran\<close>
  rs_reported :: "(nat \<times> 'h ThreadDispatch) list" \<comment> \<open>handed back to their dispatcher\<close>

definition execute :: "int \<Rightarrow> 'h ThreadDispatch \<Rightarrow> 'h run_state \<Rightarrow> 'h run_state" where
  \<comment> \<open>\<open>ThreadDispatch::execute\<close>: run the body, then hand the dispatch back\<close>
  "execute clock d s =
     (let s1 = (case td_body d of
                  DispatchCB _ \<Rightarrow> s
                | AddSyncTimerImpl i h \<Rightarrow> s\<lparr>rs_worker := addSyncTimerImpl clock i h (rs_worker s)\<rparr>)
      in s1\<lparr>rs_ran := rs_ran s1 @ [d],
            rs_reported := (case td_dispatcher d of
                              None \<Rightarrow> rs_reported s1
                            | Some k \<Rightarrow> rs_reported s1 @ [(k, d)])\<rparr>)"

fun run_step :: "int \<Rightarrow> ('h SyncTimer list \<Rightarrow> 'h SyncTimer list) \<Rightarrow> 'h run_state \<Rightarrow> 'h run_state" where
  \<comment> \<open>one step of \<open>ThreadWorker::run\<close>; \<open>loop\<close> is what \<open>oneLoop\<close> does to the timers when the
      worker is not stopped\<close>
  "run_step clock loop s =
     (case rs_pc s of
        AtOuter \<Rightarrow> s\<lparr>rs_pc := if isStop (rs_worker s) then Finished else AtInner\<rparr>
      | AtInner \<Rightarrow> s\<lparr>rs_pc := if isStop (rs_worker s) then AtPop else AtInner\<rparr>
      | AtPop \<Rightarrow>
          (case PopWaittingDispatch (rs_worker s) of
             (None, w) \<Rightarrow> s\<lparr>rs_worker := w, rs_pc := Finished\<rparr>
           | (Some d, w) \<Rightarrow> (execute clock d (s\<lparr>rs_worker := w\<rparr>))\<lparr>rs_pc := AtExecuted\<rparr>)
      | AtExecuted \<Rightarrow>
          if isStop (rs_worker s) then s\<lparr>rs_pc := AtOneLoop\<rparr>
          else (case PopExecutedDispatch (rs_worker s) of
                  (None, w) \<Rightarrow> s\<lparr>rs_worker := w, rs_pc := Crashed\<rparr>
                | (Some d, w) \<Rightarrow>
                    s\<lparr>rs_worker := w, rs_onExecuted := rs_onExecuted s @ [d]\<rparr>)
      | AtOneLoop \<Rightarrow>
          s\<lparr>rs_worker := (if isStop (rs_worker s) then rs_worker s
                          else (rs_worker s)\<lparr>tw_holder := loop (tw_holder (rs_worker s))\<rparr>),
            rs_pc := AtOuter\<rparr>
      | Finished \<Rightarrow> s
      | Crashed \<Rightarrow> s)"

definition run_start :: "'h ThreadWorker \<Rightarrow> 'h run_state" where
  "run_start w =
     \<lparr>rs_pc = AtOuter, rs_worker = w, rs_ran = [], rs_onExecuted = [], rs_reported = []\<rparr>"

inductive wstep :: "'h run_state \<Rightarrow> 'h run_state \<Rightarrow> bool" where
  thread: "wstep s (run_step clock loop s)"
| dispatched: "wstep s (s\<lparr>rs_worker := dispatch t (rs_worker s)\<rparr>)"
| reported: "wstep s (s\<lparr>rs_worker := executed t (rs_worker s)\<rparr>)"
| stopped: "wstep s (s\<lparr>rs_worker := ThreadStopFlag_Stop (rs_worker s)\<rparr>)"

section \<open>Thread pool and blocker\<close>

record 'w ThreadPool =
  tp_startFlag :: bool
  tp_threads :: "'w list"
  tp_stopFlag :: "bool option"

definition ThreadPool_Start :: "bool option \<Rightarrow> 'w list \<Rightarrow> 'w ThreadPool \<Rightarrow> 'w ThreadPool" where
  "ThreadPool_Start flag workers p =
     (if tp_startFlag p then p
      else p\<lparr>tp_startFlag := True, tp_stopFlag := flag, tp_threads := tp_threads p @ workers\<rparr>)"

definition ThreadPool_Stop :: "'w ThreadPool \<Rightarrow> 'w ThreadPool" where
  \<comment> \<open>the threads are joined, i.e. \<open>run\<close> of each has returned\<close>
  "ThreadPool_Stop p =
     (if \<not> tp_startFlag p then p
      else p\<lparr>tp_stopFlag := map_option (\<lambda>_. True) (tp_stopFlag p), tp_threads := [],
             tp_startFlag := False\<rparr>)"

record ThreadBlocker =
  tb_flag :: bool

definition ThreadBlocker_new :: ThreadBlocker where
  "ThreadBlocker_new = \<lparr>tb_flag = True\<rparr>"

definition ThreadBlocker_block :: "ThreadBlocker \<Rightarrow> ThreadBlocker option" where
  \<comment> \<open>\<open>None\<close>: the caller keeps waiting on the condition variable\<close>
  "ThreadBlocker_block b = (if tb_flag b then None else Some b)"

definition ThreadBlocker_singal :: "ThreadBlocker \<Rightarrow> ThreadBlocker" where
  "ThreadBlocker_singal b = b\<lparr>tb_flag := False\<rparr>"

definition ThreadBlocker_reset :: "ThreadBlocker \<Rightarrow> ThreadBlocker" where
  "ThreadBlocker_reset b = b\<lparr>tb_flag := True\<rparr>"

section \<open>The queues are FIFO\<close>

interpretation waitting: fifo "dispatch \<circ> Some" PopWaittingDispatch tw_waittingDispatches "\<lambda>_. True"
  by unfold_locales (auto simp: dispatch_def PopWaittingDispatch_def)

interpretation done_queue: fifo "executed \<circ> Some" PopExecutedDispatch tw_executedDispatches
  "\<lambda>_. True"
  by unfold_locales (auto simp: executed_def PopExecutedDispatch_def)

section \<open>Invariant of the thread function\<close>

definition run_inv :: "'h run_state \<Rightarrow> bool" where
  "run_inv s \<longleftrightarrow>
     (if isStop (rs_worker s)
      then length (rs_ran s) \<le> 1 \<and> (rs_pc s = AtInner \<or> rs_pc s = AtPop \<longrightarrow> rs_ran s = [])
      else rs_ran s = [] \<and> rs_pc s \<in> {AtOuter, AtInner})
     \<and> rs_onExecuted s = []"

lemma isStop_simps [simp]:
  "isStop (dispatch t w) = isStop w" "isStop (executed t w) = isStop w"
  "isStop (w\<lparr>tw_holder := h\<rparr>) = isStop w"
  "isStop (w\<lparr>tw_waittingDispatches := ds\<rparr>) = isStop w"
  "isStop (addSyncTimerImpl c i k w) = isStop w"
  "isStop w \<Longrightarrow> isStop (ThreadStopFlag_Stop w)"
  by (auto simp: isStop_def dispatch_def executed_def addSyncTimerImpl_def ThreadStopFlag_Stop_def
      split: option.splits bool.splits)

lemma execute_simps:
  "rs_ran (execute c d s) = rs_ran s @ [d]" "rs_onExecuted (execute c d s) = rs_onExecuted s"
  "isStop (rs_worker (execute c d s)) = isStop (rs_worker s)"
  by (simp_all add: execute_def Let_def split: dispatch_body.splits)

lemma run_inv_run_step: "run_inv s \<Longrightarrow> run_inv (run_step clock loop s)"
  by (auto simp: run_inv_def PopWaittingDispatch_def PopExecutedDispatch_def execute_simps
      split: pc.splits list.splits if_splits)

lemma run_inv_wstep: "wstep s s' \<Longrightarrow> run_inv s \<Longrightarrow> run_inv s'"
proof (induction rule: wstep.induct)
  case (thread s clock loop)
  then show ?case by (rule run_inv_run_step)
next
  case (stopped s)
  then show ?case
    by (cases "isStop (rs_worker s)"; cases "isStop (ThreadStopFlag_Stop (rs_worker s))")
      (auto simp: run_inv_def)
qed (auto simp: run_inv_def split: if_splits)

lemma run_inv_reachable: "wstep\<^sup>*\<^sup>* (run_start w) s \<Longrightarrow> run_inv s"
proof (induction rule: rtranclp_induct)
  case base
  show ?case by (simp add: run_inv_def run_start_def)
next
  case (step y z)
  then show ?case by (blast intro: run_inv_wstep)
qed

lemma already_stopped:
  "wstep\<^sup>*\<^sup>* s s' \<Longrightarrow> isStop (rs_worker s) \<Longrightarrow> rs_pc s \<in> {AtOuter, Finished} \<Longrightarrow>
     isStop (rs_worker s') \<and> rs_pc s' \<in> {AtOuter, Finished} \<and> rs_ran s' = rs_ran s"
proof (induction rule: rtranclp_induct)
  case (step y z)
  from step(2) step(3)[OF step(4,5)] show ?case
    by (cases rule: wstep.cases) auto
qed simp

section \<open>Properties\<close>


text \<open>Whatever other threads dispatch and whenever they stop the worker, \<open>run\<close> executes
  no dispatch before the stop flag is set, at most one in the worker's whole life, and never
  reports a finished dispatch to \<open>OnExecuted\<close>: the inner wait loop only ends when the
  worker is being stopped.\<close>
theorem run_executes_at_most_one:
  assumes "wstep\<^sup>*\<^sup>* (run_start w) s"
  shows "length (rs_ran s) \<le> 1 \<and> rs_onExecuted s = []
     \<and> (\<not> isStop (rs_worker s) \<longrightarrow> rs_ran s = [])"
  using run_inv_reachable[OF assms] by (auto simp: run_inv_def split: if_splits)

theorem run_executes_at_most_one_witness:
  "\<exists>s. wstep\<^sup>*\<^sup>* (run_start (ThreadWorker_new (Some False) :: nat ThreadWorker)) s
     \<and> length (rs_ran s) = 1 \<and> length (rs_ran s) \<le> 1"
proof -
  define d where "d = \<lparr>td_body = DispatchCB 1 :: nat dispatch_body, td_dispatcher = None\<rparr>"
  define s0 where "s0 = run_start (ThreadWorker_new (Some False) :: nat ThreadWorker)"
  define s1 where "s1 = s0\<lparr>rs_worker := dispatch (Some d) (rs_worker s0)\<rparr>"
  define s2 where "s2 = run_step 0 id s1"
  define s3 where "s3 = s2\<lparr>rs_worker := ThreadStopFlag_Stop (rs_worker s2)\<rparr>"
  define s5 where "s5 = run_step 0 id (run_step 0 id s3)"
  note defs = s0_def s1_def s2_def s3_def s5_def d_def
  have "wstep\<^sup>*\<^sup>* s0 s1" unfolding s1_def by (rule r_into_rtranclp) (rule wstep.dispatched)
  also have "wstep\<^sup>*\<^sup>* s1 s2" unfolding s2_def by (rule r_into_rtranclp) (rule wstep.thread)
  also have "wstep\<^sup>*\<^sup>* s2 s3" unfolding s3_def by (rule r_into_rtranclp) (rule wstep.stopped)
  also have "wstep\<^sup>*\<^sup>* s3 s5" unfolding s5_def
    by (meson r_into_rtranclp rtranclp.rtrancl_into_rtrancl wstep.thread)
  finally have r: "wstep\<^sup>*\<^sup>* s0 s5" .
  have "length (rs_ran s5) = 1"
    by (simp add: defs run_start_def ThreadWorker_new_def isStop_def dispatch_def
        ThreadStopFlag_Stop_def PopWaittingDispatch_def execute_def)
  with r run_executes_at_most_one[of "ThreadWorker_new (Some False)" s5] show ?thesis
    by (auto simp: s0_def)
qed

text \<open>A worker whose pool was started with a freshly constructed stop flag, as every pool
  of the server is, executes nothing and its thread function can only finish: the flag
  is constructed in the stopped state.\<close>
theorem fresh_flag_worker_is_stopped:
  "wstep\<^sup>*\<^sup>* (run_start (ThreadWorker_new (Some ThreadStopFlag_new))) s \<Longrightarrow>
     rs_ran s = [] \<and> rs_pc s \<in> {AtOuter, Finished}
     \<and> rs_pc (run_step clock loop s) = Finished"
  using already_stopped[of "run_start (ThreadWorker_new (Some ThreadStopFlag_new))" s]
  by (auto simp: run_start_def ThreadWorker_new_def ThreadStopFlag_new_def isStop_def)

theorem fresh_flag_worker_is_stopped_witness:
  "let s = (run_start (ThreadWorker_new (Some ThreadStopFlag_new)) :: nat run_state)
             \<lparr>rs_worker := dispatch (Some \<lparr>td_body = DispatchCB 1, td_dispatcher = None\<rparr>)
                 (ThreadWorker_new (Some ThreadStopFlag_new))\<rparr>
   in rs_ran s = [] \<and> rs_pc (run_step 0 id s) = Finished"
  unfolding Let_def
  using fresh_flag_worker_is_stopped[OF r_into_rtranclp[where r = wstep, OF wstep.dispatched[of
      "run_start (ThreadWorker_new (Some ThreadStopFlag_new))"
      "Some \<lparr>td_body = DispatchCB 1, td_dispatcher = None\<rparr> :: nat ThreadDispatch option"]], of 0 id]
  by (simp add: run_start_def ThreadWorker_new_def)

end
