(* ===== verification/Base_Utils.thy ===== *)
theory Base_Utils
  imports Prelude
begin

text \<open>
  \<open>Base/BaseUtils.cpp\<close>, \<open>Base/BaseUtils.h\<close> and the state of \<open>Base/Log.cpp\<close>: string helpers,
  the round-robin lookup \<open>getInSequence\<close>, the Base64 wrappers and the log manager. The two
  OpenSSL functions behind Base64 are parameters: \<open>enc\<close> is \<open>EVP_EncodeBlock\<close> and \<open>dec\<close> is
  \<open>EVP_DecodeBlock\<close> on the given characters (\<open>None\<close> for its result -1). An operation that
  throws returns \<open>None\<close>.
\<close>

section \<open>Strings and sequences\<close>

definition endWith :: "string \<Rightarrow> string \<Rightarrow> bool" where
  "endWith str end' =
     (if str = [] \<and> end' = [] then False
      else if length str < length end' then False
      else drop (length str - length end') str = end')"

fun rfind :: "char \<Rightarrow> string \<Rightarrow> nat option" where
  \<comment> \<open>\<open>std::string::rfind\<close> of a one-character pattern\<close>
  "rfind c [] = None"
| "rfind c (x # xs) =
     (case rfind c xs of
        Some i \<Rightarrow> Some (Suc i)
      | None \<Rightarrow> if x = c then Some 0 else None)"

definition filename :: "string \<Rightarrow> string" where
  \<comment> \<open>both searches look into \<open>fileName\<close>, which has just been cleared\<close>
  "filename path =
     (let fileName = [] in
      if path = [] then fileName
      else let pos = rfind CHR ''/'' fileName;
               pos = (if pos = None then rfind (CHR 0x5C) fileName else pos)
           in case pos of None \<Rightarrow> path | Some p \<Rightarrow> drop (p + 1) path)"

fun contain :: "'a list \<Rightarrow> 'a \<Rightarrow> bool" where
  "contain [] val = False"
| "contain (x # arr) val = (if x = val then True else contain arr val)"

fun getInSequence_loop :: "('k, 'v) umap \<Rightarrow> 'k list \<Rightarrow> 'v option \<times> 'k list" where
  "getInSequence_loop dataMap [] = (None, [])"
| "getInSequence_loop dataMap (key # sequence) =
     (case um_find dataMap key of
        Some v \<Rightarrow> (Some v, sequence)
      | None \<Rightarrow> getInSequence_loop dataMap sequence)"

definition getInSequence :: "('k, 'v) umap \<Rightarrow> 'k list \<Rightarrow> 'v option \<times> 'k list" where
  \<comment> \<open>\<open>None\<close> is the default value of \<open>T2\<close>\<close>
  "getInSequence dataMap sequence =
     getInSequence_loop dataMap (if sequence = [] then map fst dataMap else sequence)"

section \<open>Base64\<close>

definition encodeBase64 :: "(string \<Rightarrow> string) \<Rightarrow> string \<Rightarrow> bool \<times> string" where
  "encodeBase64 enc input =
     (let base64_len = (length input + 2) div 3 * 4 in
      if base64_len = 0 then (False, [])
      else let out = enc input in if length out > 0 then (True, out) else (False, []))"

fun strip_padding :: "string \<Rightarrow> int \<Rightarrow> nat \<Rightarrow> int option option" where
  \<comment> \<open>the loop over the trailing \<open>=\<close>, on the reversed input: \<open>None\<close> when \<open>at\<close> throws,
      \<open>Some None\<close> when there are more than two\<close>
  "strip_padding [] ret nums = None"
| "strip_padding (c # cs) ret nums =
     (if c \<noteq> CHR ''='' then Some (Some ret)
      else if nums + 1 > 2 then Some None
      else strip_padding cs (ret - 1) (nums + 1))"

definition decodeBase64 :: "(string \<Rightarrow> string option) \<Rightarrow> string \<Rightarrow> (bool \<times> string) option" where
  \<comment> \<open>\<open>EVP_DecodeBlock\<close> is given the output length as the length of its input\<close>
  "decodeBase64 dec input =
     (let input_len = length input in
      if input_len mod 4 \<noteq> 0 then Some (False, [])
      else let output_len = input_len div 4 * 3 in
           case dec (take output_len input) of
             None \<Rightarrow> Some (False, [])
           | Some buf \<Rightarrow>
               (case strip_padding (rev input) (int (length buf)) 0 of
                  None \<Rightarrow> None
                | Some None \<Rightarrow> Some (False, [])
                | Some (Some ret) \<Rightarrow>
                    if ret < 0 then None else Some (ret > 0, take (nat ret) buf)))"

definition evp_encode_ok :: "(string \<Rightarrow> string) \<Rightarrow> bool" where
  \<comment> \<open>documented: four characters for every three bytes begun, the last of them padded with
      at most two \<open>=\<close>\<close>
  "evp_encode_ok enc \<longleftrightarrow> (\<forall>s. length (enc s) = (length s + 2) div 3 * 4)"

definition evp_decode_ok :: "(string \<Rightarrow> string option) \<Rightarrow> bool" where
  \<comment> \<open>documented: an input whose length is not a multiple of four is refused, and every four
      characters give three bytes\<close>
  "evp_decode_ok dec \<longleftrightarrow>
     (\<forall>s. length s mod 4 \<noteq> 0 \<longrightarrow> dec s = None)
     \<and> (\<forall>s b. dec s = Some b \<longrightarrow> length b = length s div 4 * 3)"

section \<open>The log manager\<close>

datatype LogLevel = Debug | Info | Warning | Error

record LogManager =
  lm_initialized :: bool
  lm_logger :: "string option"
  lm_records :: "(LogLevel \<times> string) list"

definition LogManager_new :: LogManager where
  "LogManager_new = \<lparr>lm_initialized = False, lm_logger = None, lm_records = []\<rparr>"

definition LogManager_initialize :: "string \<Rightarrow> LogManager \<Rightarrow> bool \<times> LogManager" where
  \<comment> \<open>the flag tells whether \<open>initialize\<close> returned (it throws on an empty name)\<close>
  "LogManager_initialize fileName m =
     (if lm_initialized m then (True, m)
      else let m1 = m\<lparr>lm_initialized := True\<rparr> in
           if fileName = [] then (False, m1)
           else let tmpName = (if endWith fileName ''.log''
                               then take (length fileName - 4) fileName else fileName)
                in (True, m1\<lparr>lm_logger := Some tmpName\<rparr>))"

definition LogManager_stop :: "LogManager \<Rightarrow> LogManager" where
  "LogManager_stop m =
     (if \<not> lm_initialized m then m else m\<lparr>lm_initialized := False, lm_logger := None\<rparr>)"

definition LogManager_log ::
  "LogLevel \<Rightarrow> string \<Rightarrow> string \<Rightarrow> nat \<Rightarrow> LogManager \<Rightarrow> LogManager option" where
  \<comment> \<open>\<open>logDebug\<close>, \<open>logInfo\<close>, \<open>logWarning\<close>, \<open>logError\<close>; \<open>None\<close>: the null logger is used\<close>
  "LogManager_log level msg file line m =
     (if \<not> lm_initialized m then Some m
      else case lm_logger m of
             None \<Rightarrow> None
           | Some _ \<Rightarrow>
               Some (m\<lparr>lm_records := lm_records m @
                 [(level, filename file @ '':'' @ nat_to_string line @ '' '' @ msg)]\<rparr>))"

definition LogStream_flush ::
  "LogLevel \<Rightarrow> string \<Rightarrow> nat \<Rightarrow> string \<Rightarrow> LogManager \<Rightarrow> (string \<times> LogManager) option" where
  "LogStream_flush level file line oss m =
     (if oss = [] then Some (oss, m)
      else map_option (\<lambda>m'. ([], m')) (LogManager_log level oss file line m))"

section \<open>Lemmas\<close>

lemma contain_iff [simp]: "contain arr val \<longleftrightarrow> val \<in> set arr"
  by (induction arr) auto

lemma getInSequence_loop_spec:
  "getInSequence_loop m ks = (r, ks') \<Longrightarrow>
     (\<exists>dead. ks = dead @ ks' \<and> (\<forall>k \<in> set dead. um_find m k = None) \<and> r = None \<and> ks' = [])
   \<or> (\<exists>dead k v. ks = dead @ k # ks' \<and> (\<forall>k \<in> set dead. um_find m k = None)
        \<and> um_find m k = Some v \<and> r = Some v)"
proof (induction m ks arbitrary: ks' rule: getInSequence_loop.induct)
  case (2 m key sequence)
  show ?case
  proof (cases "um_find m key")
    case None
    with 2 have "getInSequence_loop m sequence = (r, ks')" by simp
    from 2(1)[OF None this] show ?thesis
    proof (elim disjE exE conjE)
      fix dead k v
      assume "sequence = dead @ k # ks'" "\<forall>k \<in> set dead. um_find m k = None"
        "um_find m k = Some v" "r = Some v"
      with None show ?thesis
        by (intro disjI2 exI[of _ "key # dead"] exI[of _ k] exI[of _ v]) auto
    qed (use None in auto)
  qed (use 2(2) in auto)
qed simp

lemma getInSequence_live:
  assumes "dataMap \<noteq> []" and "sequence = []"
  shows "fst (getInSequence dataMap sequence) \<noteq> None"
  using assms by (cases dataMap) (auto simp: getInSequence_def)

lemma strip_padding_bound: "strip_padding cs ret nums = Some (Some r) \<Longrightarrow> r \<le> ret"
  by (induction cs ret nums rule: strip_padding.induct) (auto split: if_splits)

lemma decodeBase64_length:
  assumes "evp_decode_ok dec" and "decodeBase64 dec input = Some (ok, out)" and "out \<noteq> []"
  shows "length input mod 16 = 0" and "length out * 16 \<le> length input * 9"
proof -
  let ?n = "length input div 4 * 3"
  from assms(2,3) obtain buf ret where b: "dec (take ?n input) = Some buf"
    and m: "length input mod 4 = 0" and r: "strip_padding (rev input) (int (length buf)) 0 = Some (Some ret)"
    and o: "out = take (nat ret) buf"
    by (auto simp: decodeBase64_def Let_def split: if_splits option.splits)
  have n: "?n \<le> length input" by simp
  from b assms(1) have "length (take ?n input) mod 4 = 0" unfolding evp_decode_ok_def
    by (metis option.distinct(1))
  then have n4: "?n mod 4 = 0" using n by (simp add: min_absorb2)
  have "length buf = length (take ?n input) div 4 * 3"
    using b assms(1) unfolding evp_decode_ok_def by blast
  then have lb: "length buf = ?n div 4 * 3" using n by (simp add: min_absorb2)
  have "length out \<le> length buf" using strip_padding_bound[OF r] by (simp add: o)
  obtain k where k: "length input = 4 * k" using m by (metis mod_0_imp_dvd dvdE)
  have "(3 * k) mod 4 = 0" using n4 by (simp add: k mult.commute)
  then have "k mod 4 = 0" by presburger
  then obtain j where j: "k = 4 * j" by (metis mod_0_imp_dvd dvdE)
  have "length out \<le> 9 * j" using \<open>length out \<le> length buf\<close> lb by (simp add: k j)
  then show "length input mod 16 = 0" and "length out * 16 \<le> length input * 9"
    by (simp_all add: k j)
qed

section \<open>Properties\<close>

text \<open>\<open>getInSequence\<close> hands out the entries of a map in turn: it skips the keys of the
  remembered sequence that are no longer in the map, returns the value of the first one
  that is and keeps the rest of the sequence; it finds nothing only if no remembered key is
  in the map, and with no remembered sequence it finds something in every non-empty map.\<close>
theorem getInSequence_in_turn:
  "case getInSequence dataMap sequence of (r, rest) \<Rightarrow>
     (let ks = if sequence = [] then map fst dataMap else sequence in
      case r of
        None \<Rightarrow> rest = [] \<and> (\<forall>k \<in> set ks. um_find dataMap k = None)
      | Some v \<Rightarrow> \<exists>dead k. ks = dead @ k # rest \<and> um_find dataMap k = Some v
                    \<and> (\<forall>k \<in> set dead. um_find dataMap k = None))
     \<and> (sequence = [] \<and> dataMap \<noteq> [] \<longrightarrow> r \<noteq> None)"
proof -
  obtain r rest where g: "getInSequence dataMap sequence = (r, rest)" by fastforce
  define ks where "ks = (if sequence = [] then map fst dataMap else sequence)"
  have loop: "getInSequence_loop dataMap ks = (r, rest)" using g by (simp add: getInSequence_def ks_def)
  have "let ks = if sequence = [] then map fst dataMap else sequence in
      case r of
        None \<Rightarrow> rest = [] \<and> (\<forall>k \<in> set ks. um_find dataMap k = None)
      | Some v \<Rightarrow> \<exists>dead k. ks = dead @ k # rest \<and> um_find dataMap k = Some v
                    \<and> (\<forall>k \<in> set dead. um_find dataMap k = None)"
    unfolding Let_def ks_def[symmetric]
    using getInSequence_loop_spec[OF loop] by (cases r) auto
  with g getInSequence_live[of dataMap sequence] show ?thesis by auto
qed

theorem getInSequence_in_turn_witness:
  "getInSequence [(1::nat, ''a''), (3, ''c'')] [2, 3] = (Some ''c'', [])"
  using getInSequence_in_turn[where dataMap = "[(1::nat, ''a''), (3, ''c'')]" and sequence = "[2, 3]"]
  by (auto simp: getInSequence_def)

text \<open>Base64 as the server uses it does not round-trip: whatever non-empty data is
  encoded, decoding the result with \<open>decodeBase64\<close> never gives the data back, because the
  decoder is told to read only three quarters of the characters.\<close>
theorem base64_no_roundtrip:
  assumes "evp_encode_ok enc" and "evp_decode_ok dec"
    and "encodeBase64 enc content = (True, base64)"
  shows "decodeBase64 dec base64 \<noteq> Some (True, content)"
proof
  assume d: "decodeBase64 dec base64 = Some (True, content)"
  from assms(3) have ne: "content \<noteq> []" and b: "base64 = enc content"
    by (auto simp: encodeBase64_def Let_def split: if_splits)
  have l: "length base64 = (length content + 2) div 3 * 4"
    using assms(1) by (simp add: b evp_encode_ok_def)
  define q where "q = (length content + 2) div 3"
  have "length base64 mod 16 = 0" and le: "length content * 16 \<le> length base64 * 9"
    using decodeBase64_length[OF assms(2) d ne] by simp_all
  then have "(4 * q) mod 16 = 0" by (simp add: l q_def mult.commute)
  then have "q mod 4 = 0" by presburger
  then obtain j where j: "q = 4 * j" by (metis mod_0_imp_dvd dvdE)
  have "length content > 0" using ne by simp
  then have "q > 0" by (simp add: q_def div_greater_zero_iff Suc_le_eq)
  moreover have "3 * q \<le> length content + 2" by (simp add: q_def)
  moreover have "length content \<le> 9 * j"
    using le unfolding l q_def[symmetric] unfolding j by simp
  ultimately show False using j by arith
qed

theorem base64_no_roundtrip_witness:
  "let enc = (\<lambda>s. replicate ((length s + 2) div 3 * 4) CHR ''A'');
       dec = (\<lambda>s. if length s mod 4 \<noteq> 0 then None else Some (replicate (length s div 4 * 3) (CHR 0x00)))
   in decodeBase64 dec (enc [CHR 0x00, CHR 0x00]) \<noteq> Some (True, [CHR 0x00, CHR 0x00])"
  unfolding Let_def
  by (rule base64_no_roundtrip[of "\<lambda>s. replicate ((length s + 2) div 3 * 4) CHR ''A''"])
    (simp_all add: evp_encode_ok_def evp_decode_ok_def encodeBase64_def)

end
