(* ===== verification/Message.thy ===== *)
theory Message
  imports Thread_Worker Base_Utils
begin

text \<open>
  Messages between the network and the game logic: \<open>Message/MessageHandler.cpp\<close>,
  \<open>Message/MessageManager.cpp\<close>, \<open>Message/MessageThreadPool.cpp\<close>, \<open>Message/MsgBase.cpp\<close>,
  \<open>Message/MsgWrapper.h\<close>, \<open>Message/MsgCreator.h\<close>.

  Handlers are objects other components point to, so they live in a store keyed by a
  number; a null pointer is \<open>None\<close>. A message body is of the type \<open>'m\<close>; what its
  MessagePack serialisation does is a parameter (\<open>packer\<close>, \<open>unpacker\<close>), as are the virtual
  functions \<open>preprocess\<close> and \<open>OnMessage\<close>, which transform the world \<open>'w\<close> and return the
  messages pushed to the same queue while they run.
\<close>

section \<open>Messages\<close>

record 'm NetMessage =
  nm_type :: string
  nm_session :: "nat option"
  nm_msg :: "'m option"

record MsgWrapper =
  mw_msgType :: string
  mw_msgPack :: string

definition packMessage ::
  "('m \<Rightarrow> string) \<Rightarrow> (MsgWrapper \<Rightarrow> string) \<Rightarrow> (string \<Rightarrow> string) \<Rightarrow> string \<Rightarrow> 'm
     \<Rightarrow> string option \<times> MsgWrapper" where
  \<comment> \<open>\<open>packer\<close> and \<open>packw\<close> are \<open>msgpack::pack\<close> of the body and of the wrapper, \<open>type\<close> is
      \<open>msg.getType()\<close>\<close>
  "packMessage packer packw enc type msg =
     (case encodeBase64 enc (packer msg) of
        (False, b) \<Rightarrow> (None, \<lparr>mw_msgType = [], mw_msgPack = b\<rparr>)
      | (True, b) \<Rightarrow>
          let w = \<lparr>mw_msgType = type, mw_msgPack = b\<rparr> in (Some (packw w), w))"

definition unpackMessage ::
  "(string \<Rightarrow> 'm option) \<Rightarrow> (string \<Rightarrow> string option) \<Rightarrow> MsgWrapper \<Rightarrow> 'm option" where
  \<comment> \<open>\<open>unpacker\<close> is \<open>msgpack::unpack\<close> with \<open>convert\<close>; every exception is caught\<close>
  "unpackMessage unpacker dec w =
     (case decodeBase64 dec (mw_msgPack w) of
        None \<Rightarrow> None
      | Some (False, _) \<Rightarrow> None
      | Some (True, content) \<Rightarrow> unpacker content)"

definition MsgBase_send :: "string option \<Rightarrow> 's option \<Rightarrow> ('s \<Rightarrow> string \<Rightarrow> 'w \<Rightarrow> 'w) \<Rightarrow> 'w \<Rightarrow> 'w" where
  \<comment> \<open>\<open>data\<close> is what \<open>pack()\<close> returned\<close>
  "MsgBase_send data session sendto w =
     (case session of
        None \<Rightarrow> w
      | Some s \<Rightarrow> (case data of None \<Rightarrow> w | Some d \<Rightarrow> if d = [] then w else sendto s d w))"

section \<open>Message queues\<close>

type_synonym 'm MessageQueue = "'m NetMessage option list"

definition MessageQueue_push :: "'m NetMessage option \<Rightarrow> 'm MessageQueue \<Rightarrow> 'm MessageQueue" where
  "MessageQueue_push msg q = q @ [msg]"

definition MessageQueue_pop :: "'m MessageQueue \<Rightarrow> 'm NetMessage option \<times> 'm MessageQueue" where
  "MessageQueue_pop q =
     (case q of
        [] \<Rightarrow> (None, q)
      | None # _ \<Rightarrow> (None, q)
      | Some m # rest \<Rightarrow> (Some m, rest))"

section \<open>Message handlers\<close>

record 'm MessageHandler =
  mh_msgQueue :: "'m MessageQueue option"
  mh_receiveMessages :: "string list"
  mh_worker :: "nat option"

definition MessageHandler_new :: "'m MessageHandler" where
  \<comment> \<open>the constructor does not create a queue\<close>
  "MessageHandler_new = \<lparr>mh_msgQueue = None, mh_receiveMessages = [], mh_worker = None\<rparr>"

definition addMessage :: "string \<Rightarrow> 'm MessageHandler \<Rightarrow> 'm MessageHandler" where
  "addMessage msgType h =
     (if msgType = [] then h
      else h\<lparr>mh_receiveMessages := us_insert msgType (mh_receiveMessages h)\<rparr>)"

definition isReceive :: "'m NetMessage option \<Rightarrow> 'm MessageHandler \<Rightarrow> bool" where
  "isReceive netMsg h =
     (case netMsg of None \<Rightarrow> False | Some m \<Rightarrow> nm_type m \<in> set (mh_receiveMessages h))"

definition MessageHandler_push ::
  "'m NetMessage option \<Rightarrow> 'm MessageHandler \<Rightarrow> 'm MessageHandler option" where
  \<comment> \<open>\<open>None\<close>: the queue pointer is null\<close>
  "MessageHandler_push msg h =
     (case mh_msgQueue h of
        None \<Rightarrow> None
      | Some q \<Rightarrow> Some (h\<lparr>mh_msgQueue := Some (MessageQueue_push msg q)\<rparr>))"

definition setWorker :: "nat option \<Rightarrow> 'm MessageHandler \<Rightarrow> 'm MessageHandler" where
  "setWorker worker h = h\<lparr>mh_worker := worker\<rparr>"

type_synonym ('m, 'w) message_callback =
  "'m NetMessage \<Rightarrow> 'w \<Rightarrow> bool \<times> 'm NetMessage option list \<times> 'w"

fun handle ::
  "nat \<Rightarrow> ('m, 'w) message_callback \<Rightarrow> ('m, 'w) message_callback \<Rightarrow> bool
     \<Rightarrow> 'm MessageQueue \<Rightarrow> 'w \<Rightarrow> (bool \<times> 'm MessageQueue \<times> 'w) option" where
  \<comment> \<open>the loop of \<open>MessageHandler::handle\<close>; \<open>None\<close>: out of fuel\<close>
  "handle 0 preprocess OnMessage ret q w = None"
| "handle (Suc n) preprocess OnMessage ret q w =
     (case MessageQueue_pop q of
        (None, q1) \<Rightarrow> Some (ret, q1, w)
      | (Some msg, q1) \<Rightarrow>
          let (ok, pushed, w1) = preprocess msg w; q2 = q1 @ pushed in
          if \<not> ok then handle n preprocess OnMessage True q2 w1
          else let (processed, pushed', w2) = OnMessage msg w1
               in handle n preprocess OnMessage True (q2 @ pushed') w2)"

section \<open>The message manager\<close>

record ('m, 'c) MessageManager =
  mm_creatorMap :: "(string, 'c) umap"
  mm_handlers :: "nat list"
  mm_handlerSN :: int
  mm_store :: "(nat, 'm MessageHandler) umap"

definition registerCreator ::
  "string \<Rightarrow> 'c option \<Rightarrow> ('m, 'c) MessageManager \<Rightarrow> ('m, 'c) MessageManager" where
  \<comment> \<open>the branches are the wrong way round: only a type that is already there is inserted\<close>
  "registerCreator type creator mm =
     (case creator of
        None \<Rightarrow> mm
      | Some c \<Rightarrow>
          if type = [] then mm
          else if um_find (mm_creatorMap mm) type \<noteq> None
               then mm\<lparr>mm_creatorMap := um_insert type c (mm_creatorMap mm)\<rparr>
               else mm)"

definition createMessage ::
  "('c \<Rightarrow> MsgWrapper \<Rightarrow> 'm option) \<Rightarrow> MsgWrapper option \<Rightarrow> ('m, 'c) MessageManager \<Rightarrow> 'm option" where
  "createMessage deserialize wrapper mm =
     (case wrapper of
        None \<Rightarrow> None
      | Some w \<Rightarrow>
          (case um_find (mm_creatorMap mm) (mw_msgType w) of
             None \<Rightarrow> None
           | Some creator \<Rightarrow> deserialize creator w))"

definition registHandler :: "nat \<Rightarrow> ('m, 'c) MessageManager \<Rightarrow> ('m, 'c) MessageManager" where
  "registHandler h mm =
     (if contain (mm_handlers mm) h then mm
      else mm\<lparr>mm_handlers := mm_handlers mm @ [h], mm_handlerSN := mm_handlerSN mm + 1\<rparr>)"

definition unregisterHandler :: "nat option \<Rightarrow> ('m, 'c) MessageManager \<Rightarrow> ('m, 'c) MessageManager" where
  "unregisterHandler handler mm =
     (case handler of
        None \<Rightarrow> mm
      | Some h \<Rightarrow>
          if h \<in> set (mm_handlers mm)
          then mm\<lparr>mm_handlers := remove1 h (mm_handlers mm), mm_handlerSN := mm_handlerSN mm + 1\<rparr>
          else mm)"

definition getAllHandlers :: "('m, 'c) MessageManager \<Rightarrow> nat list" where
  "getAllHandlers mm = mm_handlers mm"

section \<open>The message thread pool\<close>

definition MessageThread_oneLoopEx ::
  "(nat \<Rightarrow> 'w \<Rightarrow> bool \<times> 'w) \<Rightarrow> nat list \<Rightarrow> 'w \<Rightarrow> int \<times> 'w" where
  \<comment> \<open>\<open>run\<close> is \<open>handler->handle()\<close>; the result is the time to sleep\<close>
  "MessageThread_oneLoopEx run handlers w =
     (if handlers = [] then (100, w)
      else let (test, w') = fold (\<lambda>h (test, w). let (r, w') = run h w in (test \<or> r, w')) handlers (False, w)
           in (if test then 0 else 10, w'))"

fun deal :: "nat \<Rightarrow> nat \<Rightarrow> nat list \<Rightarrow> (nat \<times> nat) list" where
  \<comment> \<open>the loop that gives each handler a worker, going round the workers\<close>
  "deal workers it [] = []"
| "deal workers it (h # hs) =
     (h, it) # deal workers (if it + 1 = workers then 0 else it + 1) hs"

definition MessageThreadPool_threadNum :: "int \<Rightarrow> nat \<Rightarrow> int option" where
  \<comment> \<open>the number of threads \<open>Start\<close> settles on; \<open>None\<close>: it returns at once\<close>
  "MessageThreadPool_threadNum threadNum cnt =
     (let threadNum1 = (if threadNum > 10 then 10 else threadNum) in
      if threadNum1 > int cnt then Some (int cnt)
      else if threadNum1 < 1 then None else Some threadNum1)"

definition MessageThreadPool_Start :: "int \<Rightarrow> nat list \<Rightarrow> bool \<Rightarrow> (nat \<times> nat list list) option" where
  \<comment> \<open>the workers created, each with its handlers; \<open>None\<close>: nothing is started\<close>
  "MessageThreadPool_Start threadNum handlers isStart =
     (case MessageThreadPool_threadNum threadNum (length handlers) of
        None \<Rightarrow> None
      | Some n \<Rightarrow>
          if isStart then None
          else let d = deal (nat n) 0 handlers
               in Some (nat n, map (\<lambda>k. map fst (filter (\<lambda>x. snd x = k) d)) [0..<nat n]))"

section \<open>Vocabulary of the properties\<close>

fun process_all ::
  "('m, 'w) message_callback \<Rightarrow> ('m, 'w) message_callback \<Rightarrow> 'm NetMessage list \<Rightarrow> 'w \<Rightarrow> 'w" where
  \<comment> \<open>what handling a batch of messages means: one after the other, the body only for those
      the preprocessing accepts\<close>
  "process_all pre onm [] w = w"
| "process_all pre onm (m # ms) w =
     (let (ok, _, w1) = pre m w; w2 = (if ok then snd (snd (onm m w1)) else w1)
      in process_all pre onm ms w2)"

definition quiet :: "('m, 'w) message_callback \<Rightarrow> bool" where
  \<comment> \<open>the callback pushes nothing to the queue being drained\<close>
  "quiet cb \<longleftrightarrow> (\<forall>m w. fst (snd (cb m w)) = [])"

definition demo_pre :: "(nat, string list) message_callback" where
  "demo_pre m w = (nm_type m \<noteq> ''bad'', [], w)"

definition demo_onm :: "(nat, string list) message_callback" where
  "demo_onm m w = (True, [], w @ [nm_type m])"

section \<open>Lemmas\<close>

interpretation msg_queue: fifo "MessageQueue_push \<circ> Some" MessageQueue_pop
  "List.map_filter id" "\<lambda>q. None \<notin> set q"
proof unfold_locales
  fix q :: "'a MessageQueue" and x xs
  assume "None \<notin> set q" "List.map_filter id q = x # xs"
  then obtain q' where "q = Some x # q'" "List.map_filter id q' = xs"
    by (cases q; cases "hd q") (auto simp: List.map_filter_simps)
  then show "fst (MessageQueue_pop q) = Some x" "List.map_filter id (snd (MessageQueue_pop q)) = xs"
    by (simp_all add: MessageQueue_pop_def)
next
  fix q :: "'a MessageQueue"
  assume "None \<notin> set q"
  then show "List.map_filter id q = [] \<Longrightarrow> MessageQueue_pop q = (None, q)"
    by (cases q; cases "hd q") (auto simp: MessageQueue_pop_def List.map_filter_simps)
  from \<open>None \<notin> set q\<close> show "None \<notin> set (snd (MessageQueue_pop q))"
    by (auto simp: MessageQueue_pop_def split: list.splits option.splits)
qed (auto simp: MessageQueue_push_def List.map_filter_def)

lemma handle_all:
  assumes "quiet pre" and "quiet onm"
  shows "handle (Suc (length ms) + n) pre onm ret (map Some ms) w =
    Some (ret \<or> ms \<noteq> [], [], process_all pre onm ms w)"
proof (induction ms arbitrary: ret w)
  case Nil
  show ?case by (simp add: MessageQueue_pop_def)
next
  case (Cons m ms)
  obtain ok w1 where p: "pre m w = (ok, [], w1)"
    using assms(1) by (cases "pre m w") (auto simp: quiet_def, metis fst_conv snd_conv)
  obtain r w2 where o: "onm m w1 = (r, [], w2)"
    using assms(2) by (cases "onm m w1") (auto simp: quiet_def, metis fst_conv snd_conv)
  show ?case
    using Cons.IH by (cases ok) (simp_all add: MessageQueue_pop_def p o)
qed

lemma deal_fst: "map fst (deal n it hs) = hs"
  by (induction n it hs rule: deal.induct) simp_all

lemma deal_nth:
  "0 < n \<Longrightarrow> it < n \<Longrightarrow> j < length hs \<Longrightarrow> deal n it hs ! j = (hs ! j, (it + j) mod n)"
proof (induction n it hs arbitrary: j rule: deal.induct)
  case (2 workers it h hs)
  show ?case
  proof (cases j)
    case (Suc i)
    have "(if it + 1 = workers then 0 else it + 1) = (it + 1) mod workers"
      using 2(2,3) by auto
    then have "deal workers (if it + 1 = workers then 0 else it + 1) hs ! i
        = (hs ! i, ((it + 1) mod workers + i) mod workers)"
      using 2 Suc by auto
    also have "((it + 1) mod workers + i) mod workers = (it + j) mod workers"
      by (simp add: Suc mod_add_left_eq)
    finally show ?thesis by (simp add: Suc)
  qed (use 2 in simp)
qed simp

lemma length_deal: "length (deal n it hs) = length hs"
  using deal_fst by (metis length_map)

lemma deal_map: "0 < n \<Longrightarrow> deal n 0 hs = map (\<lambda>j. (hs ! j, j mod n)) [0..<length hs]"
  by (rule nth_equalityI) (simp_all add: length_deal deal_nth)

lemma registerCreator_empty: "mm_creatorMap mm = [] \<Longrightarrow> mm_creatorMap (registerCreator t c mm) = []"
  by (simp add: registerCreator_def split: option.splits)

section \<open>Properties\<close>



text \<open>\<open>MessageThreadPool::Start\<close> starts between one and ten workers and at most one per
  handler, and worker \<open>k\<close> serves exactly the handlers whose position is \<open>k\<close> modulo the number
  of workers, in order: every handler has one worker and the loads differ by at most one.\<close>
theorem handlers_dealt_round_robin:
  assumes "MessageThreadPool_Start threadNum handlers isStart = Some (n, ws)" and "handlers \<noteq> []"
  shows "1 \<le> n \<and> n \<le> 10 \<and> n \<le> length handlers \<and> \<not> isStart \<and>
     ws = map (\<lambda>k. map ((!) handlers) (filter (\<lambda>j. j mod n = k) [0..<length handlers])) [0..<n]"
proof -
  from assms(1) obtain m where m: "MessageThreadPool_threadNum threadNum (length handlers) = Some m"
    and n: "n = nat m" "\<not> isStart"
    and ws: "ws = map (\<lambda>k. map fst (filter (\<lambda>x. snd x = k) (deal n 0 handlers))) [0..<n]"
    by (auto simp: MessageThreadPool_Start_def Let_def split: option.splits if_splits)
  have "int 1 \<le> m \<and> m \<le> 10 \<and> m \<le> int (length handlers)"
    using m assms(2)
    by (auto simp: MessageThreadPool_threadNum_def Let_def Suc_le_eq split: if_splits)
  then have b: "1 \<le> n" "n \<le> 10" "n \<le> length handlers" using n by auto
  then have "deal n 0 handlers = map (\<lambda>j. (handlers ! j, j mod n)) [0..<length handlers]"
    by (intro deal_map) simp
  then show ?thesis using b n ws by (simp add: filter_map comp_def)
qed

theorem handlers_dealt_round_robin_witness:
  "MessageThreadPool_Start 2 [10, 11, 12] False = Some (2, [[10, 12], [11]])"
proof -
  have s: "MessageThreadPool_Start 2 [10, 11, 12] False = Some (2, map (\<lambda>k. map fst (filter (\<lambda>x. snd x = k)
      (deal 2 0 [10, 11, 12]))) [0..<2])"
    by (simp add: MessageThreadPool_Start_def MessageThreadPool_threadNum_def)
  show ?thesis
    using handlers_dealt_round_robin[OF s] s by (simp add: upt_rec)
qed

text \<open>No message type can ever be registered: starting from the empty table, every
  sequence of \<open>registerCreator\<close> calls leaves it empty, so \<open>createMessage\<close> turns every
  received packet into a null message.\<close>
theorem no_message_type_registered:
  assumes "mm_creatorMap mm = []"
  shows "mm_creatorMap (fold (\<lambda>(t, c). registerCreator t c) regs mm) = []
     \<and> createMessage deserialize wrapper (fold (\<lambda>(t, c). registerCreator t c) regs mm) = None"
proof -
  have "mm_creatorMap (fold (\<lambda>(t, c). registerCreator t c) regs mm) = []"
    using assms by (induction regs arbitrary: mm) (auto simp: registerCreator_empty)
  then show ?thesis by (simp add: createMessage_def split: option.splits)
qed

theorem no_message_type_registered_witness:
  "createMessage (\<lambda>c w. Some c) (Some \<lparr>mw_msgType = ''M'', mw_msgPack = []\<rparr>)
     (fold (\<lambda>(t, c). registerCreator t c) [(''M'', Some (7::nat))]
       \<lparr>mm_creatorMap = [], mm_handlers = [], mm_handlerSN = 0,
        mm_store = [] :: (nat, nat MessageHandler) umap\<rparr>) = None"
  by (rule conjunct2[OF no_message_type_registered]) simp

end
