(* ===== verification/Database_Pool.thy ===== *)
theory Database_Pool
  imports Thread_Worker
begin

text \<open>
  The connection pool shared by the MySQL and the Redis client: \<open>DataBase/DataBasePool.cpp\<close>
  and \<open>DataBase/DataBaseConnection.cpp\<close>.

  A connection is named by a number; the virtual \<open>createConnection\<close> of the derived class is
  the parameter \<open>create\<close> on the state \<open>'s\<close> of the outside world (\<open>False\<close>: null pointer).
  \<open>getConnection\<close> is one round of its loop: a caller that gets \<open>Blocked b\<close> waits on the
  blocker \<open>b\<close> and calls again when it has been signalled. The concurrent use of a pool is
  the step relation \<open>pool_step\<close>, in which the bodies under the pool's mutex are atomic.
\<close>

section \<open>Connections\<close>

record DataBaseConnection =
  dc_id :: nat
  dc_isOccupy :: bool
  dc_lastOccupyTime :: int
  dc_lastQueryTime :: int

definition DataBaseConnection_new :: "nat \<Rightarrow> DataBaseConnection" where
  "DataBaseConnection_new i =
     \<lparr>dc_id = i, dc_isOccupy = False, dc_lastOccupyTime = 0, dc_lastQueryTime = 0\<rparr>"

definition occupy :: "int \<Rightarrow> bool \<Rightarrow> DataBaseConnection \<Rightarrow> DataBaseConnection" where
  "occupy now flag c =
     (let c1 = c\<lparr>dc_isOccupy := True\<rparr>
      in if flag then c1\<lparr>dc_lastOccupyTime := now\<rparr> else c1)"

definition recycle :: "DataBaseConnection \<Rightarrow> DataBaseConnection" where
  "recycle c = c\<lparr>dc_isOccupy := False\<rparr>"

definition setQueryTime :: "int \<Rightarrow> DataBaseConnection \<Rightarrow> DataBaseConnection" where
  "setQueryTime now c = c\<lparr>dc_lastQueryTime := now\<rparr>"

section \<open>The pool\<close>

record DataBasePool =
  dp_keepConnections :: int
  dp_maxConnections :: int
  dp_connections :: "DataBaseConnection list"
  dp_blockQueue :: "nat list"
  dp_signalled :: "nat list" \<comment> \<open>blockers signalled whose thread has not run yet\<close>
  dp_stopFlag :: bool
  dp_nextId :: nat           \<comment> \<open>source of fresh connections and blockers\<close>

definition DataBasePool_new :: "int \<Rightarrow> int \<Rightarrow> DataBasePool" where
  "DataBasePool_new keepConnections maxConnections =
     \<lparr>dp_keepConnections = keepConnections, dp_maxConnections = maxConnections,
      dp_connections = [], dp_blockQueue = [], dp_signalled = [], dp_stopFlag = False,
      dp_nextId = 0\<rparr>"

definition DataBasePool_stop :: "DataBasePool \<Rightarrow> DataBasePool" where
  "DataBasePool_stop p = p\<lparr>dp_stopFlag := True\<rparr>"

datatype conn_result = Connection nat | NoConnection | Blocked nat

fun occupy_first :: "int \<Rightarrow> DataBaseConnection list \<Rightarrow> (nat \<times> DataBaseConnection list) option" where
  \<comment> \<open>the scan for the first connection that is not occupied\<close>
  "occupy_first now [] = None"
| "occupy_first now (c # cs) =
     (if dc_isOccupy c then map_option (\<lambda>(i, cs'). (i, c # cs')) (occupy_first now cs)
      else Some (dc_id c, occupy now True c # cs))"

definition getConnection ::
  "('s \<Rightarrow> bool \<times> 's) \<Rightarrow> int \<Rightarrow> DataBasePool \<Rightarrow> 's \<Rightarrow> conn_result \<times> DataBasePool \<times> 's" where
  "getConnection create now p s =
     (if dp_stopFlag p then (NoConnection, p, s)
      else case occupy_first now (dp_connections p) of
             Some (i, cs) \<Rightarrow> (Connection i, p\<lparr>dp_connections := cs\<rparr>, s)
           | None \<Rightarrow>
               if int (length (dp_connections p)) \<ge> dp_maxConnections p
               then (Blocked (dp_nextId p),
                     p\<lparr>dp_blockQueue := dp_blockQueue p @ [dp_nextId p],
                       dp_nextId := Suc (dp_nextId p)\<rparr>, s)
               else let (created, s') = create s in
                    if created
                    then (Connection (dp_nextId p),
                          p\<lparr>dp_connections := dp_connections p @
                              [occupy now True (DataBaseConnection_new (dp_nextId p))],
                            dp_nextId := Suc (dp_nextId p)\<rparr>, s')
                    else (NoConnection, p, s'))"

definition notifyOne :: "DataBasePool \<Rightarrow> DataBasePool" where
  "notifyOne p =
     (case dp_blockQueue p of
        [] \<Rightarrow> p
      | b # bs \<Rightarrow> p\<lparr>dp_blockQueue := bs, dp_signalled := dp_signalled p @ [b]\<rparr>)"

definition removeConnection :: "nat \<Rightarrow> DataBasePool \<Rightarrow> DataBasePool" where
  \<comment> \<open>the first list element equal to the given pointer goes; then one waiter is woken\<close>
  "removeConnection i p =
     notifyOne (p\<lparr>dp_connections :=
       (case find (\<lambda>c. dc_id c = i) (dp_connections p) of
          None \<Rightarrow> dp_connections p
        | Some c \<Rightarrow> remove1 c (dp_connections p))\<rparr>)"

definition update_connection ::
  "nat \<Rightarrow> (DataBaseConnection \<Rightarrow> DataBaseConnection) \<Rightarrow> DataBasePool \<Rightarrow> DataBasePool" where
  \<comment> \<open>a method call through a pointer to the connection \<open>i\<close>\<close>
  "update_connection i f p =
     p\<lparr>dp_connections := map (\<lambda>c. if dc_id c = i then f c else c) (dp_connections p)\<rparr>"

definition release :: "int \<Rightarrow> nat \<Rightarrow> DataBasePool \<Rightarrow> DataBasePool" where
  \<comment> \<open>how both clients give a working connection back\<close>
  "release now i p = notifyOne (update_connection i (recycle \<circ> setQueryTime now) p)"

definition clearConnection :: "DataBasePool \<Rightarrow> DataBasePool" where
  "clearConnection p = p\<lparr>dp_connections := []\<rparr>"

section \<open>The maintenance timer\<close>

datatype 'a timer_outcome = TimerReturned 'a | NullDereference | EraseEnd

fun onTimer_scan ::
  "nat \<Rightarrow> int \<Rightarrow> DataBaseConnection list \<Rightarrow> bool \<Rightarrow> int \<Rightarrow> (bool \<times> int) option" where
  \<comment> \<open>the while loop of \<open>onTimerImpl\<close>: on a connection that is not occupied the iterator is
      not advanced. \<open>None\<close>: out of fuel\<close>
  "onTimer_scan 0 now it test queryTime = None"
| "onTimer_scan (Suc n) now it test queryTime =
     (case it of
        [] \<Rightarrow> Some (test, queryTime)
      | con # rest \<Rightarrow>
          if dc_isOccupy con then onTimer_scan n now rest test queryTime
          else onTimer_scan n now it (test \<or> now - dc_lastOccupyTime con > 300)
                 (dc_lastQueryTime con))"

definition onTimerImpl ::
  "nat \<Rightarrow> int \<Rightarrow> DataBasePool \<Rightarrow> (nat option \<times> DataBasePool) timer_outcome option" where
  \<comment> \<open>after the loop the iterator is at the end and the outer \<open>con\<close> is null\<close>
  "onTimerImpl fuel now p =
     (case onTimer_scan fuel now (dp_connections p) False 0 of
        None \<Rightarrow> None
      | Some (test, queryTime) \<Rightarrow>
          if test then Some EraseEnd
          else if now - queryTime > 30 then Some NullDereference
          else Some (TimerReturned (None, p)))"

definition DataBasePool_onTimer ::
  "nat \<Rightarrow> int \<Rightarrow> DataBasePool \<Rightarrow> (bool \<times> DataBasePool) timer_outcome option" where
  "DataBasePool_onTimer fuel now p =
     (if dp_stopFlag p then Some (TimerReturned (True, p))
      else case onTimerImpl fuel now p of
             None \<Rightarrow> None
           | Some NullDereference \<Rightarrow> Some NullDereference
           | Some EraseEnd \<Rightarrow> Some EraseEnd
           | Some (TimerReturned (con, p')) \<Rightarrow> Some (TimerReturned (False, p')))"

section \<open>Concurrent use\<close>

record pool_sys =
  ps_pool :: DataBasePool
  ps_held :: "nat list" \<comment> \<open>connections handed out and not given back\<close>

definition take_connection :: "int \<Rightarrow> bool \<Rightarrow> pool_sys \<Rightarrow> pool_sys" where
  \<comment> \<open>a call of \<open>getConnection\<close>; \<open>ok\<close>: the server accepts a new connection\<close>
  "take_connection now ok y =
     (let (r, p, _) = getConnection (\<lambda>s. (ok, s)) now (ps_pool y) ()
      in y\<lparr>ps_pool := p,
           ps_held := (case r of Connection i \<Rightarrow> i # ps_held y | _ \<Rightarrow> ps_held y)\<rparr>)"

inductive pool_step :: "pool_sys \<Rightarrow> pool_sys \<Rightarrow> bool" where
  get: "pool_step y (take_connection now True y)"
| retry: "b \<in> set (dp_signalled (ps_pool y)) \<Longrightarrow>
     pool_step y (take_connection now True
       (y\<lparr>ps_pool := (ps_pool y)\<lparr>dp_signalled := remove1 b (dp_signalled (ps_pool y))\<rparr>\<rparr>))"
| giveback: "i \<in> set (ps_held y) \<Longrightarrow>
     pool_step y (y\<lparr>ps_pool := release now i (ps_pool y), ps_held := remove1 i (ps_held y)\<rparr>)"
| broken: "i \<in> set (ps_held y) \<Longrightarrow>
     pool_step y (y\<lparr>ps_pool := removeConnection i (ps_pool y), ps_held := remove1 i (ps_held y)\<rparr>)"

definition busy :: "DataBasePool \<Rightarrow> nat list" where
  "busy p = map dc_id (filter dc_isOccupy (dp_connections p))"

definition room :: "DataBasePool \<Rightarrow> nat" where
  \<comment> \<open>how many connections can be had at once: the free ones and those not yet created\<close>
  "room p = length (filter (\<lambda>c. \<not> dc_isOccupy c) (dp_connections p))
     + nat (dp_maxConnections p - int (length (dp_connections p)))"

definition pool_wf :: "DataBasePool \<Rightarrow> bool" where
  "pool_wf p \<longleftrightarrow> distinct (map dc_id (dp_connections p))
     \<and> (\<forall>c \<in> set (dp_connections p). dc_id c < dp_nextId p)
     \<and> int (length (dp_connections p)) \<le> max 0 (dp_maxConnections p)"

definition sys_inv :: "pool_sys \<Rightarrow> bool" where
  "sys_inv y \<longleftrightarrow> pool_wf (ps_pool y)
     \<and> \<not> dp_stopFlag (ps_pool y)
     \<and> distinct (ps_held y) \<and> set (ps_held y) = set (busy (ps_pool y))
     \<and> (dp_blockQueue (ps_pool y) \<noteq> [] \<longrightarrow> room (ps_pool y) \<le> length (dp_signalled (ps_pool y)))"

section \<open>Lemmas\<close>

lemma occupy_first_Some:
  assumes "occupy_first now cs = Some (i, cs')"
  shows "\<exists>pre c post. cs = pre @ c # post \<and> cs' = pre @ occupy now True c # post
     \<and> dc_id c = i \<and> \<not> dc_isOccupy c \<and> (\<forall>x \<in> set pre. dc_isOccupy x)"
  using assms
proof (induction cs arbitrary: cs')
  case (Cons x cs)
  show ?case
  proof (cases "dc_isOccupy x")
    case True
    with Cons.prems obtain cs1 where r: "occupy_first now cs = Some (i, cs1)" "cs' = x # cs1" by auto
    from Cons.IH[OF r(1)] obtain pre c post where
      "cs = pre @ c # post" "cs1 = pre @ occupy now True c # post" "dc_id c = i"
      "\<not> dc_isOccupy c" "\<forall>x \<in> set pre. dc_isOccupy x" by blast
    with True r(2) show ?thesis
      by (intro exI[of _ "x # pre"] exI[of _ c] exI[of _ post]) simp
  next
    case False
    with Cons.prems show ?thesis
      by (intro exI[of _ "[]"] exI[of _ x] exI[of _ cs]) auto
  qed
qed simp

lemma occupy_first_None: "occupy_first now cs = None \<longleftrightarrow> (\<forall>c \<in> set cs. dc_isOccupy c)"
  by (induction cs) auto

lemma occupy_simps [simp]:
  "dc_id (occupy now b c) = dc_id c" "dc_isOccupy (occupy now b c)"
  "dc_id (recycle c) = dc_id c" "\<not> dc_isOccupy (recycle c)"
  "dc_id (setQueryTime now c) = dc_id c" "dc_isOccupy (setQueryTime now c) = dc_isOccupy c"
  by (simp_all add: occupy_def recycle_def setQueryTime_def Let_def)

lemma notifyOne_simps [simp]:
  "dp_connections (notifyOne p) = dp_connections p"
  "dp_maxConnections (notifyOne p) = dp_maxConnections p"
  "dp_nextId (notifyOne p) = dp_nextId p" "dp_stopFlag (notifyOne p) = dp_stopFlag p"
  "length (dp_signalled (notifyOne p)) =
     length (dp_signalled p) + (if dp_blockQueue p = [] then 0 else 1)"
  "dp_blockQueue (notifyOne p) = tl (dp_blockQueue p)"
  by (simp_all add: notifyOne_def split: list.splits)

lemma update_connection_simps [simp]:
  "dp_maxConnections (update_connection i f p) = dp_maxConnections p"
  "dp_nextId (update_connection i f p) = dp_nextId p"
  "dp_signalled (update_connection i f p) = dp_signalled p"
  "dp_stopFlag (update_connection i f p) = dp_stopFlag p"
  "dp_blockQueue (update_connection i f p) = dp_blockQueue p"
  by (simp_all add: update_connection_def)

lemma filter_map_update:
  assumes "distinct (map dc_id cs)" and "c \<in> set cs" and "dc_isOccupy c"
  shows "map dc_id (filter dc_isOccupy
           (map (\<lambda>x. if dc_id x = dc_id c then (recycle \<circ> setQueryTime now) x else x) cs))
         = removeAll (dc_id c) (map dc_id (filter dc_isOccupy cs))"
    and "length (filter (\<lambda>x. \<not> dc_isOccupy x)
           (map (\<lambda>x. if dc_id x = dc_id c then (recycle \<circ> setQueryTime now) x else x) cs))
         = Suc (length (filter (\<lambda>x. \<not> dc_isOccupy x) cs))"
proof -
  show "map dc_id (filter dc_isOccupy
           (map (\<lambda>x. if dc_id x = dc_id c then (recycle \<circ> setQueryTime now) x else x) cs))
         = removeAll (dc_id c) (map dc_id (filter dc_isOccupy cs))"
    by (induction cs) auto
  show "length (filter (\<lambda>x. \<not> dc_isOccupy x)
           (map (\<lambda>x. if dc_id x = dc_id c then (recycle \<circ> setQueryTime now) x else x) cs))
         = Suc (length (filter (\<lambda>x. \<not> dc_isOccupy x) cs))"
    using assms
  proof (induction cs)
    case (Cons x cs)
    show ?case
    proof (cases "x = c")
      case True
      with Cons.prems have "dc_id c \<notin> dc_id ` set cs" by simp
      then have "\<forall>y \<in> set cs. dc_id y \<noteq> dc_id c" by (metis imageI)
      then have "map (\<lambda>x. if dc_id x = dc_id c then (recycle \<circ> setQueryTime now) x else x) cs = cs"
        by (simp add: map_idI)
      with True Cons.prems show ?thesis by simp
    next
      case False
      with Cons.prems have "dc_id x \<noteq> dc_id c" "c \<in> set cs" by auto
      with Cons show ?thesis by simp
    qed
  qed simp
qed

lemma take_free:
  assumes "pool_wf p" and "occupy_first now (dp_connections p) = Some (i, cs')"
  defines "p' \<equiv> p\<lparr>dp_connections := cs'\<rparr>"
  shows "pool_wf p'" and "i \<notin> set (busy p)" and "set (busy p') = insert i (set (busy p))"
    and "room p' = room p - 1"
proof -
  from occupy_first_Some[OF assms(2)] obtain pre c post where
    d: "dp_connections p = pre @ c # post" "cs' = pre @ occupy now True c # post"
    "dc_id c = i" "\<not> dc_isOccupy c" by blast
  show "pool_wf p'" using assms(1) d by (auto simp: p'_def pool_wf_def)
  show "i \<notin> set (busy p)" using assms(1) d by (force simp: busy_def pool_wf_def)
  show "set (busy p') = insert i (set (busy p))" using d by (auto simp: p'_def busy_def)
  show "room p' = room p - 1" using d by (simp add: p'_def room_def)
qed

lemma take_created:
  fixes now :: int
  assumes "pool_wf p" and "int (length (dp_connections p)) < dp_maxConnections p"
  defines "p' \<equiv> p\<lparr>dp_connections := dp_connections p @
      [occupy now True (DataBaseConnection_new (dp_nextId p))], dp_nextId := Suc (dp_nextId p)\<rparr>"
  shows "pool_wf p'" and "dp_nextId p \<notin> set (busy p)"
    and "set (busy p') = insert (dp_nextId p) (set (busy p))" and "room p' = room p - 1"
proof -
  have new: "dc_id (DataBaseConnection_new (dp_nextId p)) = dp_nextId p"
    by (simp add: DataBaseConnection_new_def)
  show "pool_wf p'" using assms(1,2) new by (fastforce simp: p'_def pool_wf_def)
  show "dp_nextId p \<notin> set (busy p)" using assms(1) by (auto simp: busy_def pool_wf_def)
  show "set (busy p') = insert (dp_nextId p) (set (busy p))"
    using new by (auto simp: p'_def busy_def)
  show "room p' = room p - 1" using assms(2) by (simp add: p'_def room_def)
qed

lemma take_connection_inv:
  fixes now :: int
  assumes "pool_wf (ps_pool y)" and "\<not> dp_stopFlag (ps_pool y)"
    and "distinct (ps_held y)" and "set (ps_held y) = set (busy (ps_pool y))"
  defines "y' \<equiv> take_connection now True y"
  shows "pool_wf (ps_pool y') \<and> \<not> dp_stopFlag (ps_pool y')
     \<and> distinct (ps_held y') \<and> set (ps_held y') = set (busy (ps_pool y'))
     \<and> room (ps_pool y') = room (ps_pool y) - 1
     \<and> dp_signalled (ps_pool y') = dp_signalled (ps_pool y)
     \<and> (dp_blockQueue (ps_pool y') = dp_blockQueue (ps_pool y) \<or> room (ps_pool y') = 0)"
proof -
  let ?p = "ps_pool y"
  consider (free) i cs' where "occupy_first now (dp_connections ?p) = Some (i, cs')"
    | (full) "occupy_first now (dp_connections ?p) = None"
        "dp_maxConnections ?p \<le> int (length (dp_connections ?p))"
    | (new) "occupy_first now (dp_connections ?p) = None"
        "int (length (dp_connections ?p)) < dp_maxConnections ?p"
    by (cases "occupy_first now (dp_connections ?p)") force+
  then show ?thesis
  proof cases
    case free
    then show ?thesis
      using take_free[OF assms(1) free] assms(2-4)
      by (simp add: y'_def take_connection_def getConnection_def)
  next
    case full
    then have "room ?p = 0" by (simp add: room_def occupy_first_None filter_empty_conv)
    then show ?thesis
      using full assms(1-4)
      by (auto simp: y'_def take_connection_def getConnection_def pool_wf_def busy_def room_def
          filter_empty_conv less_Suc_eq)
  next
    case new
    then show ?thesis
      using take_created[OF assms(1) new(2)] assms(2-4)
      by (simp add: y'_def take_connection_def getConnection_def)
  qed
qed

lemma held_mem:
  assumes "sys_inv y" and "i \<in> set (ps_held y)"
  obtains c where "c \<in> set (dp_connections (ps_pool y))" "dc_id c = i" "dc_isOccupy c"
  using assms by (auto simp: sys_inv_def busy_def)

lemma release_inv:
  fixes now :: int
  assumes "pool_wf p" and "c \<in> set (dp_connections p)" and "dc_isOccupy c"
  defines "p' \<equiv> release now (dc_id c) p"
  shows "pool_wf p'" and "set (busy p') = set (busy p) - {dc_id c}" and "room p' = Suc (room p)"
proof -
  have d: "distinct (map dc_id (dp_connections p))" using assms(1) by (simp add: pool_wf_def)
  note f = filter_map_update[OF d assms(2,3), of now]
  have same: "dc_id \<circ> (\<lambda>x. if dc_id x = dc_id c then (recycle \<circ> setQueryTime now) x else x) = dc_id"
    by auto
  show "pool_wf p'"
    using assms(1) by (auto simp: p'_def release_def update_connection_def pool_wf_def same)
  show "set (busy p') = set (busy p) - {dc_id c}"
    using f(1) by (simp add: p'_def release_def update_connection_def busy_def del: map_map filter_map)
  show "room p' = Suc (room p)"
    using f(2) by (simp add: p'_def release_def update_connection_def room_def del: map_map filter_map)
qed

lemma find_by_id:
  assumes "distinct (map dc_id cs)" and "c \<in> set cs"
  shows "find (\<lambda>x. dc_id x = dc_id c) cs = Some c"
  using assms by (induction cs) auto

lemma remove_inv:
  assumes "pool_wf p" and "c \<in> set (dp_connections p)" and "dc_isOccupy c"
    and "int (length (dp_connections p)) \<le> dp_maxConnections p"
  defines "p' \<equiv> removeConnection (dc_id c) p"
  shows "pool_wf p'" and "set (busy p') = set (busy p) - {dc_id c}" and "room p' = Suc (room p)"
proof -
  have d: "distinct (map dc_id (dp_connections p))" using assms(1) by (simp add: pool_wf_def)
  have dc: "distinct (dp_connections p)" using d by (simp add: distinct_map)
  have p': "dp_connections p' = remove1 c (dp_connections p)"
    using find_by_id[OF d assms(2)] by (simp add: p'_def removeConnection_def)
  have "distinct (map dc_id (remove1 c (dp_connections p)))"
    using d by (auto simp: distinct_map dc intro: inj_on_subset)
  then show "pool_wf p'"
    using assms(1,2) p' notin_set_remove1
    by (auto simp: pool_wf_def p'_def removeConnection_def length_remove1)
  have sub: "x \<in> set (dp_connections p) \<Longrightarrow> dc_id x = dc_id c \<Longrightarrow> x = c" for x
    using d assms(2) by (auto simp: distinct_map inj_on_def)
  show "set (busy p') = set (busy p) - {dc_id c}"
    using sub by (auto simp: busy_def p' set_remove1_eq[OF dc])
  have "length (filter (\<lambda>c. \<not> dc_isOccupy c) (remove1 c (dp_connections p)))
      = length (filter (\<lambda>c. \<not> dc_isOccupy c) (dp_connections p))"
    using assms(3) by (simp add: filter_remove1 remove1_idem)
  moreover obtain n where "length (dp_connections p) = Suc n"
    using assms(2) by (cases "dp_connections p") auto
  moreover have "dp_maxConnections p' = dp_maxConnections p"
    by (simp add: p'_def removeConnection_def)
  ultimately show "room p' = Suc (room p)"
    using assms(2,4) p' by (simp add: room_def length_remove1)
qed

lemma sys_inv_step: "pool_step y y' \<Longrightarrow> sys_inv y \<Longrightarrow> sys_inv y'"
proof (induction rule: pool_step.induct)
  case (get y now)
  then show ?case
    using take_connection_inv[of y now] by (auto simp: sys_inv_def)
next
  case (retry b y now)
  let ?woken = "y\<lparr>ps_pool := (ps_pool y)\<lparr>dp_signalled := remove1 b (dp_signalled (ps_pool y))\<rparr>\<rparr>"
  have w: "pool_wf (ps_pool ?woken)" "busy (ps_pool ?woken) = busy (ps_pool y)"
    "room (ps_pool ?woken) = room (ps_pool y)"
    using retry(2) by (simp_all add: sys_inv_def pool_wf_def busy_def room_def)
  have "length (dp_signalled (ps_pool y)) > 0" using retry(1) by (cases "dp_signalled (ps_pool y)") auto
  then show ?case
    using take_connection_inv[of ?woken now] w retry by (auto simp: sys_inv_def length_remove1)
next
  case (giveback i y now)
  from held_mem[OF giveback(2,1)] obtain c where
    c: "c \<in> set (dp_connections (ps_pool y))" "dc_id c = i" "dc_isOccupy c" .
  have "pool_wf (ps_pool y)" using giveback(2) by (simp add: sys_inv_def)
  from release_inv[OF this c(1,3), of now] giveback(2) show ?case
    by (auto simp: sys_inv_def c(2) release_def set_remove1_eq)
next
  case (broken i y)
  from held_mem[OF broken(2,1)] obtain c where
    c: "c \<in> set (dp_connections (ps_pool y))" "dc_id c = i" "dc_isOccupy c" .
  have wf: "pool_wf (ps_pool y)" using broken(2) by (simp add: sys_inv_def)
  have "dp_connections (ps_pool y) \<noteq> []" using c(1) by auto
  then have "int (length (dp_connections (ps_pool y))) \<le> dp_maxConnections (ps_pool y)"
    using wf by (auto simp: pool_wf_def max_def split: if_splits)
  from remove_inv[OF wf c(1,3) this] broken(2) show ?case
    by (auto simp: sys_inv_def c(2) removeConnection_def set_remove1_eq)
qed

lemma sys_inv_reachable:
  assumes "pool_step\<^sup>*\<^sup>* \<lparr>ps_pool = DataBasePool_new keep mx, ps_held = []\<rparr> y"
  shows "sys_inv y"
  using assms
proof (induction rule: rtranclp_induct)
  case base
  show ?case by (simp add: sys_inv_def DataBasePool_new_def pool_wf_def busy_def)
next
  case (step y z)
  then show ?case by (blast intro: sys_inv_step)
qed

lemma maxConnections_step:
  "pool_step y y' \<Longrightarrow> dp_maxConnections (ps_pool y') = dp_maxConnections (ps_pool y)"
  by (induction rule: pool_step.induct)
    (auto simp: take_connection_def getConnection_def release_def removeConnection_def Let_def
      split: option.splits prod.splits)

lemma maxConnections_reachable:
  "pool_step\<^sup>*\<^sup>* y y' \<Longrightarrow> dp_maxConnections (ps_pool y') = dp_maxConnections (ps_pool y)"
  by (induction rule: rtranclp_induct) (simp_all add: maxConnections_step)

lemma onTimer_scan_occupied:
  "\<forall>c \<in> set it. dc_isOccupy c \<Longrightarrow> length it < fuel \<Longrightarrow>
     onTimer_scan fuel now it test q = Some (test, q)"
proof (induction fuel arbitrary: it)
  case (Suc n)
  then show ?case by (cases it) auto
qed simp

lemma onTimer_scan_free:
  "\<exists>c \<in> set it. \<not> dc_isOccupy c \<Longrightarrow> onTimer_scan fuel now it test q = None"
proof (induction fuel arbitrary: it test q)
  case (Suc n)
  then show ?case by (cases it) auto
qed simp

section \<open>Properties\<close>

text \<open>C27: However callers take, return and drop connections of a pool, a connection is never
  handed to two callers at once, what the pool marks as occupied is exactly what callers
  hold, and the pool never has more connections than its maximum.\<close>
theorem pool_exclusive_and_bounded:
  assumes "pool_step\<^sup>*\<^sup>* \<lparr>ps_pool = DataBasePool_new keep mx, ps_held = []\<rparr> y"
  shows "distinct (ps_held y) \<and> set (ps_held y) = set (busy (ps_pool y))
     \<and> distinct (map dc_id (dp_connections (ps_pool y)))
     \<and> int (length (dp_connections (ps_pool y))) \<le> max 0 mx"
  using sys_inv_reachable[OF assms] maxConnections_reachable[OF assms]
  by (simp add: sys_inv_def pool_wf_def DataBasePool_new_def)

theorem pool_exclusive_and_bounded_witness:
  "let y = take_connection 7 True (take_connection 5 True
             \<lparr>ps_pool = DataBasePool_new 1 2, ps_held = []\<rparr>)
   in ps_held y = [1, 0] \<and> distinct (ps_held y) \<and> length (dp_connections (ps_pool y)) = 2"
proof -
  let ?start = "\<lparr>ps_pool = DataBasePool_new 1 2, ps_held = []\<rparr>"
  have "pool_step\<^sup>*\<^sup>* ?start (take_connection 7 True (take_connection 5 True ?start))"
    by (meson pool_step.get rtranclp.rtrancl_into_rtrancl rtranclp.rtrancl_refl)
  from pool_exclusive_and_bounded[OF this] show ?thesis
    by (simp add: Let_def take_connection_def getConnection_def DataBasePool_new_def
        DataBaseConnection_new_def occupy_def)
qed



text \<open>The maintenance timer of a running pool never does its job. If some connection is
  free, its loop goes on for ever, whatever number of rounds it is given; if none is, it
  ends up using a null connection (from the thirty-first second of the epoch on).\<close>
theorem pool_timer_never_returns:
  assumes "\<not> dp_stopFlag p" and "30 < now"
  shows "if (\<exists>c \<in> set (dp_connections p). \<not> dc_isOccupy c)
         then DataBasePool_onTimer fuel now p = None
         else DataBasePool_onTimer (Suc (length (dp_connections p)) + fuel) now p
                = Some NullDereference"
  using assms onTimer_scan_free onTimer_scan_occupied
  by (auto simp: DataBasePool_onTimer_def onTimerImpl_def simp del: onTimer_scan.simps)

theorem pool_timer_never_returns_witness:
  "DataBasePool_onTimer 1000 1000 ((DataBasePool_new 1 2)\<lparr>dp_connections := [DataBaseConnection_new 0]\<rparr>)
     = None"
  using pool_timer_never_returns
    [of "(DataBasePool_new 1 2)\<lparr>dp_connections := [DataBaseConnection_new 0]\<rparr>" 1000 1000]
  by (simp add: DataBasePool_new_def DataBaseConnection_new_def del: onTimer_scan.simps)

end
