(* ===== verification/Redis_Pool.thy ===== *)
theory Redis_Pool
  imports Database_Pool Base_Utils
begin

text \<open>
  The Redis client, \<open>Redis/RedisPool.cpp\<close>: every operation takes a connection from the pool,
  sends one command, evaluates the reply and gives the connection back or drops it.

  The Redis server and hiredis are parameters: \<open>re_command\<close> takes the words of a command and
  returns the reply (\<open>None\<close> for a null pointer), the error of the context after it and the
  new state of the server; \<open>re_connect\<close> tells whether a context could be had. An operation
  \<open>Waits\<close> when the pool has no connection left, as \<open>getConnection\<close> of the theory of pools
  says. Strings hold no NUL characters. The predicates \<open>redis_hash_ok\<close> and \<open>redis_key_ok\<close>
  state the documented meaning of the commands the properties rely on.
\<close>

section \<open>hiredis\<close>

datatype redisReply =
  REPLY_STATUS string
| REPLY_ERROR string
| REPLY_STRING string
| REPLY_INTEGER int
| REPLY_NIL
| REPLY_ARRAY "redisReply list"
| REPLY_SET "redisReply list"

datatype redis_err = ERR_NONE | ERR_IO | ERR_EOF | ERR_TIMEOUT | ERR_OTHER

record 'r redis_env =
  re_connect :: "'r \<Rightarrow> bool \<times> 'r"
  re_command :: "string list \<Rightarrow> 'r \<Rightarrow> redisReply option \<times> redis_err \<times> 'r"
  re_password :: string
  re_database :: int

fun split_words :: "string \<Rightarrow> string \<Rightarrow> string list" where
  \<comment> \<open>how \<open>redisCommand\<close> cuts a command line without format directives into words\<close>
  "split_words w [] = (if w = [] then [] else [w])"
| "split_words w (c # cs) =
     (if c = CHR '' '' then (if w = [] then [] else [w]) @ split_words [] cs
      else split_words (w @ [c]) cs)"

fun atoll_digits :: "int \<Rightarrow> string \<Rightarrow> int" where
  "atoll_digits acc [] = acc"
| "atoll_digits acc (c # cs) =
     (let d = (of_char c :: nat) in
      if 48 \<le> d \<and> d \<le> 57 then atoll_digits (10 * acc + int (d - 48)) cs else acc)"

definition atoll :: "string \<Rightarrow> int" where
  "atoll s =
     (case dropWhile (\<lambda>c. c = CHR '' '' \<or> (9 \<le> (of_char c :: nat) \<and> (of_char c :: nat) \<le> 13)) s of
        [] \<Rightarrow> 0
      | c # cs \<Rightarrow>
          if c = CHR ''-'' then - atoll_digits 0 cs
          else if c = CHR ''+'' then atoll_digits 0 cs
          else atoll_digits 0 (c # cs))"

section \<open>Connections\<close>

record 'r RedisPoolImpl =
  rp_pool :: DataBasePool
  rp_server :: 'r

datatype 'a redis_result = Waits | Returns 'a

definition isOk :: "redisReply option \<Rightarrow> bool" where
  "isOk reply = (reply = Some (REPLY_STATUS ''OK''))"

definition failed :: "redisReply option \<Rightarrow> bool" where
  \<comment> \<open>the reply is null or of type error\<close>
  "failed reply = (case reply of None \<Rightarrow> True | Some (REPLY_ERROR _) \<Rightarrow> True | Some _ \<Rightarrow> False)"

definition redis_createConnection :: "'r redis_env \<Rightarrow> 'r \<Rightarrow> bool \<times> 'r" where
  "redis_createConnection e r =
     (let (ok, r1) = re_connect e r in
      if \<not> ok then (False, r1)
      else let (test, r2) =
             (if re_password e \<noteq> []
              then let (reply, _, r') = re_command e [''AUTH'', re_password e] r1
                   in (failed reply, r')
              else (False, r1))
           in if test then (False, r2)
              else let (reply, _, r3) = re_command e [''SELECT'', int_to_string (re_database e)] r2
                   in (\<not> failed reply, r3))"

definition getConnectionEx ::
  "'r redis_env \<Rightarrow> int \<Rightarrow> 'r RedisPoolImpl \<Rightarrow> conn_result \<times> 'r RedisPoolImpl" where
  "getConnectionEx e now st =
     (let (c, p, r) = getConnection (redis_createConnection e) now (rp_pool st) (rp_server st)
      in (c, \<lparr>rp_pool = p, rp_server = r\<rparr>))"

definition redis_checkConnection ::
  "int \<Rightarrow> nat \<Rightarrow> bool \<Rightarrow> redis_err \<Rightarrow> DataBasePool \<Rightarrow> DataBasePool" where
  "redis_checkConnection now con flag err p =
     (if flag \<and> err \<in> {ERR_IO, ERR_EOF, ERR_TIMEOUT} then removeConnection con p
      else release now con p)"

definition getValue :: "redisReply \<Rightarrow> string option" where
  "getValue reply =
     (case reply of
        REPLY_STRING s \<Rightarrow> Some s
      | REPLY_INTEGER i \<Rightarrow> Some (int_to_string i)
      | _ \<Rightarrow> None)"

section \<open>The three shapes of operations\<close>

definition redis_run ::
  "'r redis_env \<Rightarrow> int \<Rightarrow> string list \<Rightarrow> 'a \<Rightarrow> (redisReply option \<Rightarrow> 'a) \<Rightarrow> 'r RedisPoolImpl
     \<Rightarrow> 'a redis_result \<times> 'r RedisPoolImpl" where
  \<comment> \<open>take a connection (\<open>none\<close> when there is none), send \<open>args\<close>, evaluate the reply, and let
      \<open>checkConnection\<close> give the connection back; all operations set \<open>flag\<close> exactly when the
      reply is null or an error\<close>
  "redis_run e now args none eval st =
     (case getConnectionEx e now st of
        (Blocked b, st1) \<Rightarrow> (Waits, st1)
      | (NoConnection, st1) \<Rightarrow> (Returns none, st1)
      | (Connection con, st1) \<Rightarrow>
          (let (reply, err, r) = re_command e args (rp_server st1)
           in (Returns (eval reply),
               \<lparr>rp_pool = redis_checkConnection now con (failed reply) err (rp_pool st1),
                rp_server = r\<rparr>)))"

definition eval_write :: "redisReply option \<Rightarrow> bool" where
  "eval_write reply = (\<not> failed reply)"

definition eval_value :: "redisReply option \<Rightarrow> string option" where
  "eval_value reply = (if failed reply then None else getValue (the reply))"

definition eval_array :: "bool \<Rightarrow> string list \<Rightarrow> redisReply option \<Rightarrow> string list option" where
  \<comment> \<open>\<open>old\<close> is the content of the caller's vector, which a single value is appended to;
      \<open>sets\<close>: a reply of type set is accepted, too\<close>
  "eval_array sets old reply =
     (if failed reply then None
      else case the reply of
             REPLY_ARRAY xs \<Rightarrow> Some (List.map_filter getValue xs)
           | REPLY_SET xs \<Rightarrow> if sets then Some (List.map_filter getValue xs) else None
           | v \<Rightarrow> map_option (\<lambda>s. old @ [s]) (getValue v))"

definition eval_flag :: "redisReply option \<Rightarrow> bool option" where
  "eval_flag reply = map_option (\<lambda>s. s = ''1'') (eval_value reply)"

section \<open>Operations\<close>

definition redis_get where
  "redis_get e now key = redis_run e now [''GET'', key] None eval_value"

definition redis_set where
  "redis_set e now key value = redis_run e now [''SET'', key, value] False eval_write"

definition redis_hget where
  "redis_hget e now key field = redis_run e now [''HGET'', key, field] None eval_value"

definition redis_hset where
  "redis_hset e now key field value =
     redis_run e now [''HSET'', key, field, value] False eval_write"

definition redis_hexists where
  "redis_hexists e now key field = redis_run e now [''HEXISTS'', key, field] None eval_flag"

definition redis_hkeys where
  "redis_hkeys e now key flds = redis_run e now [''HKEYS'', key] None (eval_array True flds)"

definition redis_del where
  "redis_del e now key = redis_run e now [''DEL'', key] False eval_write"

definition redis_hdel where
  "redis_hdel e now key field = redis_run e now [''HDEL'', key, field] False eval_write"

definition sadd_line :: "string \<Rightarrow> string \<Rightarrow> string list \<Rightarrow> string" where
  "sadd_line cmd key values = cmd @ '' '' @ key @ concat (map (\<lambda>v. '' '' @ v) values)"

definition redis_sadd where
  "redis_sadd e now key values =
     redis_run e now (split_words [] (sadd_line ''SADD'' key values)) False eval_write"

definition redis_sremove where
  "redis_sremove e now key values =
     redis_run e now (split_words [] (sadd_line ''SREM'' key values)) False eval_write"

definition redis_sismember where
  "redis_sismember e now key value = redis_run e now [''SISMEMBER'', key, value] None eval_flag"

definition redis_smembers where
  "redis_smembers e now key values =
     redis_run e now [''SMEMBERS'', key] None (eval_array True values)"

definition redis_expire where
  "redis_expire e now key sec =
     redis_run e now [''EXPIRE'', key, int_to_string sec] False eval_write"

definition redis_expireAt where
  "redis_expireAt e now key timeStamp =
     redis_run e now [''EXPIREAT'', key, int_to_string timeStamp] False eval_write"

definition redis_incrBy where
  "redis_incrBy e now key delta =
     redis_run e now [''INCRBY'', key, int_to_string delta] False eval_write"

definition redis_hincrBy where
  "redis_hincrBy e now key field delta =
     redis_run e now [''HINCRBY'', key, field, int_to_string delta] False eval_write"

definition redis_rpush where
  "redis_rpush e now key value = redis_run e now [''RPUSH'', key, value] False eval_write"

definition redis_rpushv where
  "redis_rpushv e now key arr st =
     (if arr = [] then (Returns True, st)
      else redis_run e now (''RPUSH'' # key # arr) False eval_write st)"

definition redis_lpush where
  "redis_lpush e now key value = redis_run e now [''LPUSH'', key, value] False eval_write"

definition redis_lpushv where
  "redis_lpushv e now key arr st =
     (if arr = [] then (Returns True, st)
      else redis_run e now (''LPUSH'' # key # arr) False eval_write st)"

definition redis_lrange where
  "redis_lrange e now key arr =
     redis_run e now [''LRANGE'', key, ''0'', ''-1''] None (eval_array False arr)"

definition redis_persist where
  "redis_persist e now key = redis_run e now [''PERSIST'', key] False eval_write"

section \<open>Integer overloads\<close>

definition map_result :: "('a \<Rightarrow> 'b) \<Rightarrow> 'a redis_result \<times> 's \<Rightarrow> 'b redis_result \<times> 's" where
  "map_result f x = (case x of (Waits, s) \<Rightarrow> (Waits, s) | (Returns a, s) \<Rightarrow> (Returns (f a), s))"

definition redis_get_int where
  "redis_get_int e now key st = map_result (map_option atoll) (redis_get e now key st)"

definition redis_set_int where
  "redis_set_int e now key value st = redis_set e now key (int_to_string value) st"

definition redis_hget_int where
  "redis_hget_int e now key field st = map_result (map_option atoll) (redis_hget e now key field st)"

definition redis_hset_int where
  "redis_hset_int e now key field value st = redis_hset e now key field (int_to_string value) st"

definition redis_rpush_int where
  "redis_rpush_int e now key value st = redis_rpush e now key (int_to_string value) st"

definition redis_rpushv_int where
  "redis_rpushv_int e now key arr st =
     (if arr = [] then (Returns True, st) else redis_rpushv e now key (map int_to_string arr) st)"

definition redis_lpush_int where
  "redis_lpush_int e now key value st = redis_lpush e now key (int_to_string value) st"

definition redis_lpushv_int where
  "redis_lpushv_int e now key arr st =
     (if arr = [] then (Returns True, st) else redis_lpushv e now key (map int_to_string arr) st)"

definition redis_lrange_int where
  "redis_lrange_int e now key st = map_result (map_option (map atoll)) (redis_lrange e now key [] st)"

definition redis_onTimerImpl where
  \<comment> \<open>the ping of an idle connection, which the caller has occupied\<close>
  "redis_onTimerImpl e now con st =
     (let (reply, err, r) = re_command e [''PING''] (rp_server st)
      in \<lparr>rp_pool = redis_checkConnection now con (failed reply) err (rp_pool st), rp_server = r\<rparr>)"

section \<open>The singleton\<close>

type_synonym 'r RedisPool = "'r RedisPoolImpl option"

definition RedisPool_start :: "int \<Rightarrow> int \<Rightarrow> 'r \<Rightarrow> 'r RedisPool \<Rightarrow> 'r RedisPool" where
  "RedisPool_start keep mx r impl =
     (case impl of
        Some i \<Rightarrow> Some i
      | None \<Rightarrow> Some \<lparr>rp_pool = DataBasePool_new keep mx, rp_server = r\<rparr>)"

definition RedisPool_stop :: "'r RedisPool \<Rightarrow> 'r RedisPool" where
  "RedisPool_stop impl = None"

definition RedisPool_via ::
  "('r RedisPoolImpl \<Rightarrow> 'a redis_result \<times> 'r RedisPoolImpl) \<Rightarrow> 'r RedisPool
     \<Rightarrow> ('a redis_result \<times> 'r RedisPool) option" where
  \<comment> \<open>every method of \<open>RedisPool\<close> calls its namesake through \<open>_impl\<close>; \<open>None\<close>: null pointer\<close>
  "RedisPool_via f impl =
     (case impl of
        None \<Rightarrow> None
      | Some i \<Rightarrow> let (a, i') = f i in Some (a, Some i'))"

definition RedisPool_sadd_one where
  "RedisPool_sadd_one e now key value impl = RedisPool_via (redis_sadd e now key [value]) impl"

definition RedisPool_sremove_one where
  "RedisPool_sremove_one e now key value impl = RedisPool_via (redis_sremove e now key [value]) impl"

section \<open>Documented behaviour of the server\<close>

definition redis_key_ok ::
  "(string list \<Rightarrow> 'r \<Rightarrow> redisReply option \<times> redis_err \<times> 'r) \<Rightarrow> ('r \<Rightarrow> string \<Rightarrow> string option) \<Rightarrow> bool"
where
  \<comment> \<open>SET stores, GET returns what is stored, both may fail\<close>
  "redis_key_ok cmd kv \<longleftrightarrow>
     (\<forall>k v r. case cmd [''SET'', k, v] r of (reply, err, r') \<Rightarrow>
        \<not> failed reply \<longrightarrow> kv r' = (kv r)(k \<mapsto> v))
   \<and> (\<forall>k r. case cmd [''GET'', k] r of (reply, err, r') \<Rightarrow>
        kv r' = kv r \<and>
        (\<not> failed reply \<longrightarrow>
           reply = Some (case kv r k of None \<Rightarrow> REPLY_NIL | Some v \<Rightarrow> REPLY_STRING v)))"

definition redis_hash_ok ::
  "(string list \<Rightarrow> 'r \<Rightarrow> redisReply option \<times> redis_err \<times> 'r)
     \<Rightarrow> ('r \<Rightarrow> string \<Rightarrow> string \<Rightarrow> string option) \<Rightarrow> bool" where
  "redis_hash_ok cmd hs \<longleftrightarrow>
     (\<forall>k f v r. case cmd [''HSET'', k, f, v] r of (reply, err, r') \<Rightarrow>
        \<not> failed reply \<longrightarrow> hs r' = (hs r)(k := (hs r k)(f \<mapsto> v)))
   \<and> (\<forall>k f r. case cmd [''HGET'', k, f] r of (reply, err, r') \<Rightarrow>
        hs r' = hs r \<and>
        (\<not> failed reply \<longrightarrow>
           reply = Some (case hs r k f of None \<Rightarrow> REPLY_NIL | Some v \<Rightarrow> REPLY_STRING v)))"

definition redis_session_ok :: "'r redis_env \<Rightarrow> ('r \<Rightarrow> 'v) \<Rightarrow> bool" where
  \<comment> \<open>connecting, authenticating and selecting the database change no data\<close>
  "redis_session_ok e view \<longleftrightarrow>
     (\<forall>r. view (snd (re_connect e r)) = view r)
   \<and> (\<forall>c w r. c \<in> {''AUTH'', ''SELECT''} \<longrightarrow> view (snd (snd (re_command e [c, w] r))) = view r)"

fun demo_redis ::
  "string list \<Rightarrow> (string \<times> string \<Rightarrow> string option)
     \<Rightarrow> redisReply option \<times> redis_err \<times> (string \<times> string \<Rightarrow> string option)" where
  \<comment> \<open>a server that knows HSET and HGET\<close>
  "demo_redis [a, k, f, v] r = (Some (REPLY_INTEGER 1), ERR_NONE, r((k, f) \<mapsto> v))"
| "demo_redis [a, k, f] r =
     (Some (case r (k, f) of None \<Rightarrow> REPLY_NIL | Some v \<Rightarrow> REPLY_STRING v), ERR_NONE, r)"
| "demo_redis args r = (Some (REPLY_STATUS ''OK''), ERR_NONE, r)"

definition demo_env :: "(string \<times> string \<Rightarrow> string option) redis_env" where
  "demo_env = \<lparr>re_connect = (\<lambda>r. (True, r)), re_command = demo_redis, re_password = [],
     re_database = 0\<rparr>"

definition demo_impl :: "(string \<times> string \<Rightarrow> string option) RedisPoolImpl" where
  "demo_impl = \<lparr>rp_pool = DataBasePool_new 1 2, rp_server = (\<lambda>_. None)\<rparr>"

section \<open>The contract of a connection pool\<close>

locale conn_pool =
  fixes getc :: "('s \<Rightarrow> bool \<times> 's) \<Rightarrow> int \<Rightarrow> 'p \<Rightarrow> 's \<Rightarrow> conn_result \<times> 'p \<times> 's"
    and give :: "int \<Rightarrow> nat \<Rightarrow> 'p \<Rightarrow> 'p"
    and discard :: "nat \<Rightarrow> 'p \<Rightarrow> 'p"
    and held :: "'p \<Rightarrow> nat set"
    and good :: "'p \<Rightarrow> bool"
  assumes getc_good: "good p \<Longrightarrow> getc create now p s = (c, p', s') \<Longrightarrow> good p'"
    and getc_held: "good p \<Longrightarrow> getc create now p s = (c, p', s') \<Longrightarrow>
          (case c of Connection i \<Rightarrow> i \<notin> held p \<and> held p' = insert i (held p) | _ \<Rightarrow> held p' = held p)"
    and give_good: "good p \<Longrightarrow> i \<in> held p \<Longrightarrow> good (give now i p)"
    and give_held: "good p \<Longrightarrow> i \<in> held p \<Longrightarrow> held (give now i p) = held p - {i}"
    and discard_good: "good p \<Longrightarrow> i \<in> held p \<Longrightarrow> good (discard i p)"
    and discard_held: "good p \<Longrightarrow> i \<in> held p \<Longrightarrow> held (discard i p) = held p - {i}"
begin

lemma lease:
  assumes "good p" and "getc create now p s = (Connection i, p', s')"
  shows "good (give now' i p') \<and> held (give now' i p') = held p"
    and "good (discard i p') \<and> held (discard i p') = held p"
proof -
  have "i \<notin> held p" and h: "held p' = insert i (held p)" and g: "good p'"
    using getc_held[OF assms] getc_good[OF assms] by simp_all
  moreover have "i \<in> held p'" using h by simp
  ultimately show "good (give now' i p') \<and> held (give now' i p') = held p"
    and "good (discard i p') \<and> held (discard i p') = held p"
    by (simp_all add: give_good give_held discard_good discard_held)
qed

lemma no_lease:
  assumes "good p" and "getc create now p s = (c, p', s')" and "\<And>i. c \<noteq> Connection i"
  shows "good p' \<and> held p' = held p"
  using getc_held[OF assms(1,2)] getc_good[OF assms(1,2)] assms(3) by (auto split: conn_result.splits)

end

lemma getConnection_busy:
  assumes wf: "pool_wf p"
  shows "case getConnection create now p s of (c, p', s') \<Rightarrow>
    pool_wf p' \<and> (case c of Connection i \<Rightarrow> i \<notin> set (busy p)
      \<and> set (busy p') = insert i (set (busy p)) | _ \<Rightarrow> set (busy p') = set (busy p))"
proof -
  consider (stop) "dp_stopFlag p"
    | (free) i cs where "\<not> dp_stopFlag p" "occupy_first now (dp_connections p) = Some (i, cs)"
    | (blocked) "\<not> dp_stopFlag p" "occupy_first now (dp_connections p) = None"
        "dp_maxConnections p \<le> int (length (dp_connections p))"
    | (room) "\<not> dp_stopFlag p" "occupy_first now (dp_connections p) = None"
        "int (length (dp_connections p)) < dp_maxConnections p"
    by (cases "occupy_first now (dp_connections p)") force+
  then show ?thesis
  proof cases
    case stop
    then show ?thesis using wf by (simp add: getConnection_def)
  next
    case free
    then show ?thesis using take_free[OF wf free(2)] by (simp add: getConnection_def)
  next
    case blocked
    then show ?thesis
      using wf by (auto simp: getConnection_def pool_wf_def busy_def less_Suc_eq)
  next
    case room
    then show ?thesis
      using take_created[OF wf room(3)] wf by (cases "create s") (simp add: getConnection_def)
  qed
qed

interpretation db_pool: conn_pool getConnection release removeConnection "\<lambda>p. set (busy p)" pool_wf
proof unfold_locales
  fix create :: "'a \<Rightarrow> bool \<times> 'a" and now p s c p' s'
  assume wf: "pool_wf p" and g: "getConnection create now p s = (c, p', s')"
  show "pool_wf p'" and "case c of Connection i \<Rightarrow> i \<notin> set (busy p)
      \<and> set (busy p') = insert i (set (busy p)) | _ \<Rightarrow> set (busy p') = set (busy p)"
    using getConnection_busy[OF wf, of create now s] by (simp_all add: g)
next
  fix p i now
  assume wf: "pool_wf p" and "i \<in> set (busy p)"
  then obtain c where c: "c \<in> set (dp_connections p)" "dc_id c = i" "dc_isOccupy c"
    by (auto simp: busy_def)
  then have "int (length (dp_connections p)) \<le> dp_maxConnections p"
    using wf by (cases "dp_connections p") (auto simp: pool_wf_def max_def split: if_splits)
  with release_inv[OF wf c(1,3)] remove_inv[OF wf c(1,3)] c(2)
  show "pool_wf (release now i p)" and "set (busy (release now i p)) = set (busy p) - {i}"
    and "pool_wf (removeConnection i p)"
    and "set (busy (removeConnection i p)) = set (busy p) - {i}"
    by simp_all
qed

section \<open>Lemmas\<close>

lemma digit_char: "n < 10 \<Longrightarrow> (of_char (char_of (48 + n) :: char) :: nat) = 48 + n"
  by simp

lemma atoll_digits_step:
  "n < 10 \<Longrightarrow> atoll_digits acc (char_of (48 + n :: nat) # cs) = atoll_digits (10 * acc + int n) cs"
  by (simp add: Let_def)

lemma atoll_digits_append:
  "atoll_digits acc (nat_to_string n @ rest) =
     atoll_digits (acc * 10 ^ length (nat_to_string n) + int n) rest"
proof (induction n arbitrary: acc rest rule: nat_to_string.induct)
  case (1 n)
  show ?case
  proof (cases "n < 10")
    case True
    then show ?thesis
      by (simp add: nat_to_string.simps[of n] atoll_digits_step mult.commute del: atoll_digits.simps)
  next
    case False
    let ?d = "char_of (48 + n mod 10) :: char"
    have m: "n mod 10 < 10" by simp
    have s: "nat_to_string n = nat_to_string (n div 10) @ [?d]"
      using False by (simp add: nat_to_string.simps[of n])
    have "atoll_digits acc (nat_to_string n @ rest)
        = atoll_digits (acc * 10 ^ length (nat_to_string (n div 10)) + int (n div 10)) (?d # rest)"
      using 1[OF False, of acc "?d # rest"] by (simp add: s del: atoll_digits.simps)
    also have "\<dots> = atoll_digits
        (10 * (acc * 10 ^ length (nat_to_string (n div 10)) + int (n div 10)) + int (n mod 10)) rest"
      by (rule atoll_digits_step[OF m])
    also have "10 * (acc * 10 ^ length (nat_to_string (n div 10)) + int (n div 10)) + int (n mod 10)
        = acc * 10 ^ length (nat_to_string n) + int n"
      by (simp add: s algebra_simps zdiv_int zmod_int)
    finally show ?thesis .
  qed
qed

lemma nat_to_string_head:
  "\<exists>(d :: nat) ds. nat_to_string n = char_of (48 + d) # ds \<and> d < 10"
proof (induction n rule: nat_to_string.induct)
  case (1 n)
  show ?case
  proof (cases "n < 10")
    case True
    then have "nat_to_string n = char_of (48 + n) # []" by (simp add: nat_to_string.simps[of n])
    with True show ?thesis by blast
  next
    case False
    with 1 obtain d :: nat and ds where "nat_to_string (n div 10) = char_of (48 + d) # ds" "d < 10" by blast
    moreover from this have "nat_to_string n = char_of (48 + d) # ds @ [char_of (48 + n mod 10)]"
      using False by (simp add: nat_to_string.simps[of n])
    ultimately show ?thesis by blast
  qed
qed

lemma atoll_nat: "atoll (nat_to_string n) = int n"
proof -
  obtain d :: nat and ds where s: "nat_to_string n = char_of (48 + d) # ds" "d < 10"
    using nat_to_string_head by blast
  let ?c = "char_of (48 + d) :: char"
  have c: "(of_char ?c :: nat) = 48 + d" by (rule digit_char[OF s(2)])
  have "?c \<noteq> CHR '' ''" "?c \<noteq> CHR ''-''" "?c \<noteq> CHR ''+''" using c by force+
  then have "atoll (nat_to_string n) = atoll_digits 0 (nat_to_string n)"
    using c by (simp add: s(1) atoll_def)
  also have "\<dots> = int n" using atoll_digits_append[of 0 n "[]"] by simp
  finally show ?thesis .
qed

lemma atoll_int_to_string: "atoll (int_to_string i) = i"
proof (cases "i < 0")
  case True
  have "atoll_digits 0 (nat_to_string (nat (- i))) = int (nat (- i))"
    using atoll_digits_append[of 0 "nat (- i)" "[]"] by simp
  with True show ?thesis by (simp add: int_to_string_def atoll_def)
next
  case False
  then show ?thesis by (simp add: int_to_string_def atoll_nat)
qed

lemma split_words_space:
  "split_words w (xs @ CHR '' '' # ys) = split_words w xs @ split_words [] ys"
  by (induction w xs rule: split_words.induct) simp_all

lemma split_words_concat:
  "split_words w (xs @ concat (map ((#) CHR '' '') vs))
     = split_words w xs @ concat (map (split_words []) vs)"
proof (induction vs arbitrary: w xs)
  case (Cons v vs)
  show ?case
    using split_words_space[of w xs "v @ concat (map ((#) CHR '' '') vs)"] Cons.IH[of "[]" v] by simp
qed simp

lemma createConnection_view:
  assumes "redis_session_ok e view"
  shows "view (snd (redis_createConnection e r)) = view r"
  using assms
proof -
  have c: "view (snd (re_connect e r)) = view r" for r
    using assms by (simp add: redis_session_ok_def)
  have a: "view (snd (snd (re_command e [''AUTH'', w] r))) = view r"
    "view (snd (snd (re_command e [''SELECT'', w] r))) = view r" for w r
    using assms by (simp_all add: redis_session_ok_def)
  show ?thesis
    using c[of r] a by (simp add: redis_createConnection_def split_beta Let_def)
qed

lemma getConnectionEx_view:
  assumes "redis_session_ok e view"
  shows "view (rp_server (snd (getConnectionEx e now st))) = view (rp_server st)"
proof -
  note v = createConnection_view[OF assms, of "rp_server st"]
  show ?thesis
    using v by (simp add: getConnectionEx_def getConnection_def split_beta Let_def split: option.split)
qed

lemma redis_run_connected:
  assumes "getConnectionEx e now st = (Connection con, st1)"
  shows "fst (redis_run e now args none eval st)
      = Returns (eval (fst (re_command e args (rp_server st1))))"
    and "rp_server (snd (redis_run e now args none eval st))
      = snd (snd (re_command e args (rp_server st1)))"
    and "\<exists>flag err. rp_pool (snd (redis_run e now args none eval st))
      = redis_checkConnection now con flag err (rp_pool st1)"
  by (auto simp: redis_run_def assms split_beta)

lemma redis_run_lease:
  assumes "pool_wf (rp_pool st)"
  shows "pool_wf (rp_pool (snd (redis_run e now args none eval st)))
     \<and> set (busy (rp_pool (snd (redis_run e now args none eval st)))) = set (busy (rp_pool st))"
proof -
  obtain c p r where g: "getConnection (redis_createConnection e) now (rp_pool st) (rp_server st)
      = (c, p, r)" by (metis prod_cases3)
  then have gx: "getConnectionEx e now st = (c, \<lparr>rp_pool = p, rp_server = r\<rparr>)"
    by (simp add: getConnectionEx_def)
  show ?thesis
  proof (cases c)
    case (Connection i)
    obtain flag err where p: "rp_pool (snd (redis_run e now args none eval st))
        = redis_checkConnection now i flag err p"
      using redis_run_connected(3)[OF gx[unfolded Connection], of args none eval] by auto
    show ?thesis
      unfolding p redis_checkConnection_def
      using db_pool.lease[OF assms g[unfolded Connection]] by simp
  qed (use db_pool.no_lease[OF assms g] gx in \<open>simp_all add: redis_run_def\<close>)
qed

lemma redis_hash_okD:
  assumes "redis_hash_ok cmd hs"
  shows "\<not> failed (fst (cmd [''HSET'', k, f, v] r)) \<Longrightarrow>
      hs (snd (snd (cmd [''HSET'', k, f, v] r))) = (hs r)(k := (hs r k)(f \<mapsto> v))"
    and "\<not> failed (fst (cmd [''HGET'', k, f] r)) \<Longrightarrow>
      fst (cmd [''HGET'', k, f] r) = Some (case hs r k f of None \<Rightarrow> REPLY_NIL | Some v \<Rightarrow> REPLY_STRING v)"
  using assms by (simp_all add: redis_hash_ok_def split_beta)

lemma redis_write_true:
  assumes "redis_run e now args False eval_write st = (Returns True, st')"
  obtains con st1 where "getConnectionEx e now st = (Connection con, st1)"
    "\<not> failed (fst (re_command e args (rp_server st1)))"
    "rp_server st' = snd (snd (re_command e args (rp_server st1)))"
proof (cases "getConnectionEx e now st")
  case (Pair c st1)
  with assms obtain con where c: "c = Connection con"
    by (cases c) (simp_all add: redis_run_def)
  with Pair assms redis_run_connected[OF Pair[unfolded c], of args False eval_write] that show ?thesis
    by (simp add: eval_write_def)
qed

section \<open>Properties\<close>

text \<open>No Redis operation leaks or steals a connection: whatever the server answers, once
  the operation has returned (or the caller has begun to wait) the connections in use are
  exactly those that were in use before, and the pool is well formed.\<close>
theorem redis_operation_returns_connection:
  assumes "pool_wf (rp_pool st)"
  shows "case redis_run e now args none eval st of (res, st') \<Rightarrow>
     pool_wf (rp_pool st') \<and> set (busy (rp_pool st')) = set (busy (rp_pool st))"
  using redis_run_lease[OF assms] by (simp add: split_beta)

theorem redis_operation_returns_connection_witness:
  "set (busy (rp_pool (snd (redis_run demo_env 5 [''PING''] False eval_write demo_impl)))) = {}"
  using redis_operation_returns_connection[of demo_impl demo_env 5 "[''PING'']" False eval_write]
  by (simp add: split_beta demo_impl_def DataBasePool_new_def pool_wf_def busy_def)

text \<open>C32: An integer written with \<open>hset\<close> is read back unchanged with \<open>hget\<close>: when the write
  has returned true, a read of the same field that gets a connection and an answer returns
  exactly that integer, on any server that keeps hashes as documented.\<close>
theorem redis_hset_hget_int:
  assumes "redis_hash_ok (re_command e) hs" and "redis_session_ok e hs"
    and "redis_hset_int e t1 key field v st = (Returns True, st1)"
    and "getConnectionEx e t2 st1 = (Connection c, st2)"
    and "\<not> failed (fst (re_command e [''HGET'', key, field] (rp_server st2)))"
  shows "fst (redis_hget_int e t2 key field st1) = Returns (Some v)"
proof -
  from assms(3) obtain con st0 where w: "getConnectionEx e t1 st = (Connection con, st0)"
    "\<not> failed (fst (re_command e [''HSET'', key, field, int_to_string v] (rp_server st0)))"
    "rp_server st1 = snd (snd (re_command e [''HSET'', key, field, int_to_string v] (rp_server st0)))"
    unfolding redis_hset_int_def redis_hset_def by (rule redis_write_true)
  have "hs (rp_server st1) key field = Some (int_to_string v)"
    using redis_hash_okD(1)[OF assms(1) w(2)] w(3) by simp
  moreover have "hs (rp_server st2) = hs (rp_server st1)"
    using getConnectionEx_view[OF assms(2), of t2 st1] assms(4) by simp
  ultimately have "fst (re_command e [''HGET'', key, field] (rp_server st2))
      = Some (REPLY_STRING (int_to_string v))"
    using redis_hash_okD(2)[OF assms(1), of key field "rp_server st2"] assms(5) by simp
  then have "fst (redis_hget e t2 key field st1) = Returns (Some (int_to_string v))"
    unfolding redis_hget_def redis_run_connected(1)[OF assms(4)]
    by (simp add: eval_value_def failed_def getValue_def)
  then show ?thesis
    by (simp add: redis_hget_int_def map_result_def split_beta atoll_int_to_string split: prod.splits)
qed

lemma demo_connect:
  "getConnectionEx demo_env t demo_impl = (Connection 0,
     \<lparr>rp_pool = (DataBasePool_new 1 2)\<lparr>dp_connections :=
        [occupy t True (DataBaseConnection_new 0)], dp_nextId := 1\<rparr>, rp_server = (\<lambda>_. None)\<rparr>)"
  by (simp add: getConnectionEx_def getConnection_def demo_impl_def demo_env_def DataBasePool_new_def
      redis_createConnection_def failed_def)

theorem redis_hset_hget_int_witness:
  "fst (redis_hget_int demo_env 6 ''k'' ''f''
     (snd (redis_hset_int demo_env 5 ''k'' ''f'' (- 42) demo_impl))) = Returns (Some (- 42))"
proof -
  let ?st = "snd (redis_hset_int demo_env 5 ''k'' ''f'' (- 42) demo_impl)"
  have set: "redis_hset_int demo_env 5 ''k'' ''f'' (- 42) demo_impl = (Returns True, ?st)"
    by (simp add: redis_hset_int_def redis_hset_def redis_run_def demo_connect)
      (simp add: demo_env_def eval_write_def failed_def)
  have "dp_connections (rp_pool ?st) \<noteq> []" "\<not> dc_isOccupy (hd (dp_connections (rp_pool ?st)))"
    "\<not> dp_stopFlag (rp_pool ?st)"
    by (simp_all add: redis_hset_int_def redis_hset_def redis_run_def demo_connect)
      (simp_all add: demo_env_def failed_def redis_checkConnection_def release_def
        update_connection_def DataBasePool_new_def DataBaseConnection_new_def notifyOne_def occupy_def
        recycle_def setQueryTime_def)
  then obtain c st2 where get: "getConnectionEx demo_env 6 ?st = (Connection c, st2)"
    by (cases "dp_connections (rp_pool ?st)") (simp_all add: getConnectionEx_def getConnection_def)
  show ?thesis
    by (rule redis_hset_hget_int[where hs = "\<lambda>r k f. r (k, f)", OF _ _ set get])
      (auto simp: redis_hash_ok_def redis_session_ok_def demo_env_def failed_def fun_eq_iff
        split: option.splits)
qed

text \<open>\<open>sadd\<close> and \<open>sremove\<close> build a command line and let hiredis cut it at blanks, so what
  is sent is the words of the key and of the values: a value of one word is sent as it is,
  a value that contains blanks becomes several members and an empty value none.\<close>
theorem redis_sadd_sends_words:
  "redis_sadd e now key values =
     redis_run e now (''SADD'' # split_words [] key @ concat (map (split_words []) values))
       False eval_write
   \<and> redis_sremove e now key values =
     redis_run e now (''SREM'' # split_words [] key @ concat (map (split_words []) values))
       False eval_write"
  using split_words_concat[of "[]" "''SADD '' @ key"] split_words_concat[of "[]" "''SREM '' @ key"]
    split_words_space[of "[]" "''SADD''" key] split_words_space[of "[]" "''SREM''" key]
  by (simp add: redis_sadd_def redis_sremove_def sadd_line_def)

end
