(* ===== verification/Security.thy ===== *)
theory Security
  imports Redis_Pool
begin

text \<open>
  \<open>Network/SecurityManager.cpp\<close>: the record of abnormal behaviour per remote address, the
  temporary black list and its synchronisation between servers.

  The clock is a parameter of each operation (\<open>BaseUtils::getCurrentSecond\<close>). Redis is
  reached through the operations of the Redis client; \<open>None\<close> means that the caller waits
  for a connection. Messages published to the fan-out exchange are collected in
  \<open>sm_published\<close> as the type and the JSON object, which is also what \<open>handlerMessage\<close> of
  the other servers receives.
\<close>

section \<open>State\<close>

definition IP_BLACKLIST :: string where
  "IP_BLACKLIST = ''ip_blacklist''"

datatype json = JString string | JInt int

type_synonym json_object = "(string, json) umap"

record SecurityManager =
  sm_abnormalRecords :: "(string, int list) umap"
  sm_blackLists :: "(string, int) umap"
  sm_initFlag :: bool
  sm_fanoutExchange :: string
  sm_consumerTag :: string
  sm_published :: "(string \<times> json_object) list"

definition SecurityManager_new :: SecurityManager where
  "SecurityManager_new =
     \<lparr>sm_abnormalRecords = [], sm_blackLists = [], sm_initFlag = False, sm_fanoutExchange = [],
      sm_consumerTag = [], sm_published = []\<rparr>"

section \<open>Operations\<close>

definition AbnormalBehavior :: "int \<Rightarrow> int list \<Rightarrow> bool \<times> int list" where
  \<comment> \<open>the method of \<open>AbnormalRecord\<close>\<close>
  "AbnormalBehavior nowTime ts =
     (let ts' = dropWhile (\<lambda>t. nowTime - t > 3) ts @ [nowTime] in (length ts' > 19, ts'))"

definition Add2BlackList :: "string \<Rightarrow> int \<Rightarrow> SecurityManager \<Rightarrow> SecurityManager" where
  "Add2BlackList remoteIp timestamp sm =
     sm\<lparr>sm_blackLists := um_put remoteIp timestamp (sm_blackLists sm)\<rparr>"

definition removeFromBlacklist :: "string \<Rightarrow> SecurityManager \<Rightarrow> SecurityManager" where
  "removeFromBlacklist remoteIp sm = sm\<lparr>sm_blackLists := um_erase remoteIp (sm_blackLists sm)\<rparr>"

definition getRecord :: "string \<Rightarrow> bool \<Rightarrow> SecurityManager \<Rightarrow> int list option \<times> SecurityManager" where
  "getRecord remoteIp createIfNotExist sm =
     (case um_find (sm_abnormalRecords sm) remoteIp of
        Some rec \<Rightarrow> (Some rec, sm)
      | None \<Rightarrow>
          if createIfNotExist
          then (Some [], sm\<lparr>sm_abnormalRecords := um_insert remoteIp [] (sm_abnormalRecords sm)\<rparr>)
          else (None, sm))"

definition getTimeStramp :: "string \<Rightarrow> SecurityManager \<Rightarrow> int option" where
  "getTimeStramp remoteIp sm = um_find (sm_blackLists sm) remoteIp"

definition publishJson :: "string \<Rightarrow> json_object \<Rightarrow> SecurityManager \<Rightarrow> SecurityManager" where
  \<comment> \<open>the call of \<open>RabbitmqClient::publishJson\<close> on the fan-out exchange\<close>
  "publishJson msgType obj sm = sm\<lparr>sm_published := sm_published sm @ [(msgType, obj)]\<rparr>"

definition rbind ::
  "'a redis_result \<times> 's \<Rightarrow> ('a \<Rightarrow> 's \<Rightarrow> 'b option) \<Rightarrow> 'b option" where
  "rbind x f = (case x of (Waits, _) \<Rightarrow> None | (Returns a, s) \<Rightarrow> f a s)"

definition abnormalBehavior ::
  "'r redis_env \<Rightarrow> int \<Rightarrow> string \<Rightarrow> SecurityManager \<times> 'r RedisPoolImpl
     \<Rightarrow> (SecurityManager \<times> 'r RedisPoolImpl) option" where
  "abnormalBehavior e nowTime remoteIp = (\<lambda>(sm, st).
     case getRecord remoteIp True sm of
       (None, sm1) \<Rightarrow> None
     | (Some rec, sm1) \<Rightarrow>
         let (over, rec') = AbnormalBehavior nowTime rec;
             sm2 = sm1\<lparr>sm_abnormalRecords := um_put remoteIp rec' (sm_abnormalRecords sm1)\<rparr>
         in if \<not> over then Some (sm2, st)
            else let sm3 = Add2BlackList remoteIp nowTime sm2 in
                 rbind (redis_hset_int e nowTime IP_BLACKLIST remoteIp nowTime st) (\<lambda>_ st'.
                   if sm_fanoutExchange sm3 = [] then Some (sm3, st')
                   else Some (publishJson ''MsgIpBlacklistAdd''
                          [(''remoteIp'', JString remoteIp), (''timestramp'', JInt nowTime)] sm3, st')))"

definition checkBlackList ::
  "'r redis_env \<Rightarrow> int \<Rightarrow> string \<Rightarrow> SecurityManager \<times> 'r RedisPoolImpl
     \<Rightarrow> (bool \<times> SecurityManager \<times> 'r RedisPoolImpl) option" where
  "checkBlackList e nowtime remoteIp = (\<lambda>(sm, st).
     case getTimeStramp remoteIp sm of
       None \<Rightarrow> Some (False, sm, st)
     | Some timestramp \<Rightarrow>
         if nowtime - timestramp < 300 then Some (True, sm, st)
         else rbind (redis_hdel e nowtime IP_BLACKLIST remoteIp st) (\<lambda>_ st'.
                Some (True, publishJson ''MsgIpBlacklistRemove'' [(''removeIp'', JString remoteIp)]
                        (removeFromBlacklist remoteIp sm), st')))"

definition handlerMessage :: "string \<Rightarrow> json_object \<Rightarrow> SecurityManager \<Rightarrow> SecurityManager" where
  "handlerMessage msgType obj sm =
     (let test = (if msgType = ''MsgIpBlacklistAdd'' then 1
                  else if msgType = ''MsgIpBlacklistRemove'' then 2 else (0 :: nat)) in
      if test = 0 then sm
      else case um_find obj ''remoteIp'' of
             Some (JString remoteIp) \<Rightarrow>
               if test = 1
               then (case um_find obj ''timestamp'' of
                       Some (JInt timestramp) \<Rightarrow> Add2BlackList remoteIp timestramp sm
                     | _ \<Rightarrow> sm)
               else removeFromBlacklist remoteIp sm
           | _ \<Rightarrow> sm)"

fun init_fields ::
  "'r redis_env \<Rightarrow> int \<Rightarrow> string list \<Rightarrow> SecurityManager \<times> 'r RedisPoolImpl
     \<Rightarrow> (SecurityManager \<times> 'r RedisPoolImpl) option" where
  \<comment> \<open>the loop of \<open>init\<close> over the addresses stored in Redis\<close>
  "init_fields e nowTime [] (sm, st) = Some (sm, st)"
| "init_fields e nowTime (ip # ips) (sm, st) =
     rbind (redis_hget_int e nowTime IP_BLACKLIST ip st) (\<lambda>ts st1.
       case ts of
         None \<Rightarrow> init_fields e nowTime ips (sm, st1)
       | Some timestramp \<Rightarrow>
           if nowTime - timestramp > 300
           then rbind (redis_hdel e nowTime IP_BLACKLIST ip st1) (\<lambda>_ st2. init_fields e nowTime ips (sm, st2))
           else init_fields e nowTime ips (Add2BlackList ip timestramp sm, st1))"

definition SecurityManager_init ::
  "'r redis_env \<Rightarrow> int \<Rightarrow> string \<Rightarrow> string \<Rightarrow> SecurityManager \<times> 'r RedisPoolImpl
     \<Rightarrow> (SecurityManager \<times> 'r RedisPoolImpl) option" where
  \<comment> \<open>without the registration of the message handler at the end\<close>
  "SecurityManager_init e nowTime fanoutExchange consumerTag = (\<lambda>(sm, st).
     if sm_initFlag sm then Some (sm, st)
     else let sm1 = sm\<lparr>sm_fanoutExchange := fanoutExchange, sm_consumerTag := consumerTag,
                       sm_initFlag := True\<rparr> in
          rbind (redis_hkeys e nowTime IP_BLACKLIST [] st) (\<lambda>flds st1.
            init_fields e nowTime (case flds of None \<Rightarrow> [] | Some xs \<Rightarrow> xs) (sm1, st1)))"

section \<open>Vocabulary of the properties\<close>

fun behave :: "int list \<Rightarrow> int list \<Rightarrow> int list" where
  \<comment> \<open>the record after abnormal behaviour at the given times\<close>
  "behave rec [] = rec"
| "behave rec (t # ts) = behave (snd (AbnormalBehavior t rec)) ts"

definition record_of :: "string \<Rightarrow> SecurityManager \<Rightarrow> int list" where
  "record_of ip sm = (case um_find (sm_abnormalRecords sm) ip of None \<Rightarrow> [] | Some rec \<Rightarrow> rec)"

fun misbehave ::
  "'r redis_env \<Rightarrow> string \<Rightarrow> int list \<Rightarrow> SecurityManager \<times> 'r RedisPoolImpl \<Rightarrow> (SecurityManager \<times> 'r RedisPoolImpl) option" where
  \<comment> \<open>abnormal behaviour of an address at the given times\<close>
  "misbehave e ip [] s = Some s"
| "misbehave e ip (t # ts) s = (case abnormalBehavior e t ip s of None \<Rightarrow> None | Some s' \<Rightarrow> misbehave e ip ts s')"

section \<open>Lemmas\<close>

lemma behave_append: "behave rec (xs @ ys) = behave (behave rec xs) ys"
  by (induction rec xs rule: behave.induct) simp_all

lemma dropWhile_sorted_filter:
  "sorted ts \<Longrightarrow> dropWhile (\<lambda>t. now - t > 3) ts = filter (\<lambda>t. now - t \<le> 3) ts" for now :: int
proof (induction ts)
  case (Cons t ts)
  show ?case
  proof (cases "now - t > 3")
    case False
    with Cons.prems have "\<forall>x \<in> set ts. now - x \<le> 3" by auto
    with False show ?thesis by (simp add: filter_id_conv)
  qed (use Cons in simp)
qed simp

lemma behave_window:
  "sorted ts \<Longrightarrow> ts \<noteq> [] \<Longrightarrow> behave [] ts = filter (\<lambda>t. last ts - t \<le> 3) ts"
proof (induction ts rule: rev_induct)
  case (snoc t ts)
  show ?case
  proof (cases ts)
    case Nil
    then show ?thesis by (simp add: AbnormalBehavior_def)
  next
    case (Cons a as)
    have s: "sorted ts" "\<forall>x \<in> set ts. x \<le> t" using snoc.prems by (simp_all add: sorted_append)
    then have l: "last ts \<le> t" using Cons by simp
    have "behave [] ts = filter (\<lambda>x. last ts - x \<le> 3) ts" using snoc.IH s Cons by simp
    then have "behave [] (ts @ [t]) = filter (\<lambda>x. t - x \<le> 3) (filter (\<lambda>x. last ts - x \<le> 3) ts) @ [t]"
      using s(1) by (simp add: behave_append AbnormalBehavior_def Let_def dropWhile_sorted_filter
          sorted_filter[of id, simplified])
    also have "filter (\<lambda>x. t - x \<le> 3) (filter (\<lambda>x. last ts - x \<le> 3) ts) = filter (\<lambda>x. t - x \<le> 3) ts"
      using l by (auto simp: filter_filter intro!: filter_cong)
    finally show ?thesis by simp
  qed
qed simp

lemma abnormalBehavior_over:
  assumes "fst (AbnormalBehavior nowTime (case um_find (sm_abnormalRecords sm) ip of None \<Rightarrow> [] | Some rec \<Rightarrow> rec))"
    and "abnormalBehavior e nowTime ip (sm, st) = Some (sm', st')"
  shows "sm_blackLists sm' = um_put ip nowTime (sm_blackLists sm)"
  using assms
  by (auto simp: abnormalBehavior_def getRecord_def rbind_def Add2BlackList_def publishJson_def Let_def
      split: option.splits prod.splits if_splits redis_result.splits)

lemma abnormalBehavior_record:
  assumes "abnormalBehavior e nowTime ip (sm, st) = Some (sm', st')"
  shows "record_of ip sm' = snd (AbnormalBehavior nowTime (record_of ip sm))"
  using assms
  by (auto simp: record_of_def abnormalBehavior_def getRecord_def rbind_def Add2BlackList_def publishJson_def Let_def
      container_simps split: option.splits prod.splits if_splits redis_result.splits)

lemma misbehave_append:
  "misbehave e ip (xs @ ys) s = (case misbehave e ip xs s of None \<Rightarrow> None | Some s' \<Rightarrow> misbehave e ip ys s')"
  by (induction xs arbitrary: s) (simp_all split: option.split)

lemma misbehave_record:
  "misbehave e ip ts (sm, st) = Some (sm', st') \<Longrightarrow> record_of ip sm' = behave (record_of ip sm) ts"
  by (induction ts arbitrary: sm st) (auto simp: abnormalBehavior_record split: option.splits)

lemma AbnormalBehavior_over: "fst (AbnormalBehavior now rec) \<longleftrightarrow> 20 \<le> length (snd (AbnormalBehavior now rec))"
  by (auto simp: AbnormalBehavior_def Let_def)

lemma flood_listed:
  assumes "misbehave e ip ts (sm, st) = Some (sm', st')" and "um_find (sm_abnormalRecords sm) ip = None"
    and "sorted ts" and "20 \<le> length (filter (\<lambda>t. last ts - t \<le> 3) ts)"
  shows "getTimeStramp ip sm' = Some (last ts)"
proof -
  have ne: "ts \<noteq> []" using assms(4) by auto
  define xs t where "xs = butlast ts" and "t = last ts"
  have ts: "ts = xs @ [t]" using ne by (simp add: xs_def t_def)
  obtain sm1 st1 where m: "misbehave e ip xs (sm, st) = Some (sm1, st1)"
    and a: "abnormalBehavior e t ip (sm1, st1) = Some (sm', st')"
    using assms(1) by (auto simp: ts misbehave_append split: option.splits)
  have "record_of ip sm1 = behave [] xs" using misbehave_record[OF m] assms(2) by (simp add: record_of_def)
  then have "snd (AbnormalBehavior t (record_of ip sm1)) = behave [] ts" by (simp add: ts behave_append)
  then have "fst (AbnormalBehavior t (record_of ip sm1))"
    using AbnormalBehavior_over[of t "record_of ip sm1"] behave_window[OF assms(3) ne] assms(4) by simp
  then show ?thesis
    using abnormalBehavior_over[OF _ a] by (simp add: record_of_def getTimeStramp_def container_simps t_def)
qed

lemma listed_refused:
  "getTimeStramp ip sm = Some t \<Longrightarrow> now < t + 300 \<Longrightarrow> checkBlackList e now ip (sm, st) = Some (True, sm, st)"
  by (simp add: checkBlackList_def)

lemma abnormalBehavior_frame:
  assumes "abnormalBehavior e nowTime ip (sm, st) = Some (sm', st')" and "ip' \<noteq> ip"
  shows "getTimeStramp ip' sm' = getTimeStramp ip' sm"
    and "um_find (sm_abnormalRecords sm') ip' = um_find (sm_abnormalRecords sm) ip'"
  using assms
  by (auto simp: abnormalBehavior_def getRecord_def rbind_def Add2BlackList_def publishJson_def Let_def
      getTimeStramp_def container_simps split: option.splits prod.splits if_splits redis_result.splits)

lemma abnormalBehavior_published:
  assumes "abnormalBehavior e now ip (sm, st) = Some (sm', st')"
  shows "sm_published sm' = sm_published sm \<or>
    sm_published sm' = sm_published sm @ [(''MsgIpBlacklistAdd'',
       [(''remoteIp'', JString ip), (''timestramp'', JInt now)])]"
  using assms
  by (auto simp: abnormalBehavior_def getRecord_def rbind_def Add2BlackList_def publishJson_def Let_def
      split: option.splits prod.splits if_splits redis_result.splits)

lemma checkBlackList_published:
  assumes "checkBlackList e now ip (sm, st) = Some (r, sm', st')"
  shows "sm_published sm' = sm_published sm \<or>
    sm_published sm' = sm_published sm @ [(''MsgIpBlacklistRemove'', [(''removeIp'', JString ip)])]"
  using assms
  by (auto simp: checkBlackList_def rbind_def publishJson_def removeFromBlacklist_def
      split: option.splits prod.splits if_splits redis_result.splits)

lemma handlerMessage_ignores:
  "handlerMessage ''MsgIpBlacklistAdd'' [(''remoteIp'', JString ip), (''timestramp'', JInt t)] sm = sm"
  "handlerMessage ''MsgIpBlacklistRemove'' [(''removeIp'', JString ip)] sm = sm"
  by (simp_all add: handlerMessage_def)

section \<open>Properties\<close>

text \<open>The threshold is what the comment promises: for abnormal behaviour at times that do
  not run backwards, the record reports an excess exactly when, counting the present one,
  at least twenty of the occurrences lie within the last three seconds.\<close>
theorem abnormal_threshold:
  assumes "sorted (ts @ [now])"
  shows "fst (AbnormalBehavior now (behave [] ts))
     \<longleftrightarrow> 20 \<le> length (filter (\<lambda>t. now - t \<le> 3) (ts @ [now]))"
proof -
  have "snd (AbnormalBehavior now (behave [] ts)) = behave [] (ts @ [now])"
    by (simp add: behave_append)
  also have "\<dots> = filter (\<lambda>t. now - t \<le> 3) (ts @ [now])" using behave_window[OF assms] by simp
  finally show ?thesis by (auto simp: AbnormalBehavior_def Let_def)
qed

theorem abnormal_threshold_witness:
  "fst (AbnormalBehavior 13 (behave [] (replicate 19 (10::int)))) \<longleftrightarrow>
     20 \<le> length (filter (\<lambda>t. 13 - t \<le> 3) (replicate 19 (10::int) @ [13]))"
  by (rule abnormal_threshold) (simp add: sorted_append)

text \<open>An address whose abnormal behaviour exceeds the threshold is refused for the next
  five minutes, whatever else the server checks; no other address is affected.\<close>
theorem blacklisted_for_five_minutes:
  assumes "abnormalBehavior e t ip (sm, st) = Some (sm', st')"
    and "fst (AbnormalBehavior t (case um_find (sm_abnormalRecords sm) ip of None \<Rightarrow> [] | Some rec \<Rightarrow> rec))"
    and "now < t + 300"
  shows "checkBlackList e now ip (sm', st') = Some (True, sm', st')
     \<and> (\<forall>ip'. ip' \<noteq> ip \<longrightarrow> getTimeStramp ip' sm' = getTimeStramp ip' sm)"
  using abnormalBehavior_over[OF assms(2,1)] abnormalBehavior_frame(1)[OF assms(1)] assms(3)
  by (simp add: checkBlackList_def getTimeStramp_def container_simps)

theorem blacklisted_for_five_minutes_witness:
  "let sm = SecurityManager_new\<lparr>sm_abnormalRecords := [(''1.2.3.4'', replicate 19 10)]\<rparr>;
       (sm', st') = the (abnormalBehavior demo_env 12 ''1.2.3.4'' (sm, demo_impl))
   in checkBlackList demo_env 100 ''1.2.3.4'' (sm', st') = Some (True, sm', st')"
proof -
  let ?sm = "SecurityManager_new\<lparr>sm_abnormalRecords := [(''1.2.3.4'', replicate 19 10)]\<rparr>"
  have over: "fst (AbnormalBehavior 12 (replicate 19 10))"
    by (simp add: AbnormalBehavior_def numeral_eq_Suc)
  obtain sm' st' where r: "abnormalBehavior demo_env 12 ''1.2.3.4'' (?sm, demo_impl) = Some (sm', st')"
    using over
    by (simp add: abnormalBehavior_def getRecord_def SecurityManager_new_def rbind_def
        redis_hset_int_def redis_hset_def redis_run_def demo_connect split_beta Let_def Add2BlackList_def)
  show ?thesis
    using blacklisted_for_five_minutes[OF r, of 100] over unfolding Let_def r
    by (simp add: SecurityManager_new_def)
qed

text \<open>When the five minutes are over, the first check lifts the ban but still answers that
  the address is banned; only the check after it lets the address in.\<close>
theorem expired_ban_refused_once_more:
  assumes "getTimeStramp ip sm = Some t" and "t + 300 \<le> now"
    and "checkBlackList e now ip (sm, st) = Some (r, sm', st')"
  shows "r \<and> getTimeStramp ip sm' = None
     \<and> checkBlackList e now' ip (sm', st') = Some (False, sm', st')"
proof -
  from assms have "r" and "getTimeStramp ip sm' = None"
    by (auto simp: checkBlackList_def rbind_def getTimeStramp_def removeFromBlacklist_def
        publishJson_def container_simps split: prod.splits redis_result.splits)
  then show ?thesis by (simp add: checkBlackList_def)
qed

theorem expired_ban_refused_once_more_witness:
  "let sm = SecurityManager_new\<lparr>sm_blackLists := [(''1.2.3.4'', 10)]\<rparr>;
       (r, sm', st') = the (checkBlackList demo_env 310 ''1.2.3.4'' (sm, demo_impl))
   in r \<and> checkBlackList demo_env 311 ''1.2.3.4'' (sm', st') = Some (False, sm', st')"
proof -
  let ?sm = "SecurityManager_new\<lparr>sm_blackLists := [(''1.2.3.4'', 10)]\<rparr>"
  have g: "getTimeStramp ''1.2.3.4'' ?sm = Some 10" by (simp add: getTimeStramp_def)
  obtain r sm' st' where c: "checkBlackList demo_env 310 ''1.2.3.4'' (?sm, demo_impl) = Some (r, sm', st')"
    by (simp add: checkBlackList_def g rbind_def redis_hdel_def redis_run_def demo_connect split_beta)
  show ?thesis
    using expired_ban_refused_once_more[OF g _ c, of 311] by (simp add: c)
qed

text \<open>The broadcasts have no effect on the other servers: whatever a server publishes while
  it adds an address to its black list or lifts a ban leaves the state of a server that
  receives the message unchanged, because the fields are read under other names than they
  are written.\<close>
theorem broadcasts_are_ignored:
  "(abnormalBehavior e now ip (sm, st) = Some (sm', st') \<longrightarrow>
      (\<forall>(mt, obj) \<in> set (drop (length (sm_published sm)) (sm_published sm')).
         handlerMessage mt obj peer = peer))
   \<and> (checkBlackList e now ip (sm, st) = Some (r, sm', st') \<longrightarrow>
      (\<forall>(mt, obj) \<in> set (drop (length (sm_published sm)) (sm_published sm')).
         handlerMessage mt obj peer = peer))"
proof (intro conjI impI)
  assume "abnormalBehavior e now ip (sm, st) = Some (sm', st')"
  from abnormalBehavior_published[OF this]
  show "\<forall>(mt, obj) \<in> set (drop (length (sm_published sm)) (sm_published sm')).
      handlerMessage mt obj peer = peer"
    by (elim disjE) (simp_all add: handlerMessage_ignores)
next
  assume "checkBlackList e now ip (sm, st) = Some (r, sm', st')"
  from checkBlackList_published[OF this]
  show "\<forall>(mt, obj) \<in> set (drop (length (sm_published sm)) (sm_published sm')).
      handlerMessage mt obj peer = peer"
    by (elim disjE) (simp_all add: handlerMessage_ignores)
qed

theorem broadcasts_are_ignored_witness:
  "let sm = SecurityManager_new\<lparr>sm_blackLists := [(''1.2.3.4'', 10)]\<rparr>;
       (r, sm', st') = the (checkBlackList demo_env 310 ''1.2.3.4'' (sm, demo_impl))
   in length (sm_published sm') = 1 \<and> (\<forall>(mt, obj) \<in> set (sm_published sm'). handlerMessage mt obj sm = sm)"
proof -
  let ?sm = "SecurityManager_new\<lparr>sm_blackLists := [(''1.2.3.4'', 10)]\<rparr>"
  have g: "getTimeStramp ''1.2.3.4'' ?sm = Some 10" by (simp add: getTimeStramp_def)
  obtain r sm' st' where c: "checkBlackList demo_env 310 ''1.2.3.4'' (?sm, demo_impl) = Some (r, sm', st')"
    and n: "length (sm_published sm') = Suc (length (sm_published ?sm))"
    by (simp add: checkBlackList_def g rbind_def redis_hdel_def redis_run_def demo_connect split_beta
        publishJson_def removeFromBlacklist_def)
  have "\<forall>(mt, obj) \<in> set (drop (length (sm_published ?sm)) (sm_published sm')). handlerMessage mt obj ?sm = ?sm"
    using broadcasts_are_ignored[of demo_env 310 "''1.2.3.4''" ?sm demo_impl sm' st' ?sm r] c by blast
  then show ?thesis using n unfolding Let_def c by (simp add: SecurityManager_new_def)
qed

end
