(* ===== verification/Sessions.thy ===== *)
theory Sessions
  imports Message Security
begin

text \<open>
  Network sessions, \<open>Network/Session.cpp\<close> and \<open>Network/MsgSession.cpp\<close>: what a connection
  delivers is fed to the MessagePack unpacker, every object that comes out is turned into a
  message and pushed to the first handler that receives its type; senders on the black list
  are ignored and malformed data is recorded as abnormal behaviour.

  The unpacker (a third-party library) is a parameter: \<open>up_feed\<close> appends received bytes,
  \<open>up_next\<close> yields the next object, \<open>up_reset\<close> drops what is buffered, \<open>up_convert\<close> reads an
  object as a \<open>MsgWrapper\<close> (\<open>None\<close> when it throws). A weak pointer to a connection is its
  number, looked up among the connections that still exist.
\<close>

section \<open>Sessions\<close>

record ConnView =
  cv_id :: string
  cv_closed :: bool

record Session =
  se_connection :: nat
  se_remoteIp :: string
  se_valid :: bool

definition Session_new :: "nat \<Rightarrow> string \<Rightarrow> Session" where
  "Session_new con remoteIp = \<lparr>se_connection = con, se_remoteIp = remoteIp, se_valid = True\<rparr>"

definition Session_getId :: "(nat, ConnView) umap \<Rightarrow> 'z Session_scheme \<Rightarrow> string \<Rightarrow> string" where
  \<comment> \<open>the string parameter keeps its value when the connection is gone\<close>
  "Session_getId cons s id0 = (case um_find cons (se_connection s) of None \<Rightarrow> id0 | Some c \<Rightarrow> cv_id c)"

definition Session_onDisconnect :: "'z Session_scheme \<Rightarrow> 'z Session_scheme" where
  "Session_onDisconnect s = s\<lparr>se_valid := False\<rparr>"

definition Session_isAlive :: "(nat, ConnView) umap \<Rightarrow> 'z Session_scheme \<Rightarrow> bool" where
  "Session_isAlive cons s =
     (case um_find cons (se_connection s) of None \<Rightarrow> False | Some c \<Rightarrow> \<not> cv_closed c)"

section \<open>Message sessions\<close>

record 'u MsgSession = Session +
  md_unpacker :: 'u
  md_handlers :: "nat list"
  md_handlerSN :: int
  md_heartbeatValid :: int
  md_heartbeat :: int

definition MsgSession_new :: "'u \<Rightarrow> int \<Rightarrow> nat \<Rightarrow> string \<Rightarrow> int \<Rightarrow> 'u MsgSession" where
  "MsgSession_new u now con remoteIp heartbeatValid =
     \<lparr>se_connection = con, se_remoteIp = remoteIp, se_valid = True, md_unpacker = u,
      md_handlers = [], md_handlerSN = 0, md_heartbeatValid = heartbeatValid, md_heartbeat = now\<rparr>"

definition synchronizeHandlers :: "('m, 'c) MessageManager \<Rightarrow> 'u MsgSession \<Rightarrow> 'u MsgSession" where
  "synchronizeHandlers mm s =
     (if mm_handlerSN mm \<noteq> md_handlerSN s
      then s\<lparr>md_handlers := getAllHandlers mm, md_handlerSN := mm_handlerSN mm\<rparr> else s)"

definition MsgSession_heartbeat :: "int \<Rightarrow> 'u MsgSession \<Rightarrow> 'u MsgSession" where
  "MsgSession_heartbeat now s = s\<lparr>md_heartbeat := now\<rparr>"

definition isTimeOut :: "int \<Rightarrow> 'u MsgSession \<Rightarrow> bool" where
  "isTimeOut nowTime s =
     (if md_heartbeatValid s < 1 then False
      else if nowTime - md_heartbeat s < md_heartbeatValid s then True else False)"

definition MsgSession_isAlive :: "(nat, ConnView) umap \<Rightarrow> int \<Rightarrow> 'u MsgSession \<Rightarrow> bool" where
  "MsgSession_isAlive cons nowTime s =
     (if \<not> Session_isAlive cons s then False
      else if isTimeOut nowTime s then False else True)"

fun push_first ::
  "nat list \<Rightarrow> 'm NetMessage \<Rightarrow> ('m, 'c) MessageManager \<Rightarrow> ('m, 'c) MessageManager option" where
  \<comment> \<open>the loop of \<open>pushMsg\<close>; \<open>None\<close>: the chosen handler has no queue\<close>
  "push_first [] msg mm = Some mm"
| "push_first (h # hs) msg mm =
     (case um_find (mm_store mm) h of
        None \<Rightarrow> push_first hs msg mm
      | Some handler \<Rightarrow>
          if isReceive (Some msg) handler
          then map_option (\<lambda>x. mm\<lparr>mm_store := um_put h x (mm_store mm)\<rparr>)
                 (MessageHandler_push (Some msg) handler)
          else push_first hs msg mm)"

definition pushMsg ::
  "'m NetMessage \<Rightarrow> 'u MsgSession \<times> ('m, 'c) MessageManager
     \<Rightarrow> ('u MsgSession \<times> ('m, 'c) MessageManager) option" where
  "pushMsg msg = (\<lambda>(s, mm).
     let s' = synchronizeHandlers mm s
     in map_option (\<lambda>mm'. (s', mm')) (push_first (md_handlers s') msg mm))"

datatype 'o unpacked = Next 'o | NoMore | Throws

record ('u, 'o) unpacker =
  up_feed :: "string \<Rightarrow> 'u \<Rightarrow> 'u"
  up_next :: "'u \<Rightarrow> 'o unpacked \<times> 'u"
  up_reset :: "'u \<Rightarrow> 'u"
  up_convert :: "'o \<Rightarrow> MsgWrapper option"

definition MsgSessionData_next :: "('u, 'o) unpacker \<Rightarrow> 'u MsgSession \<Rightarrow> 'o option \<times> 'u MsgSession" where
  "MsgSessionData_next up s =
     (case up_next up (md_unpacker s) of
        (Next x, u) \<Rightarrow> (Some x, s\<lparr>md_unpacker := u\<rparr>)
      | (NoMore, u) \<Rightarrow> (None, s\<lparr>md_unpacker := u\<rparr>)
      | (Throws, u) \<Rightarrow> (None, s\<lparr>md_unpacker := up_reset up u\<rparr>))"

type_synonym ('u, 'm, 'c, 'r) net_state =
  "'u MsgSession \<times> ('m, 'c) MessageManager \<times> SecurityManager \<times> 'r RedisPoolImpl"

definition record_abnormal ::
  "'r redis_env \<Rightarrow> int \<Rightarrow> bool \<Rightarrow> ('u, 'm, 'c, 'r) net_state \<Rightarrow> ('u, 'm, 'c, 'r) net_state option" where
  \<comment> \<open>\<open>if (test) { test = false; abnormalBehavior(remoteIp); }\<close>\<close>
  "record_abnormal e now test = (\<lambda>(s, mm, sm, st).
     if test
     then map_option (\<lambda>(sm', st'). (s, mm, sm', st')) (abnormalBehavior e now (se_remoteIp s) (sm, st))
     else Some (s, mm, sm, st))"

fun receive_loop ::
  "nat \<Rightarrow> ('u, 'o) unpacker \<Rightarrow> ('c \<Rightarrow> MsgWrapper \<Rightarrow> 'm option) \<Rightarrow> 'r redis_env \<Rightarrow> int \<Rightarrow> nat
     \<Rightarrow> bool \<Rightarrow> ('u, 'm, 'c, 'r) net_state \<Rightarrow> ('u, 'm, 'c, 'r) net_state option" where
  \<comment> \<open>the loop of \<open>onReceive\<close>; \<open>self\<close> is the session's own number\<close>
  "receive_loop 0 up deser e now self test st0 = None"
| "receive_loop (Suc n) up deser e now self test (s, mm, sm, st) =
     (case MsgSessionData_next up s of
        (None, s1) \<Rightarrow> Some (s1, mm, sm, st)
      | (Some obj, s1) \<Rightarrow>
          (case up_convert up obj of
             None \<Rightarrow>
               map_option (\<lambda>(s2, mm', sm', st'). (s2\<lparr>md_unpacker := up_reset up (md_unpacker s2)\<rparr>, mm', sm', st'))
                 (record_abnormal e now test (s1, mm, sm, st))
           | Some wrapper \<Rightarrow>
               (case createMessage deser (Some wrapper) mm of
                  Some msg \<Rightarrow>
                    (case pushMsg \<lparr>nm_type = mw_msgType wrapper, nm_session = Some self, nm_msg = Some msg\<rparr> (s1, mm) of
                       None \<Rightarrow> None
                     | Some (s2, mm') \<Rightarrow> receive_loop n up deser e now self test (s2, mm', sm, st))
                | None \<Rightarrow>
                    (case record_abnormal e now test (s1, mm, sm, st) of
                       None \<Rightarrow> None
                     | Some x \<Rightarrow> receive_loop n up deser e now self False x))))"

definition MsgSession_onReceive ::
  "nat \<Rightarrow> ('u, 'o) unpacker \<Rightarrow> ('c \<Rightarrow> MsgWrapper \<Rightarrow> 'm option) \<Rightarrow> 'r redis_env \<Rightarrow> int \<Rightarrow> nat
     \<Rightarrow> string \<Rightarrow> ('u, 'm, 'c, 'r) net_state \<Rightarrow> ('u, 'm, 'c, 'r) net_state option" where
  "MsgSession_onReceive fuel up deser e now self buf = (\<lambda>(s, mm, sm, st).
     if buf = [] then Some (s, mm, sm, st)
     else case checkBlackList e now (se_remoteIp s) (sm, st) of
            None \<Rightarrow> None
          | Some (True, sm', st') \<Rightarrow> Some (s, mm, sm', st')
          | Some (False, sm', st') \<Rightarrow>
              receive_loop fuel up deser e now self True
                (s\<lparr>md_unpacker := up_feed up buf (md_unpacker s)\<rparr>, mm, sm', st'))"

definition MsgSession_onDisconnect ::
  "(nat, ConnView) umap \<Rightarrow> 'm \<Rightarrow> (string \<Rightarrow> 'm \<Rightarrow> 'm) \<Rightarrow> 'u MsgSession \<times> ('m, 'c) MessageManager
     \<Rightarrow> ('u MsgSession \<times> ('m, 'c) MessageManager) option" where
  \<comment> \<open>\<open>blank\<close> is a new \<open>MsgDisconnect\<close>, \<open>setSessionId\<close> its setter\<close>
  "MsgSession_onDisconnect cons blank setSessionId = (\<lambda>(s, mm).
     let s1 = Session_onDisconnect s; sessionId = Session_getId cons s1 []
     in pushMsg \<lparr>nm_type = ''MsgDisconnect'', nm_session = None,
                 nm_msg = Some (setSessionId sessionId blank)\<rparr> (s1, mm))"

section \<open>Vocabulary of the properties\<close>

definition receivers :: "('m, 'c) MessageManager \<Rightarrow> 'm NetMessage \<Rightarrow> nat list" where
  "receivers mm msg = filter (\<lambda>h. case um_find (mm_store mm) h of
     None \<Rightarrow> False | Some x \<Rightarrow> isReceive (Some msg) x) (mm_handlers mm)"

definition queue_of :: "('m, 'c) MessageManager \<Rightarrow> nat \<Rightarrow> 'm MessageQueue option" where
  "queue_of mm h = (case um_find (mm_store mm) h of None \<Rightarrow> None | Some x \<Rightarrow> mh_msgQueue x)"

definition cache_ok :: "('m, 'c) MessageManager \<Rightarrow> 'u MsgSession \<Rightarrow> bool" where
  "cache_ok mm s \<longleftrightarrow> md_handlerSN s \<le> mm_handlerSN mm
     \<and> (md_handlerSN s = mm_handlerSN mm \<longrightarrow> md_handlers s = mm_handlers mm)"

definition demo_mm :: "(nat, nat) MessageManager" where
  "demo_mm = \<lparr>mm_creatorMap = [], mm_handlers = [0, 1], mm_handlerSN = 2, mm_store =
     [(0, \<lparr>mh_msgQueue = Some [], mh_receiveMessages = [''a''], mh_worker = None\<rparr>),
      (1, \<lparr>mh_msgQueue = Some [], mh_receiveMessages = [''b'', ''a''], mh_worker = None\<rparr>)]\<rparr>"

section \<open>Lemmas\<close>

lemma cache_ok_new: "cache_ok \<lparr>mm_creatorMap = [], mm_handlers = [], mm_handlerSN = 0, mm_store = []\<rparr>
    (MsgSession_new u now con ip hb)"
  by (simp add: cache_ok_def MsgSession_new_def)

lemma cache_ok_ops:
  assumes "cache_ok mm s"
  shows "cache_ok (registHandler h mm) s" and "cache_ok (unregisterHandler ho mm) s"
    and "cache_ok mm (synchronizeHandlers mm s)" and "md_handlers (synchronizeHandlers mm s) = mm_handlers mm"
  using assms
  by (auto simp: cache_ok_def registHandler_def unregisterHandler_def synchronizeHandlers_def
      getAllHandlers_def split: option.splits)

lemma push_first_spec:
  "push_first hs msg mm =
     (case filter (\<lambda>h. case um_find (mm_store mm) h of None \<Rightarrow> False | Some x \<Rightarrow> isReceive (Some msg) x) hs of
        [] \<Rightarrow> Some mm
      | h # _ \<Rightarrow> (case um_find (mm_store mm) h of None \<Rightarrow> None | Some x \<Rightarrow>
          map_option (\<lambda>x. mm\<lparr>mm_store := um_put h x (mm_store mm)\<rparr>) (MessageHandler_push (Some msg) x)))"
  by (induction hs) (auto split: option.splits)

lemma record_abnormal_other:
  assumes "record_abnormal e now test (s, mm, sm, st) = Some (s', mm', sm', st')"
    and "ip \<noteq> se_remoteIp s"
  shows "getTimeStramp ip sm' = getTimeStramp ip sm"
  using assms abnormalBehavior_frame(1) by (fastforce simp: record_abnormal_def split: if_splits)

section \<open>Properties\<close>

text \<open>A message is delivered to exactly one queue: the session's copy of the handler list is
  brought up to date, the first registered handler that receives the type of the message
  gets it at the end of its queue, and every other queue stays as it is; if no handler
  receives the type, no queue changes.\<close>
theorem pushMsg_delivers_once:
  assumes "cache_ok mm s" and "pushMsg msg (s, mm) = Some (s', mm')"
  shows "cache_ok mm' s' \<and>
    (case receivers mm msg of
       [] \<Rightarrow> \<forall>h. queue_of mm' h = queue_of mm h
     | h # _ \<Rightarrow> (\<exists>q. queue_of mm h = Some q \<and> queue_of mm' h = Some (q @ [Some msg]))
         \<and> (\<forall>h'. h' \<noteq> h \<longrightarrow> queue_of mm' h' = queue_of mm h'))"
proof -
  have h: "md_handlers (synchronizeHandlers mm s) = mm_handlers mm"
    and c: "cache_ok mm (synchronizeHandlers mm s)"
    using cache_ok_ops[OF assms(1)] by simp_all
  from assms(2) have s': "s' = synchronizeHandlers mm s"
    and p: "push_first (mm_handlers mm) msg mm = Some mm'" by (auto simp: pushMsg_def h)
  note ps = p[unfolded push_first_spec, folded receivers_def]
  show ?thesis
  proof (cases "receivers mm msg")
    case Nil
    then show ?thesis using ps s' c by simp
  next
    case (Cons h hs)
    then have "h \<in> set (receivers mm msg)" by simp
    then obtain x where x: "um_find (mm_store mm) h = Some x"
      by (auto simp: receivers_def split: option.splits)
    with ps Cons obtain q where q: "mh_msgQueue x = Some q"
      "mm' = mm\<lparr>mm_store := um_put h (x\<lparr>mh_msgQueue := Some (q @ [Some msg])\<rparr>) (mm_store mm)\<rparr>"
      by (auto simp: MessageHandler_push_def MessageQueue_push_def split: option.splits)
    then show ?thesis
      using x Cons s' c by (auto simp: queue_of_def cache_ok_def container_simps)
  qed
qed

theorem pushMsg_delivers_once_witness:
  "case pushMsg \<lparr>nm_type = ''b'', nm_session = None, nm_msg = Some 7\<rparr>
       (MsgSession_new () 0 0 [] 0, demo_mm) of
     None \<Rightarrow> False | Some (s', mm') \<Rightarrow> queue_of mm' 0 = Some [] \<and> md_handlers s' = [0, 1]"
proof -
  let ?m = "\<lparr>nm_type = ''b'', nm_session = None, nm_msg = Some 7\<rparr>"
  let ?s = "MsgSession_new () 0 0 [] 0"
  have c: "cache_ok demo_mm ?s" by (simp add: cache_ok_def demo_mm_def MsgSession_new_def)
  obtain s' mm' where p: "pushMsg ?m (?s, demo_mm) = Some (s', mm')" and s': "md_handlers s' = [0, 1]"
    by (simp add: pushMsg_def synchronizeHandlers_def MsgSession_new_def demo_mm_def isReceive_def
        MessageHandler_push_def getAllHandlers_def)
  have r: "receivers demo_mm ?m = [1]" by (simp add: receivers_def demo_mm_def isReceive_def)
  have "queue_of mm' 0 = queue_of demo_mm 0"
    using pushMsg_delivers_once[OF c p] by (simp add: r)
  then show ?thesis using s' by (simp add: p) (simp add: queue_of_def demo_mm_def)
qed

text \<open>The heartbeat check is inverted: with a validity of at least one second, a session on
  an open connection counts as dead while its last heartbeat is recent enough, and as alive
  once the heartbeat is overdue.\<close>
theorem heartbeat_check_inverted:
  assumes "1 \<le> md_heartbeatValid s" and "um_find cons (se_connection s) = Some c" and "\<not> cv_closed c"
  shows "MsgSession_isAlive cons now s \<longleftrightarrow> md_heartbeatValid s \<le> now - md_heartbeat s"
  using assms by (simp add: MsgSession_isAlive_def Session_isAlive_def isTimeOut_def)

theorem heartbeat_check_inverted_witness:
  "MsgSession_isAlive [(0, \<lparr>cv_id = ''c'', cv_closed = False\<rparr>)] 101 (MsgSession_new () 100 0 [] 30)
     \<longleftrightarrow> (30::int) \<le> 101 - 100"
  using heartbeat_check_inverted[of "MsgSession_new () 100 0 [] 30" "[(0, \<lparr>cv_id = ''c'', cv_closed = False\<rparr>)]"
      "\<lparr>cv_id = ''c'', cv_closed = False\<rparr>" 101]
  by (simp add: MsgSession_new_def)

end
