(* ===== verification/Mysql_Pool.thy ===== *)
theory Mysql_Pool
  imports Redis_Pool
begin

text \<open>
  The MySQL client of the repository, \<open>Mysql/MysqlPool.cpp\<close> and \<open>Mysql/MysqlQueryTask.h\<close>:
  query tasks, their execution on a pooled connection, and the queue of asynchronous tasks.

  The SQL texts the server builds are represented by the type \<open>stmt\<close> with their parameters
  (identifiers free of quotes), result rows by \<open>sqlrow\<close>. The driver with the database
  server behind it is a parameter, the record \<open>sql_driver\<close>.
\<close>

section \<open>Statements and rows\<close>

datatype stmt =
  SelectPlayer string
| SelectCapital string
| SelectPledge string string
| CountPledge string string
| InsertPledge string string int
| UpdatePledge string string int
| DeletePledge string string
| UpdateGold string int int       \<comment> \<open>player, new gold, \<open>where version =\<close>\<close>
| UpdateDiamond string int int
| SelectAgency string
| InsertReward string int string int string
| SelectVenue string
| SelectDumb string
| UpdateVenueStatus string int
| SelectOne

datatype sqlrow =
  PlayerRow string string string int string
| CapitalRow int int int int      \<comment> \<open>gold, deposit, diamond, version\<close>
| AmountRow int
| CountRow int
| AgencyRow string
| VenueRow int int
| DumbRow string int
| OneRow

datatype 'a sql_outcome =
  SqlException int string  \<comment> \<open>error code and state\<close>
| StdException
| SqlOk 'a

datatype QueryType = Select | Insert | InsertAI | Update | Delete

record 'd sql_driver =
  \<comment> \<open>the driver and the server behind it: \<open>connect\<close> (with the driver instance; \<open>False\<close> is a null
      pointer), \<open>setSchema\<close>, deleting a connection, \<open>executeQuery\<close>, \<open>executeUpdate\<close>, and reading
      \<open>LAST_INSERT_ID\<close>\<close>
  sd_connect :: "'d \<Rightarrow> bool sql_outcome \<times> 'd"
  sd_setSchema :: "'d \<Rightarrow> unit sql_outcome \<times> 'd"
  sd_delete :: "'d \<Rightarrow> 'd"
  sd_executeQuery :: "stmt \<Rightarrow> 'd \<Rightarrow> sqlrow list sql_outcome \<times> 'd"
  sd_executeUpdate :: "stmt \<Rightarrow> 'd \<Rightarrow> int sql_outcome \<times> 'd"
  sd_lastInsertId :: "'d \<Rightarrow> int sql_outcome \<times> 'd"

section \<open>Tasks\<close>

record MysqlQueryTask =
  qt_succeed :: bool
  qt_rows :: int
  qt_affectedRecords :: int
  qt_autoInc :: int
  qt_buildQuery :: "QueryType \<times> stmt"  \<comment> \<open>the virtual methods of the task\<close>
  qt_fetchResult :: "sqlrow list \<Rightarrow> int \<times> sqlrow list"
  qt_result :: "sqlrow list"           \<comment> \<open>what \<open>fetchResult\<close> stored\<close>

definition MysqlQueryTask_new ::
  "QueryType \<times> stmt \<Rightarrow> (sqlrow list \<Rightarrow> int \<times> sqlrow list) \<Rightarrow> MysqlQueryTask" where
  "MysqlQueryTask_new build fetch =
     \<lparr>qt_succeed = False, qt_rows = 0, qt_affectedRecords = 0, qt_autoInc = 0, qt_buildQuery = build,
      qt_fetchResult = fetch, qt_result = []\<rparr>"

definition MysqlCommandTask_new :: "stmt \<Rightarrow> QueryType \<Rightarrow> MysqlQueryTask" where
  \<comment> \<open>the inherited \<open>fetchResult\<close> reads nothing\<close>
  "MysqlCommandTask_new s t = MysqlQueryTask_new (t, s) (\<lambda>rows. (0, []))"

definition fetchResult_count :: "sqlrow list \<Rightarrow> int \<times> sqlrow list" where
  \<comment> \<open>at most one row is read\<close>
  "fetchResult_count rows = (case rows of [] \<Rightarrow> (0, []) | r # _ \<Rightarrow> (1, [r]))"

definition MysqlCountTask_new :: "stmt \<Rightarrow> MysqlQueryTask" where
  "MysqlCountTask_new s = MysqlQueryTask_new (Select, s) fetchResult_count"

section \<open>Executing a task\<close>

record MysqlDispatch =
  \<comment> \<open>a task on its way through the queues, with the worker that asked for it, a weak pointer\<close>
  my_dispatcher :: "nat option"
  my_task :: MysqlQueryTask

record 'd MysqlPoolImpl =
  mp_pool :: DataBasePool
  mp_db :: 'd
  mp_asyncTasks :: "MysqlDispatch list"

definition run_query ::
  "'d sql_driver \<Rightarrow> MysqlQueryTask \<Rightarrow> 'd \<Rightarrow> unit sql_outcome \<times> MysqlQueryTask \<times> 'd" where
  \<comment> \<open>the \<open>try\<close> block of \<open>execute\<close>: what it throws, the task as far as it got\<close>
  "run_query dr task d =
     (let (type, sql) = qt_buildQuery task in
      if type = Select then
        (case sd_executeQuery dr sql d of
           (SqlOk res, d1) \<Rightarrow> (let (rows, got) = qt_fetchResult task res
                               in (SqlOk (), task\<lparr>qt_result := got, qt_rows := rows\<rparr>, d1))
         | (SqlException c st, d1) \<Rightarrow> (SqlException c st, task, d1)
         | (StdException, d1) \<Rightarrow> (StdException, task, d1))
      else
        (case sd_executeUpdate dr sql d of
           (SqlOk n, d1) \<Rightarrow>
             (let task1 = task\<lparr>qt_affectedRecords := n\<rparr> in
              if type = InsertAI then
                (case sd_lastInsertId dr d1 of
                   (SqlOk i, d2) \<Rightarrow> (SqlOk (), task1\<lparr>qt_autoInc := i\<rparr>, d2)
                 | (SqlException c st, d2) \<Rightarrow> (SqlException c st, task1, d2)
                 | (StdException, d2) \<Rightarrow> (StdException, task1, d2))
              else (SqlOk (), task1, d1))
         | (SqlException c st, d1) \<Rightarrow> (SqlException c st, task, d1)
         | (StdException, d1) \<Rightarrow> (StdException, task, d1)))"

definition connection_lost :: "'a sql_outcome \<Rightarrow> bool" where
  "connection_lost out =
     (case out of SqlException errNo state \<Rightarrow> errNo = 2008 \<or> errNo = 2013 \<or> state = ''08S01'' | _ \<Rightarrow> False)"

definition mysql_execute_on ::
  "'d sql_driver \<Rightarrow> int \<Rightarrow> MysqlQueryTask \<Rightarrow> nat \<Rightarrow> 'd MysqlPoolImpl \<Rightarrow> MysqlQueryTask \<times> 'd MysqlPoolImpl" where
  \<comment> \<open>\<open>execute(task, con)\<close>\<close>
  "mysql_execute_on dr now task con m =
     (let p1 = update_connection con (setQueryTime now) (mp_pool m);
          (out, task', d) = run_query dr task (mp_db m)
      in (task', m\<lparr>mp_db := d,
            mp_pool := (if connection_lost out then removeConnection con p1
                        else notifyOne (update_connection con recycle p1))\<rparr>))"

definition mysql_createConnection :: "'d sql_driver \<Rightarrow> 'd \<Rightarrow> bool \<times> 'd" where
  \<comment> \<open>a null pointer of the driver is wrapped like a connection; a connection whose schema cannot be set
      is deleted\<close>
  "mysql_createConnection dr d =
     (case sd_connect dr d of
        (SqlOk nonnull, d1) \<Rightarrow>
          if nonnull
          then (case sd_setSchema dr d1 of (SqlOk _, d2) \<Rightarrow> (True, d2) | (_, d2) \<Rightarrow> (False, sd_delete dr d2))
          else (True, d1)
      | (_, d1) \<Rightarrow> (False, d1))"

definition mysql_onTimerImpl :: "'d sql_driver \<Rightarrow> int \<Rightarrow> nat \<Rightarrow> 'd MysqlPoolImpl \<Rightarrow> 'd MysqlPoolImpl" where
  "mysql_onTimerImpl dr now con m =
     snd (mysql_execute_on dr now (MysqlCommandTask_new SelectOne Select) con m)"

definition mysql_execute ::
  "'d sql_driver \<Rightarrow> int \<Rightarrow> MysqlQueryTask option
     \<Rightarrow> 'd MysqlPoolImpl \<Rightarrow> (MysqlQueryTask option \<times> 'd MysqlPoolImpl) redis_result" where
  "mysql_execute dr now task m =
     (case task of
        None \<Rightarrow> Returns (None, m)
      | Some t \<Rightarrow>
          (case getConnection (mysql_createConnection dr) now (mp_pool m) (mp_db m) of
             (Connection con, p, d) \<Rightarrow>
               (let (t', m') = mysql_execute_on dr now t con (m\<lparr>mp_pool := p, mp_db := d\<rparr>)
                in Returns (Some t', m'))
           | (NoConnection, p, d) \<Rightarrow> Returns (Some t, m\<lparr>mp_pool := p, mp_db := d\<rparr>)
           | (Blocked b, p, d) \<Rightarrow> Waits))"

definition SyncQuery where
  \<comment> \<open>\<open>onQueried\<close> of the tasks used does nothing\<close>
  "SyncQuery dr now task m = mysql_execute dr now (Some task) m"

definition pushAsyncTask :: "MysqlDispatch \<Rightarrow> 'd MysqlPoolImpl \<Rightarrow> 'd MysqlPoolImpl" where
  "pushAsyncTask task m = m\<lparr>mp_asyncTasks := mp_asyncTasks m @ [task]\<rparr>"

definition popASyncTask :: "'d MysqlPoolImpl \<Rightarrow> MysqlDispatch option \<times> 'd MysqlPoolImpl" where
  "popASyncTask m =
     (case mp_asyncTasks m of
        [] \<Rightarrow> (None, m)
      | t # ts \<Rightarrow> (Some t, m\<lparr>mp_asyncTasks := ts\<rparr>))"

definition clearAsyncTask :: "'d MysqlPoolImpl \<Rightarrow> 'd MysqlPoolImpl" where
  "clearAsyncTask m = m\<lparr>mp_asyncTasks := []\<rparr>"

definition MysqlPoolImpl_clear :: "'d MysqlPoolImpl \<Rightarrow> 'd MysqlPoolImpl" where
  "MysqlPoolImpl_clear m = (clearAsyncTask m)\<lparr>mp_pool := clearConnection (mp_pool m)\<rparr>"

fun mysql_oneLoopEx :: "nat \<Rightarrow> 'd MysqlPoolImpl \<Rightarrow> MysqlDispatch list \<Rightarrow> (MysqlDispatch list \<times> 'd MysqlPoolImpl) option"
where
  \<comment> \<open>the loop of \<open>MysqlThreadWorker::oneLoopEx\<close>: all queued tasks are dispatched to the worker
      itself; \<open>own\<close> is its dispatch queue\<close>
  "mysql_oneLoopEx 0 m own = None"
| "mysql_oneLoopEx (Suc n) m own =
     (case popASyncTask m of
        (None, m') \<Rightarrow> Some (own, m')
      | (Some t, m') \<Rightarrow> mysql_oneLoopEx n m' (own @ [t]))"

definition MysqlPool_Start :: "int \<Rightarrow> int \<Rightarrow> int \<Rightarrow> 'd \<Rightarrow> 'd MysqlPoolImpl option \<times> bool \<times> int
     \<Rightarrow> 'd MysqlPoolImpl option \<times> bool \<times> int" where
  \<comment> \<open>state: the implementation, whether the pool is started, its number of threads\<close>
  "MysqlPool_Start keepConnections maxConnections threadNum d = (\<lambda>(impl, started, threads).
     if impl \<noteq> None then (impl, started, threads)
     else let threadNum1 = (if threadNum < 1 then 1 else if threadNum > 8 then 8 else threadNum) in
          if started then (impl, started, threads)
          else let keep = (if keepConnections < 1 then 1 else keepConnections);
                   mx = (if maxConnections < 1 then 1 else maxConnections)
               in (Some \<lparr>mp_pool = DataBasePool_new keep mx, mp_db = d, mp_asyncTasks = []\<rparr>,
                   True, threadNum1))"

definition MysqlPool_Stop :: "'d MysqlPoolImpl option \<times> bool \<times> int \<Rightarrow> 'd MysqlPoolImpl option \<times> bool \<times> int"
where
  "MysqlPool_Stop = (\<lambda>(impl, started, threads). (None, False, threads))"

definition demo_driver :: "nat sql_driver" where
  \<comment> \<open>a server that counts the statements and loses every connection\<close>
  "demo_driver = \<lparr>sd_connect = (\<lambda>d. (SqlOk True, d)), sd_setSchema = (\<lambda>d. (SqlOk (), d)), sd_delete = (\<lambda>d. d),
     sd_executeQuery = (\<lambda>s d. (SqlException 2013 [], d + 1)),
     sd_executeUpdate = (\<lambda>s d. (SqlException 2013 [], d + 1)),
     sd_lastInsertId = (\<lambda>d. (StdException, d))\<rparr>"

definition demo_mysql :: "nat MysqlPoolImpl" where
  "demo_mysql = \<lparr>mp_pool = DataBasePool_new 1 1, mp_db = 0, mp_asyncTasks = []\<rparr>"

section \<open>Lemmas\<close>

interpretation async_tasks: fifo pushAsyncTask popASyncTask mp_asyncTasks "\<lambda>_. True"
  by unfold_locales (auto simp: pushAsyncTask_def popASyncTask_def)

lemma two_updates_release:
  "notifyOne (update_connection con recycle (update_connection con (setQueryTime now) p))
     = release now con p"
  by (simp add: release_def update_connection_def comp_def if_distrib cong: if_cong)

lemma busy_setQueryTime:
  "busy (update_connection con (setQueryTime now) p) = busy p"
  "pool_wf p \<Longrightarrow> pool_wf (update_connection con (setQueryTime now) p)"
proof -
  have i: "dc_id \<circ> (\<lambda>c. if dc_id c = con then setQueryTime now c else c) = dc_id" by auto
  have "map dc_id (filter dc_isOccupy (map (\<lambda>c. if dc_id c = con then setQueryTime now c else c) cs))
      = map dc_id (filter dc_isOccupy cs)" for cs by (induction cs) auto
  then show "busy (update_connection con (setQueryTime now) p) = busy p"
    by (simp add: busy_def update_connection_def del: filter_map map_map)
  show "pool_wf p \<Longrightarrow> pool_wf (update_connection con (setQueryTime now) p)"
    by (auto simp: pool_wf_def update_connection_def i)
qed

lemma mysql_execute_on_pool:
  "mp_pool (snd (mysql_execute_on dr now t con m)) = release now con (mp_pool m)
   \<or> mp_pool (snd (mysql_execute_on dr now t con m))
       = removeConnection con (update_connection con (setQueryTime now) (mp_pool m))"
  by (simp add: mysql_execute_on_def Let_def split_beta two_updates_release)

lemma run_query_succeed: "qt_succeed (fst (snd (run_query dr task d))) = qt_succeed task"
  by (simp add: run_query_def Let_def split_beta split: sql_outcome.split prod.split)

lemma mysql_oneLoopEx_all:
  "length (mp_asyncTasks m) < fuel \<Longrightarrow>
     mysql_oneLoopEx fuel m own = Some (own @ mp_asyncTasks m, m\<lparr>mp_asyncTasks := []\<rparr>)"
proof (induction fuel arbitrary: m own)
  case (Suc n)
  then show ?case by (cases "mp_asyncTasks m") (auto simp: popASyncTask_def)
qed simp

lemma mysql_execute_pool:
  assumes "pool_wf (mp_pool m)"
    and "mysql_execute dr now task m = Returns (task', m')"
  shows "pool_wf (mp_pool m') \<and> set (busy (mp_pool m')) = set (busy (mp_pool m))"
proof (cases task)
  case (Some t)
  obtain c p d where g: "getConnection (mysql_createConnection dr) now (mp_pool m) (mp_db m) = (c, p, d)"
    by (metis prod_cases3)
  show ?thesis
  proof (cases c)
    case (Connection con)
    have wf: "pool_wf p" and h: "con \<notin> set (busy (mp_pool m))"
      "set (busy p) = insert con (set (busy (mp_pool m)))"
      using db_pool.getc_good[OF assms(1) g] db_pool.getc_held[OF assms(1) g] by (simp_all add: Connection)
    let ?q = "update_connection con (setQueryTime now) p"
    have q: "pool_wf ?q" "con \<in> set (busy ?q)" "set (busy ?q) = insert con (set (busy (mp_pool m)))"
      using wf h by (simp_all add: busy_setQueryTime)
    have "m' = snd (mysql_execute_on dr now t con (m\<lparr>mp_pool := p, mp_db := d\<rparr>))"
      using assms(2) Some g Connection by (simp add: mysql_execute_def split_beta)
    then have "mp_pool m' = release now con p \<or> mp_pool m' = removeConnection con ?q"
      using mysql_execute_on_pool[of dr now t con "m\<lparr>mp_pool := p, mp_db := d\<rparr>"] by simp
    then show ?thesis
    proof
      assume "mp_pool m' = release now con p"
      then show ?thesis using db_pool.lease(1)[OF assms(1) g[unfolded Connection]] by simp
    next
      assume "mp_pool m' = removeConnection con ?q"
      then show ?thesis
        using db_pool.discard_good[OF q(1,2)] db_pool.discard_held[OF q(1,2)] q(3) h(1) by auto
    qed
  next
    case NoConnection
    then have "m' = m\<lparr>mp_pool := p, mp_db := d\<rparr>"
      using assms(2) Some g by (simp add: mysql_execute_def)
    then have "mp_pool m' = p" by simp
    then show ?thesis using db_pool.no_lease[OF assms(1) g] NoConnection by simp
  next
    case (Blocked b)
    then show ?thesis using assms(2) Some g by (simp add: mysql_execute_def)
  qed
qed (use assms in \<open>auto simp: mysql_execute_def\<close>)

section \<open>Properties\<close>

text \<open>No query of this client ever reports success: whatever the database answers, the
  success flag of the task that \<open>SyncQuery\<close> returns is still false.\<close>
theorem sync_query_never_succeeds:
  "case SyncQuery dr now (MysqlQueryTask_new build fetch) m of
     Returns (Some t, m') \<Rightarrow> \<not> qt_succeed t
   | Returns (None, m') \<Rightarrow> False
   | Waits \<Rightarrow> True"
  by (auto simp: SyncQuery_def mysql_execute_def mysql_execute_on_def run_query_succeed
      MysqlQueryTask_new_def Let_def split_beta split: conn_result.splits)

end
