(* ===== verification/Capital.thy ===== *)
theory Capital
  imports Mysql_Pool
begin

text \<open>
  The money of a player: the query tasks \<open>Game/GetCapitalTask.cpp\<close>,
  \<open>Game/GetCashPledgeTask.cpp\<close>, \<open>Game/GetAgencyTask.cpp\<close> and those member functions of
  \<open>Game/GameRoom.cpp\<close> that move gold between the capital of a player and the cash pledge
  held by a venue, or take diamonds.

  \<open>GameRoom.cpp\<close> is written against an interface \<open>syncQuery\<close> with a task type
  \<open>MysqlCommonTask\<close>, which the MySQL client in this repository does not provide; it is the
  parameter \<open>sq\<close>, and the predicate \<open>sql_contract\<close> states what the code relies on: a failed
  statement changes nothing, a successful one has the effect its SQL text says, and between
  the statements of one operation other servers may change the capital of players, but every
  such change increments the version. What others have added is tracked by the ghost value
  \<open>ext\<close> (gold) and \<open>extd\<close> (diamonds), so that conservation can be stated under interference.
\<close>

section \<open>Tasks\<close>

type_synonym 'd syncQuery = "stmt \<Rightarrow> 'd \<Rightarrow> bool \<times> sqlrow list \<times> int \<times> 'd"
  \<comment> \<open>success flag, rows, affected records, new database\<close>

record GetCapitalTask =
  gc_succeed :: bool
  gc_rows :: int
  gc_gold :: int
  gc_deposit :: int
  gc_diamond :: int
  gc_version :: int

definition GetCapital :: "'d syncQuery \<Rightarrow> string \<Rightarrow> 'd \<Rightarrow> GetCapitalTask \<times> 'd" where
  "GetCapital sq playerId db =
     (let (ok, rows, _, db') = sq (SelectCapital playerId) db;
          t = \<lparr>gc_succeed = ok, gc_rows = 0, gc_gold = 0, gc_deposit = 0, gc_diamond = 0, gc_version = 0\<rparr>
      in (if \<not> ok then t
          else case rows of
                 CapitalRow gold deposit diamond version # _ \<Rightarrow>
                   t\<lparr>gc_rows := 1, gc_gold := gold, gc_deposit := deposit, gc_diamond := diamond,
                     gc_version := version\<rparr>
               | _ \<Rightarrow> t, db'))"

record GetCashPledgeTask =
  gp_succeed :: bool
  gp_rows :: int
  gp_amount :: int

definition GetCashPledge :: "'d syncQuery \<Rightarrow> string \<Rightarrow> string \<Rightarrow> 'd \<Rightarrow> GetCashPledgeTask \<times> 'd" where
  "GetCashPledge sq playerId venueId db =
     (let (ok, rows, _, db') = sq (SelectPledge playerId venueId) db;
          t = \<lparr>gp_succeed = ok, gp_rows = 0, gp_amount = 0\<rparr>
      in (if \<not> ok then t
          else case rows of
                 AmountRow amount # _ \<Rightarrow> t\<lparr>gp_rows := 1, gp_amount := amount\<rparr>
               | _ \<Rightarrow> t, db'))"

definition GetAgency :: "'d syncQuery \<Rightarrow> string \<Rightarrow> 'd \<Rightarrow> (bool \<times> int \<times> string) \<times> 'd" where
  \<comment> \<open>success, rows, agency id\<close>
  "GetAgency sq playerId db =
     (let (ok, rows, _, db') = sq (SelectAgency playerId) db
      in ((ok, if \<not> ok then (0, []) else case rows of AgencyRow a # _ \<Rightarrow> (1, a) | _ \<Rightarrow> (0, [])), db'))"

definition MysqlCount :: "'d syncQuery \<Rightarrow> stmt \<Rightarrow> 'd \<Rightarrow> (bool \<times> int) \<times> 'd" where
  "MysqlCount sq s db =
     (let (ok, rows, _, db') = sq s db
      in ((ok, if \<not> ok then 0 else case rows of CountRow n # _ \<Rightarrow> n | _ \<Rightarrow> 0), db'))"

section \<open>Cash pledges\<close>

definition updateCashPledge :: "'d syncQuery \<Rightarrow> string \<Rightarrow> string \<Rightarrow> int \<Rightarrow> 'd \<Rightarrow> bool \<times> 'd" where
  "updateCashPledge sq venueId playerId cashPledge db =
     (let ((ok, cnt), db1) = MysqlCount sq (CountPledge playerId venueId) db in
      if \<not> ok then (False, db1)
      else let task = (if cashPledge > 0
                       then Some (if cnt = 0 then InsertPledge playerId venueId cashPledge
                                  else UpdatePledge playerId venueId cashPledge)
                       else if cnt > 0 then Some (DeletePledge playerId venueId) else None)
           in case task of
                None \<Rightarrow> (True, db1)
              | Some s \<Rightarrow> let (ok2, _, _, db2) = sq s db1 in (ok2, db2))"

fun return_loop :: "nat \<Rightarrow> 'd syncQuery \<Rightarrow> string \<Rightarrow> int \<Rightarrow> 'd \<Rightarrow> bool \<times> 'd" where
  \<comment> \<open>the retry loop of \<open>returnCashPledge\<close>\<close>
  "return_loop 0 sq playerId cashPledge db = (False, db)"
| "return_loop (Suc i) sq playerId cashPledge db =
     (let (task2, db1) = GetCapital sq playerId db in
      if \<not> gc_succeed task2 then (False, db1)
      else let gold = (if gc_rows task2 > 0 then gc_gold task2 else 0) + cashPledge;
               (ok, _, affected, db2) = sq (UpdateGold playerId gold (gc_version task2)) db1
           in if \<not> ok then (False, db2)
              else if affected > 0 then (True, db2)
              else return_loop i sq playerId cashPledge db2)"

definition returnCashPledge :: "'d syncQuery \<Rightarrow> string \<Rightarrow> string \<Rightarrow> 'd \<Rightarrow> bool \<times> 'd" where
  "returnCashPledge sq venueId playerId db =
     (let (task1, db1) = GetCashPledge sq playerId venueId db in
      if \<not> gp_succeed task1 then (False, db1)
      else let cashPledge = (if gp_rows task1 > 0 then gp_amount task1 else 0);
               (ok, _, _, db2) = sq (DeletePledge playerId venueId) db1
           in if \<not> ok then (False, db2)
              else if cashPledge \<le> 0 then (True, db2)
              else return_loop 10 sq playerId cashPledge db2)"

record pledge_avatar =
  pa_playerId :: string
  pa_gold :: int
  pa_cashPledge :: int

fun deduct_loop ::
  "nat \<Rightarrow> 'd syncQuery \<Rightarrow> string \<Rightarrow> int \<Rightarrow> bool \<Rightarrow> pledge_avatar \<Rightarrow> 'd \<Rightarrow> bool \<times> pledge_avatar \<times> 'd" where
  "deduct_loop 0 sq venueId goldNeed kick a db = (False, a, db)"
| "deduct_loop (Suc i) sq venueId goldNeed kick a db =
     (let cashPledge = pa_cashPledge a; delta = goldNeed - cashPledge;
          (task1, db1) = GetCapital sq (pa_playerId a) db in
      if \<not> gc_succeed task1 \<or> gc_rows task1 < 1 then (False, a, db1)
      else if gc_gold task1 < delta \<and> \<not> kick then (False, a, db1)
      else let test = (\<not> gc_gold task1 < delta);
               gold = (if test then gc_gold task1 - delta else gc_gold task1 + cashPledge);
               (up, db2) = updateCashPledge sq venueId (pa_playerId a) (if test then goldNeed else 0) db1
           in if \<not> up then (False, a, db2)
              else let (ok, _, affected, db3) =
                         sq (UpdateGold (pa_playerId a) gold (gc_version task1)) db2
                   in if \<not> ok then (False, a, db3)
                      else if affected > 0
                           then (test, a\<lparr>pa_gold := gold,
                                         pa_cashPledge := (if test then goldNeed else 0)\<rparr>, db3)
                           else deduct_loop i sq venueId goldNeed kick a db3)"

definition deductCashPledge ::
  "'d syncQuery \<Rightarrow> string \<Rightarrow> pledge_avatar option \<Rightarrow> int \<Rightarrow> bool \<Rightarrow> 'd \<Rightarrow> bool \<times> pledge_avatar option \<times> 'd" where
  "deductCashPledge sq venueId avatar goldNeed kick db =
     (case avatar of
        None \<Rightarrow> (False, None, db)
      | Some a \<Rightarrow>
          if pa_cashPledge a \<ge> goldNeed then (True, Some a, db)
          else let (r, a', db') = deduct_loop 10 sq venueId goldNeed kick a db in (r, Some a', db'))"

fun diamond_loop :: "nat \<Rightarrow> 'd syncQuery \<Rightarrow> string \<Rightarrow> int \<Rightarrow> int \<Rightarrow> 'd \<Rightarrow> bool \<times> int \<times> 'd" where
  \<comment> \<open>\<open>deductDiamond\<close> with the retries left; \<open>diamond\<close> is the reference parameter\<close>
  "diamond_loop 0 sq playerId need diamond db = (False, diamond, db)"
| "diamond_loop (Suc i) sq playerId need diamond db =
     (let (task1, db1) = GetCapital sq playerId db in
      if \<not> gc_succeed task1 \<or> gc_rows task1 < 1 then (False, diamond, db1)
      else if need = 0 then (True, gc_diamond task1, db1)
      else if need > gc_diamond task1 then (False, diamond, db1)
      else let diamond' = gc_diamond task1 - need;
               (ok, _, affected, db2) = sq (UpdateDiamond playerId diamond' (gc_version task1)) db1
           in if \<not> ok then (False, diamond', db2)
              else if affected > 0 then (True, diamond', db2)
              else diamond_loop i sq playerId need diamond' db2)"

definition deductDiamond :: "'d syncQuery \<Rightarrow> int \<Rightarrow> string \<Rightarrow> int \<Rightarrow> 'd \<Rightarrow> bool \<times> int \<times> 'd" where
  "deductDiamond sq need playerId diamond db = diamond_loop 10 sq playerId need diamond db"

datatype join_error = DatabaseError | DatabaseConflict | DiamondShort | GoldShort

definition joinGame_pledge ::
  "'d syncQuery \<Rightarrow> string \<Rightarrow> int \<Rightarrow> int \<Rightarrow> string \<Rightarrow> 'd \<Rightarrow> (join_error + int) \<times> 'd" where
  \<comment> \<open>the part of \<open>joinGame\<close> before the avatar is created: it returns the pledge the player has
      made afterwards; \<open>need\<close> is \<open>_cashPledge\<close>, \<open>diamondNeed\<close> is \<open>_diamondNeed\<close>\<close>
  "joinGame_pledge sq venueId need diamondNeed playerId db =
     (if \<not> (need > 0 \<or> diamondNeed > 0) then (Inr 0, db)
      else let (task1, db1) =
                 (if need > 0 then GetCashPledge sq playerId venueId db
                  else (\<lparr>gp_succeed = True, gp_rows = 0, gp_amount = 0\<rparr>, db))
           in if \<not> gp_succeed task1 then (Inl DatabaseError, db1)
              else let cashPledge = (if gp_rows task1 > 0 then gp_amount task1 else 0);
                       ask = (cashPledge < need \<or> diamondNeed > 0);
                       (task2, db2) =
                         (if ask then GetCapital sq playerId db1
                          else (\<lparr>gc_succeed = True, gc_rows = 0, gc_gold = 0, gc_deposit = 0,
                                 gc_diamond = 0, gc_version = 0\<rparr>, db1))
                   in if \<not> gc_succeed task2 then (Inl DatabaseError, db2)
                      else if diamondNeed > 0 \<and> gc_diamond task2 < diamondNeed
                           then (Inl DiamondShort, db2)
                      else if \<not> cashPledge < need then (Inr cashPledge, db2)
                      else let delta = need - cashPledge in
                           if gc_gold task2 < delta then (Inl GoldShort, db2)
                           else let (ok, _, affected, db3) =
                                      sq (UpdateGold playerId (gc_gold task2 - delta) (gc_version task2)) db2
                                in if \<not> ok then (Inl DatabaseError, db3)
                                   else if affected < 1 then (Inl DatabaseConflict, db3)
                                   else let (up, db4) = updateCashPledge sq venueId playerId need db3
                                        in if \<not> up then (Inl DatabaseError, db4)
                                           else (Inr need, db4))"

section \<open>What the code relies on\<close>

record capital =
  c_gold :: int
  c_deposit :: int
  c_diamond :: int
  c_version :: int

record 'd db_view =
  v_capital :: "'d \<Rightarrow> string \<Rightarrow> capital option"
  v_pledge :: "'d \<Rightarrow> string \<times> string \<Rightarrow> int option"
  v_ext :: "'d \<Rightarrow> string \<Rightarrow> int"
  v_extd :: "'d \<Rightarrow> string \<Rightarrow> int"

definition same_view :: "'d db_view \<Rightarrow> 'd \<Rightarrow> 'd \<Rightarrow> bool" where
  "same_view v a b \<longleftrightarrow> v_capital v b = v_capital v a \<and> v_pledge v b = v_pledge v a
     \<and> v_ext v b = v_ext v a \<and> v_extd v b = v_extd v a"

definition others :: "'d db_view \<Rightarrow> 'd \<Rightarrow> 'd \<Rightarrow> bool" where
  \<comment> \<open>what other servers may do between two statements\<close>
  "others v a b \<longleftrightarrow> v_pledge v b = v_pledge v a \<and>
     (\<forall>p. case v_capital v a p of
            None \<Rightarrow> v_capital v b p = None \<and> v_ext v b p = v_ext v a p \<and> v_extd v b p = v_extd v a p
          | Some c \<Rightarrow> (\<exists>d. v_capital v b p = Some d
              \<and> c_gold d - v_ext v b p = c_gold c - v_ext v a p
              \<and> c_diamond d - v_extd v b p = c_diamond c - v_extd v a p
              \<and> c_version c \<le> c_version d \<and> (c_version d = c_version c \<longrightarrow> d = c)))"

definition put_capital :: "'d db_view \<Rightarrow> 'd \<Rightarrow> string \<Rightarrow> (capital \<Rightarrow> capital) \<Rightarrow> int \<Rightarrow> int \<Rightarrow> 'd \<Rightarrow> bool" where
  \<comment> \<open>the effect of \<open>update capital set \<dots>, version = version + 1 where \<dots> and version = ver\<close>\<close>
  "put_capital v a p f ver affected b \<longleftrightarrow>
     v_pledge v b = v_pledge v a \<and> v_ext v b = v_ext v a \<and> v_extd v b = v_extd v a \<and>
     (case v_capital v a p of
        Some c \<Rightarrow> if c_version c = ver
                  then affected = 1 \<and> v_capital v b = (v_capital v a)(p \<mapsto> (f c)\<lparr>c_version := ver + 1\<rparr>)
                  else affected = 0 \<and> v_capital v b = v_capital v a
      | None \<Rightarrow> affected = 0 \<and> v_capital v b = v_capital v a)"

definition put_pledge :: "'d db_view \<Rightarrow> 'd \<Rightarrow> string \<times> string \<Rightarrow> int option \<Rightarrow> 'd \<Rightarrow> bool" where
  "put_pledge v a k x b \<longleftrightarrow> v_capital v b = v_capital v a \<and> v_ext v b = v_ext v a
     \<and> v_extd v b = v_extd v a \<and> v_pledge v b = (v_pledge v a)(k := x)"

fun effect :: "'d db_view \<Rightarrow> stmt \<Rightarrow> 'd \<Rightarrow> sqlrow list \<Rightarrow> int \<Rightarrow> 'd \<Rightarrow> bool" where
  \<comment> \<open>the effect of a statement that succeeds\<close>
  "effect v (SelectCapital p) a rows n b \<longleftrightarrow> same_view v a b \<and>
     rows = (case v_capital v a p of
               None \<Rightarrow> []
             | Some c \<Rightarrow> [CapitalRow (c_gold c) (c_deposit c) (c_diamond c) (c_version c)])"
| "effect v (SelectPledge p w) a rows n b \<longleftrightarrow> same_view v a b \<and>
     rows = (case v_pledge v a (p, w) of None \<Rightarrow> [] | Some x \<Rightarrow> [AmountRow x])"
| "effect v (CountPledge p w) a rows n b \<longleftrightarrow> same_view v a b \<and>
     rows = [CountRow (case v_pledge v a (p, w) of None \<Rightarrow> 0 | Some x \<Rightarrow> 1)]"
| "effect v (InsertPledge p w x) a rows n b \<longleftrightarrow> put_pledge v a (p, w) (Some x) b"
| "effect v (UpdatePledge p w x) a rows n b \<longleftrightarrow>
     put_pledge v a (p, w) (if v_pledge v a (p, w) = None then None else Some x) b"
| "effect v (DeletePledge p w) a rows n b \<longleftrightarrow> put_pledge v a (p, w) None b"
| "effect v (UpdateGold p g ver) a rows n b \<longleftrightarrow> put_capital v a p (\<lambda>c. c\<lparr>c_gold := g\<rparr>) ver n b"
| "effect v (UpdateDiamond p g ver) a rows n b \<longleftrightarrow> put_capital v a p (\<lambda>c. c\<lparr>c_diamond := g\<rparr>) ver n b"
| "effect v s a rows n b \<longleftrightarrow> same_view v a b"

definition sql_contract :: "'d syncQuery \<Rightarrow> 'd db_view \<Rightarrow> bool" where
  "sql_contract sq v \<longleftrightarrow>
     (\<forall>s db. case sq s db of (ok, rows, n, db') \<Rightarrow>
        \<exists>mid. others v db mid \<and> (if ok then effect v s mid rows n db' else same_view v mid db'))"

definition wealth :: "'d db_view \<Rightarrow> string \<Rightarrow> string \<Rightarrow> 'd \<Rightarrow> int" where
  \<comment> \<open>gold plus pledge of a player at a venue, less what others added\<close>
  "wealth v p w db =
     (case v_capital v db p of None \<Rightarrow> 0 | Some c \<Rightarrow> c_gold c) - v_ext v db p
     + (case v_pledge v db (p, w) of None \<Rightarrow> 0 | Some x \<Rightarrow> x)"

definition ng :: "'d db_view \<Rightarrow> string \<Rightarrow> 'd \<Rightarrow> int" where
  "ng v p db = (case v_capital v db p of None \<Rightarrow> 0 | Some c \<Rightarrow> c_gold c) - v_ext v db p"

definition nd :: "'d db_view \<Rightarrow> string \<Rightarrow> 'd \<Rightarrow> int" where
  "nd v p db = (case v_capital v db p of None \<Rightarrow> 0 | Some c \<Rightarrow> c_diamond c) - v_extd v db p"

definition row_since :: "'d db_view \<Rightarrow> string \<Rightarrow> capital \<Rightarrow> 'd \<Rightarrow> bool" where
  \<comment> \<open>the row of \<open>p\<close> was \<open>c\<close> at some time before\<close>
  "row_since v p c db \<longleftrightarrow> (\<exists>d. v_capital v db p = Some d \<and> c_version c \<le> c_version d
     \<and> (c_version d = c_version c \<longrightarrow> d = c))"

section \<open>A database for the witnesses\<close>

type_synonym demo_db = "(string \<Rightarrow> capital option) \<times> (string \<times> string \<Rightarrow> int option)"

fun demo_exec :: "demo_db syncQuery" where
  "demo_exec (SelectCapital p) (c, l) = (True, (case c p of None \<Rightarrow> []
     | Some x \<Rightarrow> [CapitalRow (c_gold x) (c_deposit x) (c_diamond x) (c_version x)]), 0, (c, l))"
| "demo_exec (SelectPledge p w) (c, l) =
     (True, (case l (p, w) of None \<Rightarrow> [] | Some x \<Rightarrow> [AmountRow x]), 0, (c, l))"
| "demo_exec (CountPledge p w) (c, l) =
     (True, [CountRow (case l (p, w) of None \<Rightarrow> 0 | Some x \<Rightarrow> 1)], 0, (c, l))"
| "demo_exec (InsertPledge p w x) (c, l) = (True, [], 1, (c, l((p, w) \<mapsto> x)))"
| "demo_exec (UpdatePledge p w x) (c, l) =
     (True, [], 1, (c, l((p, w) := if l (p, w) = None then None else Some x)))"
| "demo_exec (DeletePledge p w) (c, l) = (True, [], 1, (c, l((p, w) := None)))"
| "demo_exec (UpdateGold p g ver) (c, l) =
     (case c p of
        Some x \<Rightarrow> if c_version x = ver
                  then (True, [], 1, (c(p \<mapsto> x\<lparr>c_gold := g, c_version := ver + 1\<rparr>), l))
                  else (True, [], 0, (c, l))
      | None \<Rightarrow> (True, [], 0, (c, l)))"
| "demo_exec (UpdateDiamond p g ver) (c, l) =
     (case c p of
        Some x \<Rightarrow> if c_version x = ver
                  then (True, [], 1, (c(p \<mapsto> x\<lparr>c_diamond := g, c_version := ver + 1\<rparr>), l))
                  else (True, [], 0, (c, l))
      | None \<Rightarrow> (True, [], 0, (c, l)))"
| "demo_exec s db = (True, [], 0, db)"

definition demo_sq :: "(stmt \<Rightarrow> bool) \<Rightarrow> demo_db syncQuery" where
  \<comment> \<open>statements for which \<open>bad\<close> holds fail\<close>
  "demo_sq bad s db = (if bad s then (False, [], 0, db) else demo_exec s db)"

definition demo_view :: "demo_db db_view" where
  "demo_view = \<lparr>v_capital = fst, v_pledge = snd, v_ext = (\<lambda>_ _. 0), v_extd = (\<lambda>_ _. 0)\<rparr>"

definition demo_capital :: demo_db where
  "demo_capital = ([''p'' \<mapsto> \<lparr>c_gold = 100, c_deposit = 0, c_diamond = 5, c_version = 3\<rparr>], (\<lambda>_. None))"

definition is_UpdateGold :: "stmt \<Rightarrow> bool" where
  "is_UpdateGold s = (case s of UpdateGold _ _ _ \<Rightarrow> True | _ \<Rightarrow> False)"

definition is_InsertPledge :: "stmt \<Rightarrow> bool" where
  "is_InsertPledge s = (case s of InsertPledge _ _ _ \<Rightarrow> True | _ \<Rightarrow> False)"

section \<open>Lemmas on single statements\<close>

lemma others_refl: "others v db db"
  by (simp add: others_def split: option.splits)

lemma demo_exec_effect:
  "case demo_exec s db of (ok, rows, n, db') \<Rightarrow> ok \<and> effect demo_view s db rows n db'"
proof (cases db)
  case (Pair c l)
  show ?thesis
    unfolding Pair
    by (cases s) (auto simp: demo_view_def same_view_def put_pledge_def put_capital_def split: option.splits)
qed

lemma demo_contract: "sql_contract (demo_sq bad) demo_view"
  unfolding sql_contract_def
proof (intro allI)
  fix s db
  show "case demo_sq bad s db of (ok, rows, n, db') \<Rightarrow>
      \<exists>mid. others demo_view db mid \<and>
        (if ok then effect demo_view s mid rows n db' else same_view demo_view mid db')"
  proof (cases "bad s")
    case True
    then show ?thesis
      using others_refl[of demo_view db]
      by (auto simp: demo_sq_def same_view_def simp del: split_paired_Ex intro!: exI[of _ db])
  next
    case False
    then show ?thesis
      using demo_exec_effect[of s db] others_refl[of demo_view db]
      by (auto simp: demo_sq_def simp del: split_paired_Ex intro!: exI[of _ db])
  qed
qed

lemma wealth_ng: "wealth v p w db = ng v p db + (case v_pledge v db (p, w) of None \<Rightarrow> 0 | Some x \<Rightarrow> x)"
  by (simp add: wealth_def ng_def)

lemma contractE:
  assumes "sql_contract sq v" and "sq s db = (ok, rows, n, db')"
  obtains mid where "others v db mid" "if ok then effect v s mid rows n db' else same_view v mid db'"
proof -
  have "case sq s db of (ok, rows, n, db') \<Rightarrow>
      \<exists>mid. others v db mid \<and> (if ok then effect v s mid rows n db' else same_view v mid db')"
    using assms(1) unfolding sql_contract_def by (elim allE)
  then show ?thesis using assms(2) that by auto
qed

lemma others_frame:
  assumes "others v a b"
  shows "ng v p b = ng v p a" and "v_pledge v b = v_pledge v a"
    and "row_since v p c a \<Longrightarrow> row_since v p c b"
    and "v_capital v a p = None \<longleftrightarrow> v_capital v b p = None" and "nd v p b = nd v p a"
proof -
  have o: "case v_capital v a p of
      None \<Rightarrow> v_capital v b p = None \<and> v_ext v b p = v_ext v a p \<and> v_extd v b p = v_extd v a p
    | Some c \<Rightarrow> (\<exists>d. v_capital v b p = Some d
        \<and> c_gold d - v_ext v b p = c_gold c - v_ext v a p
        \<and> c_diamond d - v_extd v b p = c_diamond c - v_extd v a p
        \<and> c_version c \<le> c_version d \<and> (c_version d = c_version c \<longrightarrow> d = c))"
    using assms by (simp add: others_def)
  show "v_pledge v b = v_pledge v a" using assms by (simp add: others_def)
  show "ng v p b = ng v p a" using o by (auto simp: ng_def split: option.splits)
  show "nd v p b = nd v p a" using o by (auto simp: nd_def split: option.splits)
  show "v_capital v a p = None \<longleftrightarrow> v_capital v b p = None" using o by (auto split: option.splits)
  show "row_since v p c b" if "row_since v p c a"
  proof -
    from that obtain d where d: "v_capital v a p = Some d" "c_version c \<le> c_version d"
      "c_version d = c_version c \<longrightarrow> d = c" by (auto simp: row_since_def)
    with o obtain d' where "v_capital v b p = Some d'" "c_version d \<le> c_version d'"
      "c_version d' = c_version d \<longrightarrow> d' = d" by auto
    with d show ?thesis by (auto simp: row_since_def)
  qed
qed

lemma same_view_frame:
  assumes "same_view v a b"
  shows "ng v p b = ng v p a" and "v_pledge v b = v_pledge v a"
    and "row_since v p c b = row_since v p c a" and "v_capital v b = v_capital v a"
    and "nd v p b = nd v p a"
  using assms by (auto simp: same_view_def ng_def nd_def row_since_def)

lemma GetCapital_spec:
  assumes "sql_contract sq v" and "GetCapital sq p db = (t, db')"
  shows "ng v p db' = ng v p db" and "v_pledge v db' = v_pledge v db"
    and "gc_succeed t \<Longrightarrow>
      (case v_capital v db' p of
         None \<Rightarrow> gc_rows t = 0 \<and> gc_gold t = 0 \<and> gc_diamond t = 0
       | Some c \<Rightarrow> gc_rows t = 1 \<and> gc_gold t = c_gold c \<and> gc_diamond t = c_diamond c
           \<and> gc_version t = c_version c)"
    and "nd v p db' = nd v p db"
proof -
  obtain ok rows n where s: "sq (SelectCapital p) db = (ok, rows, n, db')"
    using assms(2) by (cases "sq (SelectCapital p) db") (auto simp: GetCapital_def Let_def)
  obtain mid where m: "others v db mid" "same_view v mid db'"
    "ok \<Longrightarrow> rows = (case v_capital v mid p of
       None \<Rightarrow> [] | Some c \<Rightarrow> [CapitalRow (c_gold c) (c_deposit c) (c_diamond c) (c_version c)])"
    using contractE[OF assms(1) s] by (metis effect.simps(1))
  show "ng v p db' = ng v p db" "v_pledge v db' = v_pledge v db" "nd v p db' = nd v p db"
    using others_frame[OF m(1)] same_view_frame[OF m(2)] by simp_all
  have t: "t = (if \<not> ok then \<lparr>gc_succeed = ok, gc_rows = 0, gc_gold = 0, gc_deposit = 0, gc_diamond = 0, gc_version = 0\<rparr>
      else case rows of CapitalRow gold deposit diamond version # _ \<Rightarrow>
         \<lparr>gc_succeed = ok, gc_rows = 1, gc_gold = gold, gc_deposit = deposit, gc_diamond = diamond, gc_version = version\<rparr>
       | _ \<Rightarrow> \<lparr>gc_succeed = ok, gc_rows = 0, gc_gold = 0, gc_deposit = 0, gc_diamond = 0, gc_version = 0\<rparr>)"
    using assms(2) s by (auto simp: GetCapital_def Let_def split: list.splits sqlrow.splits)
  assume "gc_succeed t"
  then have "ok" using t by (cases ok) simp_all
  with t m(3) same_view_frame(4)[OF m(2)]
  show "case v_capital v db' p of
         None \<Rightarrow> gc_rows t = 0 \<and> gc_gold t = 0 \<and> gc_diamond t = 0
       | Some c \<Rightarrow> gc_rows t = 1 \<and> gc_gold t = c_gold c \<and> gc_diamond t = c_diamond c
           \<and> gc_version t = c_version c"
    by (simp split: option.splits)
qed

lemma GetCashPledge_spec:
  assumes "sql_contract sq v" and "GetCashPledge sq p w db = (t, db')"
  shows "ng v p db' = ng v p db" and "v_pledge v db' = v_pledge v db"
    and "gp_succeed t \<Longrightarrow> (if gp_rows t > 0 then gp_amount t else 0)
       = (case v_pledge v db (p, w) of None \<Rightarrow> 0 | Some x \<Rightarrow> x)"
    and "gp_succeed t \<Longrightarrow> gp_rows t > 0 \<longleftrightarrow> v_pledge v db (p, w) \<noteq> None"
proof -
  obtain ok rows n where s: "sq (SelectPledge p w) db = (ok, rows, n, db')"
    using assms(2) by (cases "sq (SelectPledge p w) db") (auto simp: GetCashPledge_def Let_def)
  obtain mid where m: "others v db mid" "same_view v mid db'"
    "ok \<Longrightarrow> rows = (case v_pledge v mid (p, w) of None \<Rightarrow> [] | Some x \<Rightarrow> [AmountRow x])"
    using contractE[OF assms(1) s] by (metis effect.simps(2))
  show "ng v p db' = ng v p db" "v_pledge v db' = v_pledge v db"
    using others_frame[OF m(1)] same_view_frame[OF m(2)] by simp_all
  have t: "t = (if \<not> ok then \<lparr>gp_succeed = ok, gp_rows = 0, gp_amount = 0\<rparr>
      else case rows of AmountRow x # _ \<Rightarrow> \<lparr>gp_succeed = ok, gp_rows = 1, gp_amount = x\<rparr>
       | _ \<Rightarrow> \<lparr>gp_succeed = ok, gp_rows = 0, gp_amount = 0\<rparr>)"
    using assms(2) s by (auto simp: GetCashPledge_def Let_def split: list.splits sqlrow.splits)
  assume "gp_succeed t"
  then have "ok" using t by (cases ok) simp_all
  with t m(3) others_frame(2)[OF m(1)]
  show "(if gp_rows t > 0 then gp_amount t else 0) = (case v_pledge v db (p, w) of None \<Rightarrow> 0 | Some x \<Rightarrow> x)"
    and "gp_rows t > 0 \<longleftrightarrow> v_pledge v db (p, w) \<noteq> None"
    by (simp_all split: option.splits)
qed

lemma pledge_stmt_spec:
  assumes "sql_contract sq v" and "sq s db = (ok, rows, n, db')"
    and "\<And>a b. effect v s a rows n b \<Longrightarrow> put_pledge v a k (x a) b"
  shows "ng v p db' = ng v p db" and "row_since v p c db \<Longrightarrow> row_since v p c db'"
    and "\<exists>mid. v_pledge v mid = v_pledge v db \<and>
       v_pledge v db' = (if ok then (v_pledge v mid)(k := x mid) else v_pledge v mid)"
proof -
  obtain mid where m: "others v db mid" "if ok then put_pledge v mid k (x mid) db' else same_view v mid db'"
    using contractE[OF assms(1,2)] assms(3) by metis
  have "ng v p db' = ng v p mid" "row_since v p c db' = row_since v p c mid"
    using m(2) by (auto simp: put_pledge_def ng_def row_since_def same_view_def split: if_splits)
  then show "ng v p db' = ng v p db" and "row_since v p c db \<Longrightarrow> row_since v p c db'"
    using others_frame(1,3)[OF m(1)] by simp_all
  show "\<exists>mid. v_pledge v mid = v_pledge v db \<and>
       v_pledge v db' = (if ok then (v_pledge v mid)(k := x mid) else v_pledge v mid)"
    using m others_frame(2)[OF m(1)] by (auto simp: put_pledge_def same_view_def)
qed

lemma UpdateGold_spec:
  assumes "sql_contract sq v" and "sq (UpdateGold p g ver) db = (ok, rows, n, db')"
  shows "v_pledge v db' = v_pledge v db"
    and "\<not> (ok \<and> n > 0) \<Longrightarrow> ng v p db' = ng v p db"
    and "ok \<Longrightarrow> n > 0 \<Longrightarrow> row_since v p c db \<Longrightarrow> c_version c = ver \<Longrightarrow> ng v p db' = ng v p db + (g - c_gold c)"
    and "ok \<Longrightarrow> v_capital v db p = None \<Longrightarrow> n = 0"
proof -
  obtain mid where m: "others v db mid"
    "if ok then put_capital v mid p (\<lambda>c. c\<lparr>c_gold := g\<rparr>) ver n db' else same_view v mid db'"
    using contractE[OF assms] by (metis effect.simps(7))
  note o = others_frame[OF m(1)]
  show "v_pledge v db' = v_pledge v db"
    using m(2) o(2) by (auto simp: put_capital_def same_view_def split: if_splits)
  show "ng v p db' = ng v p db" if "\<not> (ok \<and> n > 0)"
    using m(2) o(1)[of p] that
    by (auto simp: put_capital_def same_view_def ng_def split: if_splits option.splits)
  show "ok \<Longrightarrow> v_capital v db p = None \<Longrightarrow> n = 0"
    using m(2) o(4)[of p] by (auto simp: put_capital_def split: option.splits)
  assume a: "ok" "n > 0" "row_since v p c db" "c_version c = ver"
  then obtain d where d: "v_capital v mid p = Some d" "c_version d = c_version c \<longrightarrow> d = c"
    using o(3) by (auto simp: row_since_def)
  with m(2) a have "d = c" "v_capital v db' p = Some (c\<lparr>c_gold := g, c_version := ver + 1\<rparr>)"
    "v_ext v db' = v_ext v mid"
    by (auto simp: put_capital_def split: if_splits)
  then show "ng v p db' = ng v p db + (g - c_gold c)"
    using o(1)[of p] d(1) by (simp add: ng_def)
qed

lemma Count_spec:
  assumes "sql_contract sq v" and "MysqlCount sq (CountPledge p w) db = ((ok, cnt), db')"
  shows "ng v q db' = ng v q db" and "v_pledge v db' = v_pledge v db"
    and "row_since v q c db \<Longrightarrow> row_since v q c db'"
    and "ok \<Longrightarrow> cnt = (case v_pledge v db (p, w) of None \<Rightarrow> 0 | Some x \<Rightarrow> 1)"
proof -
  obtain rows n where s: "sq (CountPledge p w) db = (ok, rows, n, db')"
    and cnt: "cnt = (if \<not> ok then 0 else case rows of CountRow n # _ \<Rightarrow> n | _ \<Rightarrow> 0)"
    using assms(2) by (cases "sq (CountPledge p w) db") (auto simp: MysqlCount_def Let_def)
  obtain mid where m: "others v db mid" "same_view v mid db'"
    "ok \<Longrightarrow> rows = [CountRow (case v_pledge v mid (p, w) of None \<Rightarrow> 0 | Some x \<Rightarrow> 1)]"
    using contractE[OF assms(1) s] by (metis effect.simps(3))
  note o = others_frame[OF m(1)] and e = same_view_frame[OF m(2)]
  show "ng v q db' = ng v q db" "v_pledge v db' = v_pledge v db" using o e by simp_all
  show "row_since v q c db \<Longrightarrow> row_since v q c db'" using o(3) e(3) by simp
  show "ok \<Longrightarrow> cnt = (case v_pledge v db (p, w) of None \<Rightarrow> 0 | Some x \<Rightarrow> 1)"
    using m(3) o(2) by (simp add: cnt)
qed

lemma updateCashPledge_spec:
  assumes "sql_contract sq v" and "updateCashPledge sq w p x db = (ok, db')"
  shows "ng v q db' = ng v q db" and "row_since v q c db \<Longrightarrow> row_since v q c db'"
    and "v_pledge v db' = (if ok then (v_pledge v db)((p, w) := if x > 0 then Some x else None) else v_pledge v db)"
proof -
  obtain ok1 cnt db1 where c: "MysqlCount sq (CountPledge p w) db = ((ok1, cnt), db1)"
    by (metis surj_pair)
  note cs = Count_spec[OF assms(1) c]
  define task where "task = (if x > 0
      then Some (if cnt = 0 then InsertPledge p w x else UpdatePledge p w x)
      else if cnt > 0 then Some (DeletePledge p w) else None)"
  have u: "(ok, db') = (if \<not> ok1 then (False, db1) else case task of None \<Rightarrow> (True, db1)
      | Some s \<Rightarrow> (case sq s db1 of (ok2, _, _, db2) \<Rightarrow> (ok2, db2)))"
    using assms(2) by (simp only: updateCashPledge_def c Let_def prod.case task_def)
  have "ng v q db' = ng v q db \<and> (row_since v q c db \<longrightarrow> row_since v q c db')
      \<and> v_pledge v db' = (if ok then (v_pledge v db)((p, w) := if x > 0 then Some x else None) else v_pledge v db)"
  proof (cases "ok1 \<and> task \<noteq> None")
    case False
    then have "db' = db1" and okt: "ok \<longrightarrow> ok1 \<and> task = None" using u by (auto split: if_splits)
    moreover have "ok \<Longrightarrow> \<not> x > 0 \<and> v_pledge v db (p, w) = None"
      using okt cs(4) by (auto simp: task_def split: if_splits option.splits)
    ultimately show ?thesis using cs by (auto simp: fun_upd_idem)
  next
    case True
    then obtain s where s: "task = Some s" by auto
    obtain rows n where q: "sq s db1 = (ok, rows, n, db')"
      using u True s by (cases "sq s db1") auto
    define y where "y = (\<lambda>a. if x > 0 then (if cnt = 0 \<or> v_pledge v a (p, w) \<noteq> None then Some x else None) else None)"
    have "effect v s a rows n b \<Longrightarrow> put_pledge v a (p, w) (y a) b" for a b
      using s by (auto simp: task_def y_def split: if_splits)
    note ps = pledge_stmt_spec[OF assms(1) q this]
    from ps(3) obtain mid where m: "v_pledge v mid = v_pledge v db1"
      "v_pledge v db' = (if ok then (v_pledge v mid)((p, w) := y mid) else v_pledge v mid)" by blast
    have "y mid = (if x > 0 then Some x else None)"
      using cs(2,4) True m(1) by (auto simp: y_def split: option.splits)
    with m cs ps(1,2) show ?thesis by simp
  qed
  then show "ng v q db' = ng v q db" and "row_since v q c db \<Longrightarrow> row_since v q c db'"
    and "v_pledge v db' = (if ok then (v_pledge v db)((p, w) := if x > 0 then Some x else None) else v_pledge v db)"
    by simp_all
qed

lemma row_since_refl: "v_capital v db p = Some c \<Longrightarrow> row_since v p c db"
  by (simp add: row_since_def)

lemma return_loop_spec:
  assumes "sql_contract sq v" and "return_loop n sq p x db = (r, db')"
  shows "v_pledge v db' = v_pledge v db" and "ng v p db' = ng v p db + (if r then x else 0)"
proof -
  have "v_pledge v db' = v_pledge v db \<and> ng v p db' = ng v p db + (if r then x else 0)"
    using assms(2)
  proof (induction n arbitrary: db)
    case (Suc i)
    obtain t db1 where t: "GetCapital sq p db = (t, db1)" by fastforce
    note gs = GetCapital_spec[OF assms(1) t]
    show ?case
    proof (cases "gc_succeed t")
      case False
      then show ?thesis using Suc.prems t gs by auto
    next
      case True
      let ?g = "(if gc_rows t > 0 then gc_gold t else 0) + x"
      obtain ok rows n db2 where q: "sq (UpdateGold p ?g (gc_version t)) db1 = (ok, rows, n, db2)"
        by (metis prod_cases4)
      note us = UpdateGold_spec[OF assms(1) q]
      have step: "ok \<Longrightarrow> n > 0 \<Longrightarrow> ng v p db2 = ng v p db1 + x"
      proof -
        assume a: "ok" "n > 0"
        then obtain c where c: "v_capital v db1 p = Some c" using us(4) by fastforce
        then show ?thesis
          using us(3)[OF a row_since_refl[OF c]] gs(3)[OF True] by simp
      qed
      show ?thesis
      proof (cases "ok \<and> n \<le> 0")
        case retry: True
        then have "return_loop i sq p x db2 = (r, db')" using Suc.prems t True q by simp
        from Suc.IH[OF this] show ?thesis using us(1,2) retry gs by auto
      next
        case False
        then have "r = (ok \<and> n > 0) \<and> db' = db2" using Suc.prems t True q by (auto split: if_splits)
        then show ?thesis using us(1,2) step gs by auto
      qed
    qed
  qed simp
  then show "v_pledge v db' = v_pledge v db" and "ng v p db' = ng v p db + (if r then x else 0)" by simp_all
qed

lemma deduct_loop_spec:
  assumes "sql_contract sq v" and "0 \<le> pa_cashPledge a" and "pa_cashPledge a < goldNeed"
    and "v_pledge v db (pa_playerId a, w) = (if pa_cashPledge a = 0 then None else Some (pa_cashPledge a))"
    and "deduct_loop n sq w goldNeed kick a db = (r, a', db')"
  shows "r \<longrightarrow> wealth v (pa_playerId a) w db' = wealth v (pa_playerId a) w db
      \<and> v_pledge v db' (pa_playerId a, w) = Some goldNeed \<and> pa_cashPledge a' = goldNeed"
proof -
  let ?p = "pa_playerId a"
  have "r \<longrightarrow> ng v ?p db' = ng v ?p db - (goldNeed - pa_cashPledge a)
      \<and> v_pledge v db' (?p, w) = Some goldNeed \<and> pa_cashPledge a' = goldNeed"
    using assms(5)
  proof (induction n arbitrary: db)
    case (Suc i)
    obtain t db1 where t: "GetCapital sq ?p db = (t, db1)" by fastforce
    note gs = GetCapital_spec[OF assms(1) t]
    define test where "test = (\<not> gc_gold t < goldNeed - pa_cashPledge a)"
    define g where "g = (if test then gc_gold t - (goldNeed - pa_cashPledge a) else gc_gold t + pa_cashPledge a)"
    obtain up db2 where u: "updateCashPledge sq w ?p (if test then goldNeed else 0) db1 = (up, db2)" by fastforce
    note us = updateCashPledge_spec[OF assms(1) u]
    obtain ok rows m db3 where q: "sq (UpdateGold ?p g (gc_version t)) db2 = (ok, rows, m, db3)"
      by (metis prod_cases4)
    note qs = UpdateGold_spec[OF assms(1) q]
    have d: "deduct_loop (Suc i) sq w goldNeed kick a db =
       (if \<not> gc_succeed t \<or> gc_rows t < 1 then (False, a, db1)
        else if \<not> test \<and> \<not> kick then (False, a, db1)
        else if \<not> up then (False, a, db2)
        else if \<not> ok then (False, a, db3)
        else if m > 0 then (test, a\<lparr>pa_gold := g, pa_cashPledge := (if test then goldNeed else 0)\<rparr>, db3)
        else deduct_loop i sq w goldNeed kick a db3)"
      using u q by (cases test) (simp_all add: t Let_def g_def test_def)
    note pr = Suc.prems[unfolded d]
    show ?case
    proof (cases "gc_succeed t \<and> \<not> gc_rows t < 1 \<and> (test \<or> kick) \<and> up \<and> ok")
      case False
      then show ?thesis using pr by (auto split: if_splits)
    next
      case True
      show ?thesis
      proof (cases "m > 0")
        case False
        then have "deduct_loop i sq w goldNeed kick a db3 = (r, a', db')"
          using pr True by (auto split: if_splits)
        from Suc.IH[OF this] show ?thesis
          using gs(1) us(1)[of ?p] qs(2) False by simp
      next
        case m: True
        then have e: "r = test" "a' = a\<lparr>pa_gold := g, pa_cashPledge := (if test then goldNeed else 0)\<rparr>" "db' = db3"
          using pr True by (auto split: if_splits)
        obtain c where c: "v_capital v db1 ?p = Some c" "gc_gold t = c_gold c" "gc_version t = c_version c"
          using gs(3) True by (auto split: option.splits)
        have "ng v ?p db3 = ng v ?p db2 + (g - c_gold c)"
          using qs(3)[of c] True m us(2)[OF row_since_refl[OF c(1)]] c(3) by simp
        then show ?thesis
          using e gs(1,2) us(1)[of ?p] us(3) qs(1) True c(2) assms(2,3) by (auto simp: g_def)
      qed
    qed
  qed simp
  then show ?thesis using assms(2,4) by (auto simp: wealth_ng)
qed

lemma returnCashPledge_spec:
  assumes "sql_contract sq v" and "returnCashPledge sq w p db = (r, db')"
    and "\<forall>x. v_pledge v db (p, w) = Some x \<longrightarrow> 0 \<le> x"
  shows "r \<Longrightarrow> wealth v p w db' = wealth v p w db \<and> v_pledge v db' (p, w) = None"
    and "\<not> r \<Longrightarrow> ng v p db' = ng v p db \<and>
       (v_pledge v db' (p, w) = v_pledge v db (p, w) \<or> v_pledge v db' (p, w) = None)"
proof -
  obtain t db1 where t: "GetCashPledge sq p w db = (t, db1)" by fastforce
  note gs = GetCashPledge_spec[OF assms(1) t]
  let ?x = "(if gp_rows t > 0 then gp_amount t else 0)"
  obtain ok rows n db2 where q: "sq (DeletePledge p w) db1 = (ok, rows, n, db2)" by (metis prod_cases4)
  have "effect v (DeletePledge p w) a rows n b \<Longrightarrow> put_pledge v a (p, w) None b" for a b by simp
  note ps = pledge_stmt_spec[OF assms(1) q this]
  have pl: "v_pledge v db2 = (if ok then (v_pledge v db)((p, w) := None) else v_pledge v db)"
    using ps(3) gs(2) by auto
  have d: "returnCashPledge sq w p db = (if \<not> gp_succeed t then (False, db1)
      else if \<not> ok then (False, db2) else if ?x \<le> 0 then (True, db2)
      else return_loop 10 sq p ?x db2)"
    using q by (simp add: returnCashPledge_def t Let_def)
  show "wealth v p w db' = wealth v p w db \<and> v_pledge v db' (p, w) = None" if r
  proof (cases "?x \<le> 0")
    case True
    then have "db' = db2" "ok" "gp_succeed t" using that d assms(2) by (auto split: if_splits)
    moreover have "(case v_pledge v db (p, w) of None \<Rightarrow> 0 | Some x \<Rightarrow> x) = 0"
      using gs(3) True assms(3) \<open>gp_succeed t\<close> by (auto split: option.splits)
    ultimately show ?thesis using pl ps(1)[of p] gs(1) by (simp add: wealth_ng)
  next
    case False
    then have l: "return_loop 10 sq p ?x db2 = (r, db')" "ok" "gp_succeed t"
      using that d assms(2) by (auto split: if_splits)
    from return_loop_spec[OF assms(1) l(1)] show ?thesis
      using that pl l(2) ps(1)[of p] gs(1) gs(3)[OF l(3)] by (simp add: wealth_ng)
  qed
  show "ng v p db' = ng v p db \<and>
       (v_pledge v db' (p, w) = v_pledge v db (p, w) \<or> v_pledge v db' (p, w) = None)" if "\<not> r"
  proof (cases "gp_succeed t \<and> ok \<and> \<not> ?x \<le> 0")
    case True
    then have "return_loop 10 sq p ?x db2 = (r, db')" using d assms(2) by auto
    from return_loop_spec[OF assms(1) this] show ?thesis
      using that True pl ps(1)[of p] gs(1) by simp
  next
    case False
    then have "db' = db1 \<or> (db' = db2 \<and> \<not> ok)" using that d assms(2) by (auto split: if_splits)
    then show ?thesis using pl ps(1)[of p] gs(1,2) by auto
  qed
qed

lemma UpdateDiamond_spec:
  assumes "sql_contract sq v" and "sq (UpdateDiamond p g ver) db = (ok, rows, n, db')"
  shows "\<not> (ok \<and> n > 0) \<Longrightarrow> nd v p db' = nd v p db"
    and "ok \<Longrightarrow> n > 0 \<Longrightarrow> row_since v p c db \<Longrightarrow> c_version c = ver \<Longrightarrow> nd v p db' = nd v p db + (g - c_diamond c)"
proof -
  obtain mid where m: "others v db mid"
    "if ok then put_capital v mid p (\<lambda>c. c\<lparr>c_diamond := g\<rparr>) ver n db' else same_view v mid db'"
    using contractE[OF assms] by (metis effect.simps(8))
  note o = others_frame[OF m(1)]
  show "nd v p db' = nd v p db" if "\<not> (ok \<and> n > 0)"
    using m(2) o(5)[of p] that
    by (auto simp: put_capital_def same_view_def nd_def split: if_splits option.splits)
  assume a: "ok" "n > 0" "row_since v p c db" "c_version c = ver"
  then obtain d where d: "v_capital v mid p = Some d" "c_version d = c_version c \<longrightarrow> d = c"
    using o(3) by (auto simp: row_since_def)
  with m(2) a have "d = c" "v_capital v db' p = Some (c\<lparr>c_diamond := g, c_version := ver + 1\<rparr>)"
    "v_extd v db' = v_extd v mid"
    by (auto simp: put_capital_def split: if_splits)
  then show "nd v p db' = nd v p db + (g - c_diamond c)"
    using o(5)[of p] d(1) by (simp add: nd_def)
qed

lemma diamond_loop_spec:
  assumes "sql_contract sq v" and "diamond_loop n sq p need diamond db = (r, left, db')"
  shows "nd v p db' = nd v p db - (if r then need else 0)" and "r \<Longrightarrow> 0 < need \<Longrightarrow> 0 \<le> left"
proof -
  have "nd v p db' = nd v p db - (if r then need else 0) \<and> (r \<longrightarrow> 0 < need \<longrightarrow> 0 \<le> left)"
    using assms(2)
  proof (induction n arbitrary: diamond db)
    case (Suc i)
    obtain t db1 where t: "GetCapital sq p db = (t, db1)" by fastforce
    note gs = GetCapital_spec[OF assms(1) t]
    define d where "d = gc_diamond t - need"
    obtain ok rows m db2 where q: "sq (UpdateDiamond p d (gc_version t)) db1 = (ok, rows, m, db2)"
      by (metis prod_cases4)
    note us = UpdateDiamond_spec[OF assms(1) q]
    have e: "diamond_loop (Suc i) sq p need diamond db =
       (if \<not> gc_succeed t \<or> gc_rows t < 1 then (False, diamond, db1)
        else if need = 0 then (True, gc_diamond t, db1)
        else if need > gc_diamond t then (False, diamond, db1)
        else if \<not> ok then (False, d, db2)
        else if m > 0 then (True, d, db2) else diamond_loop i sq p need d db2)"
      using q by (simp add: t Let_def d_def)
    note pr = Suc.prems[unfolded e]
    show ?case
    proof (cases "gc_succeed t \<and> \<not> gc_rows t < 1 \<and> need \<noteq> 0 \<and> \<not> need > gc_diamond t \<and> ok")
      case False
      then show ?thesis using pr gs(4) us(1) by (auto split: if_splits)
    next
      case True
      then obtain c where c: "v_capital v db1 p = Some c" "gc_diamond t = c_diamond c" "gc_version t = c_version c"
        using gs(3) by (auto split: option.splits)
      show ?thesis
      proof (cases "m > 0")
        case True': True
        then have "r" "left = d" "db' = db2" using pr True by (auto split: if_splits)
        moreover have "nd v p db2 = nd v p db1 + (d - c_diamond c)"
          using us(2)[of c] True True' row_since_refl[OF c(1)] c(3) by simp
        ultimately show ?thesis using gs(4) c(2) True by (simp add: d_def)
      next
        case False
        then have "diamond_loop i sq p need d db2 = (r, left, db')" using pr True by (auto split: if_splits)
        from Suc.IH[OF this] show ?thesis using us(1) False gs(4) by simp
      qed
    qed
  qed simp
  then show "nd v p db' = nd v p db - (if r then need else 0)" and "r \<Longrightarrow> 0 < need \<Longrightarrow> 0 \<le> left" by auto
qed

lemma joinGame_paid:
  assumes "sql_contract sq v" and "GetCapital sq p db = (t, db1)" and "gc_succeed t"
    and "sq (UpdateGold p (gc_gold t - delta) (gc_version t)) db1 = (ok, rows, n, db2)"
  shows "ok \<and> n > 0 \<Longrightarrow> ng v p db2 = ng v p db - delta"
    and "\<not> (ok \<and> n > 0) \<Longrightarrow> ng v p db2 = ng v p db"
    and "v_pledge v db2 = v_pledge v db"
proof -
  note gs = GetCapital_spec[OF assms(1,2)] and us = UpdateGold_spec[OF assms(1,4)]
  show "v_pledge v db2 = v_pledge v db" using gs(2) us(1) by simp
  show "ng v p db2 = ng v p db" if "\<not> (ok \<and> n > 0)" using gs(1) us(2) that by simp
  show "ng v p db2 = ng v p db - delta" if a: "ok \<and> n > 0"
  proof -
    from a us(4) obtain c where c: "v_capital v db1 p = Some c" by fastforce
    then show ?thesis
      using us(3)[of c] a row_since_refl[OF c] gs(1) gs(3)[OF assms(3)] by simp
  qed
qed

lemma joinGame_pledge_spec:
  assumes "sql_contract sq v" and "0 < need"
    and "joinGame_pledge sq w need dn p db = (r, db')"
  defines "old \<equiv> (case v_pledge v db (p, w) of None \<Rightarrow> 0 | Some x \<Rightarrow> x)"
  shows "case r of
     Inr x \<Rightarrow> wealth v p w db' = wealth v p w db \<and> need \<le> x \<and> v_pledge v db' (p, w) = Some x
   | Inl e \<Rightarrow> wealth v p w db' = wealth v p w db \<or>
       (e = DatabaseError \<and> wealth v p w db' = wealth v p w db - (need - old)
        \<and> v_pledge v db' (p, w) = v_pledge v db (p, w))"
proof -
  obtain t1 db1 where t1: "GetCashPledge sq p w db = (t1, db1)" by fastforce
  note gp = GetCashPledge_spec[OF assms(1) t1]
  define have' where "have' = (if gp_rows t1 > 0 then gp_amount t1 else 0)"
  obtain t2 db2 where t2: "GetCapital sq p db1 = (t2, db2)" by fastforce
  note gc = GetCapital_spec[OF assms(1) t2]
  obtain ok rows n db3 where q: "sq (UpdateGold p (gc_gold t2 - (need - have')) (gc_version t2)) db2 = (ok, rows, n, db3)"
    by (metis prod_cases4)
  obtain up db4 where u: "updateCashPledge sq w p need db3 = (up, db4)" by fastforce
  note us = updateCashPledge_spec[OF assms(1) u]
  have d: "joinGame_pledge sq w need dn p db =
     (if \<not> gp_succeed t1 then (Inl DatabaseError, db1)
      else if \<not> (have' < need \<or> dn > 0) then (Inr have', db1)
      else if \<not> gc_succeed t2 then (Inl DatabaseError, db2)
      else if dn > 0 \<and> gc_diamond t2 < dn then (Inl DiamondShort, db2)
      else if \<not> have' < need then (Inr have', db2)
      else if gc_gold t2 < need - have' then (Inl GoldShort, db2)
      else if \<not> ok then (Inl DatabaseError, db3)
      else if n < 1 then (Inl DatabaseConflict, db3)
      else if \<not> up then (Inl DatabaseError, db4) else (Inr need, db4))"
    using q u assms(2)
    by (cases "0 < gp_rows t1") (simp_all add: joinGame_pledge_def t1 t2 Let_def have'_def)
  note pr = assms(3)[unfolded d]
  have frame: "wealth v p w db1 = wealth v p w db" "wealth v p w db2 = wealth v p w db"
    using gp(1,2) gc(1,2) by (simp_all add: wealth_ng)
  show ?thesis
  proof (cases "gp_succeed t1 \<and> gc_succeed t2 \<and> have' < need \<and> \<not> gc_gold t2 < need - have'
      \<and> \<not> (dn > 0 \<and> gc_diamond t2 < dn)")
    case False
    then have "(db' = db1 \<or> db' = db2) \<and> (case r of Inl e \<Rightarrow> True | Inr x \<Rightarrow> x = have' \<and> need \<le> x \<and> gp_succeed t1)"
      using pr by (auto split: if_splits)
    moreover have "gp_succeed t1 \<Longrightarrow> need \<le> have' \<Longrightarrow> v_pledge v db (p, w) = Some have'"
      using gp(3,4) assms(2) by (auto simp: have'_def split: if_splits option.splits)
    ultimately show ?thesis using frame gp(2) gc(2) by (auto split: sum.splits)
  next
    case True
    have h: "have' = old" using gp(3) True by (simp add: have'_def old_def)
    note paid = joinGame_paid[OF assms(1) t2 _ q]
    have ng3: "ng v p db3 = ng v p db1 - (if ok \<and> n > 0 then need - old else 0)"
      using paid(1,2) True h by auto
    have pl3: "v_pledge v db3 = v_pledge v db" using paid(3) True gp(2) by simp
    have "(r = Inl DatabaseError \<and> db' = db3 \<and> \<not> ok) \<or> (r = Inl DatabaseConflict \<and> db' = db3 \<and> ok \<and> n < 1)
      \<or> (r = Inl DatabaseError \<and> db' = db4 \<and> ok \<and> \<not> n < 1 \<and> \<not> up)
      \<or> (r = Inr need \<and> db' = db4 \<and> ok \<and> \<not> n < 1 \<and> up)"
      using pr True by (auto split: if_splits)
    then show ?thesis
      using ng3 pl3 us(1)[of p] us(3) gp(1) assms(2)
      by (elim disjE conjE) (auto simp: wealth_ng old_def)
  qed
qed

section \<open>Properties\<close>

text \<open>Joining a room with a cash pledge moves gold, it neither makes nor destroys any. If the
  player is let in, gold and pledge together are what they were (less what others changed
  meanwhile) and the recorded pledge is at least what the room asks; if the player is
  refused, nothing has moved, with one exception: when recording the pledge fails after the
  gold was taken, exactly the missing part of the pledge is lost.\<close>
theorem joinGame_conserves_gold:
  assumes "sql_contract sq v" and "0 < need"
    and "joinGame_pledge sq w need dn p db = (r, db')"
  defines "old \<equiv> (case v_pledge v db (p, w) of None \<Rightarrow> 0 | Some x \<Rightarrow> x)"
  shows "case r of
     Inr x \<Rightarrow> wealth v p w db' = wealth v p w db \<and> need \<le> x \<and> v_pledge v db' (p, w) = Some x
   | Inl e \<Rightarrow> wealth v p w db' = wealth v p w db \<or>
       (e = DatabaseError \<and> wealth v p w db' = wealth v p w db - (need - old)
        \<and> v_pledge v db' (p, w) = v_pledge v db (p, w))"
  unfolding old_def by (rule joinGame_pledge_spec[OF assms(1-3)])

theorem joinGame_conserves_gold_witness:
  "\<exists>db'. joinGame_pledge (demo_sq (\<lambda>_. False)) ''w'' 30 0 ''p'' demo_capital = (Inr 30, db')
     \<and> wealth demo_view ''p'' ''w'' db' = 100 \<and> snd db' (''p'', ''w'') = Some 30"
proof -
  obtain db' where j: "joinGame_pledge (demo_sq (\<lambda>_. False)) ''w'' 30 0 ''p'' demo_capital = (Inr 30, db')"
    by (simp add: joinGame_pledge_def GetCashPledge_def GetCapital_def updateCashPledge_def MysqlCount_def
        demo_sq_def demo_capital_def)
  have "wealth demo_view ''p'' ''w'' demo_capital = 100"
    by (simp add: wealth_def demo_view_def demo_capital_def)
  with joinGame_conserves_gold[OF demo_contract _ j] j show ?thesis by (simp add: demo_view_def)
qed





text \<open>If \<open>deductCashPledge\<close> fails, gold can appear from nothing: the pledge is raised before
  the gold is taken, so when only the second statement fails the player keeps the gold and
  has the full pledge as well.\<close>
theorem deductCashPledge_can_create_gold:
  "case deductCashPledge (demo_sq is_UpdateGold) ''w''
       (Some \<lparr>pa_playerId = ''p'', pa_gold = 100, pa_cashPledge = 0\<rparr>) 40 True demo_capital of
     (r, a', db') \<Rightarrow> \<not> r \<and> sql_contract (demo_sq is_UpdateGold) demo_view
        \<and> wealth demo_view ''p'' ''w'' demo_capital = 100 \<and> wealth demo_view ''p'' ''w'' db' = 140"
  using demo_contract[of is_UpdateGold]
  by (simp add: deductCashPledge_def GetCapital_def updateCashPledge_def MysqlCount_def demo_sq_def
      demo_capital_def numeral_eq_Suc is_UpdateGold_def wealth_def demo_view_def)

text \<open>\<open>deductDiamond\<close> takes exactly the diamonds the room asks for when it succeeds, never more
  than the player has, and none when it fails, also under concurrent changes.\<close>
theorem deductDiamond_exact:
  assumes "sql_contract sq v" and "deductDiamond sq need p diamond db = (r, left, db')"
  shows "nd v p db' = nd v p db - (if r then need else 0) \<and> (r \<and> 0 < need \<longrightarrow> 0 \<le> left)"
  using diamond_loop_spec[OF assms(1) assms(2)[unfolded deductDiamond_def]] by simp

theorem deductDiamond_exact_witness:
  "\<exists>db'. deductDiamond (demo_sq (\<lambda>_. False)) 2 ''p'' 0 demo_capital = (True, 3, db')
     \<and> nd demo_view ''p'' db' = 3"
proof -
  obtain db' where j: "deductDiamond (demo_sq (\<lambda>_. False)) 2 ''p'' 0 demo_capital = (True, 3, db')"
    by (simp add: deductDiamond_def GetCapital_def demo_sq_def demo_capital_def numeral_eq_Suc)
  have "nd demo_view ''p'' demo_capital = 5" by (simp add: nd_def demo_view_def demo_capital_def)
  with deductDiamond_exact[OF demo_contract j] j show ?thesis by simp
qed

end
