(* ===== verification/Players.thy ===== *)
theory Players
  imports Sessions Capital
begin

text \<open>
  Players and the authentication of their messages: \<open>Player/Player.cpp\<close>,
  \<open>Player/PlayerManager.cpp\<close>, \<open>Player/PlayerSignatureHandler.cpp\<close>,
  \<open>Player/LoadPlayerTask.cpp\<close> and the message classes of \<open>Player/PlayerMessages.h\<close>.

  The clock is a parameter of each operation; \<open>sq\<close> is the database interface of the theory
  of capital, \<open>md5\<close> the digest. A
  weak pointer to a session is its number, looked up among the sessions that exist.
  \<open>None\<close> as the result of an operation that uses Redis: the caller waits for a connection.
\<close>

section \<open>Players\<close>

record Player =
  pl_id :: string
  pl_name :: string
  pl_nickname :: string
  pl_phone :: string
  pl_sex :: int
  pl_avatar :: string
  pl_secret :: string
  pl_nonceSequence :: "(string \<times> int) list"
  pl_nonceSet :: "string list"
  pl_session :: "nat option"
  pl_venueId :: string
  pl_offlineTime :: int
  pl_referenceTime :: int

definition Player_new :: "int \<Rightarrow> string \<Rightarrow> Player" where
  "Player_new now playerId =
     \<lparr>pl_id = playerId, pl_name = [], pl_nickname = [], pl_phone = [], pl_sex = 0, pl_avatar = [],
      pl_secret = [], pl_nonceSequence = [], pl_nonceSet = [], pl_session = None, pl_venueId = [],
      pl_offlineTime = 0, pl_referenceTime = now\<rparr>"

fun prune_nonces :: "int \<Rightarrow> (string \<times> int) list \<Rightarrow> string list \<Rightarrow> (string \<times> int) list \<times> string list" where
  \<comment> \<open>the loop of \<open>testNonce\<close>\<close>
  "prune_nonces timestamp [] ns = ([], ns)"
| "prune_nonces timestamp ((nonce, t) # sq) ns =
     (if timestamp - t > 60 then prune_nonces timestamp sq (us_erase nonce ns)
      else ((nonce, t) # sq, ns))"

definition testNonce :: "string \<Rightarrow> int \<Rightarrow> Player \<Rightarrow> bool \<times> Player" where
  "testNonce nonce timestamp p =
     (let (sq, ns) = prune_nonces timestamp (pl_nonceSequence p) (pl_nonceSet p) in
      if nonce \<in> set ns then (False, p\<lparr>pl_nonceSequence := sq, pl_nonceSet := ns\<rparr>)
      else (True, p\<lparr>pl_nonceSequence := sq @ [(nonce, timestamp)], pl_nonceSet := us_insert nonce ns\<rparr>))"

definition setSession :: "nat option \<Rightarrow> Player \<Rightarrow> Player" where
  "setSession session p = p\<lparr>pl_session := session\<rparr>"

definition getSession :: "(nat, Session) umap \<Rightarrow> Player \<Rightarrow> (nat \<times> Session) option" where
  "getSession sessions p =
     (case pl_session p of
        None \<Rightarrow> None
      | Some i \<Rightarrow> map_option (\<lambda>s. (i, s)) (um_find sessions i))"

definition setVenueId :: "string \<Rightarrow> Player \<Rightarrow> Player" where
  "setVenueId venueId p = p\<lparr>pl_venueId := venueId\<rparr>"

definition getIp :: "(nat, Session) umap \<Rightarrow> Player \<Rightarrow> string \<Rightarrow> bool \<times> string" where
  "getIp sessions p ip =
     (case getSession sessions p of
        None \<Rightarrow> (False, ip)
      | Some (i, s) \<Rightarrow> (se_remoteIp s \<noteq> [], se_remoteIp s))"

definition setOffline :: "int \<Rightarrow> Player \<Rightarrow> Player" where
  "setOffline now p = p\<lparr>pl_session := None, pl_offlineTime := now\<rparr>"

definition getOffline :: "(nat, Session) umap \<Rightarrow> Player \<Rightarrow> bool" where
  "getOffline sessions p =
     (case getSession sessions p of None \<Rightarrow> True | Some (i, s) \<Rightarrow> \<not> se_valid s)"

definition touch :: "int \<Rightarrow> Player \<Rightarrow> Player" where
  "touch nowTime p = p\<lparr>pl_referenceTime := nowTime\<rparr>"

section \<open>Messages\<close>

record MsgPlayerSignature =
  ms_playerId :: string
  ms_timestamp :: string
  ms_nonce :: string
  ms_signature :: string

record MsgPlayerSignatureError =
  me_outdate :: bool

section \<open>The player manager\<close>

record PlayerManager =
  pm_players :: "(string, Player) umap"
  pm_sessionMap :: "(string, string) umap"
  pm_offlineIds :: "string list"
  pm_inexactTime :: int

definition getPlayer :: "string \<Rightarrow> PlayerManager \<Rightarrow> Player option \<times> PlayerManager" where
  "getPlayer playerId pm =
     (case um_find (pm_players pm) playerId of
        None \<Rightarrow> (None, pm)
      | Some p \<Rightarrow>
          let p' = touch (pm_inexactTime pm) p
          in (Some p', pm\<lparr>pm_players := um_put playerId p' (pm_players pm)\<rparr>))"

definition put_player :: "Player \<Rightarrow> PlayerManager \<Rightarrow> PlayerManager" where
  \<comment> \<open>a method call through a pointer to a player the manager holds\<close>
  "put_player p pm = pm\<lparr>pm_players := um_put (pl_id p) p (pm_players pm)\<rparr>"

definition addPlayer :: "Player option \<Rightarrow> PlayerManager \<Rightarrow> bool \<times> PlayerManager" where
  "addPlayer player pm =
     (case player of
        None \<Rightarrow> (False, pm)
      | Some p \<Rightarrow>
          if um_find (pm_players pm) (pl_id p) \<noteq> None then (False, pm)
          else (True, pm\<lparr>pm_players := um_insert (pl_id p) p (pm_players pm)\<rparr>))"

record LoadPlayerTask =
  lt_name :: string
  lt_nickname :: string
  lt_phone :: string
  lt_sex :: int
  lt_avatar :: string

definition LoadPlayer_fetchResult :: "sqlrow list \<Rightarrow> LoadPlayerTask" where
  \<comment> \<open>every row overwrites the one before\<close>
  "LoadPlayer_fetchResult rows =
     fold (\<lambda>r t. case r of
             PlayerRow name nickname phone sex avatar \<Rightarrow>
               \<lparr>lt_name = name, lt_nickname = nickname, lt_phone = phone, lt_sex = sex, lt_avatar = avatar\<rparr>
           | _ \<Rightarrow> t) rows
       \<lparr>lt_name = [], lt_nickname = [], lt_phone = [], lt_sex = 0, lt_avatar = []\<rparr>"

definition loadPlayer_db :: "'d syncQuery \<Rightarrow> Player \<Rightarrow> 'd \<Rightarrow> (bool \<times> Player) \<times> 'd" where
  "loadPlayer_db sq player db =
     (let (ok, rows, _, db') = sq (SelectPlayer (pl_id player)) db in
      if \<not> ok then ((False, player), db')
      else let task = LoadPlayer_fetchResult rows
           in ((True, player\<lparr>pl_name := lt_name task, pl_nickname := lt_nickname task,
                  pl_phone := lt_phone task, pl_sex := lt_sex task, pl_avatar := lt_avatar task\<rparr>), db'))"

definition loadPlayer ::
  "'d syncQuery \<Rightarrow> int \<Rightarrow> string \<Rightarrow> PlayerManager \<times> 'd \<Rightarrow> Player option \<times> PlayerManager \<times> 'd" where
  "loadPlayer sq now playerId = (\<lambda>(pm, db).
     case getPlayer playerId pm of
       (Some p, pm1) \<Rightarrow> (Some p, pm1, db)
     | (None, pm1) \<Rightarrow>
         let ((ok, p), db1) = loadPlayer_db sq (Player_new now playerId) db in
         if ok
         then let (added, pm2) = addPlayer (Some p) pm1
              in if \<not> added then (let (q, pm3) = getPlayer playerId pm2 in (q, pm3, db1))
                 else (Some p, pm2, db1)
         else (None, pm1, db1))"

definition setSessionPlayerId :: "string \<Rightarrow> string \<Rightarrow> PlayerManager \<Rightarrow> PlayerManager" where
  "setSessionPlayerId sessionId playerId pm =
     pm\<lparr>pm_sessionMap := um_put sessionId playerId (pm_sessionMap pm)\<rparr>"

definition removeSessionId :: "string \<Rightarrow> PlayerManager \<Rightarrow> PlayerManager" where
  "removeSessionId sessionId pm = pm\<lparr>pm_sessionMap := um_erase sessionId (pm_sessionMap pm)\<rparr>"

definition getPlayerId :: "string \<Rightarrow> PlayerManager \<Rightarrow> string option" where
  "getPlayerId sessionId pm = um_find (pm_sessionMap pm) sessionId"

definition getPlayerBySessionId :: "string \<Rightarrow> PlayerManager \<Rightarrow> Player option" where
  "getPlayerBySessionId sessionId pm =
     (case um_find (pm_sessionMap pm) sessionId of
        None \<Rightarrow> None
      | Some playerId \<Rightarrow> um_find (pm_players pm) playerId)"

definition addOfflinePlayer :: "string \<Rightarrow> PlayerManager \<Rightarrow> PlayerManager" where
  "addOfflinePlayer playerId pm = pm\<lparr>pm_offlineIds := pm_offlineIds pm @ [playerId]\<rparr>"

fun free_loop ::
  "(nat, Session) umap \<Rightarrow> int \<Rightarrow> string list \<Rightarrow> (string, Player) umap \<Rightarrow> string list \<times> (string, Player) umap" where
  \<comment> \<open>the loop of \<open>freeDormantPlayers\<close> from the iterator on: what remains of the list, and the
      players\<close>
  "free_loop sessions nowTime [] players = ([], players)"
| "free_loop sessions nowTime (i # ids) players =
     (case um_find players i of
        None \<Rightarrow> (ids, players)
      | Some p \<Rightarrow>
          if \<not> getOffline sessions p then (ids, players)
          else if pl_venueId p \<noteq> [] then
            (let (ids', ps') = free_loop sessions nowTime ids players in (i # ids', ps'))
          else if nowTime - pl_offlineTime p < 30 then (i # ids, players)
          else if nowTime - pl_referenceTime p < 20 then
            (let (ids', ps') = free_loop sessions nowTime ids players in (i # ids', ps'))
          else free_loop sessions nowTime ids (um_erase i players))"

definition freeDormantPlayers :: "(nat, Session) umap \<Rightarrow> int \<Rightarrow> PlayerManager \<Rightarrow> PlayerManager" where
  "freeDormantPlayers sessions nowTime pm =
     (if pm_offlineIds pm = [] then pm
      else let (ids, ps) = free_loop sessions nowTime (pm_offlineIds pm) (pm_players pm)
           in pm\<lparr>pm_inexactTime := nowTime, pm_offlineIds := ids, pm_players := ps\<rparr>)"

definition dormant :: "(nat, Session) umap \<Rightarrow> int \<Rightarrow> Player \<Rightarrow> bool" where
  \<comment> \<open>a player who may be freed\<close>
  "dormant sessions now p \<longleftrightarrow> getOffline sessions p \<and> pl_venueId p = []
     \<and> 30 \<le> now - pl_offlineTime p \<and> 20 \<le> now - pl_referenceTime p"

section \<open>Signatures\<close>

type_synonym ('d, 'r) auth_state = "PlayerManager \<times> 'd \<times> 'r RedisPoolImpl"

record 'r auth_env =
  ae_redis :: "'r redis_env"
  ae_md5 :: "string \<Rightarrow> string"

definition PLAYER_MESSAGE_SECRET :: string where
  "PLAYER_MESSAGE_SECRET = ''player_message_secret:''"

definition signature_text :: "string \<Rightarrow> string \<Rightarrow> string \<Rightarrow> string \<Rightarrow> string" where
  "signature_text playerId timestamp nonce secret =
     playerId @ ''&'' @ timestamp @ ''&'' @ nonce @ ''&'' @ secret"

definition verifySignature ::
  "'r auth_env \<Rightarrow> 'd syncQuery \<Rightarrow> int \<Rightarrow> string \<Rightarrow> string \<Rightarrow> string \<Rightarrow> string \<Rightarrow> ('d, 'r) auth_state
     \<Rightarrow> (bool \<times> bool \<times> ('d, 'r) auth_state) option" where
  \<comment> \<open>the result, the reference parameter \<open>outdate\<close> (false before), the state\<close>
  "verifySignature a sq time1 playerId timestamp nonce signature = (\<lambda>(pm, db, st).
     if playerId = [] then Some (False, False, pm, db, st)
     else let time2 = atoll timestamp in
     if \<bar>time1 - time2\<bar> > 60 then Some (False, True, pm, db, st)
     else case loadPlayer sq time1 playerId (pm, db) of
       (None, pm1, db1) \<Rightarrow> Some (False, False, pm1, db1, st)
     | (Some player, pm1, db1) \<Rightarrow>
       (let (fresh, player1) = testNonce nonce time2 player; pm2 = put_player player1 pm1 in
        if \<not> fresh then Some (False, False, pm2, db1, st)
        else let redisKey = PLAYER_MESSAGE_SECRET @ playerId in
        if pl_secret player1 = [] then
          rbind (redis_get (ae_redis a) time1 redisKey st) (\<lambda>v st1.
            case v of
              None \<Rightarrow> Some (False, False, pm2, db1, st1)
            | Some secret \<Rightarrow>
                if secret = [] then Some (False, False, pm2, db1, st1)
                else \<comment> \<open>\<open>test\<close> is set, so a wrong digest is not looked at again\<close>
                  Some (True, False, put_player (player1\<lparr>pl_secret := secret\<rparr>) pm2, db1, st1))
        else if ae_md5 a (signature_text playerId timestamp nonce (pl_secret player1)) = signature
        then Some (True, False, pm2, db1, st)
        else rbind (redis_get (ae_redis a) time1 redisKey st) (\<lambda>v st1.
               case v of
                 None \<Rightarrow> Some (False, False, pm2, db1, st1)
               | Some temp \<Rightarrow>
                   if temp = pl_secret player1 then Some (False, False, pm2, db1, st1)
                   else let pm3 = put_player (player1\<lparr>pl_secret := temp\<rparr>) pm2 in
                        if temp = [] then Some (False, False, pm3, db1, st1)
                        else Some (ae_md5 a (signature_text playerId timestamp nonce temp) = signature,
                               False, pm3, db1, st1))))"

definition preproccess ::
  "'r auth_env \<Rightarrow> 'd syncQuery \<Rightarrow> int \<Rightarrow> (nat, Session) umap
     \<Rightarrow> MsgPlayerSignature option \<Rightarrow> nat option \<Rightarrow> SecurityManager \<Rightarrow> ('d, 'r) auth_state
     \<Rightarrow> (bool \<times> (nat \<times> MsgPlayerSignatureError) list \<times> SecurityManager \<times> ('d, 'r) auth_state) option" where
  \<comment> \<open>\<open>PlayerSignatureHandler::preproccess\<close>: \<open>sign\<close> is the message if it is signed, the list
      holds the messages sent\<close>
  "preproccess a sq now sessions sign session sm = (\<lambda>(pm, db, st).
     case sign of
       None \<Rightarrow> Some (True, [], sm, pm, db, st)
     | Some m \<Rightarrow>
       (case session of
          None \<Rightarrow> Some (False, [], sm, pm, db, st)
        | Some i \<Rightarrow>
          (case um_find sessions i of
             None \<Rightarrow> Some (False, [], sm, pm, db, st)
           | Some s \<Rightarrow>
             (case verifySignature a sq now (ms_playerId m) (ms_timestamp m) (ms_nonce m)
                     (ms_signature m) (pm, db, st) of
                None \<Rightarrow> None
              | Some (True, outdate, pm1, db1, st1) \<Rightarrow> Some (True, [], sm, pm1, db1, st1)
              | Some (False, outdate, pm1, db1, st1) \<Rightarrow>
                  if outdate then Some (False, [(i, \<lparr>me_outdate = outdate\<rparr>)], sm, pm1, db1, st1)
                  else (case abnormalBehavior (ae_redis a) now (se_remoteIp s) (sm, st1) of
                          None \<Rightarrow> None
                        | Some (sm', st') \<Rightarrow>
                            Some (False, [(i, \<lparr>me_outdate = outdate\<rparr>)], sm', pm1, db1, st'))))))"

section \<open>Vocabulary of the properties\<close>

definition nonce_inv :: "Player \<Rightarrow> bool" where
  "nonce_inv p \<longleftrightarrow> distinct (map fst (pl_nonceSequence p))
     \<and> set (pl_nonceSet p) = fst ` set (pl_nonceSequence p)"

fun present :: "(string \<times> int \<times> int) list \<Rightarrow> Player \<Rightarrow> Player" where
  \<comment> \<open>messages presented with nonce and timestamp, each at a server clock\<close>
  "present [] p = p"
| "present ((nonce, timestamp, clock) # cs) p = present cs (snd (testNonce nonce timestamp p))"

definition demo_auth :: "(string \<Rightarrow> string) \<Rightarrow> unit auth_env" where
  \<comment> \<open>a Redis that answers every command with the same string\<close>
  "demo_auth md5 = \<lparr>ae_redis = \<lparr>re_connect = (\<lambda>r. (True, r)),
       re_command = (\<lambda>args r. (Some (REPLY_STRING ''s3cret''), ERR_NONE, r)), re_password = [],
       re_database = 0\<rparr>, ae_md5 = md5\<rparr>"

definition demo_store :: "unit RedisPoolImpl" where
  "demo_store = \<lparr>rp_pool = DataBasePool_new 1 2, rp_server = ()\<rparr>"

definition demo_players :: "string \<Rightarrow> PlayerManager" where
  "demo_players secret = \<lparr>pm_players = [(''p1'', (Player_new 0 ''p1'')\<lparr>pl_secret := secret\<rparr>)],
     pm_sessionMap = [], pm_offlineIds = [], pm_inexactTime = 0\<rparr>"

section \<open>Lemmas\<close>

lemma prune_nonces_inv:
  assumes "distinct (map fst sq)" and "set ns = fst ` set sq" and "prune_nonces t sq ns = (sq', ns')"
  shows "distinct (map fst sq') \<and> set ns' = fst ` set sq' \<and> set sq' \<subseteq> set sq
     \<and> (\<forall>(n, t0) \<in> set sq. t - t0 \<le> 60 \<longrightarrow> (n, t0) \<in> set sq')"
  using assms
proof (induction t sq ns rule: prune_nonces.induct)
  case (2 t nonce t0 sq ns)
  show ?case
  proof (cases "t - t0 > 60")
    case True
    have "set (us_erase nonce ns) = fst ` set sq" using 2(2,3) by auto
    with 2 True show ?thesis by auto
  qed (use 2 in auto)
qed auto

lemma testNonce_inv:
  assumes "nonce_inv p"
  shows "nonce_inv (snd (testNonce n t p))"
    and "(m, t0) \<in> set (pl_nonceSequence p) \<Longrightarrow> t - t0 \<le> 60 \<Longrightarrow>
           (m, t0) \<in> set (pl_nonceSequence (snd (testNonce n t p)))"
    and "fst (testNonce n t p) \<Longrightarrow> (n, t) \<in> set (pl_nonceSequence (snd (testNonce n t p)))"
    and "(n, t0) \<in> set (pl_nonceSequence p) \<Longrightarrow> t - t0 \<le> 60 \<Longrightarrow> \<not> fst (testNonce n t p)"
proof -
  obtain sq ns where pr: "prune_nonces t (pl_nonceSequence p) (pl_nonceSet p) = (sq, ns)" by fastforce
  have i: "distinct (map fst sq)" "set ns = fst ` set sq"
    "\<And>m t0. (m, t0) \<in> set (pl_nonceSequence p) \<Longrightarrow> t - t0 \<le> 60 \<Longrightarrow> (m, t0) \<in> set sq"
    using prune_nonces_inv[OF _ _ pr] assms by (auto simp: nonce_inv_def)
  show "nonce_inv (snd (testNonce n t p))"
    using i(1,2) by (auto simp: testNonce_def pr nonce_inv_def container_simps)
  show "(m, t0) \<in> set (pl_nonceSequence p) \<Longrightarrow> t - t0 \<le> 60 \<Longrightarrow>
           (m, t0) \<in> set (pl_nonceSequence (snd (testNonce n t p)))"
    using i(3) by (auto simp: testNonce_def pr)
  show "fst (testNonce n t p) \<Longrightarrow> (n, t) \<in> set (pl_nonceSequence (snd (testNonce n t p)))"
    by (auto simp: testNonce_def pr split: if_splits)
  show "\<not> fst (testNonce n t p)" if "(n, t0) \<in> set (pl_nonceSequence p)" "t - t0 \<le> 60"
  proof -
    have "n \<in> set ns" using i(2) i(3)[OF that] by (metis fst_conv image_eqI)
    then show ?thesis by (simp add: testNonce_def pr)
  qed
qed

lemma present_keeps:
  assumes "nonce_inv p" and "(m, t0) \<in> set (pl_nonceSequence p)"
    and "\<forall>(n, t, c) \<in> set calls. t - t0 \<le> 60"
  shows "nonce_inv (present calls p) \<and> (m, t0) \<in> set (pl_nonceSequence (present calls p))"
  using assms
proof (induction calls p rule: present.induct)
  case (2 n t c cs p)
  then show ?case using testNonce_inv(1,2)[of p] by auto
qed simp

lemma free_loop_spec:
  assumes "um_wf players" and "free_loop sessions now ids players = (ids', ps')"
  shows "um_wf ps' \<and> (\<forall>i p. um_find ps' i = Some p \<longrightarrow> um_find players i = Some p)
     \<and> (\<forall>i p. um_find players i = Some p \<longrightarrow> um_find ps' i = None \<longrightarrow> i \<in> set ids \<and> dormant sessions now p)"
  using assms
proof (induction sessions now ids players arbitrary: ids' rule: free_loop.induct)
  case (2 sessions now i ids players)
  show ?case
  proof (cases "um_find players i")
    case None
    then show ?thesis using 2(4,5) by auto
  next
    case (Some p)
    consider (stop) "ps' = players"
      | (skip) ids1 where "free_loop sessions now ids players = (ids1, ps')" "\<not> dormant sessions now p"
          "getOffline sessions p" "pl_venueId p = [] \<longrightarrow> \<not> now - pl_offlineTime p < 30"
      | (free) "dormant sessions now p" "free_loop sessions now ids (um_erase i players) = (ids', ps')"
      using 2(5) Some by (auto simp: dormant_def split: if_splits prod.splits)
    then show ?thesis
    proof cases
      case stop
      then show ?thesis using 2(4) by simp
    next
      case skip
      then show ?thesis using 2(1,2)[OF Some] 2(4) by (cases "pl_venueId p = []") (auto simp: dormant_def)
    next
      case free
      have "um_wf (um_erase i players)" using 2(4) by (simp add: container_simps)
      then have ih: "um_wf ps'" "\<forall>j q. um_find ps' j = Some q \<longrightarrow> um_find (um_erase i players) j = Some q"
        "\<forall>j q. um_find (um_erase i players) j = Some q \<longrightarrow> um_find ps' j = None \<longrightarrow> j \<in> set ids \<and> dormant sessions now q"
        using 2(3)[OF Some] free by (auto simp: dormant_def)
      have "j \<in> set (i # ids) \<and> dormant sessions now q" if "um_find players j = Some q" "um_find ps' j = None" for j q
        using that ih(3)[rule_format, of j q] Some free(1) um_find_erase[of i players j] by (cases "j = i") simp_all
      moreover have "um_find players j = Some q" if "um_find ps' j = Some q" for j q
        using that ih(2) by (metis um_find_erase option.distinct(1))
      ultimately show ?thesis using ih(1) by blast
    qed
  qed
qed auto

lemma loadPlayer_cached:
  assumes "um_find (pm_players pm) i = Some p"
  shows "loadPlayer sq now i (pm, db) = (Some (touch (pm_inexactTime pm) p),
     pm\<lparr>pm_players := um_put i (touch (pm_inexactTime pm) p) (pm_players pm)\<rparr>, db)"
  using assms by (simp add: loadPlayer_def getPlayer_def Let_def)

lemma testNonce_touch:
  "testNonce n t (touch c p) = map_prod id (touch c) (testNonce n t p)"
  by (simp add: testNonce_def touch_def split_beta Let_def)

lemma testNonce_keeps [simp]:
  "pl_secret (snd (testNonce n t p)) = pl_secret p" "pl_id (snd (testNonce n t p)) = pl_id p"
  by (simp_all add: testNonce_def split_beta Let_def)

lemma testNonce_records:
  "fst (testNonce n t p) \<Longrightarrow> n \<in> set (pl_nonceSet (snd (testNonce n t p)))"
  by (simp add: testNonce_def split_beta Let_def container_simps split: if_splits)

lemma touch_keeps [simp]:
  "pl_secret (touch c p) = pl_secret p" "pl_id (touch c p) = pl_id p"
  "pl_nonceSet (touch c p) = pl_nonceSet p"
  by (simp_all add: touch_def)

lemma put_player_find: "um_find (pm_players (put_player p pm)) (pl_id p) = Some p"
  by (simp add: put_player_def container_simps)



text \<open>A message dated ahead of the clock, but within the sixty seconds the server
  accepts, makes the player forget the nonces of messages that are still valid: the first
  message can then be replayed.\<close>
theorem future_message_enables_replay:
  "\<exists>p nonce timestamp clock now.
     nonce_inv p \<and> fst (testNonce ''a'' 100 p)
     \<and> \<bar>clock - timestamp\<bar> \<le> 60 \<and> 100 \<le> clock \<and> clock \<le> now \<and> \<bar>now - 100\<bar> \<le> 60
     \<and> fst (testNonce ''a'' 100 (present [(nonce, timestamp, clock)] (snd (testNonce ''a'' 100 p))))"
  by (rule exI[of _ "Player_new 0 ''p1''"], rule exI[of _ "''b''"], rule exI[of _ 161], rule exI[of _ 101],
      rule exI[of _ 102])
    (simp add: nonce_inv_def Player_new_def testNonce_def us_insert_def)

text \<open>C6: When a player's secret is already known to the server, a message is accepted only
  if it is dated within sixty seconds of the clock, its nonce is new, and its signature is the
  digest under the secret the server holds after the check; its nonce is then recorded.\<close>
theorem accepted_signature_is_genuine:
  assumes "verifySignature a sq now playerId timestamp nonce signature (pm, db, st)
      = Some (True, outdate, pm', db', st')"
    and "um_find (pm_players pm) playerId = Some p" and "pl_id p = playerId" and "pl_secret p \<noteq> []"
  shows "\<not> outdate \<and> \<bar>now - atoll timestamp\<bar> \<le> 60 \<and> fst (testNonce nonce (atoll timestamp) p)
     \<and> (\<exists>q. um_find (pm_players pm') playerId = Some q \<and> pl_secret q \<noteq> []
          \<and> ae_md5 a (signature_text playerId timestamp nonce (pl_secret q)) = signature
          \<and> nonce \<in> set (pl_nonceSet q))"
proof -
  define r where "r = testNonce nonce (atoll timestamp) p"
  define q where "q = touch (pm_inexactTime pm) (snd r)"
  have q: "pl_id q = playerId" "pl_secret q = pl_secret p" using assms(3) by (simp_all add: q_def r_def)
  have t: "testNonce nonce (atoll timestamp) (touch (pm_inexactTime pm) p) = (fst r, q)"
    by (simp add: testNonce_touch r_def q_def map_prod_def split_beta)
  have n: "nonce \<in> set (pl_nonceSet q)" if "fst r"
    using testNonce_records[of nonce "atoll timestamp" p] that by (simp add: q_def r_def)
  have guard: "\<bar>now - atoll timestamp\<bar> \<le> 60" "fst r"
    using assms(1) by (auto simp: verifySignature_def loadPlayer_cached[OF assms(2)] t Let_def split: if_splits)
  have f: "um_find (pm_players (put_player (q\<lparr>pl_secret := s\<rparr>) x)) playerId = Some (q\<lparr>pl_secret := s\<rparr>)"
    "um_find (pm_players (put_player q x)) playerId = Some q" for s x
    using put_player_find[of "q\<lparr>pl_secret := s\<rparr>"] put_player_find[of q] q(1) by simp_all
  show ?thesis
    using assms(1,4) guard n f q
    by (auto simp: verifySignature_def loadPlayer_cached[OF assms(2)] t r_def[symmetric] Let_def rbind_def
        split: if_splits prod.splits redis_result.splits option.splits)
qed

lemma demo_players_find:
  "um_find (pm_players (demo_players secret)) ''p1'' = Some ((Player_new 0 ''p1'')\<lparr>pl_secret := secret\<rparr>)"
  by (simp add: demo_players_def)

lemma demo_atoll: "atoll ''100'' = 100"
  by code_simp

lemmas demo_verify = verifySignature_def loadPlayer_cached[OF demo_players_find] demo_atoll testNonce_def
  touch_def Player_new_def Let_def split_beta

theorem accepted_signature_is_genuine_witness:
  "case verifySignature (demo_auth (\<lambda>x. x)) (\<lambda>s (u::unit). (True, [], 0, u)) 130 ''p1'' ''100'' ''n''
       ''p1&100&n&key'' (demo_players ''key'', (), demo_store) of
     Some (True, outdate, pm', db', st') \<Rightarrow> \<not> outdate \<and>
       (\<exists>q. um_find (pm_players pm') ''p1'' = Some q \<and> pl_secret q \<noteq> []
          \<and> signature_text ''p1'' ''100'' ''n'' (pl_secret q) = ''p1&100&n&key''
          \<and> ''n'' \<in> set (pl_nonceSet q))
   | _ \<Rightarrow> False"
proof -
  let ?v = "verifySignature (demo_auth (\<lambda>x. x)) (\<lambda>s (u::unit). (True, [], 0, u)) 130 ''p1'' ''100'' ''n''
       ''p1&100&n&key'' (demo_players ''key'', (), demo_store)"
  obtain pm' where v: "?v = Some (True, False, pm', (), demo_store)"
    by (simp add: demo_verify demo_auth_def signature_text_def)
  show ?thesis
    unfolding v using accepted_signature_is_genuine[OF v demo_players_find]
    by (simp add: Player_new_def demo_auth_def)
qed

text \<open>While the server does not know a player's secret, the first message of the player
  that makes it read the secret from Redis is accepted whatever its signature is.\<close>
theorem uncached_secret_accepts_any_signature:
  assumes "um_find (pm_players pm) playerId = Some p" and "playerId \<noteq> []" and "pl_secret p = []"
    and "\<bar>now - atoll timestamp\<bar> \<le> 60" and "fst (testNonce nonce (atoll timestamp) p)"
    and "redis_get (ae_redis a) now (PLAYER_MESSAGE_SECRET @ playerId) st = (Returns (Some secret), st1)"
    and "secret \<noteq> []"
  shows "\<exists>pm'. verifySignature a sq now playerId timestamp nonce signature (pm, db, st)
     = Some (True, False, pm', db, st1)"
  using assms
  by (simp add: verifySignature_def loadPlayer_cached Let_def testNonce_touch split_beta rbind_def)

theorem uncached_secret_accepts_any_signature_witness:
  "\<exists>pm' st'. verifySignature (demo_auth (\<lambda>x. x)) (\<lambda>s (u::unit). (True, [], 0, u)) 130 ''p1'' ''100'' ''n''
       ''forged'' (demo_players [], (), demo_store) = Some (True, False, pm', (), st')"
proof -
  obtain st1 where g: "redis_get (ae_redis (demo_auth (\<lambda>x. x))) 130 (PLAYER_MESSAGE_SECRET @ ''p1'') demo_store
      = (Returns (Some ''s3cret''), st1)"
    by (simp add: redis_get_def redis_run_def getConnectionEx_def getConnection_def demo_store_def
        demo_auth_def DataBasePool_new_def redis_createConnection_def failed_def eval_value_def getValue_def)
  show ?thesis
    using uncached_secret_accepts_any_signature[OF demo_players_find[of "[]"] _ _ _ _ g,
        where timestamp = "''100''" and nonce = "''n''" and signature = "''forged''" and db = "()"
          and sq = "\<lambda>s (u::unit). (True, [], 0, u)"]
    by (auto simp: Player_new_def demo_atoll testNonce_def)
qed

text \<open>A message dated more than sixty seconds before or after the clock is refused and
  answered with \<open>outdate\<close>, and nothing else changes: it is not counted as abnormal
  behaviour. A message that does not carry a signature passes.\<close>
theorem outdated_message_only_answered:
  assumes "ms_playerId m \<noteq> []" and "60 < \<bar>now - atoll (ms_timestamp m)\<bar>" and "um_find sessions i = Some s"
  shows "preproccess a sq now sessions (Some m) (Some i) sm (pm, db, st)
       = Some (False, [(i, \<lparr>me_outdate = True\<rparr>)], sm, pm, db, st)
     \<and> preproccess a sq now sessions None (Some i) sm (pm, db, st) = Some (True, [], sm, pm, db, st)"
  using assms by (simp add: preproccess_def verifySignature_def)

theorem outdated_message_only_answered_witness:
  "preproccess (demo_auth (\<lambda>x. x)) (\<lambda>s (u::unit). (True, [], 0, u)) 200 [(7, Session_new 7 ''1.2.3.4'')]
       (Some \<lparr>ms_playerId = ''p1'', ms_timestamp = ''100'', ms_nonce = ''n'', ms_signature = ''x''\<rparr>) (Some 7)
       SecurityManager_new (demo_players [], (), demo_store)
     = Some (False, [(7, \<lparr>me_outdate = True\<rparr>)], SecurityManager_new, demo_players [], (), demo_store)"
  by (rule outdated_message_only_answered[THEN conjunct1]) (simp_all add: demo_atoll)

text \<open>Freeing dormant players keeps every player it does not free as it is, and frees a
  player only if the player was listed as offline, has no valid session, is in no venue, went
  offline at least thirty seconds ago and was not asked for in the last twenty.\<close>
theorem freeDormantPlayers_frees_only_dormant:
  assumes "um_wf (pm_players pm)" and "pm' = freeDormantPlayers sessions now pm"
  shows "(\<forall>i p. um_find (pm_players pm') i = Some p \<longrightarrow> um_find (pm_players pm) i = Some p)
    \<and> (\<forall>i p. um_find (pm_players pm) i = Some p \<longrightarrow> um_find (pm_players pm') i = None \<longrightarrow>
         i \<in> set (pm_offlineIds pm) \<and> getOffline sessions p \<and> pl_venueId p = []
         \<and> 30 \<le> now - pl_offlineTime p \<and> 20 \<le> now - pl_referenceTime p)"
proof -
  obtain ids ps where f: "free_loop sessions now (pm_offlineIds pm) (pm_players pm) = (ids, ps)" by fastforce
  show ?thesis
    using free_loop_spec[OF assms(1) f] by (simp add: assms(2) freeDormantPlayers_def f dormant_def)
qed

theorem freeDormantPlayers_frees_only_dormant_witness:
  "um_find (pm_players (freeDormantPlayers [] 100 (addOfflinePlayer ''p1'' (demo_players [])))) ''p1'' = None
   \<and> getOffline [] (Player_new 0 ''p1'')"
proof -
  let ?pm = "addOfflinePlayer ''p1'' (demo_players [])"
  have f: "um_find (pm_players ?pm) ''p1'' = Some (Player_new 0 ''p1'')"
    by (simp add: addOfflinePlayer_def demo_players_def Player_new_def)
  have n: "um_find (pm_players (freeDormantPlayers [] 100 ?pm)) ''p1'' = None"
    by code_simp
  have "um_wf (pm_players ?pm)" by code_simp
  from freeDormantPlayers_frees_only_dormant[OF this refl, of "[]" 100] f n show ?thesis by blast
qed

end
