(* ===== verification/Game_Messages.thy ===== *)
theory Game_Messages
  imports Players Complex_Main
begin

text \<open>
  The messages between a client and a venue, \<open>Venue/VenueMessages.h\<close> and
  \<open>Game/GameMessages.h\<close>: a record per class, with the class it derives from as its parent,
  and two sums, \<open>client_msg\<close> and \<open>server_msg\<close>, of the messages that are received and sent by
  the operations modelled. A class that adds no field to its base class is a synonym.
  Dispatch on \<open>getType()\<close> followed by \<open>dynamic_cast\<close> is case analysis on \<open>client_msg\<close>.
  A \<open>double\<close> is a rational number.
\<close>

section \<open>Venue messages\<close>

record MsgEnterVenue = MsgPlayerSignature +
  ev_venueId :: string
  ev_gameType :: int
  ev_base64 :: string

record MsgEnterVenueResp =
  er_venueId :: string
  er_code :: int
  er_errMsg :: string

record MsgVenueInner = MsgPlayerSignature +
  vi_venueId :: string

record MsgHeartbeat = MsgVenueInner +
  hb_counter :: int

record MsgHeartbeatResp =
  hr_counter :: int

type_synonym MsgLeaveVenue = MsgVenueInner

record MsgLeaveVenueResp =
  lr_venueId :: string
  lr_result :: int
  lr_errMsg :: string

type_synonym MsgPlayerConnect = MsgPlayerSignature

section \<open>Game messages\<close>

record AvatarInfo =
  ai_playerId :: string
  ai_nickname :: string
  ai_headUrl :: string
  ai_seat :: int
  ai_sex :: int
  ai_ready :: bool
  ai_offline :: bool
  ai_base64 :: string

record SpectatorInfo =
  si_playerId :: string
  si_nickname :: string
  si_headUrl :: string
  si_base64 :: string

record MsgAddAvatar =
  aa_avatars :: "AvatarInfo list"

record MsgRemoveAvatar =
  ra_playerId :: string
  ra_seat :: int

record MsgAddSpectator =
  as_spectators :: "SpectatorInfo list"

record MsgRemoveSpectator =
  rs_playerId :: string

record MsgAvatarConnect =
  ac_playerId :: string
  ac_ip :: string
  ac_seat :: int
  ac_offline :: bool

type_synonym MsgGetAvatars = MsgVenueInner

type_synonym MsgGetSpectators = MsgVenueInner

record MsgPlayerGeolocation = MsgVenueInner +
  pg_latitude :: rat
  pg_longitude :: rat
  pg_altitude :: rat

type_synonym MsgGetDistances = MsgVenueInner

record MsgGetDistancesResp =
  gd_distances :: "int list"

record MsgChatClient = MsgVenueInner +
  cc_type :: int
  cc_index :: int
  cc_text :: string

record MsgChatServer =
  cs_seat :: int
  cs_type :: int
  cs_index :: int
  cs_text :: string
  cs_playerId :: string

record MsgEffectClient = MsgVenueInner +
  ec_index :: int
  ec_targetId :: string

record MsgEffectServer =
  es_index :: int
  es_srcSeat :: int
  es_dstSeat :: int

record MsgVoiceClient = MsgVenueInner +
  vc_base64 :: string

record MsgVoiceServer =
  vs_seat :: int
  vs_playerId :: string
  vs_base64 :: string

section \<open>What is received and what is sent\<close>

datatype client_msg =
  PlayerConnect MsgPlayerConnect
| Disconnect string                    \<comment> \<open>\<open>MsgDisconnect\<close> with the session id\<close>
| EnterVenue MsgEnterVenue
| LeaveVenue MsgLeaveVenue
| Heartbeat MsgHeartbeat
| GetAvatars MsgGetAvatars
| GetSpectators MsgGetSpectators
| PlayerGeolocation MsgPlayerGeolocation
| GetDistances MsgGetDistances
| ChatClient MsgChatClient
| EffectClient MsgEffectClient
| VoiceClient MsgVoiceClient
| OtherMsg string                      \<comment> \<open>any other type\<close>

datatype server_msg =
  EnterVenueResp MsgEnterVenueResp
| HeartbeatResp MsgHeartbeatResp
| LeaveVenueResp MsgLeaveVenueResp
| AddAvatar MsgAddAvatar
| RemoveAvatar MsgRemoveAvatar
| AddSpectator MsgAddSpectator
| RemoveSpectator MsgRemoveSpectator
| AvatarConnect MsgAvatarConnect
| GetDistancesResp MsgGetDistancesResp
| ChatServer MsgChatServer
| EffectServer MsgEffectServer
| VoiceServer MsgVoiceServer

definition msg_type :: "client_msg \<Rightarrow> string" where
  \<comment> \<open>\<open>getType\<close>: the constants \<open>TYPE\<close> of the message classes\<close>
  "msg_type m =
     (case m of
        PlayerConnect _ \<Rightarrow> ''MsgPlayerConnect''
      | Disconnect _ \<Rightarrow> ''MsgDisconnect''
      | EnterVenue _ \<Rightarrow> ''MsgEnterVenue''
      | LeaveVenue _ \<Rightarrow> ''MsgLeaveVenue''
      | Heartbeat _ \<Rightarrow> ''MsgHeartbeat''
      | GetAvatars _ \<Rightarrow> ''MsgGetAvatars''
      | GetSpectators _ \<Rightarrow> ''MsgGetSpectators''
      | PlayerGeolocation _ \<Rightarrow> ''MsgPlayerGeolocation''
      | GetDistances _ \<Rightarrow> ''MsgGetDistances''
      | ChatClient _ \<Rightarrow> ''MsgChatClient''
      | EffectClient _ \<Rightarrow> ''MsgEffectClient''
      | VoiceClient _ \<Rightarrow> ''MsgVoiceClient''
      | OtherMsg t \<Rightarrow> t)"

definition inner_msg :: "client_msg \<Rightarrow> MsgVenueInner option" where
  \<comment> \<open>\<open>dynamic_cast<MsgVenueInner*>\<close>\<close>
  "inner_msg m =
     (case m of
        LeaveVenue x \<Rightarrow> Some x
      | Heartbeat x \<Rightarrow> Some (MsgVenueInner.truncate x)
      | GetAvatars x \<Rightarrow> Some x
      | GetSpectators x \<Rightarrow> Some x
      | PlayerGeolocation x \<Rightarrow> Some (MsgVenueInner.truncate x)
      | GetDistances x \<Rightarrow> Some x
      | ChatClient x \<Rightarrow> Some (MsgVenueInner.truncate x)
      | EffectClient x \<Rightarrow> Some (MsgVenueInner.truncate x)
      | VoiceClient x \<Rightarrow> Some (MsgVenueInner.truncate x)
      | _ \<Rightarrow> None)"

end
