(* ===== verification/Venues.thy ===== *)
theory Venues
  imports Game_Messages
begin

text \<open>
  Venues, the places players enter and leave: \<open>Venue/Venue.cpp\<close>, the handler that runs the
  messages of a group of venues, \<open>Venue/VenueInnerHandler.cpp\<close>, and the smallest kind of
  venue, \<open>Game/GameDumb.cpp\<close>.

  A venue is a record with the state \<open>'g\<close> of its subclass as a field; the virtual methods of
  the subclass are a record \<open>venue_class\<close>, a parameter of the operations of the base class. What
  a subclass has to promise is the locale \<open>venue_kind\<close>, interpreted here for \<open>GameDumb\<close> and
  by the theory of game rooms for \<open>GameRoom\<close>. Venues and handlers are shared objects: they live in a
  store, and pointers to them are numbers. The Redis keys of this component are not in the
  repository and are parameters. \<open>None\<close> as the result of an operation: its thread waits for
  a Redis connection.
\<close>

section \<open>The world of a venue\<close>

record ('d, 'r) env =
  en_sq :: "'d syncQuery"
  en_redis :: "'r redis_env"
  en_PLAYER_CURRENT_VENUE :: string
  en_VENUE_PLAYER_COUNT :: string
  en_VENUE_SERVER_MAP :: string
  en_PLAYER_AUTHORIZED_VENUE :: string
  en_SERVER_PLAYER_COUNT :: string

record ('d, 'r) ctx =
  cx_pm :: PlayerManager
  cx_sessions :: "(nat, Session) umap"
  cx_heartbeat :: "(nat, int) umap"  \<comment> \<open>\<open>MsgSessionData::_heartbeat\<close> of each session\<close>
  cx_db :: 'd
  cx_redis :: "'r RedisPoolImpl"
  cx_sent :: "(nat \<times> server_msg) list"

definition send_msg :: "server_msg \<Rightarrow> nat option \<Rightarrow> ('d, 'r) ctx \<Rightarrow> ('d, 'r) ctx" where
  \<comment> \<open>\<open>MsgBase::send\<close>: nothing for a null session\<close>
  "send_msg m session cx =
     (case session of None \<Rightarrow> cx | Some i \<Rightarrow> cx\<lparr>cx_sent := cx_sent cx @ [(i, m)]\<rparr>)"

definition lock_session :: "nat option \<Rightarrow> ('d, 'r) ctx \<Rightarrow> nat option" where
  \<comment> \<open>\<open>weak_ptr<Session>::lock\<close>\<close>
  "lock_session session cx =
     (case session of None \<Rightarrow> None | Some i \<Rightarrow> if um_find (cx_sessions cx) i = None then None else Some i)"

definition with_redis ::
  "bool redis_result \<times> 'r RedisPoolImpl \<Rightarrow> ('d, 'r) ctx \<Rightarrow> ('d, 'r) ctx option" where
  \<comment> \<open>a Redis command whose result is not looked at\<close>
  "with_redis x cx = rbind x (\<lambda>_ st. Some (cx\<lparr>cx_redis := st\<rparr>))"

definition venueId_of :: "string \<Rightarrow> ('d, 'r) ctx \<Rightarrow> string option" where
  "venueId_of playerId cx = map_option pl_venueId (um_find (pm_players (cx_pm cx)) playerId)"

section \<open>The handler of a group of venues\<close>

record VenueInnerHandler =
  ih_gameTypes :: "int list"
  ih_messages :: "string list"
  ih_venues :: "(string, nat) umap"
  ih_playerCounts :: "(string, int) umap"
  ih_totalCount :: int
  ih_counterMap :: int
  ih_counterList :: int
  ih_venueList :: "nat list"
  ih_worker :: "nat option"

definition addGameType :: "int \<Rightarrow> VenueInnerHandler \<Rightarrow> VenueInnerHandler" where
  "addGameType gameType h = h\<lparr>ih_gameTypes := us_insert gameType (ih_gameTypes h)\<rparr>"

definition VenueInnerHandler_new :: VenueInnerHandler where
  "VenueInnerHandler_new =
     addGameType 1 \<lparr>ih_gameTypes = [], ih_messages = [''MsgHeartbeat''], ih_venues = [], ih_playerCounts = [],
       ih_totalCount = 0, ih_counterMap = 0, ih_counterList = 0, ih_venueList = [], ih_worker = None\<rparr>"

definition checkGameType :: "int \<Rightarrow> VenueInnerHandler \<Rightarrow> bool" where
  "checkGameType gameType h \<longleftrightarrow> gameType \<in> set (ih_gameTypes h)"

definition bump :: "int \<Rightarrow> int" where
  "bump c = (if c + 1 > 99999 then 0 else c + 1)"

definition inner_addVenue :: "string \<Rightarrow> nat \<Rightarrow> VenueInnerHandler \<Rightarrow> VenueInnerHandler" where
  "inner_addVenue vid venue h =
     h\<lparr>ih_venues := um_insert vid venue (ih_venues h), ih_counterMap := bump (ih_counterMap h)\<rparr>"

definition inner_getVenue :: "string \<Rightarrow> VenueInnerHandler \<Rightarrow> nat option" where
  "inner_getVenue vid h = um_find (ih_venues h) vid"

definition inner_removeVenue :: "string \<Rightarrow> VenueInnerHandler \<Rightarrow> VenueInnerHandler" where
  "inner_removeVenue vid h =
     (if um_find (ih_venues h) vid = None then h
      else h\<lparr>ih_venues := um_erase vid (ih_venues h), ih_counterMap := bump (ih_counterMap h)\<rparr>)"

definition inner_hasVenue :: "string \<Rightarrow> VenueInnerHandler \<Rightarrow> bool" where
  "inner_hasVenue vid h \<longleftrightarrow> um_find (ih_venues h) vid \<noteq> None"

definition setPlayerCount :: "string \<Rightarrow> int \<Rightarrow> VenueInnerHandler \<Rightarrow> VenueInnerHandler" where
  "setPlayerCount vid n h =
     (if vid = [] then h
      else if um_find (ih_venues h) vid = None then h
      else let (oldCount, pc) =
             (case um_find (ih_playerCounts h) vid of
                Some c \<Rightarrow> (c, if n = 0 then um_erase vid (ih_playerCounts h)
                              else um_put vid n (ih_playerCounts h))
              | None \<Rightarrow> (0, if n > 0 then um_insert vid n (ih_playerCounts h) else ih_playerCounts h))
           in h\<lparr>ih_playerCounts := pc, ih_totalCount := ih_totalCount h - oldCount + n\<rparr>)"

definition inner_receive :: "string \<Rightarrow> client_msg \<Rightarrow> VenueInnerHandler \<Rightarrow> bool" where
  \<comment> \<open>\<open>type\<close> is the type of the message\<close>
  "inner_receive type m h \<longleftrightarrow> type \<in> set (ih_messages h) \<and>
     (case inner_msg m of None \<Rightarrow> False | Some x \<Rightarrow> inner_hasVenue (vi_venueId x) h)"

definition updateVenueList :: "VenueInnerHandler \<Rightarrow> VenueInnerHandler" where
  "updateVenueList h =
     (if ih_counterMap h = ih_counterList h then h
      else h\<lparr>ih_counterList := ih_counterMap h, ih_venueList := map snd (ih_venues h)\<rparr>)"

section \<open>Venues\<close>

record 'g Venue =
  ve_id :: string
  ve_gameType :: int
  ve_status :: int
  ve_handler :: "nat option"
  ve_obsolete :: bool
  ve_obsoleteTime :: int
  ve_game :: 'g

definition Venue_new :: "string \<Rightarrow> int \<Rightarrow> 'g \<Rightarrow> 'g Venue" where
  "Venue_new vid gameType g =
     \<lparr>ve_id = vid, ve_gameType = gameType, ve_status = 0, ve_handler = None, ve_obsolete = False,
      ve_obsoleteTime = 0, ve_game = g\<rparr>"

record ('g, 'd, 'r) venue_class =
  \<comment> \<open>the virtual methods; \<open>enterImpl\<close> and \<open>leaveImpl\<close> are given the id of the venue, the player,
      (the base64 argument) and the error message; \<open>moreMessages\<close> is what an override of
      \<open>onMessage\<close> does when the base class has not handled the message\<close>
  vt_hasPlayer :: "string \<Rightarrow> 'g \<Rightarrow> bool"
  vt_getPlayerIds :: "'g \<Rightarrow> string list"
  vt_getPlayerCount :: "'g \<Rightarrow> int"
  vt_enterImpl :: "string \<Rightarrow> string \<Rightarrow> string \<Rightarrow> string \<Rightarrow> 'g \<times> ('d, 'r) ctx \<Rightarrow> (bool \<times> string) \<times> 'g \<times> ('d, 'r) ctx"
  vt_leaveImpl :: "string \<Rightarrow> string \<Rightarrow> string \<Rightarrow> 'g \<times> ('d, 'r) ctx \<Rightarrow> (int \<times> string) \<times> 'g \<times> ('d, 'r) ctx"
  vt_moreMessages :: "nat option \<Rightarrow> client_msg \<Rightarrow> 'g \<times> ('d, 'r) ctx \<Rightarrow> bool \<times> 'g \<times> ('d, 'r) ctx"
  vt_onConnect :: "string \<Rightarrow> 'g \<times> ('d, 'r) ctx \<Rightarrow> 'g \<times> ('d, 'r) ctx"
  vt_onDisconnect :: "string \<Rightarrow> 'g \<times> ('d, 'r) ctx \<Rightarrow> 'g \<times> ('d, 'r) ctx"

record ('g, 'd, 'r) server =
  sv_ctx :: "('d, 'r) ctx"
  sv_heap :: "(nat, 'g Venue) umap"
  sv_handlers :: "(nat, VenueInnerHandler) umap"

definition set_game :: "nat \<Rightarrow> 'g Venue \<Rightarrow> 'g \<Rightarrow> ('d, 'r) ctx \<Rightarrow> ('g, 'd, 'r, 'z) server_scheme \<Rightarrow> ('g, 'd, 'r, 'z) server_scheme" where
  \<comment> \<open>the object at \<open>a\<close> after a method of its subclass has run\<close>
  "set_game a v g cx sv = sv\<lparr>sv_heap := um_put a (v\<lparr>ve_game := g\<rparr>) (sv_heap sv), sv_ctx := cx\<rparr>"

definition updatePlayerCount ::
  "('d, 'r) env \<Rightarrow> ('g, 'd, 'r) venue_class \<Rightarrow> int \<Rightarrow> nat \<Rightarrow> ('g, 'd, 'r, 'z) server_scheme
     \<Rightarrow> (int \<times> ('g, 'd, 'r, 'z) server_scheme) option" where
  "updatePlayerCount e cls now a sv =
     (case um_find (sv_heap sv) a of
        None \<Rightarrow> None
      | Some v \<Rightarrow>
          (let n = vt_getPlayerCount cls (ve_game v);
               sv1 = (case ve_handler v of
                        None \<Rightarrow> sv
                      | Some h \<Rightarrow>
                          (case um_find (sv_handlers sv) h of
                             None \<Rightarrow> sv
                           | Some ih \<Rightarrow> sv\<lparr>sv_handlers := um_put h (setPlayerCount (ve_id v) n ih) (sv_handlers sv)\<rparr>));
               redisKey = en_VENUE_PLAYER_COUNT e @ ve_id v
           in map_option (\<lambda>cx. (n, sv1\<lparr>sv_ctx := cx\<rparr>))
                (with_redis (if n = 0 then redis_del (en_redis e) now redisKey (cx_redis (sv_ctx sv))
                             else redis_set_int (en_redis e) now redisKey n (cx_redis (sv_ctx sv))) (sv_ctx sv))))"

definition assign_venue :: "string \<Rightarrow> string \<Rightarrow> ('d, 'r) ctx \<Rightarrow> ('d, 'r) ctx" where
  \<comment> \<open>\<open>getPlayer\<close>, and \<open>setVenueId\<close> if there is such a player\<close>
  "assign_venue playerId vid cx =
     (case getPlayer playerId (cx_pm cx) of
        (None, pm1) \<Rightarrow> cx\<lparr>cx_pm := pm1\<rparr>
      | (Some player, pm1) \<Rightarrow>
          cx\<lparr>cx_pm := pm1\<lparr>pm_players := um_put playerId (setVenueId vid player) (pm_players pm1)\<rparr>\<rparr>)"

definition afterEnter ::
  "('d, 'r) env \<Rightarrow> ('g, 'd, 'r) venue_class \<Rightarrow> int \<Rightarrow> nat \<Rightarrow> string \<Rightarrow> ('g, 'd, 'r, 'z) server_scheme
     \<Rightarrow> ('g, 'd, 'r, 'z) server_scheme option" where
  "afterEnter e cls now a playerId sv =
     (case um_find (sv_heap sv) a of
        None \<Rightarrow> None
      | Some v \<Rightarrow>
          (let cx = assign_venue playerId (ve_id v) (sv_ctx sv) in
           case with_redis (redis_set (en_redis e) now (en_PLAYER_CURRENT_VENUE e @ playerId) (ve_id v) (cx_redis cx)) cx of
             None \<Rightarrow> None
           | Some cx1 \<Rightarrow> map_option snd (updatePlayerCount e cls now a (sv\<lparr>sv_ctx := cx1\<rparr>))))"

definition afterLeave ::
  "('d, 'r) env \<Rightarrow> ('g, 'd, 'r) venue_class \<Rightarrow> int \<Rightarrow> nat \<Rightarrow> string \<Rightarrow> ('g, 'd, 'r, 'z) server_scheme
     \<Rightarrow> ('g, 'd, 'r, 'z) server_scheme option" where
  "afterLeave e cls now a playerId sv =
     (let cx = assign_venue playerId [] (sv_ctx sv) in
      case with_redis (redis_del (en_redis e) now (en_PLAYER_CURRENT_VENUE e @ playerId) (cx_redis cx)) cx of
        None \<Rightarrow> None
      | Some cx1 \<Rightarrow> map_option snd (updatePlayerCount e cls now a (sv\<lparr>sv_ctx := cx1\<rparr>)))"

definition onEnter ::
  "('d, 'r) env \<Rightarrow> ('g, 'd, 'r) venue_class \<Rightarrow> int \<Rightarrow> nat \<Rightarrow> string \<Rightarrow> string \<Rightarrow> string
     \<Rightarrow> ('g, 'd, 'r, 'z) server_scheme \<Rightarrow> ((bool \<times> string) \<times> ('g, 'd, 'r, 'z) server_scheme) option" where
  "onEnter e cls now a playerId base64 errMsg sv =
     (case um_find (sv_heap sv) a of
        None \<Rightarrow> None
      | Some v \<Rightarrow>
          if vt_hasPlayer cls playerId (ve_game v) then Some ((True, errMsg), sv)
          else if ve_status v \<noteq> 0
          then Some ((False, ''Enter venue error, the venue status is abnormal''), sv)
          else (let ((ret, err), g, cx) = vt_enterImpl cls (ve_id v) playerId base64 errMsg (ve_game v, sv_ctx sv);
                    sv1 = set_game a v g cx sv
                in if ret then map_option (\<lambda>sv2. ((True, err), sv2)) (afterEnter e cls now a playerId sv1)
                   else Some ((False, err), sv1)))"

definition onLeave ::
  "('d, 'r) env \<Rightarrow> ('g, 'd, 'r) venue_class \<Rightarrow> int \<Rightarrow> nat \<Rightarrow> string \<Rightarrow> string
     \<Rightarrow> ('g, 'd, 'r, 'z) server_scheme \<Rightarrow> ((int \<times> string) \<times> ('g, 'd, 'r, 'z) server_scheme) option" where
  "onLeave e cls now a playerId errMsg sv =
     (case um_find (sv_heap sv) a of
        None \<Rightarrow> None
      | Some v \<Rightarrow>
          if vt_hasPlayer cls playerId (ve_game v) then
            (let ((ret, err), g, cx) = vt_leaveImpl cls (ve_id v) playerId errMsg (ve_game v, sv_ctx sv);
                 sv1 = set_game a v g cx sv
             in if ret = 0 then map_option (\<lambda>sv2. ((0, err), sv2)) (afterLeave e cls now a playerId sv1)
                else Some ((ret, err), sv1))
          else Some ((0, errMsg), sv))"

fun forget_players ::
  "('d, 'r) env \<Rightarrow> int \<Rightarrow> string list \<Rightarrow> ('d, 'r) ctx \<Rightarrow> ('d, 'r) ctx option" where
  \<comment> \<open>the loop of \<open>gameOver\<close>\<close>
  "forget_players e now [] cx = Some cx"
| "forget_players e now (playerId # ids) cx =
     (let cx1 = assign_venue playerId [] cx in
      case with_redis (redis_del (en_redis e) now (en_PLAYER_CURRENT_VENUE e @ playerId) (cx_redis cx1)) cx1 of
        None \<Rightarrow> None
      | Some cx2 \<Rightarrow> forget_players e now ids cx2)"

definition updateStatus2Db :: "('d, 'r) env \<Rightarrow> 'g Venue \<Rightarrow> ('d, 'r) ctx \<Rightarrow> ('d, 'r) ctx" where
  "updateStatus2Db e v cx =
     (let (_, _, _, db) = en_sq e (UpdateVenueStatus (ve_id v) (ve_status v)) (cx_db cx)
      in cx\<lparr>cx_db := db\<rparr>)"

definition setObsolete :: "int \<Rightarrow> 'g Venue \<Rightarrow> 'g Venue" where
  "setObsolete nowMs v = v\<lparr>ve_obsolete := True, ve_obsoleteTime := nowMs\<rparr>"

definition gameOver ::
  "('d, 'r) env \<Rightarrow> ('g, 'd, 'r) venue_class \<Rightarrow> int \<Rightarrow> int \<Rightarrow> nat \<Rightarrow> ('g, 'd, 'r, 'z) server_scheme
     \<Rightarrow> ('g, 'd, 'r, 'z) server_scheme option" where
  "gameOver e cls now nowMs a sv =
     (case um_find (sv_heap sv) a of
        None \<Rightarrow> None
      | Some v \<Rightarrow>
          (let v1 = v\<lparr>ve_status := 2\<rparr> in
           case forget_players e now (vt_getPlayerIds cls (ve_game v)) (sv_ctx sv) of
             None \<Rightarrow> None
           | Some cx \<Rightarrow>
               (case with_redis (redis_del (en_redis e) now (en_VENUE_SERVER_MAP e @ ve_id v) (cx_redis cx)) cx of
                  None \<Rightarrow> None
                | Some cx1 \<Rightarrow>
                    (case updatePlayerCount e cls now a (sv\<lparr>sv_heap := um_put a v1 (sv_heap sv), sv_ctx := cx1\<rparr>) of
                       None \<Rightarrow> None
                     | Some (_, sv1) \<Rightarrow>
                         Some (sv1\<lparr>sv_ctx := updateStatus2Db e v1 (sv_ctx sv1),
                                   sv_heap := um_put a (setObsolete nowMs v1) (sv_heap sv1)\<rparr>)))))"

definition onHeartbeat ::
  "('g, 'd, 'r) venue_class \<Rightarrow> int \<Rightarrow> nat option \<Rightarrow> MsgHeartbeat \<Rightarrow> 'g \<Rightarrow> ('d, 'r) ctx \<Rightarrow> ('d, 'r) ctx" where
  \<comment> \<open>\<open>heartbeatImpl\<close> does nothing in any class of the repository\<close>
  "onHeartbeat cls now session msg g cx =
     (case lock_session session cx of
        None \<Rightarrow> cx
      | Some i \<Rightarrow>
          if \<not> vt_hasPlayer cls (ms_playerId msg) g then cx
          else send_msg (HeartbeatResp \<lparr>hr_counter = hb_counter msg\<rparr>) (Some i)
                 (cx\<lparr>cx_heartbeat := um_put i now (cx_heartbeat cx)\<rparr>))"

definition Venue_onMessage ::
  "('g, 'd, 'r) venue_class \<Rightarrow> int \<Rightarrow> nat option \<Rightarrow> client_msg \<Rightarrow> 'g \<times> ('d, 'r) ctx
     \<Rightarrow> bool \<times> 'g \<times> ('d, 'r) ctx" where
  "Venue_onMessage cls now session m = (\<lambda>(g, cx).
     case m of
       Heartbeat msg \<Rightarrow> (True, g, onHeartbeat cls now session msg g cx)
     | _ \<Rightarrow> vt_moreMessages cls session m (g, cx))"

definition Venue_onLeaveVenue ::
  "('d, 'r) env \<Rightarrow> ('g, 'd, 'r) venue_class \<Rightarrow> int \<Rightarrow> nat \<Rightarrow> nat option \<Rightarrow> MsgLeaveVenue
     \<Rightarrow> ('g, 'd, 'r, 'z) server_scheme \<Rightarrow> ('g, 'd, 'r, 'z) server_scheme option" where
  "Venue_onLeaveVenue e cls now a session inst sv =
     (case onLeave e cls now a (ms_playerId inst) [] sv of
        None \<Rightarrow> None
      | Some ((result, errMsg), sv1) \<Rightarrow>
          Some (sv1\<lparr>sv_ctx := send_msg (LeaveVenueResp \<lparr>lr_venueId = vi_venueId inst, lr_result = result,
                     lr_errMsg = errMsg\<rparr>) (lock_session session (sv_ctx sv1)) (sv_ctx sv1)\<rparr>))"

definition inner_onMessage ::
  "('g, 'd, 'r) venue_class \<Rightarrow> int \<Rightarrow> nat \<Rightarrow> nat option \<Rightarrow> client_msg \<Rightarrow> ('g, 'd, 'r, 'z) server_scheme
     \<Rightarrow> bool \<times> ('g, 'd, 'r, 'z) server_scheme" where
  "inner_onMessage cls now h session m sv =
     (case inner_msg m of
        None \<Rightarrow> (False, sv)
      | Some x \<Rightarrow>
          (case Option.bind (um_find (sv_handlers sv) h) (inner_getVenue (vi_venueId x)) of
             None \<Rightarrow> (True, sv)
           | Some a \<Rightarrow>
               (case um_find (sv_heap sv) a of
                  None \<Rightarrow> (True, sv)
                | Some v \<Rightarrow>
                    if ve_obsolete v then (True, sv)
                    else let (r, g, cx) = Venue_onMessage cls now session m (ve_game v, sv_ctx sv)
                         in (r, set_game a v g cx sv))))"

section \<open>The smallest venue\<close>

record GameDumb =
  gd_name :: string
  gd_maxPlayers :: int
  gd_playerIds :: "string list"

definition GameDumb_hasPlayer :: "string \<Rightarrow> GameDumb \<Rightarrow> bool" where
  "GameDumb_hasPlayer playerId g \<longleftrightarrow> playerId \<in> set (gd_playerIds g)"

definition GameDumb_getPlayerCount :: "GameDumb \<Rightarrow> int" where
  "GameDumb_getPlayerCount g = int (length (gd_playerIds g))"

definition GameDumb_enterImpl ::
  "string \<Rightarrow> string \<Rightarrow> string \<Rightarrow> string \<Rightarrow> GameDumb \<times> ('d, 'r) ctx \<Rightarrow> (bool \<times> string) \<times> GameDumb \<times> ('d, 'r) ctx" where
  "GameDumb_enterImpl vid playerId base64 errMsg = (\<lambda>(g, cx).
     if GameDumb_getPlayerCount g < gd_maxPlayers g
     then ((True, errMsg), g\<lparr>gd_playerIds := us_insert playerId (gd_playerIds g)\<rparr>, cx)
     else ((False, ''The number of players has reached upper limit''), g, cx))"

definition GameDumb_leaveImpl ::
  "string \<Rightarrow> string \<Rightarrow> string \<Rightarrow> GameDumb \<times> ('d, 'r) ctx \<Rightarrow> (int \<times> string) \<times> GameDumb \<times> ('d, 'r) ctx" where
  "GameDumb_leaveImpl vid playerId errMsg = (\<lambda>(g, cx).
     ((0, errMsg), g\<lparr>gd_playerIds := us_erase playerId (gd_playerIds g)\<rparr>, cx))"

definition GameDumb_class :: "(GameDumb, 'd, 'r) venue_class" where
  "GameDumb_class = \<lparr>vt_hasPlayer = GameDumb_hasPlayer, vt_getPlayerIds = gd_playerIds,
     vt_getPlayerCount = GameDumb_getPlayerCount, vt_enterImpl = GameDumb_enterImpl,
     vt_leaveImpl = GameDumb_leaveImpl, vt_moreMessages = (\<lambda>session m s. (False, s)),
     vt_onConnect = (\<lambda>playerId s. s), vt_onDisconnect = (\<lambda>playerId s. s)\<rparr>"

definition GameDumb_load :: "'d syncQuery \<Rightarrow> string \<Rightarrow> 'd \<Rightarrow> GameDumb Venue option \<times> 'd" where
  "GameDumb_load sq vid db =
     (let (ok, rows, _, db') = sq (SelectDumb vid) db;
          (name, maxPlayers) =
            fold (\<lambda>r t. case r of DumbRow n k \<Rightarrow> (n, k) | _ \<Rightarrow> t) rows ([], 0)
      in (if \<not> ok then None
          else Some (Venue_new vid 1 \<lparr>gd_name = name, gd_maxPlayers = maxPlayers, gd_playerIds = []\<rparr>), db'))"

section \<open>Vocabulary of the properties\<close>

definition count_of :: "VenueInnerHandler \<Rightarrow> string \<Rightarrow> int" where
  "count_of h vid = (case um_find (ih_playerCounts h) vid of None \<Rightarrow> 0 | Some c \<Rightarrow> c)"

definition handler_ok :: "VenueInnerHandler \<Rightarrow> bool" where
  "handler_ok h \<longleftrightarrow> um_wf (ih_playerCounts h) \<and> (\<forall>c \<in> set (map snd (ih_playerCounts h)). 0 < c)
     \<and> ih_totalCount h = sum_list (map snd (ih_playerCounts h))"

definition venue_ok ::
  "('g, 'd, 'r) venue_class \<Rightarrow> ('g \<Rightarrow> bool) \<Rightarrow> nat \<Rightarrow> ('g, 'd, 'r, 'z) server_scheme \<Rightarrow> bool" where
  \<comment> \<open>the state of the venue is good, and its handler, if it knows the venue, counts its players right\<close>
  "venue_ok cls good a sv \<longleftrightarrow>
     (case um_find (sv_heap sv) a of
        None \<Rightarrow> False
      | Some v \<Rightarrow> good (ve_game v) \<and>
          (case Option.bind (ve_handler v) (um_find (sv_handlers sv)) of
             None \<Rightarrow> True
           | Some ih \<Rightarrow> handler_ok ih \<and>
               (inner_hasVenue (ve_id v) ih \<and> ve_id v \<noteq> [] \<longrightarrow>
                  count_of ih (ve_id v) = vt_getPlayerCount cls (ve_game v))))"

definition players_in :: "('g, 'd, 'r) venue_class \<Rightarrow> nat \<Rightarrow> ('g, 'd, 'r, 'z) server_scheme \<Rightarrow> string set" where
  "players_in cls a sv =
     (case um_find (sv_heap sv) a of None \<Rightarrow> {} | Some v \<Rightarrow> set (vt_getPlayerIds cls (ve_game v)))"

definition GameDumb_ok :: "GameDumb \<Rightarrow> bool" where
  "GameDumb_ok g \<longleftrightarrow> distinct (gd_playerIds g) \<and> int (length (gd_playerIds g)) \<le> max 0 (gd_maxPlayers g)"

datatype visit = Enters string string | Leaves string

fun run_visits ::
  "('d, 'r) env \<Rightarrow> ('g, 'd, 'r) venue_class \<Rightarrow> int \<Rightarrow> nat \<Rightarrow> visit list \<Rightarrow> ('g, 'd, 'r, 'z) server_scheme
     \<Rightarrow> ('g, 'd, 'r, 'z) server_scheme option" where
  "run_visits e cls now a [] sv = Some sv"
| "run_visits e cls now a (Enters p b # vs) sv =
     Option.bind (onEnter e cls now a p b [] sv) (\<lambda>(_, sv1). run_visits e cls now a vs sv1)"
| "run_visits e cls now a (Leaves p # vs) sv =
     Option.bind (onLeave e cls now a p [] sv) (\<lambda>(_, sv1). run_visits e cls now a vs sv1)"

definition located :: "('g, 'd, 'r) venue_class \<Rightarrow> nat \<Rightarrow> ('g, 'd, 'r, 'z) server_scheme \<Rightarrow> bool" where
  \<comment> \<open>of the players the server knows, those in the venue are those recorded as being there\<close>
  "located cls a sv \<longleftrightarrow>
     (case um_find (sv_heap sv) a of
        None \<Rightarrow> False
      | Some v \<Rightarrow> ve_id v \<noteq> [] \<and>
          (\<forall>p. venueId_of p (sv_ctx sv) \<noteq> None \<longrightarrow>
             (p \<in> players_in cls a sv \<longleftrightarrow> venueId_of p (sv_ctx sv) = Some (ve_id v))))"

definition demo_ve :: "(unit, unit) env" where
  "demo_ve = \<lparr>en_sq = (\<lambda>s u. (True, [], 0, u)), en_redis = ae_redis (demo_auth (\<lambda>x. x)),
     en_PLAYER_CURRENT_VENUE = ''current:'', en_VENUE_PLAYER_COUNT = ''count:'',
     en_VENUE_SERVER_MAP = ''server:'', en_PLAYER_AUTHORIZED_VENUE = ''authorized:'',
     en_SERVER_PLAYER_COUNT = ''players:''\<rparr>"

definition redis_ready :: "'r RedisPoolImpl \<Rightarrow> bool" where
  "redis_ready st \<longleftrightarrow> \<not> dp_stopFlag (rp_pool st) \<and>
     (case dp_connections (rp_pool st) of [] \<Rightarrow> False | c # cs \<Rightarrow> \<not> dc_isOccupy c)"

definition demo_cx :: "(unit, unit) ctx" where
  "demo_cx = \<lparr>cx_pm = demo_players [], cx_sessions = [(7, Session_new 7 ''1.2.3.4'')], cx_heartbeat = [],
     cx_db = (), cx_redis = demo_store\<lparr>rp_pool := (DataBasePool_new 1 2)\<lparr>dp_connections := [DataBaseConnection_new 0],
     dp_nextId := 1\<rparr>\<rparr>, cx_sent = []\<rparr>"

definition demo_server :: "int \<Rightarrow> (GameDumb, unit, unit) server" where
  "demo_server n = \<lparr>sv_ctx = demo_cx,
     sv_heap = [(0, (Venue_new ''v'' 1 \<lparr>gd_name = ''lobby'', gd_maxPlayers = n, gd_playerIds = []\<rparr>)\<lparr>ve_handler := Some 5\<rparr>)],
     sv_handlers = [(5, inner_addVenue ''v'' 0 VenueInnerHandler_new)]\<rparr>"

section \<open>Counting players\<close>

lemma sum_put:
  "um_wf m \<Longrightarrow> um_find m k = Some c \<Longrightarrow> sum_list (map snd (um_put k n m)) = sum_list (map snd m) - c + (n::int)"
  by (induction m) (auto split: if_splits)

lemma sum_erase:
  "um_wf m \<Longrightarrow> um_find m k = Some c \<Longrightarrow> sum_list (map snd (um_erase k m)) = sum_list (map snd m) - (c::int)"
  by (induction m) (auto split: if_splits)

lemma sum_insert:
  "um_find m k = None \<Longrightarrow> sum_list (map snd (um_insert k n m)) = sum_list (map snd m) + (n::int)"
  by (simp add: um_insert_def)

lemma all_put: "\<forall>x \<in> set m. P (snd x) \<Longrightarrow> P v \<Longrightarrow> \<forall>x \<in> set (um_put k v m). P (snd x)"
  by (induction m) auto

lemma all_erase: "\<forall>x \<in> set m. P (snd x) \<Longrightarrow> \<forall>x \<in> set (um_erase k m). P (snd x)"
  by (induction m) auto

lemma setPlayerCount_keeps [simp]:
  "ih_venues (setPlayerCount vid n h) = ih_venues h"
  "ih_gameTypes (setPlayerCount vid n h) = ih_gameTypes h"
  "ih_worker (setPlayerCount vid n h) = ih_worker h"
  by (simp_all add: setPlayerCount_def split_beta Let_def)

lemma setPlayerCount_ok:
  assumes "handler_ok h" and "0 \<le> n"
  shows "handler_ok (setPlayerCount vid n h)"
proof (cases "vid = [] \<or> um_find (ih_venues h) vid = None")
  case True
  then show ?thesis using assms(1) by (auto simp: setPlayerCount_def)
next
  case False
  then have k: "vid \<noteq> []" "um_find (ih_venues h) vid \<noteq> None" by simp_all
  show ?thesis
  proof (cases "um_find (ih_playerCounts h) vid")
    case None
    then show ?thesis
      using assms k by (auto simp: setPlayerCount_def handler_ok_def um_insert_def split: if_splits)
  next
    case (Some c)
    have wf: "um_wf (ih_playerCounts h)" and pos: "\<forall>c \<in> set (map snd (ih_playerCounts h)). 0 < c"
      and tot: "ih_totalCount h = sum_list (map snd (ih_playerCounts h))"
      using assms(1) by (simp_all add: handler_ok_def)
    show ?thesis
    proof (cases "n = 0")
      case True
      then show ?thesis
        using k Some wf tot sum_erase[OF wf Some] all_erase[of "ih_playerCounts h" "\<lambda>c. 0 < c" vid] pos
        by (simp add: setPlayerCount_def handler_ok_def)
    next
      case False
      then have "0 < n" using assms(2) by simp
      then show ?thesis
        using k Some wf tot sum_put[OF wf Some, of n] all_put[of "ih_playerCounts h" "\<lambda>c. 0 < c" n vid] pos
        by (simp add: setPlayerCount_def handler_ok_def)
    qed
  qed
qed

lemma count_of_setPlayerCount:
  assumes "0 \<le> n"
  shows "vid \<noteq> [] \<Longrightarrow> inner_hasVenue vid h \<Longrightarrow> count_of (setPlayerCount vid n h) vid = n"
    and "w \<noteq> vid \<Longrightarrow> count_of (setPlayerCount vid n h) w = count_of h w"
  using assms
  by (auto simp: count_of_def setPlayerCount_def inner_hasVenue_def container_simps split_beta Let_def
      split: option.splits)

lemma count_of_unknown: "\<not> inner_hasVenue vid h \<Longrightarrow> setPlayerCount vid n h = h"
  by (simp add: setPlayerCount_def inner_hasVenue_def)

section \<open>What the operations of the base class do to the world\<close>

lemma with_redis_keeps:
  "with_redis x cx = Some cx' \<Longrightarrow> cx_pm cx' = cx_pm cx \<and> cx_sent cx' = cx_sent cx \<and> cx_sessions cx' = cx_sessions cx \<and> cx_db cx' = cx_db cx"
  by (auto simp: with_redis_def rbind_def split: prod.splits redis_result.splits)

lemma venueId_of_cong: "cx_pm cx' = cx_pm cx \<Longrightarrow> venueId_of q cx' = venueId_of q cx"
  by (simp add: venueId_of_def)

lemma venueId_of_getPlayer:
  "getPlayer p (cx_pm cx) = (r, pm1) \<Longrightarrow> venueId_of q (cx\<lparr>cx_pm := pm1\<rparr>) = venueId_of q cx"
  by (auto simp: getPlayer_def venueId_of_def touch_def container_simps Let_def split: option.splits)

lemma venueId_of_assign:
  "venueId_of q (assign_venue p vid cx) =
     (if q = p then map_option (\<lambda>_. vid) (venueId_of p cx) else venueId_of q cx)"
  by (auto simp: assign_venue_def getPlayer_def setVenueId_def venueId_of_def touch_def container_simps Let_def
      split: option.splits)

lemma updatePlayerCount_spec:
  assumes "updatePlayerCount e cls now a sv = Some (n, sv')" and "um_find (sv_heap sv) a = Some v"
  shows "n = vt_getPlayerCount cls (ve_game v)" and "sv_heap sv' = sv_heap sv"
    and "venueId_of q (sv_ctx sv') = venueId_of q (sv_ctx sv)"
    and "um_find (sv_handlers sv') h =
       (if ve_handler v = Some h then map_option (setPlayerCount (ve_id v) n) (um_find (sv_handlers sv) h)
        else um_find (sv_handlers sv) h)"
proof -
  have e: "cx_pm (sv_ctx sv') = cx_pm (sv_ctx sv)"
    using assms by (auto simp: updatePlayerCount_def Let_def dest!: with_redis_keeps split: option.splits)
  show "venueId_of q (sv_ctx sv') = venueId_of q (sv_ctx sv)" by (rule venueId_of_cong[OF e])
  show "n = vt_getPlayerCount cls (ve_game v)" "sv_heap sv' = sv_heap sv"
    using assms by (auto simp: updatePlayerCount_def Let_def split: option.splits)
  show "um_find (sv_handlers sv') h =
       (if ve_handler v = Some h then map_option (setPlayerCount (ve_id v) n) (um_find (sv_handlers sv) h)
        else um_find (sv_handlers sv) h)"
    using assms by (auto simp: updatePlayerCount_def Let_def container_simps split: option.splits)
qed

lemma after_spec:
  assumes "um_find (sv_heap sv) a = Some v"
    and "afterEnter e cls now a p sv = Some sv' \<and> vid = ve_id v \<or> afterLeave e cls now a p sv = Some sv' \<and> vid = []"
  shows "sv_heap sv' = sv_heap sv"
    and "venueId_of q (sv_ctx sv') = (if q = p then map_option (\<lambda>_. vid) (venueId_of p (sv_ctx sv)) else venueId_of q (sv_ctx sv))"
    and "um_find (sv_handlers sv') h =
       (if ve_handler v = Some h
        then map_option (setPlayerCount (ve_id v) (vt_getPlayerCount cls (ve_game v))) (um_find (sv_handlers sv) h)
        else um_find (sv_handlers sv) h)"
proof -
  obtain cx1 n where w: "cx_pm cx1 = cx_pm (assign_venue p vid (sv_ctx sv))"
    and u: "updatePlayerCount e cls now a (sv\<lparr>sv_ctx := cx1\<rparr>) = Some (n, sv')"
    using assms(2)
    by (auto simp: afterEnter_def afterLeave_def assms(1) Let_def split: option.splits dest!: with_redis_keeps)
  note s = updatePlayerCount_spec[OF u, of v] 
  show "sv_heap sv' = sv_heap sv" using s(2) assms(1) by simp
  show "venueId_of q (sv_ctx sv') = (if q = p then map_option (\<lambda>_. vid) (venueId_of p (sv_ctx sv)) else venueId_of q (sv_ctx sv))"
    using s(3)[of q] assms(1) venueId_of_cong[OF w, of q] by (simp add: venueId_of_assign)
  show "um_find (sv_handlers sv') h =
       (if ve_handler v = Some h
        then map_option (setPlayerCount (ve_id v) (vt_getPlayerCount cls (ve_game v))) (um_find (sv_handlers sv) h)
        else um_find (sv_handlers sv) h)"
    using s(1,4) assms(1) by simp
qed

lemma forget_players_venueId:
  "forget_players e now ids cx = Some cx' \<Longrightarrow>
     venueId_of q cx' = (if q \<in> set ids then map_option (\<lambda>_. []) (venueId_of q cx) else venueId_of q cx)"
proof (induction ids arbitrary: cx)
  case (Cons p ids)
  obtain cx2 where w: "cx_pm cx2 = cx_pm (assign_venue p [] cx)" and f: "forget_players e now ids cx2 = Some cx'"
    using Cons.prems by (auto simp: Let_def split: option.splits dest!: with_redis_keeps)
  show ?case
    using Cons.IH[OF f] venueId_of_cong[OF w, of q]
    by (auto simp: venueId_of_assign option.map_comp comp_def)
qed simp

lemma gameOver_spec:
  assumes "gameOver e cls now nowMs a sv = Some sv'" and "um_find (sv_heap sv) a = Some v"
  shows "um_find (sv_heap sv') a = Some (setObsolete nowMs (v\<lparr>ve_status := 2\<rparr>))"
    and "venueId_of q (sv_ctx sv') =
       (if q \<in> players_in cls a sv then map_option (\<lambda>_. []) (venueId_of q (sv_ctx sv)) else venueId_of q (sv_ctx sv))"
    and "um_find (sv_handlers sv') h =
       (if ve_handler v = Some h
        then map_option (setPlayerCount (ve_id v) (vt_getPlayerCount cls (ve_game v))) (um_find (sv_handlers sv) h)
        else um_find (sv_handlers sv) h)"
proof -
  let ?v = "v\<lparr>ve_status := 2\<rparr>"
  obtain cx cx1 n sv1 where f: "forget_players e now (vt_getPlayerIds cls (ve_game v)) (sv_ctx sv) = Some cx"
    and w: "cx_pm cx1 = cx_pm cx"
    and u: "updatePlayerCount e cls now a (sv\<lparr>sv_heap := um_put a ?v (sv_heap sv), sv_ctx := cx1\<rparr>) = Some (n, sv1)"
    and sv': "sv' = sv1\<lparr>sv_ctx := updateStatus2Db e ?v (sv_ctx sv1),
        sv_heap := um_put a (setObsolete nowMs ?v) (sv_heap sv1)\<rparr>"
    using assms by (auto simp: gameOver_def Let_def split: option.splits dest!: with_redis_keeps)
  note s = updatePlayerCount_spec[OF u, of ?v]
  show "um_find (sv_heap sv') a = Some (setObsolete nowMs ?v)" by (simp add: sv' container_simps)
  have d: "cx_pm (updateStatus2Db e ?v c) = cx_pm c" for c by (simp add: updateStatus2Db_def split_beta)
  show "venueId_of q (sv_ctx sv') =
       (if q \<in> players_in cls a sv then map_option (\<lambda>_. []) (venueId_of q (sv_ctx sv)) else venueId_of q (sv_ctx sv))"
    using s(3)[of q] forget_players_venueId[OF f, of q] venueId_of_cong[OF w, of q]
      venueId_of_cong[OF d, of q "sv_ctx sv1"] assms(2)
    by (simp add: sv' players_in_def container_simps)
  show "um_find (sv_handlers sv') h =
       (if ve_handler v = Some h
        then map_option (setPlayerCount (ve_id v) (vt_getPlayerCount cls (ve_game v))) (um_find (sv_handlers sv) h)
        else um_find (sv_handlers sv) h)"
    using s(1,4) by (simp add: sv' container_simps)
qed

section \<open>The contract of a kind of venue\<close>

locale venue_kind =
  fixes cls :: "('g, 'd, 'r) venue_class" and good :: "'g \<Rightarrow> bool"
  assumes has_ids: "good g \<Longrightarrow> vt_hasPlayer cls p g \<longleftrightarrow> p \<in> set (vt_getPlayerIds cls g)"
    and ids_count: "good g \<Longrightarrow> distinct (vt_getPlayerIds cls g)
          \<and> vt_getPlayerCount cls g = int (length (vt_getPlayerIds cls g))"
    and enters: "good g \<Longrightarrow> \<not> vt_hasPlayer cls p g \<Longrightarrow>
          vt_enterImpl cls vid p b err (g, cx) = ((r, err'), g', cx') \<Longrightarrow>
          good g' \<and> set (vt_getPlayerIds cls g') =
            (if r then insert p (set (vt_getPlayerIds cls g)) else set (vt_getPlayerIds cls g))
          \<and> (\<forall>q. venueId_of q cx' = venueId_of q cx)"
    and leaves: "good g \<Longrightarrow> vt_hasPlayer cls p g \<Longrightarrow>
          vt_leaveImpl cls vid p err (g, cx) = ((n, err'), g', cx') \<Longrightarrow>
          good g' \<and> set (vt_getPlayerIds cls g') =
            (if n = 0 then set (vt_getPlayerIds cls g) - {p} else set (vt_getPlayerIds cls g))
          \<and> (\<forall>q. venueId_of q cx' = venueId_of q cx)"
begin

lemma same_count:
  "good g \<Longrightarrow> good g' \<Longrightarrow> set (vt_getPlayerIds cls g') = set (vt_getPlayerIds cls g) \<Longrightarrow>
     vt_getPlayerCount cls g' = vt_getPlayerCount cls g"
  by (metis distinct_card ids_count)

lemma after_ok:
  assumes "um_find (sv_heap sv) a = Some v" and "good (ve_game v)"
    and "\<forall>ih. Option.bind (ve_handler v) (um_find (sv_handlers sv)) = Some ih \<longrightarrow> handler_ok ih"
    and "afterEnter e cls now a p sv = Some sv' \<and> vid = ve_id v \<or> afterLeave e cls now a p sv = Some sv' \<and> vid = []"
  shows "venue_ok cls good a sv'"
proof -
  let ?n = "vt_getPlayerCount cls (ve_game v)"
  have n: "0 \<le> ?n" using ids_count[OF assms(2)] by simp
  have h: "Option.bind (ve_handler v) (um_find (sv_handlers sv')) =
      map_option (setPlayerCount (ve_id v) ?n) (Option.bind (ve_handler v) (um_find (sv_handlers sv)))"
    using after_spec(3)[OF assms(1,4)] by (cases "ve_handler v") simp_all
  show ?thesis
    using assms(1-3) after_spec(1)[OF assms(1,4)] setPlayerCount_ok[OF _ n]
      count_of_setPlayerCount(1)[OF n, of "ve_id v"]
    by (cases "Option.bind (ve_handler v) (um_find (sv_handlers sv))")
      (auto simp: venue_ok_def h inner_hasVenue_def)
qed

lemma set_game_ok:
  assumes "venue_ok cls good a sv" and "um_find (sv_heap sv) a = Some v" and "good g"
  shows "um_find (sv_heap (set_game a v g cx sv)) a = Some (v\<lparr>ve_game := g\<rparr>)"
    and "\<forall>ih. Option.bind (ve_handler v) (um_find (sv_handlers (set_game a v g cx sv))) = Some ih \<longrightarrow> handler_ok ih"
    and "set (vt_getPlayerIds cls g) = set (vt_getPlayerIds cls (ve_game v)) \<Longrightarrow>
           venue_ok cls good a (set_game a v g cx sv)"
  using assms same_count[of "ve_game v" g]
  by (auto simp: set_game_def venue_ok_def container_simps split: option.splits)

lemma onEnter_registers:
  assumes "venue_ok cls good a sv" and "um_find (sv_heap sv) a = Some v"
    and "onEnter e cls now a p b err sv = Some ((r, err'), sv')"
  shows "venue_ok cls good a sv'
    \<and> players_in cls a sv' = (if r then insert p (players_in cls a sv) else players_in cls a sv)
    \<and> (\<forall>q. venueId_of q (sv_ctx sv') =
         (if r \<and> q = p \<and> p \<notin> players_in cls a sv then map_option (\<lambda>_. ve_id v) (venueId_of p (sv_ctx sv))
          else venueId_of q (sv_ctx sv)))"
proof -
  have g: "good (ve_game v)" using assms(1,2) by (simp add: venue_ok_def)
  have pl: "players_in cls a sv = set (vt_getPlayerIds cls (ve_game v))" using assms(2) by (simp add: players_in_def)
  show ?thesis
  proof (cases "vt_hasPlayer cls p (ve_game v) \<or> ve_status v \<noteq> 0")
    case True
    then show ?thesis
      using assms has_ids[OF g, of p] pl by (auto simp: onEnter_def insert_absorb split: if_splits)
  next
    case False
    obtain r1 err1 g1 cx1 where i: "vt_enterImpl cls (ve_id v) p b err (ve_game v, sv_ctx sv) = ((r1, err1), g1, cx1)"
      by (metis prod.exhaust)
    have en: "good g1" "set (vt_getPlayerIds cls g1) =
        (if r1 then insert p (set (vt_getPlayerIds cls (ve_game v))) else set (vt_getPlayerIds cls (ve_game v)))"
      "\<And>q. venueId_of q cx1 = venueId_of q (sv_ctx sv)"
      using enters[OF g _ i] False by auto
    note sg = set_game_ok[OF assms(1,2) en(1), where cx = cx1]
    have ni: "p \<notin> players_in cls a sv" using False has_ids[OF g] pl by simp
    show ?thesis
    proof (cases r1)
      case True
      then have r: "r" and af: "afterEnter e cls now a p (set_game a v g1 cx1 sv) = Some sv'"
        using assms(2,3) False by (auto simp: onEnter_def i)
      have af': "afterEnter e cls now a p (set_game a v g1 cx1 sv) = Some sv' \<and> ve_id v = ve_id (v\<lparr>ve_game := g1\<rparr>)
        \<or> afterLeave e cls now a p (set_game a v g1 cx1 sv) = Some sv' \<and> ve_id v = []" using af by simp
      show ?thesis
        using after_ok[OF sg(1) _ _ af'] after_spec(1,2)[OF sg(1) af'] sg(1,2) en True r pl ni
        by (auto simp: players_in_def set_game_def)
    next
      case False': False
      then have "sv' = set_game a v g1 cx1 sv" "\<not> r" using assms(2,3) False by (auto simp: onEnter_def i)
      then show ?thesis using sg(1,3) en False' pl by (auto simp: players_in_def set_game_def)
    qed
  qed
qed

lemma onLeave_unregisters:
  assumes "venue_ok cls good a sv" and "um_find (sv_heap sv) a = Some v"
    and "onLeave e cls now a p err sv = Some ((n, err'), sv')"
  shows "venue_ok cls good a sv'
    \<and> players_in cls a sv' = (if n = 0 then players_in cls a sv - {p} else players_in cls a sv)
    \<and> (\<forall>q. venueId_of q (sv_ctx sv') =
         (if n = 0 \<and> q = p \<and> p \<in> players_in cls a sv then map_option (\<lambda>_. []) (venueId_of p (sv_ctx sv))
          else venueId_of q (sv_ctx sv)))"
proof -
  have g: "good (ve_game v)" using assms(1,2) by (simp add: venue_ok_def)
  have pl: "players_in cls a sv = set (vt_getPlayerIds cls (ve_game v))" using assms(2) by (simp add: players_in_def)
  show ?thesis
  proof (cases "vt_hasPlayer cls p (ve_game v)")
    case False
    then show ?thesis using assms has_ids[OF g, of p] pl by (auto simp: onLeave_def)
  next
    case True
    obtain r1 err1 g1 cx1 where i: "vt_leaveImpl cls (ve_id v) p err (ve_game v, sv_ctx sv) = ((r1, err1), g1, cx1)"
      by (metis prod.exhaust)
    have en: "good g1" "set (vt_getPlayerIds cls g1) =
        (if r1 = 0 then set (vt_getPlayerIds cls (ve_game v)) - {p} else set (vt_getPlayerIds cls (ve_game v)))"
      "\<And>q. venueId_of q cx1 = venueId_of q (sv_ctx sv)"
      using leaves[OF g True i] by auto
    note sg = set_game_ok[OF assms(1,2) en(1), where cx = cx1]
    have ni: "p \<in> players_in cls a sv" using True has_ids[OF g] pl by simp
    show ?thesis
    proof (cases "r1 = 0")
      case True': True
      then have r: "n = 0" and af: "afterLeave e cls now a p (set_game a v g1 cx1 sv) = Some sv'"
        using assms(2,3) True by (auto simp: onLeave_def i)
      have af': "afterEnter e cls now a p (set_game a v g1 cx1 sv) = Some sv' \<and> [] = ve_id (v\<lparr>ve_game := g1\<rparr>)
        \<or> afterLeave e cls now a p (set_game a v g1 cx1 sv) = Some sv' \<and> [] = []" using af by simp
      show ?thesis
        using after_ok[OF sg(1) _ _ af'] after_spec(1,2)[OF sg(1) af'] sg(1,2) en True' r pl ni
        by (auto simp: players_in_def set_game_def)
    next
      case False
      then have "sv' = set_game a v g1 cx1 sv" "n = r1" using assms(2,3) True by (auto simp: onLeave_def i)
      then show ?thesis using sg(1,3) en False pl by (auto simp: players_in_def set_game_def)
    qed
  qed
qed

lemma onEnter_heap:
  "um_find (sv_heap sv) a = Some v \<Longrightarrow> onEnter e cls now a p b err sv = Some (x, sv') \<Longrightarrow>
     \<exists>v'. um_find (sv_heap sv') a = Some v' \<and> ve_id v' = ve_id v"
  by (auto simp: onEnter_def set_game_def container_simps split_beta Let_def afterEnter_def
      split: if_splits option.splits dest!: updatePlayerCount_spec(2))

lemma onLeave_heap:
  "um_find (sv_heap sv) a = Some v \<Longrightarrow> onLeave e cls now a p err sv = Some (x, sv') \<Longrightarrow>
     \<exists>v'. um_find (sv_heap sv') a = Some v' \<and> ve_id v' = ve_id v"
  by (auto simp: onLeave_def set_game_def container_simps split_beta Let_def afterLeave_def
      split: if_splits option.splits dest!: updatePlayerCount_spec(2))

lemma onEnter_located:
  assumes "venue_ok cls good a sv" and "located cls a sv" and "onEnter e cls now a p b err sv = Some (x, sv')"
  shows "venue_ok cls good a sv' \<and> located cls a sv'"
proof -
  obtain v where v: "um_find (sv_heap sv) a = Some v" using assms(2) by (auto simp: located_def split: option.splits)
  obtain r err' where x: "x = (r, err')" by fastforce
  show ?thesis
    using onEnter_registers[OF assms(1) v assms(3)[unfolded x]] onEnter_heap[OF v assms(3)] assms(2) v
    by (auto simp: located_def split: if_splits)
qed

lemma onLeave_located:
  assumes "venue_ok cls good a sv" and "located cls a sv" and "onLeave e cls now a p err sv = Some (x, sv')"
  shows "venue_ok cls good a sv' \<and> located cls a sv'"
proof -
  obtain v where v: "um_find (sv_heap sv) a = Some v" using assms(2) by (auto simp: located_def split: option.splits)
  obtain n err' where x: "x = (n, err')" by fastforce
  show ?thesis
    using onLeave_unregisters[OF assms(1) v assms(3)[unfolded x]] onLeave_heap[OF v assms(3)] assms(2) v
    by (auto simp: located_def split: if_splits)
qed

lemma visits_located:
  "venue_ok cls good a sv \<Longrightarrow> located cls a sv \<Longrightarrow> run_visits e cls now a vs sv = Some sv' \<Longrightarrow>
     venue_ok cls good a sv' \<and> located cls a sv'"
proof (induction vs arbitrary: sv)
  case (Cons x vs)
  show ?case
  proof (cases x)
    case (Enters p b)
    then obtain y sv1 where "onEnter e cls now a p b [] sv = Some (y, sv1)" "run_visits e cls now a vs sv1 = Some sv'"
      using Cons.prems(3) by (cases "onEnter e cls now a p b [] sv") auto
    with onEnter_located[OF Cons.prems(1,2)] Cons.IH show ?thesis by blast
  next
    case (Leaves p)
    then obtain y sv1 where "onLeave e cls now a p [] sv = Some (y, sv1)" "run_visits e cls now a vs sv1 = Some sv'"
      using Cons.prems(3) by (cases "onLeave e cls now a p [] sv") auto
    with onLeave_located[OF Cons.prems(1,2)] Cons.IH show ?thesis by blast
  qed
qed simp

end

interpretation dumb: venue_kind GameDumb_class GameDumb_ok
  by unfold_locales
    (auto simp: GameDumb_class_def GameDumb_hasPlayer_def GameDumb_getPlayerCount_def GameDumb_enterImpl_def
      GameDumb_leaveImpl_def GameDumb_ok_def container_simps us_insert_def distinct_removeAll
      intro: order_trans[OF of_nat_mono[OF length_removeAll_less_eq]] split: if_splits)

section \<open>A Redis that answers\<close>

lemma ready_run:
  assumes "redis_ready st"
  shows "\<exists>st'. redis_run (ae_redis (demo_auth f)) now args none ev st
      = (Returns (ev (Some (REPLY_STRING ''s3cret''))), st') \<and> redis_ready st'"
proof -
  obtain c cs where c: "dp_connections (rp_pool st) = c # cs" "\<not> dc_isOccupy c" "\<not> dp_stopFlag (rp_pool st)"
    using assms by (auto simp: redis_ready_def split: list.splits)
  then show ?thesis
    by (simp add: redis_run_def getConnectionEx_def getConnection_def demo_auth_def failed_def
        redis_checkConnection_def release_def update_connection_def notifyOne_def redis_ready_def recycle_def
        setQueryTime_def occupy_def split: list.split)
qed

lemma ready_with:
  assumes "redis_ready (cx_redis cx)"
  shows "\<exists>st'. with_redis (redis_run (en_redis demo_ve) now args none ev (cx_redis cx)) cx = Some (cx\<lparr>cx_redis := st'\<rparr>)
     \<and> redis_ready st'"
proof -
  obtain st' where "redis_run (en_redis demo_ve) now args none ev (cx_redis cx)
      = (Returns (ev (Some (REPLY_STRING ''s3cret''))), st')" "redis_ready st'"
    using ready_run[OF assms, of "\<lambda>x. x" now args none ev] by (auto simp: demo_ve_def)
  then show ?thesis by (auto simp: with_redis_def rbind_def)
qed

lemma ready_updatePlayerCount:
  assumes "um_find (sv_heap sv) a = Some v" and "redis_ready (cx_redis (sv_ctx sv))"
  shows "\<exists>n sv'. updatePlayerCount demo_ve cls now a sv = Some (n, sv') \<and> redis_ready (cx_redis (sv_ctx sv'))"
proof (cases "vt_getPlayerCount cls (ve_game v) = 0")
  case True
  then show ?thesis
    using ready_with[OF assms(2)] assms(1)
    by (fastforce simp: updatePlayerCount_def Let_def redis_del_def)
next
  case False
  then show ?thesis
    using ready_with[OF assms(2)] assms(1)
    by (fastforce simp: updatePlayerCount_def Let_def redis_set_int_def redis_set_def)
qed

lemma cx_redis_assign [simp]: "cx_redis (assign_venue p vid cx) = cx_redis cx"
  by (simp add: assign_venue_def split: prod.split option.split)

lemma ready_after:
  assumes "um_find (sv_heap sv) a = Some v" and "redis_ready (cx_redis (sv_ctx sv))"
  shows "\<exists>sv'. afterEnter demo_ve cls now a p sv = Some sv' \<and> redis_ready (cx_redis (sv_ctx sv'))"
    and "\<exists>sv'. afterLeave demo_ve cls now a p sv = Some sv' \<and> redis_ready (cx_redis (sv_ctx sv'))"
proof -
  have u: "\<exists>n sv'. updatePlayerCount demo_ve cls now a (sv\<lparr>sv_ctx := cx\<lparr>cx_redis := st\<rparr>\<rparr>) = Some (n, sv')
      \<and> redis_ready (cx_redis (sv_ctx sv'))" if "redis_ready st" for cx st
    using ready_updatePlayerCount[of "sv\<lparr>sv_ctx := cx\<lparr>cx_redis := st\<rparr>\<rparr>"] assms(1) that by simp
  let ?c = "assign_venue p (ve_id v) (sv_ctx sv)" and ?d = "assign_venue p [] (sv_ctx sv)"
  have r: "redis_ready (cx_redis ?c)" "redis_ready (cx_redis ?d)" using assms(2) by simp_all
  obtain st1 where "with_redis (redis_set (en_redis demo_ve) now (en_PLAYER_CURRENT_VENUE demo_ve @ p) (ve_id v)
      (cx_redis ?c)) ?c = Some (?c\<lparr>cx_redis := st1\<rparr>)" "redis_ready st1"
    using ready_with[OF r(1)] unfolding redis_set_def by blast
  with u[of st1 ?c] assms(1)
  show "\<exists>sv'. afterEnter demo_ve cls now a p sv = Some sv' \<and> redis_ready (cx_redis (sv_ctx sv'))"
    by (fastforce simp: afterEnter_def Let_def)
  obtain st2 where "with_redis (redis_del (en_redis demo_ve) now (en_PLAYER_CURRENT_VENUE demo_ve @ p)
      (cx_redis ?d)) ?d = Some (?d\<lparr>cx_redis := st2\<rparr>)" "redis_ready st2"
    using ready_with[OF r(2)] unfolding redis_del_def by blast
  with u[of st2 ?d]
  show "\<exists>sv'. afterLeave demo_ve cls now a p sv = Some sv' \<and> redis_ready (cx_redis (sv_ctx sv'))"
    by (fastforce simp: afterLeave_def Let_def)
qed

lemma ready_visits:
  assumes cls: "venue_kind cls good"
    and keeps: "\<And>vid p b err g cx. cx_redis (snd (snd (vt_enterImpl cls vid p b err (g, cx)))) = cx_redis cx"
      "\<And>vid p err g cx. cx_redis (snd (snd (vt_leaveImpl cls vid p err (g, cx)))) = cx_redis cx"
    and "um_find (sv_heap sv) a \<noteq> None" and "redis_ready (cx_redis (sv_ctx sv))"
  shows "\<exists>sv'. run_visits demo_ve cls now a vs sv = Some sv'"
  using assms(4,5)
proof (induction vs arbitrary: sv)
  case (Cons x vs)
  obtain v where v: "um_find (sv_heap sv) a = Some v" using Cons.prems(1) by blast
  have sg: "um_find (sv_heap (set_game a v g cx sv)) a = Some (v\<lparr>ve_game := g\<rparr>)" "sv_ctx (set_game a v g cx sv) = cx" for g cx
    by (simp_all add: set_game_def container_simps)
  show ?case
  proof (cases x)
    case (Enters p b)
    obtain r err1 g1 cx1 where i: "vt_enterImpl cls (ve_id v) p b [] (ve_game v, sv_ctx sv) = ((r, err1), g1, cx1)"
      by (metis prod.exhaust)
    have "cx_redis cx1 = cx_redis (sv_ctx sv)" using keeps(1)[of "ve_id v" p b "[]" "ve_game v" "sv_ctx sv"] i by simp
    then have "\<exists>y sv1. onEnter demo_ve cls now a p b [] sv = Some (y, sv1) \<and> redis_ready (cx_redis (sv_ctx sv1))"
      using ready_after(1)[OF sg(1), of g1 cx1 cls now p] Cons.prems(2) v i sg(2) by (cases r) (auto simp: onEnter_def)
    then show ?thesis using Enters Cons.IH venue_kind.onEnter_heap[OF cls v] by fastforce
  next
    case (Leaves p)
    obtain r err1 g1 cx1 where i: "vt_leaveImpl cls (ve_id v) p [] (ve_game v, sv_ctx sv) = ((r, err1), g1, cx1)"
      by (metis prod.exhaust)
    have "cx_redis cx1 = cx_redis (sv_ctx sv)" using keeps(2)[of "ve_id v" p "[]" "ve_game v" "sv_ctx sv"] i by simp
    then have "\<exists>y sv1. onLeave demo_ve cls now a p [] sv = Some (y, sv1) \<and> redis_ready (cx_redis (sv_ctx sv1))"
      using ready_after(2)[OF sg(1), of g1 cx1 cls now p] Cons.prems(2) v i sg(2) by (cases "r = 0") (auto simp: onLeave_def)
    then show ?thesis using Leaves Cons.IH venue_kind.onLeave_heap[OF cls v] by fastforce
  qed
qed simp

lemma ready_dumb_visits:
  assumes "um_find (sv_heap sv) a \<noteq> None" and "redis_ready (cx_redis (sv_ctx sv))"
  shows "\<exists>sv'. run_visits demo_ve GameDumb_class now a vs sv = Some sv'"
  by (rule ready_visits[OF dumb.venue_kind_axioms _ _ assms])
    (simp_all add: GameDumb_class_def GameDumb_enterImpl_def GameDumb_leaveImpl_def)

lemma demo_cx_ready: "redis_ready (cx_redis demo_cx)"
  by (simp add: redis_ready_def demo_cx_def DataBasePool_new_def DataBaseConnection_new_def)

lemma demo_server_ready: "redis_ready (cx_redis (sv_ctx (demo_server n)))"
  using demo_cx_ready by (simp add: demo_server_def)

section \<open>Properties\<close>

lemma setPlayerCount_same: "0 \<le> count_of h vid \<Longrightarrow> ih_totalCount (setPlayerCount vid (count_of h vid) h) = ih_totalCount h"
  by (auto simp: setPlayerCount_def count_of_def split: option.splits)

lemma removed_venue_frozen:
  "um_wf (ih_venues h) \<Longrightarrow> setPlayerCount vid n (inner_removeVenue vid h) = inner_removeVenue vid h"
  by (simp add: setPlayerCount_def inner_removeVenue_def container_simps)


lemma demo_server_venue: "um_find (sv_heap (demo_server n)) 0 \<noteq> None"
  by (simp add: demo_server_def)

lemma demo_server_ok: "venue_ok GameDumb_class GameDumb_ok 0 (demo_server 1)" "located GameDumb_class 0 (demo_server 1)"
proof -
  show "venue_ok GameDumb_class GameDumb_ok 0 (demo_server 1)" by code_simp
  show "located GameDumb_class 0 (demo_server 1)"
    by (simp add: located_def demo_server_def players_in_def GameDumb_class_def venueId_of_def demo_cx_def
        demo_players_def Player_new_def Venue_new_def)
qed


text \<open>When a game is over, its venue is closed to new players and marked for removal, and its
  players are released; but the venue keeps them, so that its handler goes on counting them, and
  once the venue is removed nothing ever takes them out of the handler's total again.\<close>
theorem finished_game_still_counted:
  assumes "gameOver e cls now nowMs a sv = Some sv'" and "um_find (sv_heap sv) a = Some v"
    and "ve_handler v = Some h" and "um_find (sv_handlers sv) h = Some ih" and "um_wf (ih_venues ih)"
    and "count_of ih (ve_id v) = vt_getPlayerCount cls (ve_game v)" and "0 \<le> vt_getPlayerCount cls (ve_game v)"
  shows "(\<exists>v'. um_find (sv_heap sv') a = Some v' \<and> ve_status v' = 2 \<and> ve_obsolete v' \<and> ve_obsoleteTime v' = nowMs)
    \<and> (\<forall>p \<in> players_in cls a sv. venueId_of p (sv_ctx sv') \<in> {None, Some []})
    \<and> players_in cls a sv' = players_in cls a sv
    \<and> (\<exists>ih'. um_find (sv_handlers sv') h = Some ih' \<and>
         ih_totalCount (inner_removeVenue (ve_id v) ih') = ih_totalCount ih \<and>
         (\<forall>n. setPlayerCount (ve_id v) n (inner_removeVenue (ve_id v) ih') = inner_removeVenue (ve_id v) ih'))"
proof -
  note s = gameOver_spec[OF assms(1,2)]
  let ?ih = "setPlayerCount (ve_id v) (vt_getPlayerCount cls (ve_game v)) ih"
  have "ih_totalCount ?ih = ih_totalCount ih" using setPlayerCount_same[of ih "ve_id v"] assms(6,7) by simp
  then have "ih_totalCount (inner_removeVenue (ve_id v) ?ih) = ih_totalCount ih" by (simp add: inner_removeVenue_def)
  moreover have "\<forall>n. setPlayerCount (ve_id v) n (inner_removeVenue (ve_id v) ?ih) = inner_removeVenue (ve_id v) ?ih"
    using removed_venue_frozen[of ?ih] assms(5) by simp
  moreover have "um_find (sv_handlers sv') h = Some ?ih" using s(3) assms(3,4) by simp
  moreover have "\<forall>p \<in> players_in cls a sv. venueId_of p (sv_ctx sv') \<in> {None, Some []}"
    using s(2) by (auto split: option.splits)
  moreover have "players_in cls a sv' = players_in cls a sv"
    using s(1) assms(2) by (simp add: players_in_def setObsolete_def)
  ultimately show ?thesis using s(1) by (simp add: setObsolete_def)
qed

lemma ready_forget:
  assumes "redis_ready (cx_redis cx)"
  shows "\<exists>cx'. forget_players demo_ve now ids cx = Some cx' \<and> redis_ready (cx_redis cx')"
  using assms
proof (induction ids arbitrary: cx)
  case (Cons p ids)
  let ?d = "assign_venue p [] cx"
  obtain st where "with_redis (redis_del (en_redis demo_ve) now (en_PLAYER_CURRENT_VENUE demo_ve @ p)
      (cx_redis ?d)) ?d = Some (?d\<lparr>cx_redis := st\<rparr>)" "redis_ready st"
    using ready_with[of ?d] Cons.prems unfolding redis_del_def by fastforce
  then show ?case using Cons.IH[of "?d\<lparr>cx_redis := st\<rparr>"] by (simp add: Let_def)
qed simp

lemma ready_gameOver:
  assumes "um_find (sv_heap sv) a = Some v" and "redis_ready (cx_redis (sv_ctx sv))"
  shows "\<exists>sv'. gameOver demo_ve cls now nowMs a sv = Some sv'"
proof -
  obtain cx where f: "forget_players demo_ve now (vt_getPlayerIds cls (ve_game v)) (sv_ctx sv) = Some cx"
    "redis_ready (cx_redis cx)" using ready_forget[OF assms(2)] by blast
  obtain st where w: "with_redis (redis_del (en_redis demo_ve) now (en_VENUE_SERVER_MAP demo_ve @ ve_id v)
      (cx_redis cx)) cx = Some (cx\<lparr>cx_redis := st\<rparr>)" "redis_ready st"
    using ready_with[OF f(2)] unfolding redis_del_def by blast
  obtain n sv1 where "updatePlayerCount demo_ve cls now a
      (sv\<lparr>sv_heap := um_put a (v\<lparr>ve_status := 2\<rparr>) (sv_heap sv), sv_ctx := cx\<lparr>cx_redis := st\<rparr>\<rparr>) = Some (n, sv1)"
    using ready_updatePlayerCount[of "sv\<lparr>sv_heap := um_put a (v\<lparr>ve_status := 2\<rparr>) (sv_heap sv),
      sv_ctx := cx\<lparr>cx_redis := st\<rparr>\<rparr>" a] w(2) by (fastforce simp: container_simps)
  then show ?thesis using assms(1) f(1) w(1) by (simp add: gameOver_def Let_def)
qed

theorem finished_game_still_counted_witness:
  "\<exists>sv' ih'. gameOver demo_ve GameDumb_class 9 9000 0 (demo_server 1) = Some sv'
     \<and> um_find (sv_handlers sv') 5 = Some ih' \<and> ih_totalCount (inner_removeVenue ''v'' ih') = 0"
proof -
  obtain v where v: "um_find (sv_heap (demo_server 1)) 0 = Some v" "ve_handler v = Some 5" "ve_id v = ''v''"
    "GameDumb_getPlayerCount (ve_game v) = 0"
    by (simp add: demo_server_def Venue_new_def GameDumb_getPlayerCount_def)
  let ?ih = "inner_addVenue ''v'' 0 VenueInnerHandler_new"
  have ih: "um_find (sv_handlers (demo_server 1)) 5 = Some ?ih" "um_wf (ih_venues ?ih)" "count_of ?ih ''v'' = 0"
    "ih_totalCount ?ih = 0"
    by (simp_all add: demo_server_def count_of_def inner_addVenue_def VenueInnerHandler_new_def addGameType_def um_insert_def)
  obtain sv' where g: "gameOver demo_ve GameDumb_class 9 9000 0 (demo_server 1) = Some sv'"
    using ready_gameOver[OF v(1) demo_server_ready] by blast
  show ?thesis
    using finished_game_still_counted[OF g v(1,2) ih(1,2)] ih(3,4) v(3,4) g by (auto simp: GameDumb_class_def)
qed

end
