(* ===== verification/Venue_Manager.thy ===== *)
theory Venue_Manager
  imports Venues
begin

text \<open>
  The venues of a server: \<open>Venue/VenueManager.cpp\<close>, which loads venues and distributes them to
  handlers, the periodic work of \<open>Venue/VenueInnerHandler.cpp\<close>, and
  \<open>Venue/VenueOuterHandler.cpp\<close>, which turns the messages of a client that is not yet (or no
  longer) in a venue into tasks for the thread of the venue.

  A task handed to a worker with \<open>dispatch\<close> is a value of the type \<open>venue_task\<close>; \<open>run_task\<close> is
  what the worker does when it executes it. The codes of \<open>EnterVenueResult\<close> are declared in a
  header the repository does not have and are a parameter, as is \<open>meanwhile\<close>, what other threads do while
  a thread sleeps.
\<close>

section \<open>The state of the server\<close>

record enter_codes =
  cd_SUCCESS :: int
  cd_GAME_TYPE_ERROR :: int
  cd_STATUS_ERROR :: int
  cd_LOAD_FAILED :: int
  cd_DISTRIBUTE_FAILED :: int
  cd_HANDLER_ERROR :: int
  cd_ENTER_FAILED :: int
  cd_UNKNOWN :: int

datatype 'g loaded = LoadThrows | Loaded "'g Venue option"

type_synonym ('g, 'd) VenueLoader = "string \<Rightarrow> 'd \<Rightarrow> 'g loaded \<times> 'd"

record ('g, 'd) VenueManager =
  vm_serverId :: string
  vm_directExchange :: string
  vm_venueLoaders :: "(int, ('g, 'd) VenueLoader) umap"
  vm_venues :: "(string, nat) umap"
  vm_loadingVenues :: "string list"
  vm_innerHandlers :: "nat list"
  vm_venueHandlerMap :: "(string, nat) umap"

datatype venue_task =
  TInitialize nat
| TEnter nat string nat string         \<comment> \<open>venue, player, session, base64\<close>
| TLeave nat "nat option" MsgLeaveVenue
| TConnect nat string
| TDisconnect nat string
| TCommandLeave nat string string string  \<comment> \<open>venue, player, command id, routing key\<close>

record ('g, 'd, 'r) game_server = "('g, 'd, 'r) server" +
  gs_vm :: "('g, 'd) VenueManager"
  gs_connections :: "(nat, ConnView) umap"
  gs_tasks :: "(nat \<times> venue_task) list"
  gs_published :: "(string \<times> string \<times> string \<times> int \<times> string) list"
    \<comment> \<open>exchange, routing key, command id, result, message of each \<open>CommandResult\<close>\<close>

definition fresh_addr :: "('g, 'd, 'r) game_server \<Rightarrow> nat" where
  "fresh_addr gs = Suc (Max (insert 0 (fst ` set (sv_heap gs))))"

definition dispatch_task :: "nat \<Rightarrow> venue_task \<Rightarrow> ('g, 'd, 'r) game_server \<Rightarrow> ('g, 'd, 'r) game_server" where
  "dispatch_task worker t gs = gs\<lparr>gs_tasks := gs_tasks gs @ [(worker, t)]\<rparr>"

section \<open>The venue manager\<close>

definition registLoader ::
  "int \<Rightarrow> ('g, 'd) VenueLoader \<Rightarrow> ('g, 'd) VenueManager \<Rightarrow> ('g, 'd) VenueManager" where
  "registLoader gameType loader vm =
     vm\<lparr>vm_venueLoaders := um_insert gameType loader (vm_venueLoaders vm)\<rparr>"

definition registHandler :: "nat \<Rightarrow> ('g, 'd) VenueManager \<Rightarrow> ('g, 'd) VenueManager" where
  "registHandler handler vm = vm\<lparr>vm_innerHandlers := vm_innerHandlers vm @ [handler]\<rparr>"

fun pick_handler ::
  "(nat, VenueInnerHandler) umap \<Rightarrow> int \<Rightarrow> nat list \<Rightarrow> nat option \<times> int \<Rightarrow> nat option \<times> int" where
  \<comment> \<open>the loop of \<open>distributeHandler\<close>: the handler found so far and \<open>minCount\<close>\<close>
  "pick_handler hs gameType [] best = best"
| "pick_handler hs gameType (i # is) (ret, minCount) =
     pick_handler hs gameType is
       (case um_find hs i of
          None \<Rightarrow> (ret, minCount)
        | Some h \<Rightarrow>
            if \<not> checkGameType gameType h then (ret, minCount)
            else if minCount < 0 \<or> minCount > ih_totalCount h then (Some i, ih_totalCount h)
            else (ret, minCount))"

definition distributeHandler ::
  "'g Venue option \<Rightarrow> ('g, 'd, 'r) game_server \<Rightarrow> nat option \<times> ('g, 'd, 'r) game_server" where
  "distributeHandler venue gs =
     (case venue of
        None \<Rightarrow> (None, gs)
      | Some v \<Rightarrow>
          (case um_find (vm_venueHandlerMap (gs_vm gs)) (ve_id v) of
             Some h \<Rightarrow> (Some h, gs)
           | None \<Rightarrow>
               (case fst (pick_handler (sv_handlers gs) (ve_gameType v) (vm_innerHandlers (gs_vm gs)) (None, - 1)) of
                  None \<Rightarrow> (None, gs)
                | Some h \<Rightarrow>
                    (Some h, gs\<lparr>gs_vm := (gs_vm gs)\<lparr>vm_venueHandlerMap :=
                        um_insert (ve_id v) h (vm_venueHandlerMap (gs_vm gs))\<rparr>\<rparr>))))"

definition vm_getVenue :: "string \<Rightarrow> ('g, 'd) VenueManager \<Rightarrow> nat option" where
  "vm_getVenue vid vm = um_find (vm_venues vm) vid"

definition vm_addVenue :: "string \<Rightarrow> nat \<Rightarrow> ('g, 'd) VenueManager \<Rightarrow> ('g, 'd) VenueManager" where
  "vm_addVenue vid venue vm = vm\<lparr>vm_venues := um_insert vid venue (vm_venues vm)\<rparr>"

definition vm_removeVenue :: "string \<Rightarrow> ('g, 'd) VenueManager \<Rightarrow> ('g, 'd) VenueManager" where
  "vm_removeVenue vid vm = vm\<lparr>vm_venues := um_erase vid (vm_venues vm)\<rparr>"

definition getVenueLoader :: "int \<Rightarrow> ('g, 'd) VenueManager \<Rightarrow> ('g, 'd) VenueLoader option" where
  "getVenueLoader gameType vm = um_find (vm_venueLoaders vm) gameType"

definition lockLoading :: "string \<Rightarrow> ('g, 'd) VenueManager \<Rightarrow> bool \<times> ('g, 'd) VenueManager" where
  "lockLoading vid vm =
     (if vid \<in> set (vm_loadingVenues vm) then (False, vm)
      else (True, vm\<lparr>vm_loadingVenues := us_insert vid (vm_loadingVenues vm)\<rparr>))"

definition unlockLoading :: "string \<Rightarrow> ('g, 'd) VenueManager \<Rightarrow> ('g, 'd) VenueManager" where
  "unlockLoading vid vm = vm\<lparr>vm_loadingVenues := us_erase vid (vm_loadingVenues vm)\<rparr>"

definition LoadVenueTask :: "'d syncQuery \<Rightarrow> string \<Rightarrow> 'd \<Rightarrow> (bool \<times> int \<times> int) \<times> 'd" where
  \<comment> \<open>success, game type and status; every row overwrites the one before\<close>
  "LoadVenueTask sq vid db =
     (let (ok, rows, _, db') = sq (SelectVenue vid) db
      in ((ok, if \<not> ok then (0, 0)
               else fold (\<lambda>r t. case r of VenueRow g s \<Rightarrow> (g, s) | _ \<Rightarrow> t) rows (0, 0)), db'))"

fun wait_lock ::
  "nat \<Rightarrow> (('g, 'd, 'r) game_server \<Rightarrow> ('g, 'd, 'r) game_server) \<Rightarrow> string \<Rightarrow> ('g, 'd, 'r) game_server
     \<Rightarrow> bool \<times> ('g, 'd, 'r) game_server" where
  \<comment> \<open>the loop around \<open>lockLoading\<close> with the number of sleeps left\<close>
  "wait_lock n meanwhile vid gs =
     (let (locked, vm) = lockLoading vid (gs_vm gs) in
      if locked then (True, gs\<lparr>gs_vm := vm\<rparr>)
      else case n of 0 \<Rightarrow> (False, gs) | Suc m \<Rightarrow> wait_lock m meanwhile vid (meanwhile gs))"

definition adopt_venue ::
  "enter_codes \<Rightarrow> 'g Venue \<Rightarrow> ('g, 'd, 'r) game_server \<Rightarrow> (nat option \<times> int) \<times> ('g, 'd, 'r) game_server" where
  \<comment> \<open>the body of the \<open>try\<close> block of \<open>loadVenue\<close> once a venue was loaded\<close>
  "adopt_venue cd v gs =
     (case distributeHandler (Some v) gs of
        (None, gs1) \<Rightarrow> ((None, cd_DISTRIBUTE_FAILED cd), gs1)
      | (Some h, gs1) \<Rightarrow>
          (case um_find (sv_handlers gs1) h of
             None \<Rightarrow> ((None, cd_HANDLER_ERROR cd), gs1)
           | Some ih \<Rightarrow>
               (case ih_worker ih of
                  None \<Rightarrow> ((None, cd_HANDLER_ERROR cd), gs1)
                | Some worker \<Rightarrow>
                    let a = fresh_addr gs1 in
                    ((Some a, cd_SUCCESS cd),
                     dispatch_task worker (TInitialize a)
                       (gs1\<lparr>sv_heap := um_put a (v\<lparr>ve_handler := Some h\<rparr>) (sv_heap gs1),
                            sv_handlers := um_put h (inner_addVenue (ve_id v) a ih) (sv_handlers gs1),
                            gs_vm := vm_addVenue (ve_id v) a (gs_vm gs1)\<rparr>)))))"

definition loadVenue ::
  "enter_codes \<Rightarrow> 'd syncQuery \<Rightarrow> (('g, 'd, 'r) game_server \<Rightarrow> ('g, 'd, 'r) game_server) \<Rightarrow> string \<Rightarrow> int \<Rightarrow> int
     \<Rightarrow> ('g, 'd, 'r) game_server \<Rightarrow> (nat option \<times> int) \<times> ('g, 'd, 'r) game_server" where
  \<comment> \<open>the venue and the reference parameter \<open>error\<close>\<close>
  "loadVenue cd sq meanwhile vid gameType error gs =
     (case Option.bind (vm_getVenue vid (gs_vm gs)) (\<lambda>a. map_option (\<lambda>v. (a, v)) (um_find (sv_heap gs) a)) of
        Some (a, v) \<Rightarrow>
          if gameType \<noteq> ve_gameType v then ((None, error), gs) else ((Some a, error), gs)
      | None \<Rightarrow>
          (let ((ok, gt, status), db) = LoadVenueTask sq vid (cx_db (sv_ctx gs));
               gs1 = gs\<lparr>sv_ctx := (sv_ctx gs)\<lparr>cx_db := db\<rparr>\<rparr>
           in if \<not> ok then ((None, cd_LOAD_FAILED cd), gs1)
              else if gt \<noteq> gameType then ((None, cd_GAME_TYPE_ERROR cd), gs1)
              else if status \<noteq> 0 then ((None, cd_STATUS_ERROR cd), gs1)
              else let (locked, gs2) = wait_lock 200 meanwhile vid gs1 in
              if \<not> locked then ((None, error), gs2)
              else let unlock = (\<lambda>s. s\<lparr>gs_vm := unlockLoading vid (gs_vm s)\<rparr>) in
                case vm_getVenue vid (gs_vm gs2) of
                  Some a \<Rightarrow> ((Some a, error), unlock gs2)
                | None \<Rightarrow>
                    (case getVenueLoader gameType (gs_vm gs2) of
                       None \<Rightarrow> ((None, cd_LOAD_FAILED cd), unlock gs2)
                     | Some loader \<Rightarrow>
                         (case loader vid (cx_db (sv_ctx gs2)) of
                            (LoadThrows, db3) \<Rightarrow>
                              ((None, error), unlock (gs2\<lparr>sv_ctx := (sv_ctx gs2)\<lparr>cx_db := db3\<rparr>\<rparr>))
                          | (Loaded None, db3) \<Rightarrow>
                              ((None, cd_LOAD_FAILED cd), unlock (gs2\<lparr>sv_ctx := (sv_ctx gs2)\<lparr>cx_db := db3\<rparr>\<rparr>))
                          | (Loaded (Some v), db3) \<Rightarrow>
                              (let (r, gs3) = adopt_venue cd v (gs2\<lparr>sv_ctx := (sv_ctx gs2)\<lparr>cx_db := db3\<rparr>\<rparr>)
                               in (r, unlock gs3))))))"

definition vm_getTotalCount :: "('g, 'd, 'r) game_server \<Rightarrow> int" where
  "vm_getTotalCount gs =
     sum_list (map (\<lambda>(vid, h). case um_find (sv_handlers gs) h of None \<Rightarrow> 0 | Some ih \<Rightarrow> ih_totalCount ih)
       (vm_venueHandlerMap (gs_vm gs)))"

definition vm_onTimer ::
  "('d, 'r) env \<Rightarrow> int \<Rightarrow> ('g, 'd, 'r) game_server \<Rightarrow> ('g, 'd, 'r) game_server option" where
  "vm_onTimer e now gs =
     map_option (\<lambda>cx. gs\<lparr>sv_ctx := cx\<rparr>)
       (with_redis (redis_set_int (en_redis e) now (en_SERVER_PLAYER_COUNT e @ vm_serverId (gs_vm gs))
          (vm_getTotalCount gs) (cx_redis (sv_ctx gs))) (sv_ctx gs))"

fun sweep :: "nat \<Rightarrow> int \<Rightarrow> nat list \<Rightarrow> ('g, 'd, 'r) game_server \<Rightarrow> ('g, 'd, 'r) game_server" where
  \<comment> \<open>the loop of \<open>VenueInnerHandler::onTimer\<close>; \<open>Venue::onTimer\<close> does nothing in any class of the repository\<close>
  "sweep h nowMs [] gs = gs"
| "sweep h nowMs (a # as) gs =
     sweep h nowMs as
       (case um_find (sv_heap gs) a of
          None \<Rightarrow> gs
        | Some v \<Rightarrow>
            if ve_obsolete v \<and> (nowMs - ve_obsoleteTime v) div 1000 > 30
            then gs\<lparr>sv_handlers := (case um_find (sv_handlers gs) h of
                        None \<Rightarrow> sv_handlers gs
                      | Some ih \<Rightarrow> um_put h (inner_removeVenue (ve_id v) ih) (sv_handlers gs)),
                    gs_vm := vm_removeVenue (ve_id v) (gs_vm gs)\<rparr>
            else gs)"

definition inner_onTimer :: "nat \<Rightarrow> int \<Rightarrow> ('g, 'd, 'r) game_server \<Rightarrow> ('g, 'd, 'r) game_server" where
  "inner_onTimer h nowMs gs =
     (case um_find (sv_handlers gs) h of
        None \<Rightarrow> gs
      | Some ih \<Rightarrow>
          let ih1 = updateVenueList ih
          in sweep h nowMs (ih_venueList ih1) (gs\<lparr>sv_handlers := um_put h ih1 (sv_handlers gs)\<rparr>))"

definition venue_worker :: "nat \<Rightarrow> ('g, 'd, 'r) game_server \<Rightarrow> nat option" where
  \<comment> \<open>the thread of the handler of a venue, if both are there\<close>
  "venue_worker a gs =
     (case um_find (sv_heap gs) a of
        None \<Rightarrow> None
      | Some v \<Rightarrow> Option.bind (Option.bind (ve_handler v) (um_find (sv_handlers gs))) ih_worker)"

definition json_string :: "json_object \<Rightarrow> string \<Rightarrow> string" where
  \<comment> \<open>\<open>asString\<close> if \<open>isString\<close>, else the empty string the variable starts with\<close>
  "json_string obj field = (case um_find obj field of Some (JString s) \<Rightarrow> s | _ \<Rightarrow> [])"

definition vm_handleMessage ::
  "string \<Rightarrow> json_object \<Rightarrow> ('g, 'd, 'r) game_server \<Rightarrow> ('g, 'd, 'r) game_server" where
  "vm_handleMessage msgType obj gs =
     (if msgType \<noteq> ''MsgLeaveVenue'' then gs
      else let playerId = json_string obj ''playerId''; venueId = json_string obj ''venueId'';
               commandId = json_string obj ''commandId''; routingKey = json_string obj ''routingKey''
           in if playerId = [] \<or> venueId = [] \<or> commandId = [] \<or> routingKey = [] then gs
              else let (player, pm) = getPlayer playerId (cx_pm (sv_ctx gs));
                       gs1 = gs\<lparr>sv_ctx := (sv_ctx gs)\<lparr>cx_pm := pm\<rparr>\<rparr>;
                       curVenueId = (case player of None \<Rightarrow> [] | Some p \<Rightarrow> pl_venueId p);
                       venue = (if curVenueId = venueId then vm_getVenue venueId (gs_vm gs1) else None)
                   in case Option.bind venue (\<lambda>a. map_option (\<lambda>w. (a, w)) (venue_worker a gs1)) of
                        Some (a, worker) \<Rightarrow> dispatch_task worker (TCommandLeave a playerId commandId routingKey) gs1
                      | None \<Rightarrow> gs1\<lparr>gs_published := gs_published gs1 @
                                  [(vm_directExchange (gs_vm gs1), routingKey, commandId, 0, ''success'')]\<rparr>)"

section \<open>The outer handler\<close>

definition onPlayerConnect ::
  "nat option \<Rightarrow> MsgPlayerConnect \<Rightarrow> ('g, 'd, 'r) game_server \<Rightarrow> ('g, 'd, 'r) game_server" where
  "onPlayerConnect session msg gs =
     (let cx = sv_ctx gs in
      case lock_session session cx of
        None \<Rightarrow> gs
      | Some i \<Rightarrow>
          (case getPlayer (ms_playerId msg) (cx_pm cx) of
             (None, pm1) \<Rightarrow> gs\<lparr>sv_ctx := cx\<lparr>cx_pm := pm1\<rparr>\<rparr>
           | (Some player, pm1) \<Rightarrow>
               (let old = (case getSession (cx_sessions cx) player of
                             None \<Rightarrow> None | Some (j, s) \<Rightarrow> Some (Session_getId (gs_connections gs) s []));
                    pm2 = (case old of None \<Rightarrow> pm1 | Some sid \<Rightarrow> removeSessionId sid pm1);
                    sid0 = (case old of None \<Rightarrow> [] | Some sid \<Rightarrow> sid);
                    sessionId = (case um_find (cx_sessions cx) i of
                                   None \<Rightarrow> sid0 | Some s \<Rightarrow> Session_getId (gs_connections gs) s sid0);
                    player1 = setSession (Some i) player;
                    pm3 = setSessionPlayerId sessionId (ms_playerId msg)
                            (pm2\<lparr>pm_players := um_put (ms_playerId msg) player1 (pm_players pm2)\<rparr>);
                    gs1 = gs\<lparr>sv_ctx := cx\<lparr>cx_pm := pm3\<rparr>\<rparr>
                in if pl_venueId player1 = [] then gs1
                   else case Option.bind (vm_getVenue (pl_venueId player1) (gs_vm gs1))
                               (\<lambda>a. map_option (\<lambda>w. (a, w)) (venue_worker a gs1)) of
                          None \<Rightarrow> gs1
                        | Some (a, worker) \<Rightarrow> dispatch_task worker (TConnect a (ms_playerId msg)) gs1)))"

definition outer_onDisconnect :: "int \<Rightarrow> string \<Rightarrow> ('g, 'd, 'r) game_server \<Rightarrow> ('g, 'd, 'r) game_server" where
  "outer_onDisconnect now sessionId gs =
     (let cx = sv_ctx gs; pm = cx_pm cx in
      case getPlayerBySessionId sessionId pm of
        None \<Rightarrow> gs
      | Some player \<Rightarrow>
          (let pm1 = removeSessionId sessionId pm;
               player1 = setOffline now player;
               pm2 = addOfflinePlayer (pl_id player1)
                       (pm1\<lparr>pm_players := um_put (pl_id player1) player1 (pm_players pm1)\<rparr>);
               gs1 = gs\<lparr>sv_ctx := cx\<lparr>cx_pm := pm2\<rparr>\<rparr>
           in if pl_venueId player1 = [] then gs1
              else case Option.bind (vm_getVenue (pl_venueId player1) (gs_vm gs1))
                          (\<lambda>a. map_option (\<lambda>w. (a, w)) (venue_worker a gs1)) of
                     None \<Rightarrow> gs1
                   | Some (a, worker) \<Rightarrow> dispatch_task worker (TDisconnect a (pl_id player1)) gs1))"

definition reply :: "server_msg \<Rightarrow> nat option \<Rightarrow> ('g, 'd, 'r) game_server \<Rightarrow> ('g, 'd, 'r) game_server" where
  "reply m session gs = gs\<lparr>sv_ctx := send_msg m session (sv_ctx gs)\<rparr>"

definition enter_error :: "enter_codes \<Rightarrow> int \<Rightarrow> string" where
  "enter_error cd error =
     (if error = cd_GAME_TYPE_ERROR cd then ''Game type error''
      else if error = cd_STATUS_ERROR cd then ''Venue status error''
      else if error = cd_LOAD_FAILED cd then ''Load venue failed''
      else if error = cd_DISTRIBUTE_FAILED cd then ''Distribute venue failed''
      else if error = cd_HANDLER_ERROR cd then ''Message handler error''
      else [])"

definition onEnterVenue ::
  "('d, 'r) env \<Rightarrow> enter_codes \<Rightarrow> (('g, 'd, 'r) game_server \<Rightarrow> ('g, 'd, 'r) game_server) \<Rightarrow> int \<Rightarrow> nat option
     \<Rightarrow> MsgEnterVenue \<Rightarrow> ('g, 'd, 'r) game_server \<Rightarrow> ('g, 'd, 'r) game_server option" where
  "onEnterVenue e cd meanwhile now session msg gs =
     (case lock_session session (sv_ctx gs) of
        None \<Rightarrow> Some gs
      | Some i \<Rightarrow>
          rbind (redis_get (en_redis e) now (en_PLAYER_AUTHORIZED_VENUE e @ ms_playerId msg) (cx_redis (sv_ctx gs)))
            (\<lambda>v st.
               let gs1 = gs\<lparr>sv_ctx := (sv_ctx gs)\<lparr>cx_redis := st\<rparr>\<rparr>;
                   authVenueId = (case v of None \<Rightarrow> [] | Some x \<Rightarrow> x)
               in if authVenueId \<noteq> ev_venueId msg
                  then Some (reply (EnterVenueResp \<lparr>er_venueId = ev_venueId msg, er_code = cd_LOAD_FAILED cd,
                         er_errMsg = ''Haven't been authorized to enter the specified venue''\<rparr>) (Some i) gs1)
                  else case loadVenue cd (en_sq e) meanwhile (ev_venueId msg) (ev_gameType msg) 0 gs1 of
                    ((None, error), gs2) \<Rightarrow>
                      Some (reply (EnterVenueResp \<lparr>er_venueId = ev_venueId msg, er_code = error,
                         er_errMsg = enter_error cd error\<rparr>) (Some i) gs2)
                  | ((Some a, error), gs2) \<Rightarrow>
                      (case venue_worker a gs2 of
                         None \<Rightarrow> Some (reply (EnterVenueResp \<lparr>er_venueId = ev_venueId msg,
                                   er_code = cd_UNKNOWN cd, er_errMsg = ''Internal server error''\<rparr>) (Some i) gs2)
                       | Some worker \<Rightarrow>
                           Some (dispatch_task worker (TEnter a (ms_playerId msg) i (ev_base64 msg)) gs2))))"

definition outer_onLeaveVenue ::
  "nat option \<Rightarrow> MsgLeaveVenue \<Rightarrow> ('g, 'd, 'r) game_server \<Rightarrow> ('g, 'd, 'r) game_server" where
  "outer_onLeaveVenue session inst gs =
     (case Option.bind (vm_getVenue (vi_venueId inst) (gs_vm gs))
             (\<lambda>a. map_option (\<lambda>w. (a, w)) (venue_worker a gs)) of
        None \<Rightarrow> reply (LeaveVenueResp \<lparr>lr_venueId = vi_venueId inst, lr_result = 0, lr_errMsg = []\<rparr>)
                  (lock_session session (sv_ctx gs)) gs
      | Some (a, worker) \<Rightarrow> dispatch_task worker (TLeave a session inst) gs)"

definition outer_onMessage ::
  "('d, 'r) env \<Rightarrow> enter_codes \<Rightarrow> (('g, 'd, 'r) game_server \<Rightarrow> ('g, 'd, 'r) game_server) \<Rightarrow> int \<Rightarrow> nat option
     \<Rightarrow> client_msg \<Rightarrow> ('g, 'd, 'r) game_server \<Rightarrow> (bool \<times> ('g, 'd, 'r) game_server) option" where
  "outer_onMessage e cd meanwhile now session m gs =
     (case m of
        PlayerConnect msg \<Rightarrow> Some (True, onPlayerConnect session msg gs)
      | Disconnect sessionId \<Rightarrow> Some (True, outer_onDisconnect now sessionId gs)
      | EnterVenue msg \<Rightarrow> map_option (Pair True) (onEnterVenue e cd meanwhile now session msg gs)
      | LeaveVenue msg \<Rightarrow> Some (True, outer_onLeaveVenue session msg gs)
      | _ \<Rightarrow> Some (False, gs))"

section \<open>Running the tasks\<close>

definition venue_alive :: "nat \<Rightarrow> ('g, 'd, 'r) game_server \<Rightarrow> bool" where
  \<comment> \<open>a shared pointer to the venue is left, so a weak one can be locked\<close>
  "venue_alive a gs \<longleftrightarrow> a \<in> snd ` set (vm_venues (gs_vm gs)) \<or>
     (\<exists>ih \<in> snd ` set (sv_handlers gs). a \<in> snd ` set (ih_venues ih) \<or> a \<in> set (ih_venueList ih))"

definition run_task ::
  "('d, 'r) env \<Rightarrow> enter_codes \<Rightarrow> ('g, 'd, 'r) venue_class \<Rightarrow> int \<Rightarrow> venue_task \<Rightarrow> ('g, 'd, 'r) game_server
     \<Rightarrow> ('g, 'd, 'r) game_server option" where
  "run_task e cd cls now t gs =
     (case t of
        TInitialize a \<Rightarrow> Some gs
      | TEnter a playerId i base64 \<Rightarrow>
          if \<not> venue_alive a gs then Some gs
          else (case onEnter e cls now a playerId base64 [] gs of
                  None \<Rightarrow> None
                | Some ((ret, errMsg), gs1) \<Rightarrow>
                    Some (reply (EnterVenueResp \<lparr>er_venueId = (case um_find (sv_heap gs1) a of None \<Rightarrow> [] | Some v \<Rightarrow> ve_id v),
                       er_code = (if ret then 0 else cd_ENTER_FAILED cd), er_errMsg = errMsg\<rparr>) (Some i) gs1))
      | TLeave a session inst \<Rightarrow>
          if \<not> venue_alive a gs then Some gs else Venue_onLeaveVenue e cls now a session inst gs
      | TConnect a playerId \<Rightarrow>
          (case um_find (sv_heap gs) a of
             None \<Rightarrow> Some gs
           | Some v \<Rightarrow> if \<not> venue_alive a gs then Some gs
                       else let (g, cx) = vt_onConnect cls playerId (ve_game v, sv_ctx gs)
                            in Some (set_game a v g cx gs))
      | TDisconnect a playerId \<Rightarrow>
          (case um_find (sv_heap gs) a of
             None \<Rightarrow> Some gs
           | Some v \<Rightarrow> if \<not> venue_alive a gs then Some gs
                       else let (g, cx) = vt_onDisconnect cls playerId (ve_game v, sv_ctx gs)
                            in Some (set_game a v g cx gs))
      | TCommandLeave a playerId commandId routingKey \<Rightarrow>
          (let finish = (\<lambda>ret errMsg s. s\<lparr>gs_published := gs_published s @
                           [(vm_directExchange (gs_vm s), routingKey, commandId, ret, errMsg)]\<rparr>)
           in if \<not> venue_alive a gs then Some (finish 0 ''success'' gs)
              else map_option (\<lambda>((ret, errMsg), gs1). finish ret errMsg gs1)
                     (onLeave e cls now a playerId ''success'' gs)))"

section \<open>Vocabulary of the properties\<close>

definition loaders_ok :: "('g, 'd, 'r) game_server \<Rightarrow> bool" where
  \<comment> \<open>a loader returns a venue with the id it was asked for and its own game type, without a handler\<close>
  "loaders_ok gs \<longleftrightarrow> (\<forall>gt l vid db v db'. getVenueLoader gt (gs_vm gs) = Some l \<longrightarrow>
     l vid db = (Loaded (Some v), db') \<longrightarrow> ve_id v = vid \<and> ve_gameType v = gt)"

definition venues_ok :: "('g, 'd, 'r) game_server \<Rightarrow> bool" where
  \<comment> \<open>a registered venue exists under its id, and a handler's venue is the registered one\<close>
  "venues_ok gs \<longleftrightarrow>
     (\<forall>vid a. vm_getVenue vid (gs_vm gs) = Some a \<longrightarrow> (\<exists>v. um_find (sv_heap gs) a = Some v \<and> ve_id v = vid))
   \<and> (\<forall>h ih vid a. um_find (sv_handlers gs) h = Some ih \<longrightarrow> inner_getVenue vid ih = Some a \<longrightarrow>
        vm_getVenue vid (gs_vm gs) = Some a)"

definition demo_vm :: "(GameDumb, unit) VenueManager" where
  "demo_vm = \<lparr>vm_serverId = ''s1'', vm_directExchange = ''direct'',
     vm_venueLoaders = [(1, \<lambda>vid db. (Loaded (fst (GameDumb_load (\<lambda>s u. (True, [DumbRow ''lobby'' 8], 0, u)) vid db)), db))],
     vm_venues = [], vm_loadingVenues = [], vm_innerHandlers = [5, 6], vm_venueHandlerMap = []\<rparr>"

definition demo_gs :: "(GameDumb, unit, unit) game_server" where
  "demo_gs = \<lparr>sv_ctx = demo_cx, sv_heap = [],
     sv_handlers = [(5, VenueInnerHandler_new\<lparr>ih_totalCount := 3, ih_worker := Some 0\<rparr>),
                    (6, VenueInnerHandler_new\<lparr>ih_worker := Some 1\<rparr>)],
     gs_vm = demo_vm, gs_connections = [], gs_tasks = [], gs_published = []\<rparr>"

definition demo_codes :: enter_codes where
  "demo_codes = \<lparr>cd_SUCCESS = 0, cd_GAME_TYPE_ERROR = 2, cd_STATUS_ERROR = 3, cd_LOAD_FAILED = 4,
     cd_DISTRIBUTE_FAILED = 5, cd_HANDLER_ERROR = 8, cd_ENTER_FAILED = 6, cd_UNKNOWN = 7\<rparr>"

section \<open>Lemmas\<close>

lemma pick_handler_spec:
  assumes "pick_handler hs gt is (ret, mc) = (ret', mc')"
    and "\<forall>i \<in> set is. \<forall>ih. um_find hs i = Some ih \<longrightarrow> 0 \<le> ih_totalCount ih"
    and "(ret = None \<and> mc = - 1) \<or> (\<exists>i ih. ret = Some i \<and> um_find hs i = Some ih \<and> checkGameType gt ih
           \<and> ih_totalCount ih = mc \<and> 0 \<le> mc)"
  shows "((ret' = None \<and> mc' = - 1) \<or> (\<exists>i ih. ret' = Some i \<and> um_find hs i = Some ih \<and> checkGameType gt ih
           \<and> ih_totalCount ih = mc' \<and> 0 \<le> mc'))
    \<and> (ret \<noteq> None \<longrightarrow> ret' \<noteq> None \<and> mc' \<le> mc)
    \<and> (ret' = ret \<or> ret' \<in> Some ` set is)
    \<and> (\<forall>j \<in> set is. \<forall>jh. um_find hs j = Some jh \<longrightarrow> checkGameType gt jh \<longrightarrow>
         ret' \<noteq> None \<and> mc' \<le> ih_totalCount jh)"
  using assms
proof (induction hs gt "is" "(ret, mc)" arbitrary: ret mc rule: pick_handler.induct)
  case (2 hs gt i "is" ret mc)
  define best where "best = (case um_find hs i of None \<Rightarrow> (ret, mc)
      | Some h \<Rightarrow> if \<not> checkGameType gt h then (ret, mc)
                  else if mc < 0 \<or> mc > ih_totalCount h then (Some i, ih_totalCount h) else (ret, mc))"
  obtain r1 m1 where b: "best = (r1, m1)" by fastforce
  have inv1: "(r1 = None \<and> m1 = - 1) \<or> (\<exists>i ih. r1 = Some i \<and> um_find hs i = Some ih \<and> checkGameType gt ih
           \<and> ih_totalCount ih = m1 \<and> 0 \<le> m1)"
    using 2(3,4) b by (auto simp: best_def split: option.splits if_splits)
  have step: "(ret \<noteq> None \<longrightarrow> r1 \<noteq> None \<and> m1 \<le> mc) \<and> (r1 = ret \<or> r1 = Some i)
      \<and> (\<forall>ih. um_find hs i = Some ih \<longrightarrow> checkGameType gt ih \<longrightarrow> r1 \<noteq> None \<and> m1 \<le> ih_totalCount ih)"
    using 2(4) b by (auto simp: best_def split: option.splits if_splits)
  have "pick_handler hs gt is (r1, m1) = (ret', mc')" using 2(2) b by (simp add: best_def)
  from 2(1)[of r1 m1, OF _ this _ inv1] b 2(3)
  have ih: "((ret' = None \<and> mc' = - 1) \<or> (\<exists>i ih. ret' = Some i \<and> um_find hs i = Some ih \<and> checkGameType gt ih
           \<and> ih_totalCount ih = mc' \<and> 0 \<le> mc'))
    \<and> (r1 \<noteq> None \<longrightarrow> ret' \<noteq> None \<and> mc' \<le> m1)
    \<and> (ret' = r1 \<or> ret' \<in> Some ` set is)
    \<and> (\<forall>j \<in> set is. \<forall>jh. um_find hs j = Some jh \<longrightarrow> checkGameType gt jh \<longrightarrow>
         ret' \<noteq> None \<and> mc' \<le> ih_totalCount jh)" by (simp add: best_def)
  with step show ?case by (auto intro: order_trans) 
qed auto

lemma fresh_addr_fresh: "um_find (sv_heap gs) (fresh_addr gs) = None"
proof -
  have "fresh_addr gs \<notin> fst ` set (sv_heap gs)"
    by (metis Max_ge Suc_n_not_le_n finite_imageI finite_insert finite_set fresh_addr_def insertI2)
  then show ?thesis by (simp add: um_find_None_iff)
qed

declare wait_lock.simps [simp del]

lemma wait_lock_free:
  "vid \<notin> set (vm_loadingVenues (gs_vm gs)) \<Longrightarrow>
     wait_lock n meanwhile vid gs = (True, gs\<lparr>gs_vm := (gs_vm gs)\<lparr>vm_loadingVenues := vm_loadingVenues (gs_vm gs) @ [vid]\<rparr>\<rparr>)"
  by (subst wait_lock.simps) (simp add: lockLoading_def us_insert_def)

lemma distributeHandler_frame:
  "distributeHandler v gs = (r, gs') \<Longrightarrow>
     sv_heap gs' = sv_heap gs \<and> sv_handlers gs' = sv_handlers gs \<and> gs_tasks gs' = gs_tasks gs
     \<and> vm_venues (gs_vm gs') = vm_venues (gs_vm gs) \<and> vm_loadingVenues (gs_vm gs') = vm_loadingVenues (gs_vm gs)
     \<and> fresh_addr gs' = fresh_addr gs"
  by (auto simp: distributeHandler_def fresh_addr_def split: option.splits)

lemma venues_ok_cong:
  "sv_heap gs' = sv_heap gs \<Longrightarrow> sv_handlers gs' = sv_handlers gs \<Longrightarrow>
     vm_venues (gs_vm gs') = vm_venues (gs_vm gs) \<Longrightarrow> venues_ok gs' = venues_ok gs"
  by (simp add: venues_ok_def vm_getVenue_def)

lemma adopt_venue_spec:
  assumes "venues_ok gs" and "vm_getVenue (ve_id v) (gs_vm gs) = None"
    and "adopt_venue cd v gs = ((r, err), gs')"
  shows "venues_ok gs' \<and> vm_loadingVenues (gs_vm gs') = vm_loadingVenues (gs_vm gs)
    \<and> (case r of
         None \<Rightarrow> vm_venues (gs_vm gs') = vm_venues (gs_vm gs)
       | Some a \<Rightarrow> err = cd_SUCCESS cd \<and> vm_getVenue (ve_id v) (gs_vm gs') = Some a \<and> um_find (sv_heap gs) a = None
           \<and> (\<exists>h ih w. um_find (sv_heap gs') a = Some (v\<lparr>ve_handler := Some h\<rparr>) \<and> um_find (sv_handlers gs') h = Some ih
                \<and> inner_getVenue (ve_id v) ih = Some a \<and> ih_worker ih = Some w
                \<and> gs_tasks gs' = gs_tasks gs @ [(w, TInitialize a)]))"
proof -
  obtain d gs1 where d: "distributeHandler (Some v) gs = (d, gs1)" by fastforce
  note f = distributeHandler_frame[OF d]
  have ok1: "venues_ok gs1" using assms(1) f venues_ok_cong[of gs1 gs] by simp
  have n1: "vm_getVenue (ve_id v) (gs_vm gs1) = None" using assms(2) f by (simp add: vm_getVenue_def)
  show ?thesis
  proof (cases "\<exists>h ih w. d = Some h \<and> um_find (sv_handlers gs1) h = Some ih \<and> ih_worker ih = Some w")
    case False
    then have "r = None" "gs' = gs1" using assms(3) by (auto simp: adopt_venue_def d split: option.splits)
    then show ?thesis using ok1 f by simp
  next
    case True
    then obtain h ih w where h: "d = Some h" "um_find (sv_handlers gs1) h = Some ih" "ih_worker ih = Some w" by blast
    let ?a = "fresh_addr gs1"
    have fr: "um_find (sv_heap gs1) ?a = None" by (rule fresh_addr_fresh)
    have r: "r = Some ?a" "err = cd_SUCCESS cd"
      and gs': "sv_heap gs' = um_put ?a (v\<lparr>ve_handler := Some h\<rparr>) (sv_heap gs1)"
        "sv_handlers gs' = um_put h (inner_addVenue (ve_id v) ?a ih) (sv_handlers gs1)"
        "gs_vm gs' = vm_addVenue (ve_id v) ?a (gs_vm gs1)" "gs_tasks gs' = gs_tasks gs1 @ [(w, TInitialize ?a)]"
      using assms(3) h by (auto simp: adopt_venue_def d dispatch_task_def Let_def)
    have nih: "um_find (ih_venues ih) (ve_id v) = None"
      using ok1 h(2) n1 unfolding venues_ok_def inner_getVenue_def by (metis not_None_eq)
    have "venues_ok gs'"
      using ok1 n1 nih h(2) fr unfolding venues_ok_def gs' vm_addVenue_def vm_getVenue_def inner_getVenue_def
      by (auto simp: container_simps inner_addVenue_def split: if_splits) (metis option.distinct(1))
    moreover have "inner_getVenue (ve_id v) (inner_addVenue (ve_id v) ?a ih) = Some ?a"
      using nih by (simp add: inner_getVenue_def inner_addVenue_def container_simps)
    ultimately show ?thesis
      using r gs' f n1 fr h by (auto simp: container_simps vm_addVenue_def vm_getVenue_def inner_addVenue_def)
  qed
qed

lemma loadVenue_spec:
  assumes "venues_ok gs" and "loaders_ok gs" and "vid \<notin> set (vm_loadingVenues (gs_vm gs))"
    and "loadVenue cd sq meanwhile vid gameType error gs = ((r, err), gs')"
  shows "venues_ok gs' \<and> vm_loadingVenues (gs_vm gs') = vm_loadingVenues (gs_vm gs)
    \<and> (case r of
         None \<Rightarrow> vm_venues (gs_vm gs') = vm_venues (gs_vm gs)
       | Some a \<Rightarrow> vm_getVenue vid (gs_vm gs') = Some a
           \<and> (\<exists>v. um_find (sv_heap gs') a = Some v \<and> ve_id v = vid \<and> ve_gameType v = gameType)
           \<and> (vm_getVenue vid (gs_vm gs) = Some a \<or>
              vm_getVenue vid (gs_vm gs) = None \<and> err = cd_SUCCESS cd \<and> (\<exists>w. venue_worker a gs' = Some w)))"
proof (cases "vm_getVenue vid (gs_vm gs)")
  case (Some a)
  then obtain v where v: "um_find (sv_heap gs) a = Some v" "ve_id v = vid" using assms(1) by (auto simp: venues_ok_def)
  have "gs' = gs" and "r = (if gameType = ve_gameType v then Some a else None)"
    using assms(4) Some v(1) by (auto simp: loadVenue_def split: if_splits)
  then show ?thesis using assms(1) Some v by simp
next
  case None
  obtain ok gt status db where q: "LoadVenueTask sq vid (cx_db (sv_ctx gs)) = ((ok, gt, status), db)"
    by (metis prod.exhaust)
  let ?gs1 = "gs\<lparr>sv_ctx := (sv_ctx gs)\<lparr>cx_db := db\<rparr>\<rparr>"
  let ?vm = "(gs_vm gs)\<lparr>vm_loadingVenues := vm_loadingVenues (gs_vm gs) @ [vid]\<rparr>"
  let ?gs2 = "?gs1\<lparr>gs_vm := ?vm\<rparr>"
  have un: "unlockLoading vid ?vm = gs_vm gs" using assms(3) by (simp add: unlockLoading_def)
  have w: "wait_lock 200 meanwhile vid ?gs1 = (True, ?gs2)" using wait_lock_free[of vid ?gs1] assms(3) by simp
  show ?thesis
  proof (cases "ok \<and> gt = gameType \<and> status = 0 \<and>
      (\<exists>l v db3. getVenueLoader gameType ?vm = Some l \<and> l vid db = (Loaded (Some v), db3))")
    case False
    then have "r = None \<and> sv_heap gs' = sv_heap gs \<and> sv_handlers gs' = sv_handlers gs \<and> gs_vm gs' = gs_vm gs"
      using assms(4) None un
      by (auto simp: loadVenue_def q w vm_getVenue_def getVenueLoader_def Let_def split: if_splits option.splits prod.splits loaded.splits)
    then show ?thesis using assms(1) venues_ok_cong[of gs' gs] by simp
  next
    case True
    then obtain l v db3 where l: "getVenueLoader gameType ?vm = Some l" "l vid db = (Loaded (Some v), db3)"
      "ok" "gt = gameType" "status = 0" by blast
    let ?gs3 = "?gs2\<lparr>sv_ctx := (sv_ctx ?gs2)\<lparr>cx_db := db3\<rparr>\<rparr>"
    have v: "ve_id v = vid" "ve_gameType v = gameType"
      using assms(2) l(1,2) unfolding loaders_ok_def getVenueLoader_def by auto metis+
    obtain r1 e1 gs4 where ad: "adopt_venue cd v ?gs3 = ((r1, e1), gs4)" by (metis prod.exhaust)
    have res: "r = r1" "err = e1" "gs' = gs4\<lparr>gs_vm := unlockLoading vid (gs_vm gs4)\<rparr>"
      using assms(4) None l ad
      by (auto simp: loadVenue_def q w vm_getVenue_def Let_def split_beta)
    have ok3: "venues_ok ?gs3" using assms(1) venues_ok_cong[of ?gs3 gs] by simp
    have n3: "vm_getVenue (ve_id v) (gs_vm ?gs3) = None" using None v by (simp add: vm_getVenue_def)
    note sp = adopt_venue_spec[OF ok3 n3 ad]
    have "vm_loadingVenues (gs_vm gs') = vm_loadingVenues (gs_vm gs)"
      using sp assms(3) by (simp add: res unlockLoading_def)
    moreover have "venues_ok gs'" using sp venues_ok_cong[of gs' gs4] by (simp add: res unlockLoading_def)
    moreover have "vm_venues (gs_vm gs') = vm_venues (gs_vm gs4)" "sv_heap gs' = sv_heap gs4"
      "sv_handlers gs' = sv_handlers gs4" by (simp_all add: res unlockLoading_def)
    ultimately show ?thesis
      using sp None v res by (cases r1) (auto simp: vm_getVenue_def venue_worker_def)
  qed
qed

lemma sweep_spec:
  "sv_heap (sweep h nowMs as gs) = sv_heap gs \<and>
   (\<forall>vid. vm_getVenue vid (gs_vm (sweep h nowMs as gs)) \<noteq> vm_getVenue vid (gs_vm gs) \<longrightarrow>
      vm_getVenue vid (gs_vm (sweep h nowMs as gs)) = None \<and>
      (\<exists>a v. um_find (sv_heap gs) a = Some v \<and> ve_id v = vid \<and> ve_obsolete v
          \<and> 31000 \<le> nowMs - ve_obsoleteTime v))"
proof (induction h nowMs as gs rule: sweep.induct)
  case (2 h nowMs a as gs)
  show ?case
  proof (cases "um_find (sv_heap gs) a")
    case (Some v)
    show ?thesis
    proof (cases "ve_obsolete v \<and> (nowMs - ve_obsoleteTime v) div 1000 > 30")
      case True
      then have "31000 \<le> nowMs - ve_obsoleteTime v" by linarith
      then show ?thesis using 2 Some True
        by (simp add: vm_removeVenue_def vm_getVenue_def container_simps) metis
    next
      case False
      then have "sweep h nowMs (a # as) gs = sweep h nowMs as gs" using Some by auto
      with 2 Some False show ?thesis by (simp only: option.case if_False) blast
    qed
  next
    case None
    then have "sweep h nowMs (a # as) gs = sweep h nowMs as gs" by simp
    with 2 None show ?thesis by (simp only: option.case) blast
  qed
qed simp

section \<open>Properties\<close>

text \<open>C26: A venue that has no handler yet is given to a handler that runs its kind of game and
  has the fewest players among those, and stays with it; it gets none only if no handler runs
  its kind of game.\<close>
theorem distributeHandler_least_loaded:
  assumes "um_find (vm_venueHandlerMap (gs_vm gs)) (ve_id v) = None"
    and "\<forall>i \<in> set (vm_innerHandlers (gs_vm gs)). \<forall>ih. um_find (sv_handlers gs) i = Some ih \<longrightarrow> 0 \<le> ih_totalCount ih"
    and "distributeHandler (Some v) gs = (r, gs')"
  shows "case r of
      None \<Rightarrow> \<forall>i \<in> set (vm_innerHandlers (gs_vm gs)). \<forall>ih. um_find (sv_handlers gs) i = Some ih \<longrightarrow>
                \<not> checkGameType (ve_gameType v) ih
    | Some h \<Rightarrow> h \<in> set (vm_innerHandlers (gs_vm gs)) \<and> distributeHandler (Some v) gs' = (Some h, gs') \<and>
        (\<exists>hh. um_find (sv_handlers gs) h = Some hh \<and> checkGameType (ve_gameType v) hh \<and>
          (\<forall>i \<in> set (vm_innerHandlers (gs_vm gs)). \<forall>ih. um_find (sv_handlers gs) i = Some ih \<longrightarrow>
             checkGameType (ve_gameType v) ih \<longrightarrow> ih_totalCount hh \<le> ih_totalCount ih))"
proof -
  obtain ret mc where p: "pick_handler (sv_handlers gs) (ve_gameType v) (vm_innerHandlers (gs_vm gs)) (None, - 1) = (ret, mc)"
    by fastforce
  note sp = pick_handler_spec[OF p assms(2)]
  have "r = ret" using assms(1,3) p by (auto simp: distributeHandler_def split: option.splits)
  moreover have "distributeHandler (Some v) gs' = (Some h, gs')" if "ret = Some h" for h
    using assms(1,3) p that by (auto simp: distributeHandler_def container_simps)
  ultimately show ?thesis using sp by (auto split: option.splits)
qed

theorem distributeHandler_least_loaded_witness:
  "fst (distributeHandler (Some (Venue_new ''v'' 1 \<lparr>gd_name = [], gd_maxPlayers = 8, gd_playerIds = []\<rparr>)) demo_gs) = Some 6"
proof -
  let ?v = "Venue_new ''v'' 1 \<lparr>gd_name = [], gd_maxPlayers = 8, gd_playerIds = []\<rparr>"
  obtain r gs' where d: "distributeHandler (Some ?v) demo_gs = (r, gs')" by fastforce
  have n: "um_find (vm_venueHandlerMap (gs_vm demo_gs)) (ve_id ?v) = None" by (simp add: demo_gs_def demo_vm_def)
  have t: "\<forall>i \<in> set (vm_innerHandlers (gs_vm demo_gs)). \<forall>ih. um_find (sv_handlers demo_gs) i = Some ih \<longrightarrow> 0 \<le> ih_totalCount ih"
    by (simp add: demo_gs_def demo_vm_def VenueInnerHandler_new_def addGameType_def)
  show ?thesis
    using distributeHandler_least_loaded[OF n t d] d
    by (auto simp: demo_gs_def demo_vm_def VenueInnerHandler_new_def addGameType_def us_insert_def checkGameType_def
        Venue_new_def split: option.splits if_splits)
qed

text \<open>C22: Loading a venue that no other thread is loading always gives up the loading lock again
  and keeps the tables consistent. If it returns a venue, that is the venue registered under the id,
  of the game type asked for, and a venue that was loaded just now has a handler with a thread; if
  it returns none, no venue was registered.\<close>
theorem loadVenue_consistent:
  assumes "venues_ok gs" and "loaders_ok gs" and "vid \<notin> set (vm_loadingVenues (gs_vm gs))"
    and "loadVenue cd sq meanwhile vid gameType error gs = ((r, err), gs')"
  shows "venues_ok gs' \<and> vm_loadingVenues (gs_vm gs') = vm_loadingVenues (gs_vm gs)
    \<and> (case r of
         None \<Rightarrow> vm_venues (gs_vm gs') = vm_venues (gs_vm gs)
       | Some a \<Rightarrow> vm_getVenue vid (gs_vm gs') = Some a
           \<and> (\<exists>v. um_find (sv_heap gs') a = Some v \<and> ve_id v = vid \<and> ve_gameType v = gameType)
           \<and> (vm_getVenue vid (gs_vm gs) = Some a \<or>
              vm_getVenue vid (gs_vm gs) = None \<and> err = cd_SUCCESS cd \<and> (\<exists>w. venue_worker a gs' = Some w)))"
  by (rule loadVenue_spec[OF assms])

lemma demo_gs_ok: "venues_ok demo_gs" "loaders_ok demo_gs"
  by (auto simp: venues_ok_def demo_gs_def demo_vm_def vm_getVenue_def inner_getVenue_def VenueInnerHandler_new_def
      addGameType_def loaders_ok_def getVenueLoader_def GameDumb_load_def Venue_new_def split: if_splits)

theorem loadVenue_consistent_witness:
  "case loadVenue demo_codes (\<lambda>s u. (True, [VenueRow 1 0], 0, u)) (\<lambda>s. s) ''v'' 1 0 demo_gs of
     ((Some a, err), gs') \<Rightarrow> err = 0 \<and> vm_getVenue ''v'' (gs_vm gs') = Some a \<and> vm_loadingVenues (gs_vm gs') = []
   | _ \<Rightarrow> False"
proof -
  let ?sq = "\<lambda>s u. (True, [VenueRow 1 0], 0 :: int, u :: unit)"
  have n: "''v'' \<notin> set (vm_loadingVenues (gs_vm demo_gs))" by (simp add: demo_gs_def demo_vm_def)
  obtain a err gs' where l: "loadVenue demo_codes ?sq (\<lambda>s. s) ''v'' 1 0 demo_gs = ((Some a, err), gs')"
    by (simp add: loadVenue_def LoadVenueTask_def wait_lock.simps lockLoading_def demo_gs_def demo_vm_def vm_getVenue_def
        getVenueLoader_def GameDumb_load_def adopt_venue_def distributeHandler_def Venue_new_def VenueInnerHandler_new_def
        addGameType_def checkGameType_def us_insert_def Let_def)
  have vm: "vm_getVenue ''v'' (gs_vm demo_gs) = None" "vm_loadingVenues (gs_vm demo_gs) = []"
    by (simp_all add: demo_gs_def demo_vm_def vm_getVenue_def)
  show ?thesis
    using loadVenue_consistent[OF demo_gs_ok n l] vm unfolding l by (simp add: demo_codes_def)
qed

text \<open>A player who asks to enter a venue that is already loaded, with the wrong game type, is
  answered with code 0, the code of success, although nothing is done: no task is dispatched and
  no venue changes.\<close>
theorem wrong_game_type_answered_as_success:
  assumes "lock_session session (sv_ctx gs) = Some i"
    and "redis_get (en_redis e) now (en_PLAYER_AUTHORIZED_VENUE e @ ms_playerId msg) (cx_redis (sv_ctx gs))
       = (Returns (Some (ev_venueId msg)), st)"
    and "vm_getVenue (ev_venueId msg) (gs_vm gs) = Some a" and "um_find (sv_heap gs) a = Some v"
    and "ve_gameType v \<noteq> ev_gameType msg"
  shows "\<exists>gs'. onEnterVenue e cd meanwhile now session msg gs = Some gs'
    \<and> (\<exists>m. cx_sent (sv_ctx gs') = cx_sent (sv_ctx gs) @ [(i, EnterVenueResp m)] \<and> er_code m = 0)
    \<and> gs_tasks gs' = gs_tasks gs \<and> sv_heap gs' = sv_heap gs \<and> gs_vm gs' = gs_vm gs"
  using assms
  by (auto simp: onEnterVenue_def rbind_def loadVenue_def reply_def send_msg_def Let_def)

theorem wrong_game_type_answered_as_success_witness:
  "\<exists>gs'. onEnterVenue demo_ve demo_codes (\<lambda>s. s) 9 (Some 7)
       \<lparr>ms_playerId = ''p1'', ms_timestamp = [], ms_nonce = [], ms_signature = [], ev_venueId = ''s3cret'',
        ev_gameType = 2, ev_base64 = []\<rparr>
       (demo_gs\<lparr>sv_heap := [(0, Venue_new ''s3cret'' 1 \<lparr>gd_name = [], gd_maxPlayers = 8, gd_playerIds = []\<rparr>)],
          gs_vm := demo_vm\<lparr>vm_venues := [(''s3cret'', 0)]\<rparr>\<rparr>) = Some gs'
     \<and> (\<exists>m. cx_sent (sv_ctx gs') = [(7, EnterVenueResp m)] \<and> er_code m = 0)"
proof -
  let ?gs = "demo_gs\<lparr>sv_heap := [(0, Venue_new ''s3cret'' 1 \<lparr>gd_name = [], gd_maxPlayers = 8, gd_playerIds = []\<rparr>)],
          gs_vm := demo_vm\<lparr>vm_venues := [(''s3cret'', 0)]\<rparr>\<rparr>"
  let ?m = "\<lparr>ms_playerId = ''p1'', ms_timestamp = [], ms_nonce = [], ms_signature = [], ev_venueId = ''s3cret'',
        ev_gameType = 2, ev_base64 = []\<rparr>"
  have r: "redis_ready (cx_redis (sv_ctx ?gs))" using demo_cx_ready by (simp add: demo_gs_def)
  have s: "lock_session (Some 7) (sv_ctx ?gs) = Some 7" "cx_sent (sv_ctx ?gs) = []"
    by (simp_all add: lock_session_def demo_gs_def demo_cx_def)
  obtain st where g: "redis_get (en_redis demo_ve) 9 (en_PLAYER_AUTHORIZED_VENUE demo_ve @ ms_playerId ?m) (cx_redis (sv_ctx ?gs))
      = (Returns (Some (ev_venueId ?m)), st)"
    using ready_run[OF r, of "\<lambda>x. x" 9 _ None eval_value]
    by (auto simp: redis_get_def demo_ve_def eval_value_def failed_def getValue_def)
  show ?thesis
    using wrong_game_type_answered_as_success[OF s(1) g, of 0
        "Venue_new ''s3cret'' 1 \<lparr>gd_name = [], gd_maxPlayers = 8, gd_playerIds = []\<rparr>" demo_codes "\<lambda>s. s"] s(2)
    by (auto simp: vm_getVenue_def Venue_new_def)
qed

text \<open>The number of players a server reports is wrong as soon as a handler has more than one
  venue: the handler's players are counted once for every venue it ever got.\<close>
theorem server_count_multiplied:
  assumes "\<forall>(vid, h') \<in> set (vm_venueHandlerMap (gs_vm gs)). h' = h" and "um_find (sv_handlers gs) h = Some ih"
  shows "vm_getTotalCount gs = int (length (vm_venueHandlerMap (gs_vm gs))) * ih_totalCount ih"
proof -
  have "sum_list (map (\<lambda>(vid, h). case um_find (sv_handlers gs) h of None \<Rightarrow> 0 | Some ih \<Rightarrow> ih_totalCount ih) xs)
      = int (length xs) * ih_totalCount ih" if "\<forall>(vid, h') \<in> set xs. h' = h" for xs :: "(string \<times> nat) list"
    using that assms(2) by (induction xs) (auto simp: algebra_simps)
  with assms(1) show ?thesis by (simp add: vm_getTotalCount_def)
qed

theorem server_count_multiplied_witness:
  "vm_getTotalCount (demo_gs\<lparr>gs_vm := demo_vm\<lparr>vm_venueHandlerMap := [(''v'', 5), (''w'', 5)]\<rparr>\<rparr>) = 2 * 3"
  using server_count_multiplied[of "demo_gs\<lparr>gs_vm := demo_vm\<lparr>vm_venueHandlerMap := [(''v'', 5), (''w'', 5)]\<rparr>\<rparr>" 5]
  by (simp add: demo_gs_def)

text \<open>The periodic sweep of a handler unregisters a venue only if it is obsolete, and only
  when at least thirty-one seconds have passed since it became so; it leaves all other
  venues registered.\<close>
theorem sweep_removes_only_old:
  assumes "gs' = inner_onTimer h nowMs gs" and "vm_getVenue vid (gs_vm gs') \<noteq> vm_getVenue vid (gs_vm gs)"
  shows "vm_getVenue vid (gs_vm gs') = None \<and>
    (\<exists>a v. um_find (sv_heap gs) a = Some v \<and> ve_id v = vid \<and> ve_obsolete v \<and> 31000 \<le> nowMs - ve_obsoleteTime v)"
proof -
  obtain ih where ih: "um_find (sv_handlers gs) h = Some ih"
    using assms by (auto simp: inner_onTimer_def split: option.splits)
  show ?thesis
    using assms sweep_spec[of h nowMs "ih_venueList (updateVenueList ih)"
        "gs\<lparr>sv_handlers := um_put h (updateVenueList ih) (sv_handlers gs)\<rparr>"]
    by (simp add: inner_onTimer_def Let_def ih)
qed

theorem sweep_removes_only_old_witness:
  "vm_getVenue ''v'' (gs_vm (inner_onTimer 5 40000
      (demo_gs\<lparr>sv_heap := [(0, setObsolete 1000 (Venue_new ''v'' 1 \<lparr>gd_name = [], gd_maxPlayers = 8, gd_playerIds = []\<rparr>))],
         sv_handlers := [(5, VenueInnerHandler_new\<lparr>ih_venues := [(''v'', 0)], ih_counterMap := 1\<rparr>)],
         gs_vm := demo_vm\<lparr>vm_venues := [(''v'', 0)]\<rparr>\<rparr>))) = None"
proof -
  let ?gs = "demo_gs\<lparr>sv_heap := [(0, setObsolete 1000 (Venue_new ''v'' 1 \<lparr>gd_name = [], gd_maxPlayers = 8, gd_playerIds = []\<rparr>))],
         sv_handlers := [(5, VenueInnerHandler_new\<lparr>ih_venues := [(''v'', 0)], ih_counterMap := 1\<rparr>)],
         gs_vm := demo_vm\<lparr>vm_venues := [(''v'', 0)]\<rparr>\<rparr>"
  have "vm_getVenue ''v'' (gs_vm (inner_onTimer 5 40000 ?gs)) \<noteq> vm_getVenue ''v'' (gs_vm ?gs)"
    by (simp add: inner_onTimer_def updateVenueList_def VenueInnerHandler_new_def addGameType_def demo_gs_def setObsolete_def
        Venue_new_def vm_removeVenue_def vm_getVenue_def demo_vm_def)
  from sweep_removes_only_old[OF refl this] show ?thesis by simp
qed

end
