(* ===== verification/Game_Room.thy ===== *)
theory Game_Room
  imports Venue_Manager Complex_Main
begin

text \<open>
  Game rooms, \<open>Game/GameRoom.cpp\<close> with \<open>Game/GameAvatar.cpp\<close>: seats, avatars and spectators, entering
  with a cash pledge and leaving, kicking players, and the messages inside a room. The
  operations on gold and pledges are those of the theory of capital.

  A room of a concrete game is a subclass; its pure virtual methods and the condition
  \<open>enableSpectator\<close> are the record \<open>room_class\<close>, a parameter. The other virtual methods are modelled as
  \<open>GameRoom\<close> defines them. The avatar a seat points to is represented by the player's id.
  Error messages are given in English and without the amounts they quote. Distances between players are
  those of the base class, which keeps none; a subclass that keeps them is not modelled.
\<close>

section \<open>Avatars\<close>

datatype RoomCategory = RoomCategoryA | RoomCategoryB

record GameAvatar =
  av_playerId :: string
  av_nickname :: string
  av_phone :: string
  av_sex :: int
  av_headUrl :: string
  av_robot :: bool
  av_seat :: int
  av_gold :: int
  av_cashPledge :: int
  av_authorize :: bool
  av_ready :: bool
  av_session :: "nat option"

definition GameAvatar_new :: "string \<Rightarrow> bool \<Rightarrow> GameAvatar" where
  "GameAvatar_new playerId robot =
     \<lparr>av_playerId = playerId, av_nickname = [], av_phone = [], av_sex = 0, av_headUrl = [], av_robot = robot,
      av_seat = - 1, av_gold = 0, av_cashPledge = 0, av_authorize = False, av_ready = False, av_session = None\<rparr>"

definition av_isOffline :: "('d, 'r) ctx \<Rightarrow> GameAvatar \<Rightarrow> bool" where
  "av_isOffline cx a =
     (case lock_session (av_session a) cx of
        None \<Rightarrow> True
      | Some i \<Rightarrow> (case um_find (cx_sessions cx) i of None \<Rightarrow> True | Some s \<Rightarrow> \<not> se_valid s))"

section \<open>Rooms\<close>

record GameRoom =
  gr_category :: RoomCategory
  gr_maxPlayerNums :: int
  gr_cashPledge :: int
  gr_diamondNeed :: int
  gr_avatarSeats :: "string option list"
  gr_allAvatars :: "(string, GameAvatar) umap"
  gr_spectators :: "string list"

definition MAX_SEAT_NUMS :: nat where "MAX_SEAT_NUMS = 20"

definition GameRoom_new :: "int \<Rightarrow> RoomCategory \<Rightarrow> GameRoom" where
  "GameRoom_new maxPlayerNums category =
     \<lparr>gr_category = category, gr_maxPlayerNums = maxPlayerNums, gr_cashPledge = 0, gr_diamondNeed = 0,
      gr_avatarSeats = replicate MAX_SEAT_NUMS None, gr_allAvatars = [], gr_spectators = []\<rparr>"

record room_class =
  rc_checkEnter :: "string \<Rightarrow> string \<Rightarrow> GameRoom \<Rightarrow> bool \<times> string"
  rc_checkLeave :: "string \<Rightarrow> string \<Rightarrow> GameRoom \<Rightarrow> int \<times> string"
  rc_checkJoin :: "int \<Rightarrow> string \<Rightarrow> string \<Rightarrow> GameRoom \<Rightarrow> bool \<times> string"
  rc_createAvatar :: "string \<Rightarrow> int \<Rightarrow> bool \<Rightarrow> GameAvatar"
  rc_enableSpectator :: bool

definition seat_at :: "int \<Rightarrow> string option list \<Rightarrow> string option" where
  \<comment> \<open>reading the array of seats; outside its bounds C++ leaves the result undefined\<close>
  "seat_at i seats = (if 0 \<le> i \<and> nat i < length seats then seats ! nat i else None)"

definition set_seat :: "int \<Rightarrow> string option \<Rightarrow> string option list \<Rightarrow> string option list" where
  "set_seat i x seats = (if 0 \<le> i then seats[nat i := x] else seats)"

fun empty_from :: "nat \<Rightarrow> nat \<Rightarrow> string option list \<Rightarrow> int" where
  \<comment> \<open>the loop of \<open>getEmptySeat\<close> from the seat \<open>i\<close>, with the seats left\<close>
  "empty_from i 0 seats = - 1"
| "empty_from i (Suc n) seats = (if seat_at (int i) seats = None then int i else empty_from (Suc i) n seats)"

definition getEmptySeat :: "GameRoom \<Rightarrow> int" where
  "getEmptySeat r =
     (if gr_category r = RoomCategoryA then empty_from 0 (nat (gr_maxPlayerNums r)) (gr_avatarSeats r) else - 1)"

definition isFull :: "GameRoom \<Rightarrow> bool" where
  "isFull r =
     (if gr_category r \<noteq> RoomCategoryA then False
      else if gr_maxPlayerNums r \<le> 0 then False
      else if gr_maxPlayerNums r > int (length (gr_allAvatars r)) then False
      else True)"

definition isAllReady :: "GameRoom \<Rightarrow> bool" where
  "isAllReady r = list_all (\<lambda>(_, a). av_ready a) (gr_allAvatars r)"

definition getAvatar :: "string \<Rightarrow> GameRoom \<Rightarrow> GameAvatar option" where
  "getAvatar playerId r = um_find (gr_allAvatars r) playerId"

definition getAvatar_seat :: "int \<Rightarrow> GameRoom \<Rightarrow> string option" where
  "getAvatar_seat seat r = (if seat \<ge> int MAX_SEAT_NUMS then None else seat_at seat (gr_avatarSeats r))"

definition hasSpectator :: "string \<Rightarrow> GameRoom \<Rightarrow> bool" where
  "hasSpectator playerId r \<longleftrightarrow> playerId \<in> set (gr_spectators r)"

definition room_hasPlayer :: "string \<Rightarrow> GameRoom \<Rightarrow> bool" where
  "room_hasPlayer playerId r =
     (if um_find (gr_allAvatars r) playerId \<noteq> None then True
      else if gr_category r = RoomCategoryA then hasSpectator playerId r else False)"

definition room_getPlayerIds :: "GameRoom \<Rightarrow> string list" where
  "room_getPlayerIds r = map fst (gr_allAvatars r) @ gr_spectators r"

definition room_getPlayerCount :: "GameRoom \<Rightarrow> int" where
  "room_getPlayerCount r = int (length (gr_allAvatars r) + length (gr_spectators r))"

definition addAvatar :: "GameAvatar \<Rightarrow> GameRoom \<Rightarrow> GameRoom" where
  "addAvatar a r = r\<lparr>gr_allAvatars := um_put (av_playerId a) a (gr_allAvatars r)\<rparr>"

definition removeAvatar :: "string \<Rightarrow> GameRoom \<Rightarrow> GameRoom" where
  "removeAvatar playerId r = r\<lparr>gr_allAvatars := um_erase playerId (gr_allAvatars r)\<rparr>"

definition removeSpectator :: "string \<Rightarrow> GameRoom \<Rightarrow> GameRoom" where
  "removeSpectator playerId r = r\<lparr>gr_spectators := us_erase playerId (gr_spectators r)\<rparr>"

section \<open>Sending to the room\<close>

definition sendMessage :: "server_msg \<Rightarrow> string \<Rightarrow> GameRoom \<Rightarrow> ('d, 'r) ctx \<Rightarrow> ('d, 'r) ctx" where
  "sendMessage msg playerId r cx =
     (case getAvatar playerId r of
        None \<Rightarrow> cx
      | Some a \<Rightarrow> send_msg msg (lock_session (av_session a) cx) cx)"

fun send_avatars :: "server_msg \<Rightarrow> string \<Rightarrow> (string, GameAvatar) umap \<Rightarrow> ('d, 'r) ctx \<Rightarrow> ('d, 'r) ctx" where
  "send_avatars msg playerExcepted [] cx = cx"
| "send_avatars msg playerExcepted ((p, a) # as) cx =
     send_avatars msg playerExcepted as
       (if playerExcepted = p then cx else send_msg msg (lock_session (av_session a) cx) cx)"

fun send_spectators :: "server_msg \<Rightarrow> string \<Rightarrow> string list \<Rightarrow> ('d, 'r) ctx \<Rightarrow> ('d, 'r) ctx" where
  "send_spectators msg playerExcepted [] cx = cx"
| "send_spectators msg playerExcepted (p # ps) cx =
     send_spectators msg playerExcepted ps
       (if playerExcepted = p then cx
        else case getPlayer p (cx_pm cx) of
               (None, pm) \<Rightarrow> cx\<lparr>cx_pm := pm\<rparr>
             | (Some player, pm) \<Rightarrow>
                 send_msg msg (lock_session (pl_session player) cx) (cx\<lparr>cx_pm := pm\<rparr>))"

definition sendMessageToAll ::
  "server_msg \<Rightarrow> string \<Rightarrow> bool \<Rightarrow> GameRoom \<Rightarrow> ('d, 'r) ctx \<Rightarrow> ('d, 'r) ctx" where
  "sendMessageToAll msg playerExcepted spectator r cx =
     (let cx1 = send_avatars msg playerExcepted (gr_allAvatars r) cx
      in if spectator then send_spectators msg playerExcepted (gr_spectators r) cx1 else cx1)"

definition getAvatarInfo :: "('d, 'r) ctx \<Rightarrow> GameAvatar \<Rightarrow> AvatarInfo" where
  "getAvatarInfo cx a =
     \<lparr>ai_playerId = av_playerId a, ai_nickname = av_nickname a, ai_headUrl = av_headUrl a, ai_seat = av_seat a,
      ai_sex = av_sex a, ai_ready = av_ready a, ai_offline = av_isOffline cx a, ai_base64 = []\<rparr>"

definition notifyAddAvatar :: "string \<Rightarrow> GameRoom \<Rightarrow> ('d, 'r) ctx \<Rightarrow> ('d, 'r) ctx" where
  "notifyAddAvatar playerId r cx =
     (case getAvatar playerId r of
        None \<Rightarrow> cx
      | Some a \<Rightarrow> sendMessageToAll (AddAvatar \<lparr>aa_avatars = [getAvatarInfo cx a]\<rparr>) playerId True r cx)"

definition notifyRemoveAvatar :: "int \<Rightarrow> string \<Rightarrow> GameRoom \<Rightarrow> ('d, 'r) ctx \<Rightarrow> ('d, 'r) ctx" where
  "notifyRemoveAvatar seat playerId r cx =
     sendMessageToAll (RemoveAvatar \<lparr>ra_playerId = playerId, ra_seat = seat\<rparr>) playerId True r cx"

definition spectator_info :: "Player \<Rightarrow> string \<Rightarrow> SpectatorInfo" where
  "spectator_info player playerId =
     \<lparr>si_playerId = playerId, si_nickname = pl_nickname player, si_headUrl = pl_avatar player, si_base64 = []\<rparr>"

definition notifyAddSpectator :: "string \<Rightarrow> GameRoom \<Rightarrow> ('d, 'r) ctx \<Rightarrow> ('d, 'r) ctx" where
  "notifyAddSpectator playerId r cx =
     (case getPlayer playerId (cx_pm cx) of
        (None, pm) \<Rightarrow> cx\<lparr>cx_pm := pm\<rparr>
      | (Some player, pm) \<Rightarrow>
          sendMessageToAll (AddSpectator \<lparr>as_spectators = [spectator_info player playerId]\<rparr>) playerId True r (cx\<lparr>cx_pm := pm\<rparr>))"

definition notifyRemoveSpectator :: "string \<Rightarrow> GameRoom \<Rightarrow> ('d, 'r) ctx \<Rightarrow> ('d, 'r) ctx" where
  "notifyRemoveSpectator playerId r cx =
     sendMessageToAll (RemoveSpectator \<lparr>rs_playerId = playerId\<rparr>) playerId True r cx"

section \<open>Entering and leaving\<close>

definition join_errMsg :: "join_error \<Rightarrow> string" where
  "join_errMsg err =
     (case err of
        DatabaseError \<Rightarrow> ''database error''
      | DatabaseConflict \<Rightarrow> ''database conflict''
      | DiamondShort \<Rightarrow> ''not enough diamonds''
      | GoldShort \<Rightarrow> ''not enough gold'')"

definition joined_avatar :: "room_class \<Rightarrow> string \<Rightarrow> int \<Rightarrow> int \<Rightarrow> Player option \<Rightarrow> GameRoom \<Rightarrow> ('d, 'r) ctx \<Rightarrow> GameAvatar" where
  \<comment> \<open>the avatar that \<open>joinGame\<close> creates and fills in\<close>
  "joined_avatar rc playerId seat cashPledge player r cx =
     (let a0 = rc_createAvatar rc playerId seat False;
          a1 = (case player of
                  None \<Rightarrow> a0
                | Some p \<Rightarrow> a0\<lparr>av_nickname := pl_nickname p, av_phone := pl_phone p, av_sex := pl_sex p,
                              av_headUrl := pl_avatar p, av_session := lock_session (pl_session p) cx\<rparr>);
          a2 = (if seat > - 1 then a1\<lparr>av_seat := seat\<rparr> else a1)
      in if gr_cashPledge r > 0 then a2\<lparr>av_cashPledge := to_int32 cashPledge\<rparr> else a2)"

definition joinGame ::
  "'d syncQuery \<Rightarrow> room_class \<Rightarrow> string \<Rightarrow> int \<Rightarrow> string \<Rightarrow> string \<Rightarrow> GameRoom \<times> ('d, 'r) ctx
     \<Rightarrow> (bool \<times> string) \<times> GameRoom \<times> ('d, 'r) ctx" where
  "joinGame sq rc vid seat playerId errMsg = (\<lambda>(r, cx).
     let (ok, errMsg1) = rc_checkJoin rc seat playerId errMsg r in
     if \<not> ok then ((False, errMsg1), r, cx)
     else let (res, db) = joinGame_pledge sq vid (gr_cashPledge r) (gr_diamondNeed r) playerId (cx_db cx);
              cx1 = cx\<lparr>cx_db := db\<rparr>
          in case res of
               Inl err \<Rightarrow> ((False, join_errMsg err), r, cx1)
             | Inr cashPledge \<Rightarrow>
                 (let (player, pm) = getPlayer playerId (cx_pm cx1);
                      cx2 = cx1\<lparr>cx_pm := pm\<rparr>;
                      r1 = (if seat > - 1 then r\<lparr>gr_avatarSeats := set_seat seat (Some playerId) (gr_avatarSeats r)\<rparr> else r)
                  in ((True, errMsg1), addAvatar (joined_avatar rc playerId seat cashPledge player r cx2) r1, cx2)))"

definition onAvatarJoined ::
  "'d syncQuery \<Rightarrow> string \<Rightarrow> GameRoom \<times> ('d, 'r) ctx \<Rightarrow> GameRoom \<times> ('d, 'r) ctx" where
  "onAvatarJoined sq playerId = (\<lambda>(r, cx).
     case getAvatar playerId r of
       None \<Rightarrow> (r, cx)
     | Some a \<Rightarrow>
         let (task, db) = GetCapital sq playerId (cx_db cx);
             r1 = (if gc_succeed task
                   then r\<lparr>gr_allAvatars := um_put playerId (a\<lparr>av_gold := gc_gold task\<rparr>) (gr_allAvatars r)\<rparr> else r)
         in (r1, cx\<lparr>cx_db := db\<rparr>))"

definition room_enterImpl ::
  "'d syncQuery \<Rightarrow> room_class \<Rightarrow> string \<Rightarrow> string \<Rightarrow> string \<Rightarrow> string \<Rightarrow> GameRoom \<times> ('d, 'r) ctx
     \<Rightarrow> (bool \<times> string) \<times> GameRoom \<times> ('d, 'r) ctx" where
  "room_enterImpl sq rc vid playerId base64 errMsg = (\<lambda>(r, cx).
     let test = rc_enableSpectator rc;
         look = (\<not> test \<and> gr_category r = RoomCategoryA);
         seat = (if look then getEmptySeat r else - 1)
     in if look \<and> seat = - 1 then ((False, ''the game is full''), r, cx)
        else let (ok, errMsg1) = rc_checkEnter rc playerId errMsg r in
             if \<not> ok then ((False, errMsg1), r, cx)
             else if test
             then let r1 = r\<lparr>gr_spectators := us_insert playerId (gr_spectators r)\<rparr>
                  in ((True, errMsg1), r1, notifyAddSpectator playerId r1 cx)
             else case joinGame sq rc vid seat playerId errMsg1 (r, cx) of
                    ((False, errMsg2), s) \<Rightarrow> ((False, errMsg2), s)
                  | ((True, errMsg2), r1, cx1) \<Rightarrow>
                      ((True, errMsg2), onAvatarJoined sq playerId (r1, notifyAddAvatar playerId r1 cx1)))"

definition room_leaveImpl ::
  "'d syncQuery \<Rightarrow> room_class \<Rightarrow> string \<Rightarrow> string \<Rightarrow> string \<Rightarrow> GameRoom \<times> ('d, 'r) ctx
     \<Rightarrow> (int \<times> string) \<times> GameRoom \<times> ('d, 'r) ctx" where
  "room_leaveImpl sq rc vid playerId errMsg = (\<lambda>(r, cx).
     let (ret, errMsg1) = rc_checkLeave rc playerId errMsg r in
     if ret \<noteq> 0 then ((ret, errMsg1), r, cx)
     else let (r1, cx1) =
                (if hasSpectator playerId r
                 then let r' = removeSpectator playerId r in (r', notifyRemoveSpectator playerId r' cx)
                 else (r, cx))
          in case getAvatar playerId r1 of
               None \<Rightarrow> ((ret, errMsg1), r1, cx1)
             | Some a \<Rightarrow>
                 (let (returned, db) = returnCashPledge sq vid playerId (cx_db cx1);
                      cx2 = cx1\<lparr>cx_db := db\<rparr>;
                      seat = (if gr_category r1 = RoomCategoryA then av_seat a else - 1);
                      r2 = (if gr_category r1 = RoomCategoryA
                            then r1\<lparr>gr_avatarSeats := set_seat seat None (gr_avatarSeats r1)\<rparr> else r1);
                      r3 = removeAvatar playerId r2
                  in ((ret, errMsg1), r3, notifyRemoveAvatar seat playerId r3 cx2)))"

section \<open>Connections and messages\<close>

definition room_onConnect :: "string \<Rightarrow> GameRoom \<times> ('d, 'r) ctx \<Rightarrow> GameRoom \<times> ('d, 'r) ctx" where
  "room_onConnect playerId = (\<lambda>(r, cx).
     case getAvatar playerId r of
       None \<Rightarrow> (r, cx)
     | Some a \<Rightarrow>
         (case getPlayer playerId (cx_pm cx) of
            (None, pm) \<Rightarrow> (r, cx\<lparr>cx_pm := pm\<rparr>)
          | (Some player, pm) \<Rightarrow>
              (let cx1 = cx\<lparr>cx_pm := pm\<rparr>;
                   r1 = r\<lparr>gr_allAvatars := um_put playerId (a\<lparr>av_session := lock_session (pl_session player) cx1\<rparr>)
                           (gr_allAvatars r)\<rparr>
               in (r1, sendMessageToAll (AvatarConnect \<lparr>ac_playerId = playerId,
                     ac_ip = snd (getIp (cx_sessions cx1) player []), ac_seat = av_seat a, ac_offline = False\<rparr>)
                     [] True r1 cx1))))"

definition room_onDisconnect :: "string \<Rightarrow> GameRoom \<times> ('d, 'r) ctx \<Rightarrow> GameRoom \<times> ('d, 'r) ctx" where
  "room_onDisconnect playerId = (\<lambda>(r, cx).
     case getAvatar playerId r of
       None \<Rightarrow> (r, cx)
     | Some a \<Rightarrow>
         let r1 = r\<lparr>gr_allAvatars := um_put playerId (a\<lparr>av_session := None\<rparr>) (gr_allAvatars r)\<rparr>
         in (r1, sendMessageToAll (AvatarConnect \<lparr>ac_playerId = playerId, ac_ip = [], ac_seat = av_seat a,
                 ac_offline = True\<rparr>) playerId True r1 cx))"

definition sendAvatars :: "nat option \<Rightarrow> GameRoom \<Rightarrow> ('d, 'r) ctx \<Rightarrow> ('d, 'r) ctx" where
  "sendAvatars session r cx =
     send_msg (AddAvatar \<lparr>aa_avatars = map (\<lambda>(_, a). getAvatarInfo cx a) (gr_allAvatars r)\<rparr>) session cx"

definition onGetAvatars :: "nat option \<Rightarrow> MsgGetAvatars \<Rightarrow> GameRoom \<Rightarrow> ('d, 'r) ctx \<Rightarrow> ('d, 'r) ctx" where
  "onGetAvatars session inst r cx =
     (if \<not> room_hasPlayer (ms_playerId inst) r then cx else sendAvatars (lock_session session cx) r cx)"

fun collect_spectators :: "string list \<Rightarrow> PlayerManager \<Rightarrow> SpectatorInfo list \<times> PlayerManager" where
  \<comment> \<open>the loop of \<open>onGetSpectators\<close>\<close>
  "collect_spectators [] pm = ([], pm)"
| "collect_spectators (p # ps) pm =
     (case getPlayer p pm of
        (None, pm1) \<Rightarrow> collect_spectators ps pm1
      | (Some player, pm1) \<Rightarrow>
          (let (infos, pm2) = collect_spectators ps pm1 in (spectator_info player p # infos, pm2)))"

definition onGetSpectators :: "nat option \<Rightarrow> MsgGetSpectators \<Rightarrow> GameRoom \<Rightarrow> ('d, 'r) ctx \<Rightarrow> ('d, 'r) ctx" where
  "onGetSpectators session inst r cx =
     (if \<not> room_hasPlayer (ms_playerId inst) r then cx
      else let (infos, pm) = collect_spectators (gr_spectators r) (cx_pm cx)
           in send_msg (AddSpectator \<lparr>as_spectators = infos\<rparr>) (lock_session session cx) (cx\<lparr>cx_pm := pm\<rparr>))"

definition onPlayerGeolocation :: "MsgPlayerGeolocation \<Rightarrow> GameRoom \<times> ('d, 'r) ctx \<Rightarrow> GameRoom \<times> ('d, 'r) ctx" where
  \<comment> \<open>\<open>getDistances\<close> of the base class returns a null pointer, and then the position is not kept\<close>
  "onPlayerGeolocation inst = (\<lambda>(r, cx). case getAvatar (ms_playerId inst) r of None \<Rightarrow> (r, cx) | Some a \<Rightarrow> (r, cx))"

definition onDistancesRequest :: "nat option \<Rightarrow> ('d, 'r) ctx \<Rightarrow> ('d, 'r) ctx" where
  \<comment> \<open>\<open>getDistances\<close> of the base class leaves the list empty\<close>
  "onDistancesRequest session cx = send_msg (GetDistancesResp \<lparr>gd_distances = []\<rparr>) (lock_session session cx) cx"

definition onChatClient :: "MsgChatClient \<Rightarrow> GameRoom \<Rightarrow> ('d, 'r) ctx \<Rightarrow> ('d, 'r) ctx" where
  "onChatClient inst r cx =
     (let seat = (if gr_category r = RoomCategoryA
                  then case getAvatar (ms_playerId inst) r of None \<Rightarrow> 0 | Some a \<Rightarrow> av_seat a else 0)
      in sendMessageToAll (ChatServer \<lparr>cs_seat = seat, cs_type = cc_type inst, cs_index = cc_index inst,
           cs_text = cc_text inst, cs_playerId = ms_playerId inst\<rparr>) [] False r cx)"

definition onEffectClient :: "MsgEffectClient \<Rightarrow> GameRoom \<Rightarrow> ('d, 'r) ctx \<Rightarrow> ('d, 'r) ctx" where
  "onEffectClient inst r cx =
     (case (getAvatar (ms_playerId inst) r, getAvatar (ec_targetId inst) r) of
        (Some a1, Some a2) \<Rightarrow>
          sendMessageToAll (EffectServer \<lparr>es_index = ec_index inst, es_srcSeat = av_seat a1, es_dstSeat = av_seat a2\<rparr>)
            [] False r cx
      | _ \<Rightarrow> cx)"

definition onVoiceClient :: "MsgVoiceClient \<Rightarrow> GameRoom \<Rightarrow> ('d, 'r) ctx \<Rightarrow> ('d, 'r) ctx" where
  "onVoiceClient inst r cx =
     (case getAvatar (ms_playerId inst) r of
        None \<Rightarrow> cx
      | Some a \<Rightarrow>
          sendMessageToAll (VoiceServer \<lparr>vs_seat = av_seat a, vs_playerId = ms_playerId inst, vs_base64 = vc_base64 inst\<rparr>)
            (ms_playerId inst) False r cx)"

definition room_moreMessages ::
  "nat option \<Rightarrow> client_msg \<Rightarrow> GameRoom \<times> ('d, 'r) ctx \<Rightarrow> bool \<times> GameRoom \<times> ('d, 'r) ctx" where
  \<comment> \<open>\<open>GameRoom::onMessage\<close> after \<open>Venue::onMessage\<close> has declined\<close>
  "room_moreMessages session m = (\<lambda>(r, cx).
     case m of
       GetAvatars inst \<Rightarrow> (True, r, onGetAvatars session inst r cx)
     | GetSpectators inst \<Rightarrow> (True, r, onGetSpectators session inst r cx)
     | PlayerGeolocation inst \<Rightarrow> (True, onPlayerGeolocation inst (r, cx))
     | GetDistances inst \<Rightarrow> (True, r, onDistancesRequest session cx)
     | ChatClient inst \<Rightarrow> (True, r, onChatClient inst r cx)
     | EffectClient inst \<Rightarrow> (True, r, onEffectClient inst r cx)
     | VoiceClient inst \<Rightarrow> (True, r, onVoiceClient inst r cx)
     | _ \<Rightarrow> (False, r, cx))"

definition GameRoom_class :: "'d syncQuery \<Rightarrow> room_class \<Rightarrow> (GameRoom, 'd, 'r) venue_class" where
  "GameRoom_class sq rc = \<lparr>vt_hasPlayer = room_hasPlayer, vt_getPlayerIds = room_getPlayerIds,
     vt_getPlayerCount = room_getPlayerCount, vt_enterImpl = room_enterImpl sq rc,
     vt_leaveImpl = room_leaveImpl sq rc, vt_moreMessages = room_moreMessages,
     vt_onConnect = room_onConnect, vt_onDisconnect = room_onDisconnect\<rparr>"

definition GameRoomHandler_messages :: "string list" where
  \<comment> \<open>the message types \<open>GameRoomHandler\<close> subscribes to, after that of \<open>VenueInnerHandler\<close>\<close>
  "GameRoomHandler_messages = [''MsgHeartbeat'', ''MsgGetAvatars'', ''MsgGetSpectators'', ''MsgPlayerReady'',
     ''MsgPlayerAuthorize'', ''MsgPlayerGeolocation'', ''MsgGetDistances'', ''MsgDisbandRequest'', ''MsgDisbandChoose'',
     ''MsgChatClient'', ''MsgEffectClient'', ''MsgVoiceClient'']"

definition robot_request :: "string \<Rightarrow> bool \<times> string" where
  "robot_request playerId = (False, [])"

definition robot_free :: "string \<Rightarrow> 's \<Rightarrow> 's" where
  "robot_free playerId s = s"

section \<open>Kicking players\<close>

definition kickAvatar ::
  "('d, 'r) env \<Rightarrow> room_class \<Rightarrow> int \<Rightarrow> nat \<Rightarrow> string \<Rightarrow> (GameRoom, 'd, 'r, 'z) server_scheme
     \<Rightarrow> (GameRoom, 'd, 'r, 'z) server_scheme option" where
  \<comment> \<open>the avatar is that of the player\<close>
  "kickAvatar e rc now a playerId sv =
     (case um_find (sv_heap sv) a of
        None \<Rightarrow> None
      | Some v \<Rightarrow>
          (let r = ve_game v; cx = sv_ctx sv in
           case getAvatar playerId r of
             None \<Rightarrow> Some sv
           | Some av \<Rightarrow>
               (let (returned, db) = returnCashPledge (en_sq e) (ve_id v) playerId (cx_db cx);
                    seat = (if gr_category r = RoomCategoryA then av_seat av else - 1);
                    r1 = (if gr_category r = RoomCategoryA
                          then r\<lparr>gr_avatarSeats := set_seat seat None (gr_avatarSeats r)\<rparr> else r);
                    r2 = removeAvatar playerId r1
                in case afterLeave e (GameRoom_class (en_sq e) rc) now a playerId
                          (set_game a v r2 (cx\<lparr>cx_db := db\<rparr>) sv) of
                     None \<Rightarrow> None
                   | Some sv1 \<Rightarrow> Some (sv1\<lparr>sv_ctx := notifyRemoveAvatar seat playerId r2 (sv_ctx sv1)\<rparr>))))"

fun return_all :: "'d syncQuery \<Rightarrow> string \<Rightarrow> string list \<Rightarrow> 'd \<Rightarrow> 'd" where
  \<comment> \<open>the first loop of \<open>kickAllAvatars\<close>\<close>
  "return_all sq vid [] db = db"
| "return_all sq vid (p # ps) db = return_all sq vid ps (snd (returnCashPledge sq vid p db))"

fun leave_all ::
  "('d, 'r) env \<Rightarrow> room_class \<Rightarrow> int \<Rightarrow> nat \<Rightarrow> string list \<Rightarrow> (GameRoom, 'd, 'r, 'z) server_scheme
     \<Rightarrow> (GameRoom, 'd, 'r, 'z) server_scheme option" where
  \<comment> \<open>the second loop of \<open>kickAllAvatars\<close>\<close>
  "leave_all e rc now a [] sv = Some sv"
| "leave_all e rc now a (p # ps) sv =
     Option.bind (afterLeave e (GameRoom_class (en_sq e) rc) now a p sv) (leave_all e rc now a ps)"

definition kickAllAvatars ::
  "('d, 'r) env \<Rightarrow> room_class \<Rightarrow> int \<Rightarrow> nat \<Rightarrow> (GameRoom, 'd, 'r, 'z) server_scheme
     \<Rightarrow> (GameRoom, 'd, 'r, 'z) server_scheme option" where
  "kickAllAvatars e rc now a sv =
     (case um_find (sv_heap sv) a of
        None \<Rightarrow> None
      | Some v \<Rightarrow>
          (let r = ve_game v; cx = sv_ctx sv;
               n = min (nat (gr_maxPlayerNums r)) (length (gr_avatarSeats r));
               ids = map (\<lambda>(_, av). av_playerId av) (gr_allAvatars r);
               r1 = r\<lparr>gr_avatarSeats := replicate n None @ drop n (gr_avatarSeats r), gr_allAvatars := []\<rparr>
           in leave_all e rc now a ids
                (set_game a v r1 (cx\<lparr>cx_db := return_all (en_sq e) (ve_id v) ids (cx_db cx)\<rparr>) sv)))"

section \<open>Rewards of agencies\<close>

record RewardAgencyTask =
  rw_venueId :: string
  rw_playerId :: string
  rw_gameType :: int
  rw_reward :: rat
  rw_winGold :: int

definition rewardAgency :: "string \<Rightarrow> int \<Rightarrow> string \<Rightarrow> rat \<Rightarrow> int \<Rightarrow> RewardAgencyTask option" where
  \<comment> \<open>the task handed to the timer; \<open>_reward\<close> is not assigned and keeps its initial value. A \<open>double\<close> is a
      rational number here: rounding is not modelled\<close>
  "rewardAgency vid gameType playerId reward winGold =
     (if reward < 1 then None
      else Some \<lparr>rw_venueId = vid, rw_playerId = playerId, rw_gameType = gameType, rw_reward = 0,
                 rw_winGold = winGold\<rparr>)"

fun reward_loop ::
  "nat \<Rightarrow> 'd syncQuery \<Rightarrow> string \<Rightarrow> rat \<Rightarrow> string \<Rightarrow> string \<Rightarrow> int \<Rightarrow> 'd \<Rightarrow> 'd option" where
  \<comment> \<open>the loop of the timer callback with fuel; the parameters are \<open>_venueId\<close>, \<open>reward\<close>, \<open>playerId\<close>,
      \<open>agencyId1\<close> and \<open>indirect\<close>, and \<open>agencyId2\<close> is empty at the start of a round\<close>
  "reward_loop 0 sq vid reward playerId agencyId1 indirect db = None"
| "reward_loop (Suc n) sq vid reward playerId agencyId1 indirect db =
     (let (stop, agency, db1) =
            (if agencyId1 = []
             then let ((ok, rows, ag), db') = GetAgency sq playerId db in (\<not> ok \<or> rows < 1 \<or> ag = [], ag, db')
             else (False, agencyId1, db))
      in if stop then Some db1
         else let ((ok2, rows2, ag2), db2) = GetAgency sq agency db1;
                  agencyId2 = (if ok2 \<and> rows2 > 0 then ag2 else []);
                  part = reward / 5;
                  test = (agencyId2 = [] \<or> part < 1);
                  amount = (if test then \<lfloor>reward\<rfloor> else \<lfloor>reward - part\<rfloor>);
                  (_, _, _, db3) = sq (InsertReward agency amount playerId indirect vid) db2
              in if test then Some db3
                 else reward_loop n sq vid part agency agencyId2 1 db3)"

definition rewardAgency_run :: "nat \<Rightarrow> 'd syncQuery \<Rightarrow> RewardAgencyTask \<Rightarrow> 'd \<Rightarrow> 'd option" where
  "rewardAgency_run fuel sq task db =
     reward_loop fuel sq (rw_venueId task) (rw_reward task) (rw_playerId task) [] 0 db"

section \<open>Vocabulary of the properties\<close>

definition rc_ok :: "room_class \<Rightarrow> bool" where
  \<comment> \<open>what a concrete game has to guarantee\<close>
  "rc_ok rc \<longleftrightarrow> (\<forall>p s b. av_playerId (rc_createAvatar rc p s b) = p)"

definition seats_ok :: "GameRoom \<Rightarrow> bool" where
  "seats_ok r \<longleftrightarrow>
     (\<forall>p a. um_find (gr_allAvatars r) p = Some a \<longrightarrow>
        0 \<le> av_seat a \<and> av_seat a < gr_maxPlayerNums r \<and> gr_avatarSeats r ! nat (av_seat a) = Some p)
   \<and> (\<forall>i < MAX_SEAT_NUMS. \<forall>p. gr_avatarSeats r ! i = Some p \<longrightarrow>
        (\<exists>a. um_find (gr_allAvatars r) p = Some a \<and> av_seat a = int i))"

definition room_ok :: "room_class \<Rightarrow> GameRoom \<Rightarrow> bool" where
  "room_ok rc r \<longleftrightarrow> rc_ok rc \<and> um_wf (gr_allAvatars r) \<and> distinct (gr_spectators r)
     \<and> (\<forall>p a. um_find (gr_allAvatars r) p = Some a \<longrightarrow> av_playerId a = p)
     \<and> set (map fst (gr_allAvatars r)) \<inter> set (gr_spectators r) = {}
     \<and> length (gr_avatarSeats r) = MAX_SEAT_NUMS \<and> gr_maxPlayerNums r \<le> int MAX_SEAT_NUMS
     \<and> (gr_category r = RoomCategoryA \<longrightarrow> seats_ok r)
     \<and> (gr_category r = RoomCategoryB \<longrightarrow> \<not> rc_enableSpectator rc \<and> gr_spectators r = [])"

section \<open>Seats\<close>

lemma empty_from_spec:
  "empty_from i n seats = k \<Longrightarrow>
     (k = - 1 \<and> (\<forall>j. i \<le> j \<and> j < i + n \<longrightarrow> seat_at (int j) seats \<noteq> None))
   \<or> (int i \<le> k \<and> k < int (i + n) \<and> seat_at k seats = None \<and> (\<forall>j. i \<le> j \<and> int j < k \<longrightarrow> seat_at (int j) seats \<noteq> None))"
proof (induction i n seats rule: empty_from.induct)
  case (2 i n seats)
  show ?case
  proof (cases "seat_at (int i) seats")
    case None
    then show ?thesis using 2(2) by auto
  next
    case (Some p)
    have e: "empty_from (Suc i) n seats = k" using 2(2) Some by simp
    have split: "i \<le> j \<longleftrightarrow> j = i \<or> Suc i \<le> j" for j :: nat by auto
    from 2(1)[OF _ e] Some show ?thesis by (auto simp: split)
  qed
qed auto

lemma getEmptySeat_spec:
  assumes "gr_category r = RoomCategoryA" and "getEmptySeat r \<noteq> - 1"
  shows "0 \<le> getEmptySeat r" and "getEmptySeat r < gr_maxPlayerNums r" and "seat_at (getEmptySeat r) (gr_avatarSeats r) = None"
  using empty_from_spec[of 0 "nat (gr_maxPlayerNums r)" "gr_avatarSeats r" "getEmptySeat r"] assms
  by (auto simp: getEmptySeat_def split: if_splits)

lemma room_ids: "room_ok rc r \<Longrightarrow> room_hasPlayer p r \<longleftrightarrow> p \<in> set (room_getPlayerIds r)"
  by (cases "gr_category r")
    (auto simp: room_ok_def room_hasPlayer_def room_getPlayerIds_def hasSpectator_def um_find_None_iff)

lemma room_count:
  "room_ok rc r \<Longrightarrow> distinct (room_getPlayerIds r) \<and> room_getPlayerCount r = int (length (room_getPlayerIds r))"
  by (auto simp: room_ok_def room_getPlayerIds_def room_getPlayerCount_def)

section \<open>What messages leave unchanged\<close>

lemma send_msg_keeps [simp]:
  "cx_pm (send_msg m s cx) = cx_pm cx" "cx_db (send_msg m s cx) = cx_db cx" "cx_sessions (send_msg m s cx) = cx_sessions cx"
  "cx_redis (send_msg m s cx) = cx_redis cx"
  by (simp_all add: send_msg_def split: option.split)

lemma send_avatars_keeps [simp]:
  "cx_pm (send_avatars m x as cx) = cx_pm cx" "cx_db (send_avatars m x as cx) = cx_db cx"
  "cx_sessions (send_avatars m x as cx) = cx_sessions cx"
  by (induction m x as cx rule: send_avatars.induct) simp_all

lemma venueId_of_send [simp]: "venueId_of q (send_msg m s cx) = venueId_of q cx"
  by (simp add: venueId_of_def)

lemma send_spectators_keeps [simp]:
  "cx_db (send_spectators m x ps cx) = cx_db cx \<and> venueId_of q (send_spectators m x ps cx) = venueId_of q cx"
proof (induction m x ps cx rule: send_spectators.induct)
  case (2 m x p ps cx)
  show ?case
    using 2 venueId_of_getPlayer[of p cx]
    by (cases "getPlayer p (cx_pm cx)") (auto split: option.splits)
qed simp

lemma sendMessageToAll_keeps [simp]:
  "cx_db (sendMessageToAll m x b r cx) = cx_db cx" "venueId_of q (sendMessageToAll m x b r cx) = venueId_of q cx"
  by (simp_all add: sendMessageToAll_def Let_def venueId_of_def[of _ "send_avatars m x as cx" for m x as cx] venueId_of_def[of _ cx])

section \<open>Rooms keep their seats in order\<close>

lemma venueId_of_db [simp]: "venueId_of q (cx\<lparr>cx_db := d\<rparr>) = venueId_of q cx"
  by (simp add: venueId_of_def)

lemma fst_set_um_put: "set (map fst (um_put k v m)) = insert k (set (map fst m))"
  by (simp add: fst_set_put)

lemma take_seat_ok:
  assumes "room_ok rc r" and "\<not> room_hasPlayer p r" and "av_playerId a = p"
    and "gr_category r = RoomCategoryA \<Longrightarrow> seat = getEmptySeat r \<and> seat \<noteq> - 1 \<and> av_seat a = seat"
    and "gr_category r = RoomCategoryB \<Longrightarrow> seat = - 1"
  defines "r' \<equiv> addAvatar a (if seat > - 1 then r\<lparr>gr_avatarSeats := set_seat seat (Some p) (gr_avatarSeats r)\<rparr> else r)"
  shows "room_ok rc r'" and "set (room_getPlayerIds r') = insert p (set (room_getPlayerIds r))"
proof -
  have np: "um_find (gr_allAvatars r) p = None" "gr_category r = RoomCategoryA \<Longrightarrow> p \<notin> set (gr_spectators r)"
    using assms(2) by (auto simp: room_hasPlayer_def hasSpectator_def split: if_splits)
  show "set (room_getPlayerIds r') = insert p (set (room_getPlayerIds r))"
    using assms(3) by (simp add: r'_def room_getPlayerIds_def addAvatar_def container_simps)
  show "room_ok rc r'"
  proof (cases "gr_category r")
    case RoomCategoryA
    note s = getEmptySeat_spec[OF RoomCategoryA]
    have seat: "0 \<le> seat" "seat < gr_maxPlayerNums r" "seat_at seat (gr_avatarSeats r) = None" "av_seat a = seat"
      using s assms(4)[OF RoomCategoryA] by auto
    have len: "length (gr_avatarSeats r) = MAX_SEAT_NUMS" and lt: "nat seat < MAX_SEAT_NUMS"
      using assms(1) seat(1,2) by (auto simp: room_ok_def)
    then have free: "gr_avatarSeats r ! nat seat = None" using seat(1,3) by (simp add: seat_at_def)
    have "seats_ok r" using assms(1) RoomCategoryA by (simp add: room_ok_def)
    then have "seats_ok r'"
      using seat(1,2,4) free len lt np(1) assms(3)
      by (auto simp: seats_ok_def r'_def addAvatar_def set_seat_def container_simps nth_list_update nat_eq_iff)
    then show ?thesis
      using assms(1,3) np RoomCategoryA seat(1)
      by (auto simp: room_ok_def r'_def addAvatar_def set_seat_def container_simps)
  next
    case RoomCategoryB
    then show ?thesis
      using assms(1,3) np assms(5)
      by (auto simp: room_ok_def r'_def addAvatar_def container_simps)
  qed
qed

lemma joined_avatar_fields:
  "rc_ok rc \<Longrightarrow> av_playerId (joined_avatar rc p seat c pl r cx) = p"
  "seat > - 1 \<Longrightarrow> av_seat (joined_avatar rc p seat c pl r cx) = seat"
  "gr_cashPledge r > 0 \<Longrightarrow> av_cashPledge (joined_avatar rc p seat c pl r cx) = to_int32 c"
  by (simp_all add: joined_avatar_def rc_ok_def Let_def split: option.split)

lemma joinGame_result:
  assumes "joinGame sq rc vid seat p err (r, cx) = ((ok, err'), r', cx')"
  shows "venueId_of q cx' = venueId_of q cx" and "\<not> ok \<Longrightarrow> r' = r"
    and "ok \<Longrightarrow> \<exists>c pl. r' = addAvatar (joined_avatar rc p seat c pl r cx')
           (if seat > - 1 then r\<lparr>gr_avatarSeats := set_seat seat (Some p) (gr_avatarSeats r)\<rparr> else r)"
proof -
  obtain res db where j: "joinGame_pledge sq vid (gr_cashPledge r) (gr_diamondNeed r) p (cx_db cx) = (res, db)"
    by (metis prod.exhaust)
  obtain pl pm where g: "getPlayer p (cx_pm cx) = (pl, pm)" by (metis prod.exhaust)
  have v: "venueId_of q (cx\<lparr>cx_db := db, cx_pm := pm\<rparr>) = venueId_of q cx"
    using venueId_of_getPlayer[of p "cx\<lparr>cx_db := db\<rparr>" pl pm q] g by simp
  show "venueId_of q cx' = venueId_of q cx"
    using assms(1) v by (auto simp: joinGame_def j g Let_def split: prod.splits if_splits sum.splits)
  show "\<not> ok \<Longrightarrow> r' = r"
    using assms(1) by (auto simp: joinGame_def j g Let_def split: prod.splits if_splits sum.splits)
  show "ok \<Longrightarrow> \<exists>c pl. r' = addAvatar (joined_avatar rc p seat c pl r cx')
           (if seat > - 1 then r\<lparr>gr_avatarSeats := set_seat seat (Some p) (gr_avatarSeats r)\<rparr> else r)"
    using assms(1) by (auto simp: joinGame_def j g Let_def split: prod.splits if_splits sum.splits)
qed

lemma replace_avatar_ok:
  assumes "room_ok rc r" and "um_find (gr_allAvatars r) p = Some a" and "av_seat a' = av_seat a" and "av_playerId a' = p"
  shows "room_ok rc (r\<lparr>gr_allAvatars := um_put p a' (gr_allAvatars r)\<rparr>)"
    and "set (room_getPlayerIds (r\<lparr>gr_allAvatars := um_put p a' (gr_allAvatars r)\<rparr>)) = set (room_getPlayerIds r)"
proof -
  have m: "insert p (fst ` set (gr_allAvatars r)) = fst ` set (gr_allAvatars r)"
    using um_find_None_iff[of "gr_allAvatars r" p] assms(2) by (auto simp: insert_absorb)
  have "seats_ok r \<Longrightarrow> seats_ok (r\<lparr>gr_allAvatars := um_put p a' (gr_allAvatars r)\<rparr>)"
    using assms(2,3) by (fastforce simp: seats_ok_def container_simps)
  then show "room_ok rc (r\<lparr>gr_allAvatars := um_put p a' (gr_allAvatars r)\<rparr>)"
    using assms(1,4) by (simp add: room_ok_def container_simps m)
  show "set (room_getPlayerIds (r\<lparr>gr_allAvatars := um_put p a' (gr_allAvatars r)\<rparr>)) = set (room_getPlayerIds r)"
    by (simp add: room_getPlayerIds_def container_simps m)
qed

lemma onAvatarJoined_keeps:
  assumes "onAvatarJoined sq p (r, cx) = (r', cx')" and "room_ok rc r"
  shows "room_ok rc r'" and "set (room_getPlayerIds r') = set (room_getPlayerIds r)" and "venueId_of q cx' = venueId_of q cx"
proof -
  consider "r' = r" | a g where "um_find (gr_allAvatars r) p = Some a"
      "r' = r\<lparr>gr_allAvatars := um_put p (a\<lparr>av_gold := g\<rparr>) (gr_allAvatars r)\<rparr>"
    using assms(1) by (auto simp: onAvatarJoined_def getAvatar_def Let_def split: option.splits prod.splits if_splits)
  note c = this
  have id: "um_find (gr_allAvatars r) p = Some a \<Longrightarrow> av_playerId a = p" for a using assms(2) by (simp add: room_ok_def)
  show "room_ok rc r'" and "set (room_getPlayerIds r') = set (room_getPlayerIds r)"
    using assms(2) replace_avatar_ok[OF assms(2)] id by (cases rule: c; simp)+
  show "venueId_of q cx' = venueId_of q cx"
    using assms(1) by (auto simp: onAvatarJoined_def Let_def split: option.splits prod.splits if_splits)
qed

lemma notify_keeps [simp]:
  "venueId_of q (notifyAddAvatar p r cx) = venueId_of q cx" "venueId_of q (notifyRemoveAvatar s p r cx) = venueId_of q cx"
  "venueId_of q (notifyAddSpectator p r cx) = venueId_of q cx" "venueId_of q (notifyRemoveSpectator p r cx) = venueId_of q cx"
  using venueId_of_getPlayer[of p cx]
  by (auto simp: notifyAddAvatar_def notifyRemoveAvatar_def notifyAddSpectator_def notifyRemoveSpectator_def
      split: option.splits prod.splits)

lemma seats_ok_spectators [simp]: "seats_ok (r\<lparr>gr_spectators := x\<rparr>) = seats_ok r"
  by (simp add: seats_ok_def)

lemma add_spectator_ok:
  assumes "room_ok rc r" and "\<not> room_hasPlayer p r" and "gr_category r = RoomCategoryA"
  shows "room_ok rc (r\<lparr>gr_spectators := us_insert p (gr_spectators r)\<rparr>)"
    and "set (room_getPlayerIds (r\<lparr>gr_spectators := us_insert p (gr_spectators r)\<rparr>)) = insert p (set (room_getPlayerIds r))"
proof -
  have "p \<notin> fst ` set (gr_allAvatars r)"
    using assms(2) by (simp add: room_hasPlayer_def um_find_None_iff split: if_splits)
  then show "room_ok rc (r\<lparr>gr_spectators := us_insert p (gr_spectators r)\<rparr>)"
    using assms(1,3) by (simp add: room_ok_def container_simps)
  show "set (room_getPlayerIds (r\<lparr>gr_spectators := us_insert p (gr_spectators r)\<rparr>)) = insert p (set (room_getPlayerIds r))"
    by (auto simp: room_getPlayerIds_def container_simps)
qed

lemma room_enters:
  assumes ok: "room_ok rc r" and np: "\<not> room_hasPlayer p r"
    and e: "room_enterImpl sq rc vid p b err (r, cx) = ((res, err'), r', cx')"
  shows "room_ok rc r' \<and> set (room_getPlayerIds r') =
      (if res then insert p (set (room_getPlayerIds r)) else set (room_getPlayerIds r))
    \<and> (\<forall>q. venueId_of q cx' = venueId_of q cx)"
proof -
  define seat where "seat = (if \<not> rc_enableSpectator rc \<and> gr_category r = RoomCategoryA then getEmptySeat r else - 1)"
  show ?thesis
  proof (cases "rc_enableSpectator rc")
    case True
    then have A: "gr_category r = RoomCategoryA" using ok by (cases "gr_category r") (auto simp: room_ok_def)
    show ?thesis
      using add_spectator_ok[OF ok np A] e True ok by (auto simp: room_enterImpl_def Let_def split: prod.splits if_splits)
  next
    case False
    show ?thesis
    proof (cases "res")
      case True
      then obtain err1 r1 cx1 where j: "joinGame sq rc vid seat p err1 (r, cx) = ((True, err'), r1, cx1)"
        and o: "onAvatarJoined sq p (r1, notifyAddAvatar p r1 cx1) = (r', cx')"
        and s: "gr_category r = RoomCategoryA \<Longrightarrow> seat \<noteq> - 1"
        using e False by (auto simp: room_enterImpl_def seat_def Let_def split: prod.splits if_splits bool.splits)
      have rc: "rc_ok rc" using ok by (simp add: room_ok_def)
      from joinGame_result(3)[OF j] joined_avatar_fields(1)[OF rc, of p seat] joined_avatar_fields(2)[of seat rc p]
      obtain a where a: "av_playerId a = p" "seat > - 1 \<longrightarrow> av_seat a = seat"
        "r1 = addAvatar a (if seat > - 1 then r\<lparr>gr_avatarSeats := set_seat seat (Some p) (gr_avatarSeats r)\<rparr> else r)" by blast
      have cA: "gr_category r = RoomCategoryA \<Longrightarrow> seat = getEmptySeat r \<and> seat \<noteq> - 1 \<and> av_seat a = seat"
        using s a(2) getEmptySeat_spec(1)[of r] False by (auto simp: seat_def)
      have cB: "gr_category r = RoomCategoryB \<Longrightarrow> seat = - 1" by (simp add: seat_def)
      show ?thesis
        using take_seat_ok[OF ok np a(1) cA cB] a(3) onAvatarJoined_keeps[OF o, of rc] joinGame_result(1)[OF j] True
        by auto
    next
      case False': False
      then have "r' = r \<and> (\<forall>q. venueId_of q cx' = venueId_of q cx)"
        using e False ok joinGame_result(1,2)[of sq rc vid seat p _ r cx False _ r' cx']
        by (auto simp: room_enterImpl_def seat_def Let_def room_ok_def split: prod.splits if_splits bool.splits)
      then show ?thesis using ok False' by simp
    qed
  qed
qed

lemma nth_clear: "k < length xs \<Longrightarrow> xs[k := None] ! i = Some x \<longleftrightarrow> i \<noteq> k \<and> xs ! i = Some x"
  by (cases "i = k") simp_all

lemma remove_avatar_ok:
  assumes "room_ok rc r" and "um_find (gr_allAvatars r) p = Some a"
  defines "r' \<equiv> removeAvatar p (if gr_category r = RoomCategoryA
                   then r\<lparr>gr_avatarSeats := set_seat (av_seat a) None (gr_avatarSeats r)\<rparr> else r)"
  shows "room_ok rc r'" and "set (room_getPlayerIds r') = set (room_getPlayerIds r) - {p}"
proof -
  have d: "fst ` set (gr_allAvatars r) \<inter> set (gr_spectators r) = {}"
    using assms(1) by (auto simp: room_ok_def)
  have m: "p \<in> fst ` set (gr_allAvatars r)" using um_find_None_iff[of "gr_allAvatars r" p] assms(2) by auto
  have "seats_ok r'" if A: "gr_category r = RoomCategoryA"
  proof -
    have s: "seats_ok r" using assms(1) A by (simp add: room_ok_def)
    then have a: "0 \<le> av_seat a" "av_seat a < gr_maxPlayerNums r" "gr_avatarSeats r ! nat (av_seat a) = Some p"
      using assms(2) by (simp_all add: seats_ok_def)
    have lt: "nat (av_seat a) < length (gr_avatarSeats r)" using assms(1) a(1,2) by (auto simp: room_ok_def)
    have "\<And>b q. um_find (gr_allAvatars r) q = Some b \<Longrightarrow> q \<noteq> p \<Longrightarrow> nat (av_seat b) \<noteq> nat (av_seat a)"
      using s a(3) by (metis option.inject seats_ok_def)
    then show ?thesis
      using s a A assms(2)
      by (fastforce simp: seats_ok_def r'_def removeAvatar_def set_seat_def container_simps nth_clear[OF lt])
  qed
  then show "room_ok rc r'"
    using assms(1) d by (auto simp: room_ok_def r'_def removeAvatar_def set_seat_def container_simps)
  show "set (room_getPlayerIds r') = set (room_getPlayerIds r) - {p}"
    using m d by (auto simp: r'_def room_getPlayerIds_def removeAvatar_def container_simps)
qed

lemma remove_spectator_ok:
  assumes "room_ok rc r"
  shows "room_ok rc (removeSpectator p r)"
    and "set (room_getPlayerIds (removeSpectator p r)) = set (map fst (gr_allAvatars r)) \<union> (set (gr_spectators r) - {p})"
proof -
  have "set (map fst (gr_allAvatars r)) \<inter> (set (gr_spectators r) - {p}) = {}"
    using assms by (auto simp: room_ok_def)
  then show "room_ok rc (removeSpectator p r)"
    using assms by (simp add: room_ok_def removeSpectator_def distinct_removeAll)
  show "set (room_getPlayerIds (removeSpectator p r)) = set (map fst (gr_allAvatars r)) \<union> (set (gr_spectators r) - {p})"
    by (auto simp: room_getPlayerIds_def removeSpectator_def)
qed

lemma room_leaves:
  assumes ok: "room_ok rc r" and has: "room_hasPlayer p r"
    and l: "room_leaveImpl sq rc vid p err (r, cx) = ((n, err'), r', cx')"
  shows "room_ok rc r' \<and> set (room_getPlayerIds r') =
      (if n = 0 then set (room_getPlayerIds r) - {p} else set (room_getPlayerIds r))
    \<and> (\<forall>q. venueId_of q cx' = venueId_of q cx)"
proof (cases "snd (rc_checkLeave rc p err r) = err' \<and> fst (rc_checkLeave rc p err r) \<noteq> 0")
  case True
  then show ?thesis using l ok by (auto simp: room_leaveImpl_def split_beta)
next
  case False
  then have n: "n = 0" using l by (auto simp: room_leaveImpl_def split_beta Let_def split: if_splits option.splits)
  define r1 where "r1 = (if hasSpectator p r then removeSpectator p r else r)"
  have r1: "room_ok rc r1" and av: "gr_allAvatars r1 = gr_allAvatars r"
    using ok remove_spectator_ok(1) by (auto simp: r1_def removeSpectator_def)
  have ids: "set (room_getPlayerIds r1) = set (map fst (gr_allAvatars r)) \<union> (set (gr_spectators r) - {p})"
    using remove_spectator_ok(2)[OF ok, of p] by (auto simp: r1_def hasSpectator_def room_getPlayerIds_def)
  have same: "\<forall>q. venueId_of q cx' = venueId_of q cx"
    using l by (auto simp: room_leaveImpl_def Let_def split: prod.splits if_splits option.splits)
  show ?thesis
  proof (cases "um_find (gr_allAvatars r1) p")
    case None
    then have "p \<notin> fst ` set (gr_allAvatars r)" by (simp add: um_find_None_iff av)
    moreover have "r' = r1"
      using None l n by (auto simp: r1_def room_leaveImpl_def getAvatar_def Let_def split: prod.splits if_splits)
    ultimately show ?thesis using r1 ids n same by (auto simp: room_getPlayerIds_def)
  next
    case (Some a)
    have r': "r' = removeAvatar p (if gr_category r1 = RoomCategoryA
                   then r1\<lparr>gr_avatarSeats := set_seat (av_seat a) None (gr_avatarSeats r1)\<rparr> else r1)"
      using Some l n by (auto simp: r1_def room_leaveImpl_def getAvatar_def Let_def split: prod.splits if_splits)
    show ?thesis
      unfolding r' using remove_avatar_ok[OF r1 Some] ids n same by (auto simp: room_getPlayerIds_def)
  qed
qed

interpretation room: venue_kind "GameRoom_class sq rc" "room_ok rc" for sq rc
proof (unfold_locales, unfold GameRoom_class_def venue_class.simps)
qed (rule room_ids room_count room_enters room_leaves; assumption)+

end
