(* ===== verification/Room_Properties.thy ===== *)
theory Room_Properties
  imports Game_Room
begin

text \<open>
  What game rooms guarantee: seats, the gold of players who enter and leave, the messages sent to a
  room and the rewards of agencies.
\<close>

section \<open>Vocabulary\<close>

definition session_of :: "string \<Rightarrow> ('d, 'r) ctx \<Rightarrow> nat option" where
  \<comment> \<open>the living session of a player the server knows\<close>
  "session_of p cx = Option.bind (um_find (pm_players (cx_pm cx)) p) (\<lambda>pl. lock_session (pl_session pl) cx)"

definition reached_sessions :: "string \<Rightarrow> bool \<Rightarrow> GameRoom \<Rightarrow> ('d, 'r) ctx \<Rightarrow> nat list" where
  \<comment> \<open>the living sessions of the players of a room other than one, the spectators included or not\<close>
  "reached_sessions x spectator r cx =
     List.map_filter (\<lambda>(p, a). if p = x then None else lock_session (av_session a) cx) (gr_allAvatars r)
     @ (if spectator
        then List.map_filter (\<lambda>p. if p = x then None else session_of p cx) (gr_spectators r)
        else [])"

definition occupied :: "GameRoom \<Rightarrow> int \<Rightarrow> bool" where
  "occupied r i \<longleftrightarrow> seat_at i (gr_avatarSeats r) \<noteq> None"

definition demo_rc :: "bool \<Rightarrow> room_class" where
  \<comment> \<open>a game that refuses nobody\<close>
  "demo_rc spectators = \<lparr>rc_checkEnter = (\<lambda>p e r. (True, e)), rc_checkLeave = (\<lambda>p e r. (0, e)),
     rc_checkJoin = (\<lambda>s p e r. (True, e)), rc_createAvatar = (\<lambda>p s b. GameAvatar_new p b),
     rc_enableSpectator = spectators\<rparr>"

definition demo_room :: GameRoom where
  "demo_room = (GameRoom_new 2 RoomCategoryA)\<lparr>gr_cashPledge := 30\<rparr>"

definition demo_room_server :: "(GameRoom, unit, unit) server" where
  "demo_room_server = \<lparr>sv_ctx = demo_cx,
     sv_heap = [(0, (Venue_new ''v'' 1 (GameRoom_new 2 RoomCategoryA))\<lparr>ve_handler := Some 5\<rparr>)],
     sv_handlers = [(5, inner_addVenue ''v'' 0 VenueInnerHandler_new)]\<rparr>"

definition demo_gold_cx :: "(demo_db, unit) ctx" where
  "demo_gold_cx = \<lparr>cx_pm = cx_pm demo_cx, cx_sessions = cx_sessions demo_cx, cx_heartbeat = [], cx_db = demo_capital,
     cx_redis = cx_redis demo_cx, cx_sent = []\<rparr>"

definition demo_chat :: MsgChatClient where
  "demo_chat = \<lparr>ms_playerId = ''x'', ms_timestamp = [], ms_nonce = [], ms_signature = [], vi_venueId = ''v'',
     cc_type = 0, cc_index = 1, cc_text = ''hi''\<rparr>"

section \<open>Broadcasts\<close>

lemma send_msg_sent: "cx_sent (send_msg m s cx) = cx_sent cx @ (case s of None \<Rightarrow> [] | Some i \<Rightarrow> [(i, m)])"
  by (simp add: send_msg_def split: option.split)

lemma lock_session_cong: "cx_sessions cx' = cx_sessions cx \<Longrightarrow> lock_session s cx' = lock_session s cx"
  by (simp add: lock_session_def split: option.split)

lemma lock_session_keeps [simp]:
  "lock_session s (send_msg m t cx) = lock_session s cx" "lock_session s (cx\<lparr>cx_pm := pm\<rparr>) = lock_session s cx"
  "lock_session s (send_avatars m x as cx) = lock_session s cx"
  by (rule lock_session_cong, simp)+

lemma session_of_keeps [simp]:
  "session_of q (send_msg m t cx) = session_of q cx" "session_of q (send_avatars m x as cx) = session_of q cx"
  by (simp_all add: session_of_def)

lemma send_avatars_sent:
  "cx_sent (send_avatars m x as cx) =
     cx_sent cx @ map (\<lambda>i. (i, m)) (List.map_filter (\<lambda>(p, a). if p = x then None else lock_session (av_session a) cx) as)"
proof (induction m x as cx rule: send_avatars.induct)
  case (2 m x p a as cx)
  then show ?case by (cases "x = p") (auto simp: map_filter_simps send_msg_sent cong: if_cong split: option.split)
qed (simp add: map_filter_simps)

lemma session_of_getPlayer:
  assumes "getPlayer p (cx_pm cx) = (pl, pm)"
  shows "session_of q (cx\<lparr>cx_pm := pm\<rparr>) = session_of q cx"
    and "session_of p cx = Option.bind pl (\<lambda>y. lock_session (pl_session y) cx)"
  using assms by (auto simp: getPlayer_def session_of_def touch_def container_simps Let_def split: option.splits)

lemma send_spectators_sent:
  "cx_sent (send_spectators m x ps cx) =
     cx_sent cx @ map (\<lambda>i. (i, m)) (List.map_filter (\<lambda>p. if p = x then None else session_of p cx) ps)"
proof (induction m x ps cx rule: send_spectators.induct)
  case (2 m x p ps cx)
  obtain pl pm where g: "getPlayer p (cx_pm cx) = (pl, pm)" by (metis prod.exhaust)
  show ?case
    using 2 g session_of_getPlayer[OF g]
    by (cases "x = p"; cases pl) (auto simp: map_filter_simps send_msg_sent cong: if_cong split: option.split)
qed (simp add: map_filter_simps)

lemma sendMessageToAll_sent:
  "cx_sent (sendMessageToAll m x b r cx) = cx_sent cx @ map (\<lambda>i. (i, m)) (reached_sessions x b r cx)"
  by (simp add: sendMessageToAll_def reached_sessions_def send_avatars_sent send_spectators_sent Let_def cong: if_cong)

section \<open>Seats\<close>

lemma avatars_le_seats:
  assumes "room_ok rc r" and "gr_category r = RoomCategoryA"
  shows "int (length (gr_allAvatars r)) \<le> max 0 (gr_maxPlayerNums r)"
proof -
  have wf: "distinct (map fst (gr_allAvatars r))" and s: "seats_ok r" using assms by (auto simp: room_ok_def)
  let ?f = "\<lambda>p. nat (av_seat (the (um_find (gr_allAvatars r) p)))"
  let ?P = "fst ` set (gr_allAvatars r)"
  have some: "\<exists>a. um_find (gr_allAvatars r) p = Some a" if "p \<in> ?P" for p
    using um_find_None_iff[of "gr_allAvatars r" p] that by auto
  have seat: "gr_avatarSeats r ! nat (av_seat a) = Some p" "0 \<le> av_seat a" "av_seat a < gr_maxPlayerNums r"
    if "um_find (gr_allAvatars r) p = Some a" for p a
    using s that unfolding seats_ok_def by blast+
  have "inj_on ?f ?P"
  proof (rule inj_onI)
    fix p q assume "p \<in> ?P" "q \<in> ?P" and f: "?f p = ?f q"
    then obtain a b where ab: "um_find (gr_allAvatars r) p = Some a" "um_find (gr_allAvatars r) q = Some b" using some by blast
    then show "p = q" using f seat[OF ab(1)] seat[OF ab(2)] by simp
  qed
  moreover have "?f ` ?P \<subseteq> {..<nat (gr_maxPlayerNums r)}"
  proof
    fix i assume "i \<in> ?f ` ?P"
    then obtain p a where "um_find (gr_allAvatars r) p = Some a" "i = nat (av_seat a)" using some by fastforce
    then show "i \<in> {..<nat (gr_maxPlayerNums r)}" using seat(2,3)[of p a] by auto
  qed
  ultimately have "card ?P \<le> nat (gr_maxPlayerNums r)" by (metis card_image card_lessThan card_mono finite_lessThan)
  moreover have "card ?P = length (gr_allAvatars r)" using wf by (metis distinct_card length_map set_map)
  ultimately show ?thesis by linarith
qed

lemma send_avatars_redis [simp]: "cx_redis (send_avatars m x as cx) = cx_redis cx"
  by (induction m x as cx rule: send_avatars.induct) simp_all

lemma send_spectators_redis [simp]: "cx_redis (send_spectators m x ps cx) = cx_redis cx"
  by (induction m x ps cx rule: send_spectators.induct) (auto split: prod.splits option.splits)

lemma notify_keeps_redis [simp]:
  "cx_redis (sendMessageToAll m x b r cx) = cx_redis cx"
  "cx_redis (notifyAddAvatar p r cx) = cx_redis cx" "cx_redis (notifyAddSpectator p r cx) = cx_redis cx"
  "cx_redis (notifyRemoveAvatar i p r cx) = cx_redis cx" "cx_redis (notifyRemoveSpectator p r cx) = cx_redis cx"
  by (simp_all add: sendMessageToAll_def notifyAddAvatar_def notifyAddSpectator_def notifyRemoveAvatar_def
      notifyRemoveSpectator_def Let_def split: prod.split option.split)

lemma join_keeps_redis:
  "joinGame sq rc vid i p e (r, cx) = (x, r1, cx1) \<Longrightarrow> cx_redis cx1 = cx_redis cx"
  "cx_redis (snd (onAvatarJoined sq p (r, cx))) = cx_redis cx"
  by (auto simp: joinGame_def onAvatarJoined_def Let_def split: prod.splits if_splits sum.splits option.splits)

lemma room_keeps_redis:
  "cx_redis (snd (snd (vt_enterImpl (GameRoom_class sq rc) vid p b err (r, cx)))) = cx_redis cx"
  "cx_redis (snd (snd (vt_leaveImpl (GameRoom_class sq rc) vid p err (r, cx)))) = cx_redis cx"
  by (auto simp: GameRoom_class_def room_enterImpl_def room_leaveImpl_def Let_def join_keeps_redis(2)
      split: prod.split bool.split option.split dest!: join_keeps_redis(1))

lemma ready_room_visits:
  assumes "um_find (sv_heap sv) a \<noteq> None" and "redis_ready (cx_redis (sv_ctx sv))"
  shows "\<exists>sv'. run_visits demo_ve (GameRoom_class sq rc) now a vs sv = Some sv'"
  by (rule ready_visits[OF room.venue_kind_axioms room_keeps_redis assms])

lemma GameRoom_new_ok:
  "rc_ok rc \<Longrightarrow> n \<le> 20 \<Longrightarrow> (cat = RoomCategoryB \<longrightarrow> \<not> rc_enableSpectator rc) \<Longrightarrow> room_ok rc (GameRoom_new n cat)"
  by (simp add: room_ok_def GameRoom_new_def MAX_SEAT_NUMS_def seats_ok_def)

lemma demo_rc_ok: "rc_ok (demo_rc b)"
  by (simp add: rc_ok_def demo_rc_def GameAvatar_new_def)

lemma demo_room_server_ok:
  "venue_ok (GameRoom_class sq (demo_rc False)) (room_ok (demo_rc False)) 0 demo_room_server"
  "located (GameRoom_class sq (demo_rc False)) 0 demo_room_server"
proof -
  have h: "handler_ok (inner_addVenue ''v'' 0 VenueInnerHandler_new)" by code_simp
  show "venue_ok (GameRoom_class sq (demo_rc False)) (room_ok (demo_rc False)) 0 demo_room_server"
    using GameRoom_new_ok[OF demo_rc_ok[of False], of 2 RoomCategoryA] h
    by (simp add: venue_ok_def demo_room_server_def Venue_new_def GameRoom_class_def room_getPlayerCount_def GameRoom_new_def
        count_of_def inner_addVenue_def VenueInnerHandler_new_def addGameType_def um_insert_def)
  show "located (GameRoom_class sq (demo_rc False)) 0 demo_room_server"
    by (simp add: located_def demo_room_server_def players_in_def GameRoom_class_def room_getPlayerIds_def GameRoom_new_def
        venueId_of_def demo_cx_def demo_players_def Player_new_def Venue_new_def)
qed



text \<open>The seat a room with seats gives away is the first free one: it is within the size of the
  room and free, and all seats before it are taken; there is none exactly when every seat is
  taken.\<close>
theorem getEmptySeat_first_free:
  assumes "gr_category r = RoomCategoryA" and "getEmptySeat r = s"
  shows "- 1 \<le> s \<and> s < max 0 (gr_maxPlayerNums r)
    \<and> (s = - 1 \<longleftrightarrow> (\<forall>i. 0 \<le> i \<and> i < gr_maxPlayerNums r \<longrightarrow> occupied r i))
    \<and> (s \<noteq> - 1 \<longrightarrow> \<not> occupied r s \<and> (\<forall>i. 0 \<le> i \<and> i < s \<longrightarrow> occupied r i))"
proof -
  have e: "empty_from 0 (nat (gr_maxPlayerNums r)) (gr_avatarSeats r) = s" using assms by (simp add: getEmptySeat_def)
  have nats: "(\<forall>i. 0 \<le> i \<and> i < k \<longrightarrow> occupied r i) \<longleftrightarrow> (\<forall>j. int j < k \<longrightarrow> occupied r (int j))" for k
    by (metis int_nat_eq of_nat_0_le_iff)
  show ?thesis
    using empty_from_spec[OF e] unfolding nats by (auto simp: occupied_def split: if_splits) (metis int_nat_eq option.distinct(1))
qed

theorem getEmptySeat_first_free_witness:
  "getEmptySeat (demo_room\<lparr>gr_avatarSeats := (gr_avatarSeats demo_room)[0 := Some ''p'']\<rparr>) = 1
   \<and> occupied (demo_room\<lparr>gr_avatarSeats := (gr_avatarSeats demo_room)[0 := Some ''p'']\<rparr>) 0"
proof -
  let ?r = "demo_room\<lparr>gr_avatarSeats := (gr_avatarSeats demo_room)[0 := Some ''p'']\<rparr>"
  have s: "gr_category ?r = RoomCategoryA" "getEmptySeat ?r = 1"
    by (simp_all add: demo_room_def getEmptySeat_def GameRoom_new_def MAX_SEAT_NUMS_def seat_at_def numeral_eq_Suc)
  with getEmptySeat_first_free[OF s] show ?thesis by simp
qed

text \<open>The pledge a room keeps with an avatar is a 32-bit number: it is the pledge recorded in the
  database exactly when that is smaller than \<open>2 ^ 31\<close>; from there on it is a different number.\<close>
theorem avatar_pledge_is_32_bit:
  assumes "gr_cashPledge r > 0" and "0 \<le> cashPledge"
  shows "let x = av_cashPledge (joined_avatar rc p seat cashPledge player r cx)
         in - (2 ^ 31) \<le> x \<and> x < 2 ^ 31 \<and> (x = cashPledge \<longleftrightarrow> cashPledge < 2 ^ 31)"
  using to_int32_range[of cashPledge] to_int32_id[of cashPledge] assms(2)
  by (auto simp: Let_def joined_avatar_fields(3)[OF assms(1)])

theorem avatar_pledge_is_32_bit_witness:
  "\<not> av_cashPledge (joined_avatar (demo_rc False) ''p'' 0 3000000000 None demo_room demo_cx) = 3000000000"
  using avatar_pledge_is_32_bit[of demo_room 3000000000 "demo_rc False" "''p''" 0 None demo_cx]
  by (simp add: demo_room_def Let_def GameRoom_new_def)

section \<open>Gold\<close>

lemma sendMessageToAll_db [simp]:
  "cx_db (notifyAddAvatar p r cx) = cx_db cx" "cx_db (notifyRemoveSpectator p r cx) = cx_db cx"
  "cx_db (notifyRemoveAvatar s p r cx) = cx_db cx"
  by (simp_all add: notifyAddAvatar_def notifyRemoveSpectator_def notifyRemoveAvatar_def split: option.split)

lemma room_enter_wealth:
  assumes "sql_contract sq v" and "0 < gr_cashPledge r" and "\<not> rc_enableSpectator rc" and "rc_ok rc"
    and "room_enterImpl sq rc w p b err (r, cx) = ((True, err1), r1, cx1)"
  shows "wealth v p w (cx_db cx1) = wealth v p w (cx_db cx)"
    and "\<exists>x. gr_cashPledge r \<le> x \<and> v_pledge v (cx_db cx1) (p, w) = Some x"
    and "getAvatar p r1 \<noteq> None"
proof -
  obtain seat err2 r2 cx2 where j: "joinGame sq rc w seat p err2 (r, cx) = ((True, err1), r2, cx2)"
    and o: "onAvatarJoined sq p (r2, notifyAddAvatar p r2 cx2) = (r1, cx1)"
    using assms(3,5) by (auto simp: room_enterImpl_def Let_def split: prod.splits if_splits bool.splits)
  obtain x db where g: "joinGame_pledge sq w (gr_cashPledge r) (gr_diamondNeed r) p (cx_db cx) = (Inr x, db)"
    and cx2: "cx_db cx2 = db"
    using j by (auto simp: joinGame_def Let_def split: prod.splits if_splits sum.splits)
  have spec: "wealth v p w db = wealth v p w (cx_db cx)" "gr_cashPledge r \<le> x" "v_pledge v db (p, w) = Some x"
    using joinGame_pledge_spec[OF assms(1,2) g] by simp_all
  have av: "getAvatar p r2 \<noteq> None"
    using joinGame_result(3)[OF j] by (auto simp: joined_avatar_fields(1)[OF assms(4)] getAvatar_def addAvatar_def container_simps)
  obtain t db2 where t: "GetCapital sq p db = (t, db2)" by fastforce
  have r1: "cx_db cx1 = db2" "getAvatar p r1 \<noteq> None"
    using o av cx2 t by (auto simp: onAvatarJoined_def getAvatar_def container_simps Let_def split: if_splits)
  show "wealth v p w (cx_db cx1) = wealth v p w (cx_db cx)"
    and "\<exists>x. gr_cashPledge r \<le> x \<and> v_pledge v (cx_db cx1) (p, w) = Some x" and "getAvatar p r1 \<noteq> None"
    using spec GetCapital_spec(1,2)[OF assms(1) t] r1 by (simp_all add: wealth_ng)
qed

lemma room_leave_db:
  assumes "room_leaveImpl sq rc w p err (r, cx) = ((0, err1), r1, cx1)" and "getAvatar p r \<noteq> None"
  shows "cx_db cx1 = snd (returnCashPledge sq w p (cx_db cx))" and "getAvatar p r1 = None"
  using assms
  by (auto simp: room_leaveImpl_def getAvatar_def removeSpectator_def removeAvatar_def container_simps Let_def
      split: prod.splits if_splits)

text \<open>C3: A stay in a room neither costs nor earns gold: while a player who was let in sits in the
  room, at least the room's pledge is on record and gold and pledge together are what they
  were; when the player leaves and the pledge is returned, no pledge is left on record and
  everything is gold again, whatever other servers do to the player's capital meanwhile.\<close>
theorem room_stay_conserves_gold:
  assumes "sql_contract sq v" and "0 < gr_cashPledge r" and "\<not> rc_enableSpectator rc" and "rc_ok rc"
    and "room_enterImpl sq rc w p b err (r, cx) = ((True, err1), r1, cx1)"
    and "room_leaveImpl sq rc w p err1 (r1, cx1) = ((0, err2), r2, cx2)"
    and "fst (returnCashPledge sq w p (cx_db cx1))"
  shows "wealth v p w (cx_db cx1) = wealth v p w (cx_db cx)
    \<and> (\<exists>x. gr_cashPledge r \<le> x \<and> v_pledge v (cx_db cx1) (p, w) = Some x)
    \<and> wealth v p w (cx_db cx2) = wealth v p w (cx_db cx)
    \<and> v_pledge v (cx_db cx2) (p, w) = None \<and> getAvatar p r2 = None"
proof -
  note en = room_enter_wealth[OF assms(1-5)]
  note lv = room_leave_db[OF assms(6) en(3)]
  obtain db' where rt: "returnCashPledge sq w p (cx_db cx1) = (True, db')"
    using assms(7) by (cases "returnCashPledge sq w p (cx_db cx1)") simp
  have "\<forall>x. v_pledge v (cx_db cx1) (p, w) = Some x \<longrightarrow> 0 \<le> x" using en(2) assms(2) by auto
  from returnCashPledge_spec(1)[OF assms(1) rt this] show ?thesis using en lv rt by simp
qed

theorem room_stay_conserves_gold_witness:
  "\<exists>e1 r1 cx1 e2 r2 cx2.
       room_enterImpl (demo_sq (\<lambda>_. False)) (demo_rc False) ''w'' ''p'' [] [] (demo_room, demo_gold_cx) = ((True, e1), r1, cx1)
     \<and> room_leaveImpl (demo_sq (\<lambda>_. False)) (demo_rc False) ''w'' ''p'' e1 (r1, cx1) = ((0, e2), r2, cx2)
     \<and> wealth demo_view ''p'' ''w'' (cx_db cx2) = 100 \<and> snd (cx_db cx2) (''p'', ''w'') = None"
proof -
  let ?sq = "demo_sq (\<lambda>_. False)"
  let ?db = "((fst demo_capital)(''p'' \<mapsto> \<lparr>c_gold = 70, c_deposit = 0, c_diamond = 5, c_version = 4\<rparr>), [(''p'', ''w'') \<mapsto> 30])"
  have j: "joinGame_pledge ?sq ''w'' 30 0 ''p'' demo_capital = (Inr 30, ?db)"
    by (simp add: joinGame_pledge_def GetCashPledge_def GetCapital_def updateCashPledge_def MysqlCount_def
        demo_sq_def demo_capital_def)
  have gc: "snd (GetCapital ?sq ''p'' ?db) = ?db" by (simp add: GetCapital_def demo_sq_def)
  have rt: "fst (returnCashPledge ?sq ''w'' ''p'' ?db)"
    by (simp add: returnCashPledge_def GetCashPledge_def GetCapital_def demo_sq_def demo_capital_def numeral_eq_Suc)
  have seat: "getEmptySeat demo_room \<noteq> - 1"
    by (simp add: demo_room_def getEmptySeat_def GameRoom_new_def MAX_SEAT_NUMS_def seat_at_def numeral_eq_Suc)
  have room: "gr_cashPledge demo_room = 30" "gr_diamondNeed demo_room = 0" "gr_category demo_room = RoomCategoryA"
    by (simp_all add: demo_room_def GameRoom_new_def)
  have db: "cx_db demo_gold_cx = demo_capital" by (simp add: demo_gold_cx_def)
  obtain pl pm where g: "getPlayer ''p'' (cx_pm demo_gold_cx) = (pl, pm)" by (metis prod.exhaust)
  let ?en = "room_enterImpl ?sq (demo_rc False) ''w'' ''p'' [] [] (demo_room, demo_gold_cx)"
  have "fst ?en = (True, [])"
    using seat by (simp add: room_enterImpl_def joinGame_def demo_rc_def room db j g Let_def)
  then obtain e1 r1 cx1 where en: "?en = ((True, e1), r1, cx1)" by (cases ?en) auto
  then have cx1: "cx_db cx1 = ?db"
    using seat gc
    by (auto simp: room_enterImpl_def joinGame_def demo_rc_def room db j g Let_def onAvatarJoined_def addAvatar_def
        split: prod.splits option.splits)
  let ?lv = "room_leaveImpl ?sq (demo_rc False) ''w'' ''p'' e1 (r1, cx1)"
  have "fst ?lv = (0, e1)"
    by (simp add: room_leaveImpl_def demo_rc_def Let_def split: prod.split option.split)
  then obtain e2 r2 cx2 where lv: "?lv = ((0, e2), r2, cx2)" by (cases ?lv) auto
  have "wealth demo_view ''p'' ''w'' demo_capital = 100" by (simp add: wealth_def demo_view_def demo_capital_def)
  with room_stay_conserves_gold[OF demo_contract _ _ demo_rc_ok en lv] rt
  show ?thesis using en lv by (simp add: cx1 room db demo_rc_def demo_view_def)
qed

section \<open>Messages to the room\<close>

text \<open>\<open>sendMessageToAll\<close> does what a plain selection of recipients says: it sends the message once
  to the session of every avatar other than the excepted player whose session still lives, and
  then, if spectators are included, to the session of every such spectator the server knows;
  in this order, and to nobody else.\<close>
theorem broadcast_equals_selection:
  "cx_sent (sendMessageToAll m x b r cx) = cx_sent cx @ map (\<lambda>i. (i, m)) (reached_sessions x b r cx)"
  by (rule sendMessageToAll_sent)

text \<open>A chat message is sent to the players of a room whoever its sender is: the sender need not
  be in the room, and a sender without an avatar appears to speak from seat 0; voice messages
  and effects of the same sender are dropped.\<close>
theorem outsider_chat_is_broadcast:
  assumes "\<not> room_hasPlayer (ms_playerId chat) r" and "ms_playerId voice = ms_playerId chat"
    and "ms_playerId eff = ms_playerId chat"
  shows "room_moreMessages session (VoiceClient voice) (r, cx) = (True, r, cx)
    \<and> room_moreMessages session (EffectClient eff) (r, cx) = (True, r, cx)
    \<and> (\<exists>cx'. room_moreMessages session (ChatClient chat) (r, cx) = (True, r, cx')
         \<and> cx_sent cx' = cx_sent cx @ map (\<lambda>i. (i, ChatServer \<lparr>cs_seat = 0, cs_type = cc_type chat, cs_index = cc_index chat,
              cs_text = cc_text chat, cs_playerId = ms_playerId chat\<rparr>)) (reached_sessions [] False r cx))"
proof -
  have "getAvatar (ms_playerId chat) r = None"
    using assms(1) by (simp add: room_hasPlayer_def getAvatar_def split: if_splits)
  then show ?thesis
    using assms(2,3)
    by (simp add: room_moreMessages_def onChatClient_def onVoiceClient_def onEffectClient_def sendMessageToAll_sent Let_def)
qed

theorem outsider_chat_is_broadcast_witness:
  "\<exists>cx'. room_moreMessages None (ChatClient demo_chat) (demo_room, demo_cx) = (True, demo_room, cx')"
proof -
  have n: "\<not> room_hasPlayer (ms_playerId demo_chat) demo_room"
    by (simp add: demo_room_def GameRoom_new_def room_hasPlayer_def hasSpectator_def)
  have i: "ms_playerId (MsgVenueInner.extend (MsgVenueInner.truncate demo_chat) (MsgVoiceClient.fields [])) = ms_playerId demo_chat"
    "ms_playerId (MsgVenueInner.extend (MsgVenueInner.truncate demo_chat) (MsgEffectClient.fields 0 [])) = ms_playerId demo_chat"
    by (simp_all add: demo_chat_def MsgVenueInner.defs MsgVoiceClient.defs MsgEffectClient.defs)
  from outsider_chat_is_broadcast[OF n i] show ?thesis by blast
qed

section \<open>Rewards\<close>

lemma reward_loop_returns:
  "reward < 5 ^ n \<Longrightarrow> \<exists>db'. reward_loop (Suc n) sq vid reward p ag ind db = Some db'"
proof (induction n arbitrary: reward p ag ind db)
  case 0
  then show ?case by (simp add: Let_def split: prod.split if_split)
next
  case (Suc n)
  have "reward / 5 < 5 ^ n" using Suc.prems by simp
  note ih = Suc.IH[OF this]
  show ?case
    using ih
    by (subst reward_loop.simps) (simp only: Let_def split: prod.split if_split, blast)
qed

text \<open>The distribution of a reward to the agencies of a player ends: each round passes on a fifth
  and stops below one, so a reward below \<open>5 ^ n\<close> takes at most \<open>n + 1\<close> rounds, however long the
  chain of agencies is, even if it is a cycle.\<close>
theorem reward_distribution_ends:
  assumes "reward < 5 ^ n"
  shows "\<exists>db'. reward_loop (Suc n) sq vid reward p ag ind db = Some db'"
  by (rule reward_loop_returns[OF assms])

theorem reward_distribution_ends_witness:
  "\<exists>db'. reward_loop 5 (\<lambda>s u. (True, [AgencyRow ''a''], 1, u)) ''v'' 600 ''p'' [] 0 () = Some db'"
  using reward_distribution_ends[of 600 4 "\<lambda>s u. (True, [AgencyRow ''a''], 1, u)" "''v''" "''p''" "[]" 0 "()"]
  by (simp add: numeral_eq_Suc)

text \<open>No agency is ever paid: the task that \<open>rewardAgency\<close> hands over carries the reward 0
  whatever the reward was, so that its run records at most one row, with the amount 0.\<close>
theorem rewardAgency_pays_nothing:
  assumes "rewardAgency vid gameType p reward winGold = Some task" and "0 < fuel"
  shows "\<exists>db1. rewardAgency_run fuel sq task db = Some db1 \<and>
    (let ((ok, rows, agency), db2) = GetAgency sq p db
     in if ok \<and> 0 < rows \<and> agency \<noteq> []
        then db1 = snd (snd (snd (sq (InsertReward agency 0 p 0 vid) (snd (GetAgency sq agency db2)))))
        else db1 = db2)"
proof -
  obtain f where "fuel = Suc f" using assms(2) gr0_conv_Suc by blast
  moreover have "task = \<lparr>rw_venueId = vid, rw_playerId = p, rw_gameType = gameType, rw_reward = 0, rw_winGold = winGold\<rparr>"
    using assms(1) by (simp add: rewardAgency_def split: if_splits)
  ultimately show ?thesis
    by (auto simp: rewardAgency_run_def Let_def split: prod.splits)
qed

theorem rewardAgency_pays_nothing_witness:
  "\<exists>task db1. rewardAgency ''v'' 1 ''p'' 100 500 = Some task
     \<and> rewardAgency_run 3 (\<lambda>s u. (True, [], 0, u)) task () = Some db1"
proof -
  have t: "rewardAgency ''v'' 1 ''p'' 100 500 =
      Some \<lparr>rw_venueId = ''v'', rw_playerId = ''p'', rw_gameType = 1, rw_reward = 0, rw_winGold = 500\<rparr>"
    by (simp add: rewardAgency_def)
  from rewardAgency_pays_nothing[OF t, of 3 "\<lambda>s u. (True, [], 0, u)" "()"] t show ?thesis by auto
qed

section \<open>Kicking\<close>

lemma afterLeave_game:
  assumes "um_find (sv_heap sv) a = Some v" and "afterLeave e cls now a p sv = Some sv'"
  shows "um_find (sv_heap sv') a = Some v"
  using after_spec(1)[OF assms(1), of e cls now p sv' "[]"] assms by simp

lemma leave_all_game:
  "um_find (sv_heap sv) a = Some v \<Longrightarrow> leave_all e rc now a ps sv = Some sv' \<Longrightarrow> um_find (sv_heap sv') a = Some v"
proof (induction ps arbitrary: sv)
  case (Cons p ps)
  then obtain sv1 where "afterLeave e (GameRoom_class (en_sq e) rc) now a p sv = Some sv1" "leave_all e rc now a ps sv1 = Some sv'"
    by (auto simp: bind_eq_Some_conv)
  with Cons show ?case using afterLeave_game by blast
qed simp

lemma kickAvatar_game:
  assumes "um_find (sv_heap sv) a = Some v" and "room_ok rc (ve_game v)" and "kickAvatar e rc now a p sv = Some sv'"
  shows "\<exists>r. um_find (sv_heap sv') a = Some (v\<lparr>ve_game := r\<rparr>) \<and> room_ok rc r \<and> getAvatar p r = None"
proof (cases "getAvatar p (ve_game v)")
  case None
  then show ?thesis using assms by (auto simp: kickAvatar_def intro!: exI[of _ "ve_game v"])
next
  case (Some av)
  let ?r = "ve_game v"
  let ?r2 = "removeAvatar p (if gr_category ?r = RoomCategoryA
                 then ?r\<lparr>gr_avatarSeats := set_seat (av_seat av) None (gr_avatarSeats ?r)\<rparr> else ?r)"
  have ok: "room_ok rc ?r2" using remove_avatar_ok(1)[OF assms(2)] Some by (simp add: getAvatar_def)
  have gone: "getAvatar p ?r2 = None" by (simp add: getAvatar_def removeAvatar_def container_simps)
  obtain db sv1 where k: "afterLeave e (GameRoom_class (en_sq e) rc) now a p (set_game a v ?r2 ((sv_ctx sv)\<lparr>cx_db := db\<rparr>) sv) = Some sv1"
    "sv_heap sv' = sv_heap sv1"
    using assms(1,3) Some by (auto simp: kickAvatar_def Let_def split: prod.splits option.splits if_splits)
  have "um_find (sv_heap (set_game a v ?r2 ((sv_ctx sv)\<lparr>cx_db := db\<rparr>) sv)) a = Some (v\<lparr>ve_game := ?r2\<rparr>)"
    by (simp add: set_game_def container_simps)
  from afterLeave_game[OF this k(1)] k(2) ok gone show ?thesis by auto
qed

lemma kickAll_game:
  assumes "um_find (sv_heap sv) a = Some v" and "room_ok rc (ve_game v)" and "kickAllAvatars e rc now a sv = Some sv'"
  shows "\<exists>r. um_find (sv_heap sv') a = Some (v\<lparr>ve_game := r\<rparr>) \<and> room_ok rc r \<and> gr_allAvatars r = []
     \<and> gr_spectators r = gr_spectators (ve_game v)"
proof -
  let ?r = "ve_game v"
  let ?n = "min (nat (gr_maxPlayerNums ?r)) (length (gr_avatarSeats ?r))"
  let ?r1 = "?r\<lparr>gr_avatarSeats := replicate ?n None @ drop ?n (gr_avatarSeats ?r), gr_allAvatars := []\<rparr>"
  have len: "length (gr_avatarSeats ?r) = MAX_SEAT_NUMS" using assms(2) by (simp add: room_ok_def)
  have "seats_ok ?r1" if A: "gr_category ?r = RoomCategoryA"
  proof -
    have s: "seats_ok ?r" using assms(2) A by (simp add: room_ok_def)
    have "(replicate ?n None @ drop ?n (gr_avatarSeats ?r)) ! i = None" if i: "i < MAX_SEAT_NUMS" for i
    proof (cases "i < ?n")
      case False
      have "gr_avatarSeats ?r ! i = None"
      proof (rule ccontr)
        assume "gr_avatarSeats ?r ! i \<noteq> None"
        then obtain p a where "um_find (gr_allAvatars ?r) p = Some a" "av_seat a = int i"
          using s i unfolding seats_ok_def by blast
        then have "int i < gr_maxPlayerNums ?r" using s unfolding seats_ok_def by metis
        then show False using False i len by simp
      qed
      then show ?thesis using False i len by (simp add: nth_append)
    qed (simp add: nth_append)
    then show ?thesis by (simp add: seats_ok_def)
  qed
  then have ok: "room_ok rc ?r1" using assms(2) len by (simp add: room_ok_def)
  obtain ps cx where l: "leave_all e rc now a ps (set_game a v ?r1 cx sv) = Some sv'"
    using assms(1,3) by (auto simp: kickAllAvatars_def Let_def)
  have "um_find (sv_heap (set_game a v ?r1 cx sv)) a = Some (v\<lparr>ve_game := ?r1\<rparr>)"
    by (simp add: set_game_def container_simps)
  from leave_all_game[OF this l] ok show ?thesis by auto
qed

lemma message_keeps_room: "room_moreMessages s m (r, cx) = (handled, r', cx') \<Longrightarrow> r' = r"
  by (auto simp: room_moreMessages_def onPlayerGeolocation_def split: client_msg.splits option.splits)

text \<open>Every message that a room answers is of a type its handler subscribes to.\<close>
theorem room_messages_are_subscribed:
  assumes "room_moreMessages s m (r, cx) = (True, r', cx')"
  shows "msg_type m \<in> set GameRoomHandler_messages"
  using assms by (cases m) (simp_all add: room_moreMessages_def msg_type_def GameRoomHandler_messages_def)

lemma connection_keeps_room:
  assumes "room_ok rc r"
  shows "room_ok rc (fst (room_onConnect p (r, cx)))" and "room_ok rc (fst (room_onDisconnect p (r, cx)))"
proof -
  have "av_playerId a = p" if "getAvatar p r = Some a" for a using assms that by (simp add: room_ok_def getAvatar_def)
  then show "room_ok rc (fst (room_onConnect p (r, cx)))" and "room_ok rc (fst (room_onDisconnect p (r, cx)))"
    using assms replace_avatar_ok(1)[OF assms, of p]
    by (auto simp: room_onConnect_def room_onDisconnect_def getAvatar_def Let_def split: option.split prod.split)
qed

text \<open>C29: A room stays well formed: a new room of at most 20 seats is, and connecting, disconnecting,
  any message, kicking one player and kicking all keep it so. Kicking a player removes the
  avatar, kicking all removes every avatar and leaves the spectators.\<close>
theorem room_stays_well_formed:
  assumes "rc_ok rc" and "n \<le> 20" and "cat = RoomCategoryB \<longrightarrow> \<not> rc_enableSpectator rc" and "room_ok rc r"
    and "um_find (sv_heap sv) a = Some v" and "ve_game v = r"
  shows "room_ok rc (GameRoom_new n cat)
    \<and> room_ok rc (fst (room_onConnect p (r, cx))) \<and> room_ok rc (fst (room_onDisconnect p (r, cx)))
    \<and> (\<forall>s m handled r' cx'. room_moreMessages s m (r, cx) = (handled, r', cx') \<longrightarrow> room_ok rc r')
    \<and> (\<forall>sv'. kickAvatar e rc now a p sv = Some sv' \<longrightarrow>
          (\<exists>r'. um_find (sv_heap sv') a = Some (v\<lparr>ve_game := r'\<rparr>) \<and> room_ok rc r' \<and> getAvatar p r' = None))
    \<and> (\<forall>sv'. kickAllAvatars e rc now a sv = Some sv' \<longrightarrow>
          (\<exists>r'. um_find (sv_heap sv') a = Some (v\<lparr>ve_game := r'\<rparr>) \<and> room_ok rc r' \<and> gr_allAvatars r' = []
             \<and> gr_spectators r' = gr_spectators r))"
  using GameRoom_new_ok[OF assms(1-3)] connection_keeps_room[OF assms(4), of p cx] message_keeps_room[where r = r and cx = cx]
    kickAvatar_game[OF assms(5), of rc e now p] kickAll_game[OF assms(5), of rc e now] assms(4,6)
  by blast

theorem room_stays_well_formed_witness:
  "room_ok (demo_rc False) (GameRoom_new 4 RoomCategoryB)
   \<and> room_ok (demo_rc False) (fst (room_onConnect ''p1'' (GameRoom_new 2 RoomCategoryA, demo_cx)))"
proof -
  have r: "room_ok (demo_rc False) (GameRoom_new 2 RoomCategoryA)" by (rule GameRoom_new_ok[OF demo_rc_ok]) simp_all
  obtain v where v: "um_find (sv_heap demo_room_server) 0 = Some v" "ve_game v = GameRoom_new 2 RoomCategoryA"
    by (simp add: demo_room_server_def Venue_new_def)
  have "RoomCategoryB = RoomCategoryB \<longrightarrow> \<not> rc_enableSpectator (demo_rc False)" by (simp add: demo_rc_def)
  from room_stays_well_formed[OF demo_rc_ok _ this r v, of 4 "''p1''" demo_cx] show ?thesis by simp
qed

end
