(* ===== verification/Room_Distances.thy ===== *)
theory Room_Distances
  imports Game_Room
begin

text \<open>
  The distances between the players of a room, \<open>Game/GameRoom.cpp\<close>: a client reports its position
  and the room updates the distances of that seat to the others in an array with one entry for every
  pair of seats.

  The position of an avatar is kept beside the room, by player id; an avatar without an entry has the
  position its constructor sets. The class of a room decides which array it has and which entry
  belongs to a pair of seats (\<open>getDistances\<close>, \<open>getDistanceIndex\<close>); \<open>GameRoom\<close> itself has none.
  \<open>real64Equals\<close> and \<open>calcGeoDistance\<close> are declared nowhere in the sources and so are parameters. A
  \<open>double\<close> is a rational number. \<open>None\<close> is undefined behaviour: a null pointer that is used or an
  access outside an array.
\<close>

section \<open>Positions\<close>

type_synonym geo = "rat \<times> rat \<times> rat"

type_synonym positions = "(string, geo) umap"

definition getGeolocation :: "string \<Rightarrow> positions \<Rightarrow> geo" where
  "getGeolocation playerId pos = (case um_find pos playerId of None \<Rightarrow> (0, 0, 0) | Some g \<Rightarrow> g)"

definition setGeolocation :: "string \<Rightarrow> geo \<Rightarrow> positions \<Rightarrow> positions" where
  "setGeolocation playerId g pos = um_put playerId g pos"

record geo_class =
  gc_real64Equals :: "rat \<Rightarrow> rat \<Rightarrow> bool"
  gc_calcGeoDistance :: "geo \<Rightarrow> geo \<Rightarrow> rat"
  gc_getDistanceIndex :: "int \<Rightarrow> int \<Rightarrow> int"

definition base_getDistanceIndex :: "int \<Rightarrow> int \<Rightarrow> int" where
  \<comment> \<open>\<open>GameRoom::getDistanceIndex\<close>\<close>
  "base_getDistanceIndex seat1 seat2 = - 1"

definition at_origin :: "geo_class \<Rightarrow> geo \<Rightarrow> bool" where
  "at_origin gc = (\<lambda>(lat, lon, alt). gc_real64Equals gc lat 0 \<and> gc_real64Equals gc lon 0 \<and> gc_real64Equals gc alt 0)"

definition write_distance :: "int \<Rightarrow> rat \<Rightarrow> rat list \<Rightarrow> rat list option" where
  \<comment> \<open>\<open>distances[idx] = d\<close>\<close>
  "write_distance idx d ds = (if 0 \<le> idx \<and> nat idx < length ds then Some (ds[nat idx := d]) else None)"

section \<open>The array of distances\<close>

definition calc_one :: "geo_class \<Rightarrow> geo \<Rightarrow> GameRoom \<Rightarrow> positions \<Rightarrow> int \<Rightarrow> int \<Rightarrow> rat list \<Rightarrow> rat list option" where
  \<comment> \<open>the body of the loop of \<open>calcDistances\<close>\<close>
  "calc_one gc g1 r pos seat i ds =
     (if i = seat then Some ds
      else let idx = gc_getDistanceIndex gc i seat in
           if idx > 5 then Some ds
           else case write_distance idx (- 1) ds of
                  None \<Rightarrow> None
                | Some ds1 \<Rightarrow>
                    (case getAvatar_seat i r of
                       None \<Rightarrow> Some ds1
                     | Some avatar2 \<Rightarrow>
                         let g2 = getGeolocation avatar2 pos in
                         if at_origin gc g2 then Some ds1 else write_distance idx (gc_calcGeoDistance gc g1 g2) ds1))"

fun seats_loop :: "(int \<Rightarrow> 'a \<Rightarrow> 'a option) \<Rightarrow> nat \<Rightarrow> nat \<Rightarrow> 'a \<Rightarrow> 'a option" where
  \<comment> \<open>\<open>for (int i = 0; i < _maxPlayerNums; i++)\<close>: the seat and the number of seats left\<close>
  "seats_loop f i 0 x = Some x"
| "seats_loop f i (Suc n) x = Option.bind (f (int i) x) (seats_loop f (Suc i) n)"

definition calcDistances :: "geo_class \<Rightarrow> GameRoom \<Rightarrow> positions \<Rightarrow> int \<Rightarrow> rat list \<Rightarrow> rat list option" where
  "calcDistances gc r pos seat ds =
     (case getAvatar_seat seat r of
        None \<Rightarrow> None
      | Some avatar1 \<Rightarrow>
          let g1 = getGeolocation avatar1 pos in
          if at_origin gc g1 then Some ds
          else seats_loop (calc_one gc g1 r pos seat) 0 (nat (gr_maxPlayerNums r)) ds)"

definition clear_one :: "geo_class \<Rightarrow> int \<Rightarrow> int \<Rightarrow> rat list \<Rightarrow> rat list option" where
  \<comment> \<open>the body of the loop of \<open>clearDistances\<close>\<close>
  "clear_one gc seat i ds =
     (if i = seat then Some ds
      else let idx = gc_getDistanceIndex gc i seat in
           if idx = - 1 then Some ds else write_distance idx (- 1) ds)"

definition clearDistances :: "geo_class \<Rightarrow> GameRoom \<Rightarrow> int \<Rightarrow> rat list \<Rightarrow> rat list option" where
  "clearDistances gc r seat ds = seats_loop (clear_one gc seat) 0 (nat (gr_maxPlayerNums r)) ds"

definition onPlayerGeolocation_in ::
  "geo_class \<Rightarrow> MsgPlayerGeolocation \<Rightarrow> GameRoom \<Rightarrow> positions \<times> rat list option \<Rightarrow> (positions \<times> rat list option) option" where
  \<comment> \<open>\<open>GameRoom::onPlayerGeolocation\<close> in a class whose \<open>getDistances\<close> gives the array, if any\<close>
  "onPlayerGeolocation_in gc inst r = (\<lambda>(pos, distance).
     case getAvatar (ms_playerId inst) r of
       None \<Rightarrow> Some (pos, distance)
     | Some avatar \<Rightarrow>
         (case distance of
            None \<Rightarrow> Some (pos, distance)
          | Some ds \<Rightarrow>
              let pos1 = setGeolocation (av_playerId avatar) (pg_latitude inst, pg_longitude inst, pg_altitude inst) pos in
              map_option (\<lambda>ds1. (pos1, Some ds1)) (calcDistances gc r pos1 (av_seat avatar) ds)))"

section \<open>Vocabulary of the properties\<close>

definition index_ok :: "geo_class \<Rightarrow> int \<Rightarrow> nat \<Rightarrow> bool" where
  \<comment> \<open>for that seat and \<open>n\<close> seats, the other seats have different entries of the array\<close>
  "index_ok gc seat n \<longleftrightarrow>
     (\<forall>i. 0 \<le> i \<and> i < int n \<and> i \<noteq> seat \<longrightarrow> 0 \<le> gc_getDistanceIndex gc i seat \<and> gc_getDistanceIndex gc i seat \<le> 5) \<and>
     (\<forall>i j. 0 \<le> i \<and> i < int n \<and> i \<noteq> seat \<and> 0 \<le> j \<and> j < int n \<and> j \<noteq> seat \<and>
        gc_getDistanceIndex gc i seat = gc_getDistanceIndex gc j seat \<longrightarrow> i = j)"

definition seat_distance :: "geo_class \<Rightarrow> geo \<Rightarrow> GameRoom \<Rightarrow> positions \<Rightarrow> int \<Rightarrow> rat" where
  \<comment> \<open>the distance to a seat, \<open>-1\<close> when nobody sits there or the position is not known\<close>
  "seat_distance gc g1 r pos i =
     (case getAvatar_seat i r of
        None \<Rightarrow> - 1
      | Some p \<Rightarrow> if at_origin gc (getGeolocation p pos) then - 1 else gc_calcGeoDistance gc g1 (getGeolocation p pos))"

definition demo_geo :: geo_class where
  \<comment> \<open>four seats, six pairs; the distance is measured along the three axes\<close>
  "demo_geo = \<lparr>gc_real64Equals = (=), gc_calcGeoDistance = (\<lambda>(a, b, c) (x, y, z). \<bar>a - x\<bar> + \<bar>b - y\<bar> + \<bar>c - z\<bar>),
     gc_getDistanceIndex = (\<lambda>i j. let a = min i j; b = max i j in if a = 0 then b - 1 else a + b)\<rparr>"

definition demo_geo_room :: GameRoom where
  "demo_geo_room = (GameRoom_new 4 RoomCategoryA)\<lparr>gr_avatarSeats := [Some ''a'', Some ''b'', None, Some ''d''] @ replicate 16 None,
     gr_allAvatars := [(''a'', (GameAvatar_new ''a'' False)\<lparr>av_seat := 0\<rparr>), (''b'', (GameAvatar_new ''b'' False)\<lparr>av_seat := 1\<rparr>),
       (''d'', (GameAvatar_new ''d'' False)\<lparr>av_seat := 3\<rparr>)]\<rparr>"

section \<open>Loops over the seats\<close>

lemma seats_loop_writes:
  fixes v :: "int \<Rightarrow> 'v"
  assumes body: "\<And>i ds. i0 \<le> i \<Longrightarrow> i < i0 + n \<Longrightarrow> length ds = len \<Longrightarrow>
      f (int i) ds = Some (if P (int i) then ds[idx (int i) := v (int i)] else ds)"
    and range: "\<And>i. i0 \<le> i \<Longrightarrow> i < i0 + n \<Longrightarrow> P (int i) \<Longrightarrow> idx (int i) < len"
    and inj: "\<And>i j. i0 \<le> i \<Longrightarrow> i < i0 + n \<Longrightarrow> i0 \<le> j \<Longrightarrow> j < i0 + n \<Longrightarrow> P (int i) \<Longrightarrow> P (int j)
      \<Longrightarrow> idx (int i) = idx (int j) \<Longrightarrow> i = j"
    and len: "length ds = len"
  shows "\<exists>ds'. seats_loop f i0 n ds = Some ds' \<and> length ds' = len
    \<and> (\<forall>i. i0 \<le> i \<and> i < i0 + n \<and> P (int i) \<longrightarrow> ds' ! idx (int i) = v (int i))
    \<and> (\<forall>k. (\<forall>i. i0 \<le> i \<and> i < i0 + n \<and> P (int i) \<longrightarrow> idx (int i) \<noteq> k) \<longrightarrow> ds' ! k = ds ! k)"
  using assms
proof (induction n arbitrary: i0 ds)
  case 0
  then show ?case by auto
next
  case (Suc n)
  let ?ds = "if P (int i0) then ds[idx (int i0) := v (int i0)] else ds"
  have f: "f (int i0) ds = Some ?ds" using Suc.prems(1)[of i0 ds] Suc.prems(4) by simp
  have "\<exists>ds'. seats_loop f (Suc i0) n ?ds = Some ds' \<and> length ds' = len
    \<and> (\<forall>i. Suc i0 \<le> i \<and> i < Suc i0 + n \<and> P (int i) \<longrightarrow> ds' ! idx (int i) = v (int i))
    \<and> (\<forall>k. (\<forall>i. Suc i0 \<le> i \<and> i < Suc i0 + n \<and> P (int i) \<longrightarrow> idx (int i) \<noteq> k) \<longrightarrow> ds' ! k = ?ds ! k)"
    using Suc.prems by (intro Suc.IH) auto
  then obtain ds' where l: "seats_loop f (Suc i0) n ?ds = Some ds'" "length ds' = len"
    and w: "\<And>i. Suc i0 \<le> i \<Longrightarrow> i < Suc i0 + n \<Longrightarrow> P (int i) \<Longrightarrow> ds' ! idx (int i) = v (int i)"
    and u: "\<And>k. \<forall>i. Suc i0 \<le> i \<and> i < Suc i0 + n \<and> P (int i) \<longrightarrow> idx (int i) \<noteq> k \<Longrightarrow> ds' ! k = ?ds ! k"
    by blast
  have first: "ds' ! idx (int i0) = v (int i0)" if "P (int i0)"
  proof -
    have "\<forall>i. Suc i0 \<le> i \<and> i < Suc i0 + n \<and> P (int i) \<longrightarrow> idx (int i) \<noteq> idx (int i0)"
    proof (intro allI impI notI)
      fix i assume i: "Suc i0 \<le> i \<and> i < Suc i0 + n \<and> P (int i)" and e: "idx (int i) = idx (int i0)"
      then show False using Suc.prems(3)[of i i0] that by simp
    qed
    then show ?thesis using u[of "idx (int i0)"] that Suc.prems(2)[of i0] Suc.prems(4) by simp
  qed
  have written: "ds' ! idx (int i) = v (int i)" if "i0 \<le> i" "i < i0 + Suc n" "P (int i)" for i
    using that first w[of i] by (cases "i = i0") auto
  have "ds' ! k = ds ! k" if "\<forall>i. i0 \<le> i \<and> i < i0 + Suc n \<and> P (int i) \<longrightarrow> idx (int i) \<noteq> k" for k
    using u[of k] that by auto
  with f l written show ?case by auto
qed

lemma index_bounds:
  assumes "index_ok gc seat n" and "0 \<le> i" and "i < int n" and "i \<noteq> seat"
  shows "0 \<le> gc_getDistanceIndex gc i seat \<and> gc_getDistanceIndex gc i seat \<le> 5"
  using assms unfolding index_ok_def by blast

lemma index_unique:
  assumes "index_ok gc seat n" and "0 \<le> i" and "i < int n" and "i \<noteq> seat" and "0 \<le> j" and "j < int n" and "j \<noteq> seat"
    and "gc_getDistanceIndex gc i seat = gc_getDistanceIndex gc j seat"
  shows "i = j"
  using assms unfolding index_ok_def by blast

lemma calc_one_write:
  assumes "index_ok gc seat n" and "0 \<le> i" and "i < int n" and "length ds = 6"
  shows "calc_one gc g1 r pos seat i ds =
    Some (if i \<noteq> seat then ds[nat (gc_getDistanceIndex gc i seat) := seat_distance gc g1 r pos i] else ds)"
proof (cases "i = seat")
  case False
  then have "0 \<le> gc_getDistanceIndex gc i seat" "gc_getDistanceIndex gc i seat \<le> 5"
    using index_bounds[OF assms(1-3) False] by auto
  then show ?thesis using False assms(4)
    by (simp add: calc_one_def write_distance_def seat_distance_def Let_def nat_less_iff split: option.split)
qed (simp add: calc_one_def)

lemma clear_one_write:
  assumes "index_ok gc seat n" and "0 \<le> i" and "i < int n" and "length ds = 6"
  shows "clear_one gc seat i ds = Some (if i \<noteq> seat then ds[nat (gc_getDistanceIndex gc i seat) := - 1] else ds)"
proof (cases "i = seat")
  case False
  then have "0 \<le> gc_getDistanceIndex gc i seat" "gc_getDistanceIndex gc i seat \<le> 5"
    using index_bounds[OF assms(1-3) False] by auto
  then show ?thesis using False assms(4)
    by (simp add: clear_one_def write_distance_def Let_def nat_less_iff)
qed (simp add: clear_one_def)

lemma index_range: "index_ok gc seat n \<Longrightarrow> 0 \<le> i \<Longrightarrow> i < int n \<Longrightarrow> i \<noteq> seat \<Longrightarrow> nat (gc_getDistanceIndex gc i seat) < 6"
  using index_bounds[of gc seat n i] by arith

lemma index_inj:
  assumes ok: "index_ok gc seat n" and "i < n" and "j < n" and "int i \<noteq> seat" and "int j \<noteq> seat"
    and "nat (gc_getDistanceIndex gc (int i) seat) = nat (gc_getDistanceIndex gc (int j) seat)"
  shows "i = j"
proof -
  have "0 \<le> gc_getDistanceIndex gc (int i) seat" "0 \<le> gc_getDistanceIndex gc (int j) seat"
    using index_bounds[OF ok, of "int i"] index_bounds[OF ok, of "int j"] assms(2-5) by auto
  then have "gc_getDistanceIndex gc (int i) seat = gc_getDistanceIndex gc (int j) seat"
    using assms(6) by (simp add: eq_nat_nat_iff)
  then show ?thesis using index_unique[OF ok, of "int i" "int j"] assms(2-5) by simp
qed

lemma pair_loop:
  assumes ok: "index_ok gc seat n" and len: "length ds = 6"
    and body: "\<And>i ds. 0 \<le> i \<Longrightarrow> i < int n \<Longrightarrow> length ds = 6 \<Longrightarrow>
      f i ds = Some (if i \<noteq> seat then ds[nat (gc_getDistanceIndex gc i seat) := v i] else ds)"
  shows "\<exists>ds'. seats_loop f 0 n ds = Some ds' \<and> length ds' = 6
    \<and> (\<forall>i. 0 \<le> i \<and> i < int n \<and> i \<noteq> seat \<longrightarrow> ds' ! nat (gc_getDistanceIndex gc i seat) = v i)
    \<and> (\<forall>k. (\<forall>i. 0 \<le> i \<and> i < int n \<and> i \<noteq> seat \<longrightarrow> nat (gc_getDistanceIndex gc i seat) \<noteq> k) \<longrightarrow> ds' ! k = ds ! k)"
proof -
  have "\<exists>ds'. seats_loop f 0 n ds = Some ds' \<and> length ds' = 6
    \<and> (\<forall>i. 0 \<le> i \<and> i < 0 + n \<and> int i \<noteq> seat \<longrightarrow> ds' ! nat (gc_getDistanceIndex gc (int i) seat) = v (int i))
    \<and> (\<forall>k. (\<forall>i. 0 \<le> i \<and> i < 0 + n \<and> int i \<noteq> seat \<longrightarrow> nat (gc_getDistanceIndex gc (int i) seat) \<noteq> k) \<longrightarrow> ds' ! k = ds ! k)"
    using len
  proof (rule seats_loop_writes[where P = "\<lambda>i. i \<noteq> seat" and idx = "\<lambda>i. nat (gc_getDistanceIndex gc i seat)", rotated 3])
    show "f (int i) es = Some (if int i \<noteq> seat then es[nat (gc_getDistanceIndex gc (int i) seat) := v (int i)] else es)"
      if "i < 0 + n" and "length es = 6" for i es
      using that by (intro body) auto
    show "nat (gc_getDistanceIndex gc (int i) seat) < 6" if "i < 0 + n" and "int i \<noteq> seat" for i
      using that by (intro index_range[OF ok]) auto
    show "i = j" if "i < 0 + n" and "j < 0 + n" and "int i \<noteq> seat" and "int j \<noteq> seat"
      and "nat (gc_getDistanceIndex gc (int i) seat) = nat (gc_getDistanceIndex gc (int j) seat)" for i j
      using index_inj[OF ok, of i j] that by simp
  qed
  then have "\<exists>ds'. seats_loop f 0 n ds = Some ds' \<and> length ds' = 6
    \<and> (\<forall>i. i < n \<and> int i \<noteq> seat \<longrightarrow> ds' ! nat (gc_getDistanceIndex gc (int i) seat) = v (int i))
    \<and> (\<forall>k. (\<forall>i. i < n \<and> int i \<noteq> seat \<longrightarrow> nat (gc_getDistanceIndex gc (int i) seat) \<noteq> k) \<longrightarrow> ds' ! k = ds ! k)"
    by simp
  then obtain ds' where l: "seats_loop f 0 n ds = Some ds'" "length ds' = 6"
    and w: "\<And>i. i < n \<Longrightarrow> int i \<noteq> seat \<Longrightarrow> ds' ! nat (gc_getDistanceIndex gc (int i) seat) = v (int i)"
    and u: "\<And>k. \<forall>i. i < n \<and> int i \<noteq> seat \<longrightarrow> nat (gc_getDistanceIndex gc (int i) seat) \<noteq> k \<Longrightarrow> ds' ! k = ds ! k"
    by blast
  have "ds' ! nat (gc_getDistanceIndex gc i seat) = v i" if "0 \<le> i" "i < int n" "i \<noteq> seat" for i
    using w[of "nat i"] that by simp
  moreover have "ds' ! k = ds ! k" if "\<forall>i. 0 \<le> i \<and> i < int n \<and> i \<noteq> seat \<longrightarrow> nat (gc_getDistanceIndex gc i seat) \<noteq> k" for k
    using that by (intro u) simp
  ultimately show ?thesis using l by blast
qed

section \<open>Properties\<close>

lemma no_array_no_distances: "onPlayerGeolocation_in gc inst r (pos, None) = Some (pos, None)"
  by (simp add: onPlayerGeolocation_in_def split: option.split)

text \<open>A room that has the array of distances keeps it up to date: when a seated player reports a
  position that is not the origin, the call is safe, the entry of every other seat becomes the
  distance to the player there, or \<open>-1\<close> when the seat is free or the position of its player is not
  known, and no other entry changes.\<close>
theorem position_updates_distances:
  assumes "getAvatar (ms_playerId inst) r = Some a" and "av_playerId a = ms_playerId inst"
    and "getAvatar_seat (av_seat a) r = Some (ms_playerId inst)"
    and "\<not> at_origin gc (pg_latitude inst, pg_longitude inst, pg_altitude inst)"
    and "index_ok gc (av_seat a) (nat (gr_maxPlayerNums r))" and "length ds = 6"
  shows "\<exists>pos' ds'. onPlayerGeolocation_in gc inst r (pos, Some ds) = Some (pos', Some ds') \<and> length ds' = 6
    \<and> getGeolocation (ms_playerId inst) pos' = (pg_latitude inst, pg_longitude inst, pg_altitude inst)
    \<and> (\<forall>i. 0 \<le> i \<and> i < int (nat (gr_maxPlayerNums r)) \<and> i \<noteq> av_seat a \<longrightarrow>
          ds' ! nat (gc_getDistanceIndex gc i (av_seat a)) =
            seat_distance gc (pg_latitude inst, pg_longitude inst, pg_altitude inst) r pos' i)
    \<and> (\<forall>k. (\<forall>i. 0 \<le> i \<and> i < int (nat (gr_maxPlayerNums r)) \<and> i \<noteq> av_seat a \<longrightarrow>
          nat (gc_getDistanceIndex gc i (av_seat a)) \<noteq> k) \<longrightarrow> ds' ! k = ds ! k)"
proof -
  let ?g = "(pg_latitude inst, pg_longitude inst, pg_altitude inst)"
  let ?pos = "setGeolocation (ms_playerId inst) ?g pos"
  have g: "getGeolocation (ms_playerId inst) ?pos = ?g"
    by (simp add: getGeolocation_def setGeolocation_def container_simps)
  have "calcDistances gc r ?pos (av_seat a) ds =
      seats_loop (calc_one gc ?g r ?pos (av_seat a)) 0 (nat (gr_maxPlayerNums r)) ds"
    using assms(3,4) g by (simp add: calcDistances_def Let_def)
  then have "onPlayerGeolocation_in gc inst r (pos, Some ds) =
      map_option (\<lambda>ds1. (?pos, Some ds1)) (seats_loop (calc_one gc ?g r ?pos (av_seat a)) 0 (nat (gr_maxPlayerNums r)) ds)"
    using assms(1,2) by (simp add: onPlayerGeolocation_in_def Let_def)
  moreover obtain ds' where "seats_loop (calc_one gc ?g r ?pos (av_seat a)) 0 (nat (gr_maxPlayerNums r)) ds = Some ds'" "length ds' = 6"
    "\<forall>i. 0 \<le> i \<and> i < int (nat (gr_maxPlayerNums r)) \<and> i \<noteq> av_seat a \<longrightarrow>
       ds' ! nat (gc_getDistanceIndex gc i (av_seat a)) = seat_distance gc ?g r ?pos i"
    "\<forall>k. (\<forall>i. 0 \<le> i \<and> i < int (nat (gr_maxPlayerNums r)) \<and> i \<noteq> av_seat a \<longrightarrow>
       nat (gc_getDistanceIndex gc i (av_seat a)) \<noteq> k) \<longrightarrow> ds' ! k = ds ! k"
    using pair_loop[OF assms(5,6) calc_one_write[OF assms(5), where ?g1.0 = ?g and r = r and pos = ?pos]] by blast
  ultimately show ?thesis using g by (intro exI[of _ ?pos] exI[of _ ds'] conjI) simp_all
qed

lemma demo_index: "index_ok demo_geo 0 4"
proof -
  have "gc_getDistanceIndex demo_geo i 0 = i - 1" if "0 \<le> i" "i \<noteq> 0" for i
    using that by (simp add: demo_geo_def Let_def)
  then show ?thesis unfolding index_ok_def by fastforce
qed

lemma demo_seats: "getAvatar_seat 0 demo_geo_room = Some ''a''" "getAvatar_seat 1 demo_geo_room = Some ''b''"
  by (simp_all add: demo_geo_room_def getAvatar_seat_def seat_at_def MAX_SEAT_NUMS_def GameRoom_new_def)

theorem position_updates_distances_witness:
  "\<exists>pos' ds'. onPlayerGeolocation_in demo_geo
      \<lparr>ms_playerId = ''a'', ms_timestamp = [], ms_nonce = [], ms_signature = [], vi_venueId = ''v'',
       pg_latitude = 1, pg_longitude = 2, pg_altitude = 3\<rparr>
      demo_geo_room ([(''b'', (4, 2, 3))], Some [0, 0, 0, 0, 0, 0]) = Some (pos', Some ds')
    \<and> ds' ! 0 = seat_distance demo_geo (1, 2, 3) demo_geo_room pos' 1"
proof -
  let ?inst = "\<lparr>ms_playerId = ''a'', ms_timestamp = [], ms_nonce = [], ms_signature = [], vi_venueId = ''v'',
       pg_latitude = 1, pg_longitude = 2, pg_altitude = 3\<rparr>"
  let ?a = "(GameAvatar_new ''a'' False)\<lparr>av_seat := 0\<rparr>"
  have n: "nat (gr_maxPlayerNums demo_geo_room) = 4" by (simp add: demo_geo_room_def GameRoom_new_def)
  have i: "nat (gc_getDistanceIndex demo_geo 1 0) = 0" by (simp add: demo_geo_def)
  obtain pos' ds' where "onPlayerGeolocation_in demo_geo ?inst demo_geo_room ([(''b'', (4, 2, 3))], Some [0, 0, 0, 0, 0, 0]) = Some (pos', Some ds')"
    and "\<forall>i. 0 \<le> i \<and> i < int 4 \<and> i \<noteq> 0 \<longrightarrow>
       ds' ! nat (gc_getDistanceIndex demo_geo i 0) = seat_distance demo_geo (1, 2, 3) demo_geo_room pos' i"
    using position_updates_distances[of ?inst demo_geo_room ?a demo_geo "[0, 0, 0, 0, 0, 0]" "[(''b'', (4, 2, 3))]"]
      demo_index demo_seats(1) unfolding n
    by (auto simp: demo_geo_room_def GameAvatar_new_def getAvatar_def at_origin_def demo_geo_def)
  moreover from this(2) have "ds' ! nat (gc_getDistanceIndex demo_geo 1 0) = seat_distance demo_geo (1, 2, 3) demo_geo_room pos' 1"
    by (elim allE[of _ 1]) simp
  ultimately show ?thesis unfolding i by blast
qed

text \<open>In a class that does not override \<open>getDistanceIndex\<close> the index is \<open>-1\<close>, which
  \<open>clearDistances\<close> tests for but \<open>calcDistances\<close> does not: with two seats or more, computing the
  distances of a player whose position is known writes before the array.\<close>
theorem base_index_writes_outside:
  assumes "gc_getDistanceIndex gc = base_getDistanceIndex" and "getAvatar_seat seat r = Some p"
    and "\<not> at_origin gc (getGeolocation p pos)" and "gr_maxPlayerNums r \<ge> 2"
  shows "calcDistances gc r pos seat ds = None \<and> clearDistances gc r seat ds = Some ds"
proof -
  have one: "calc_one gc g r pos st i ds = (if i = st then Some ds else None)" for g st i
    by (simp add: calc_one_def assms(1) base_getDistanceIndex_def write_distance_def Let_def)
  obtain n where n: "nat (gr_maxPlayerNums r) = Suc (Suc n)"
    using assms(4) by (intro that[of "nat (gr_maxPlayerNums r) - 2"]) arith
  have "clear_one gc seat i ds = Some ds" for i ds
    by (simp add: clear_one_def assms(1) base_getDistanceIndex_def Let_def)
  then have "seats_loop (clear_one gc seat) i m ds = Some ds" for i m
    by (induction m arbitrary: i) simp_all
  moreover have "calcDistances gc r pos seat ds = None"
    using assms(2,3) by (simp add: calcDistances_def Let_def n one split: Option.bind_split)
  ultimately show ?thesis by (simp add: clearDistances_def)
qed

theorem base_index_writes_outside_witness:
  "calcDistances (demo_geo\<lparr>gc_getDistanceIndex := base_getDistanceIndex\<rparr>) demo_geo_room [(''a'', (1, 2, 3))] 0 [0, 0, 0, 0, 0, 0] = None"
  by (rule conjunct1[OF base_index_writes_outside[where p = "''a''"]])
    (simp_all add: demo_seats at_origin_def demo_geo_def getGeolocation_def, simp add: demo_geo_room_def GameRoom_new_def)

end
