(* ===== verification/Debt_Liquidation.thy ===== *)
theory Debt_Liquidation
  imports Prelude Complex_Main
begin

text \<open>
  The clearing of debts among the players of a game, \<open>Game/DebtLiquidation.cpp\<close>: nodes with a
  capital and a sheet of debts (positive: owed, negative: to be received), and the recursive
  liquidation of a net of such nodes.

  A pointer to a node is represented by the node's id: a net maps ids to nodes, and the nodes
  of the sub-net that the liquidation allocates form a net of their own. A \<open>double\<close> is a rational
  number: rounding is not modelled. An iteration over an unordered map is one over a list in
  some order. Printing a net is not modelled.
\<close>

section \<open>Nodes\<close>

record DebtNode =
  dn_capital :: rat
  dn_debtSheet :: "(int, rat) umap"

type_synonym debt_net = "(int, DebtNode) umap"

definition DebtNode_new :: "rat \<Rightarrow> DebtNode" where
  "DebtNode_new capital = \<lparr>dn_capital = capital, dn_debtSheet = []\<rparr>"

definition at_node :: "int \<Rightarrow> (DebtNode \<Rightarrow> DebtNode) \<Rightarrow> debt_net \<Rightarrow> debt_net" where
  \<comment> \<open>a method called through the pointer to a node\<close>
  "at_node k f m = (case um_find m k of None \<Rightarrow> m | Some n \<Rightarrow> um_put k (f n) m)"

definition getCapital :: "int \<Rightarrow> debt_net \<Rightarrow> rat" where
  "getCapital k m = (case um_find m k of None \<Rightarrow> 0 | Some n \<Rightarrow> dn_capital n)"

definition getDebtSheet :: "int \<Rightarrow> debt_net \<Rightarrow> (int, rat) umap" where
  "getDebtSheet k m = (case um_find m k of None \<Rightarrow> [] | Some n \<Rightarrow> dn_debtSheet n)"

definition setCapital :: "int \<Rightarrow> rat \<Rightarrow> debt_net \<Rightarrow> debt_net" where
  "setCapital k c m = at_node k (\<lambda>n. n\<lparr>dn_capital := c\<rparr>) m"

definition addCapital :: "int \<Rightarrow> rat \<Rightarrow> debt_net \<Rightarrow> debt_net" where
  "addCapital k c m = at_node k (\<lambda>n. n\<lparr>dn_capital := dn_capital n + c\<rparr>) m"

definition tally :: "int \<Rightarrow> int \<Rightarrow> rat \<Rightarrow> debt_net \<Rightarrow> debt_net" where
  "tally k node amount m =
     at_node k (\<lambda>n. n\<lparr>dn_debtSheet :=
        (case um_find (dn_debtSheet n) node of
           Some x \<Rightarrow> um_put node (x + amount) (dn_debtSheet n)
         | None \<Rightarrow> um_insert node amount (dn_debtSheet n))\<rparr>) m"

definition receipt :: "int \<Rightarrow> int \<Rightarrow> debt_net \<Rightarrow> bool \<times> debt_net" where
  "receipt k node m =
     (case um_find m k of
        None \<Rightarrow> (False, m)
      | Some n \<Rightarrow>
          (case um_find (dn_debtSheet n) node of
             None \<Rightarrow> (False, m)
           | Some x \<Rightarrow>
               if x > 0 then (False, m)
               else (True, um_put k (n\<lparr>dn_capital := dn_capital n - x,
                                      dn_debtSheet := um_erase node (dn_debtSheet n)\<rparr>) m)))"

definition paid :: "int \<Rightarrow> int \<Rightarrow> rat \<Rightarrow> debt_net \<Rightarrow> debt_net" where
  \<comment> \<open>\<open>_capital -= it->second; _debtSheet.erase(it)\<close>\<close>
  "paid k node x m =
     at_node k (\<lambda>n. n\<lparr>dn_capital := dn_capital n - x, dn_debtSheet := um_erase node (dn_debtSheet n)\<rparr>) m"

fun repay_loop :: "int \<Rightarrow> (int, rat) umap \<Rightarrow> debt_net \<Rightarrow> debt_net" where
  \<comment> \<open>the loop of \<open>repayAll\<close> over the entries from the iterator on\<close>
  "repay_loop k [] m = m"
| "repay_loop k ((node, x) # es) m =
     (if x > 0
      then case receipt node k m of
             (True, m1) \<Rightarrow> repay_loop k es (paid k node x m1)
           | (False, m1) \<Rightarrow> repay_loop k es m1
      else repay_loop k es m)"

definition repayAll :: "int \<Rightarrow> debt_net \<Rightarrow> debt_net" where
  "repayAll k m = repay_loop k (getDebtSheet k m) m"

definition repay :: "int \<Rightarrow> int \<Rightarrow> debt_net \<Rightarrow> bool \<times> debt_net" where
  "repay k node m =
     (case um_find (getDebtSheet k m) node of
        None \<Rightarrow> (False, m)
      | Some x \<Rightarrow>
          if x < 0 then (False, m)
          else case receipt node k m of
                 (True, m1) \<Rightarrow> (True, paid k node x m1)
               | (False, m1) \<Rightarrow> (True, m1))"

definition node_erase :: "int \<Rightarrow> int \<Rightarrow> debt_net \<Rightarrow> debt_net" where
  "node_erase k node m = at_node k (\<lambda>n. n\<lparr>dn_debtSheet := um_erase node (dn_debtSheet n)\<rparr>) m"

fun erase_loop :: "int \<Rightarrow> debt_net \<Rightarrow> (int, rat) umap \<Rightarrow> debt_net \<Rightarrow> debt_net" where
  "erase_loop k debtNet [] m = m"
| "erase_loop k debtNet ((node, x) # es) m =
     erase_loop k debtNet es
       (if um_find debtNet node \<noteq> None then node_erase node k (node_erase k node m) else m)"

definition node_erase_net :: "int \<Rightarrow> debt_net \<Rightarrow> debt_net \<Rightarrow> debt_net" where
  "node_erase_net k debtNet m = erase_loop k debtNet (getDebtSheet k m) m"

definition getDebt :: "int \<Rightarrow> debt_net \<Rightarrow> rat" where
  "getDebt k m = sum_list (map snd (getDebtSheet k m))"

section \<open>Liquidation\<close>

definition positive_nodes :: "debt_net \<Rightarrow> int list" where
  "positive_nodes m = filter (\<lambda>k. getDebt k m < 0) (map fst m)"

definition negative_nodes :: "debt_net \<Rightarrow> int list" where
  "negative_nodes m = filter (\<lambda>k. \<not> getDebt k m < 0) (map fst m)"

fun repay_nodes :: "int list \<Rightarrow> debt_net \<Rightarrow> debt_net" where
  "repay_nodes [] m = m"
| "repay_nodes (k # ks) m = repay_nodes ks (repayAll k m)"

fun copy_sheet :: "int \<Rightarrow> (int, rat) umap \<Rightarrow> bool \<times> debt_net \<Rightarrow> bool \<times> debt_net" where
  \<comment> \<open>the inner loop that copies the debts among the nodes of the sub-net\<close>
  "copy_sheet k [] s = s"
| "copy_sheet k ((node, x) # es) (test, sub) =
     copy_sheet k es (if um_find sub node \<noteq> None then (True, tally k node x sub) else (test, sub))"

fun copy_nodes :: "debt_net \<Rightarrow> int list \<Rightarrow> bool \<times> debt_net \<Rightarrow> (bool \<times> debt_net) option" where
  "copy_nodes m [] s = Some s"
| "copy_nodes m (k # ks) (test, sub) =
     (if um_find sub k = None then None else copy_nodes m ks (copy_sheet k (getDebtSheet k m) (test, sub)))"

definition sub_net :: "int list \<Rightarrow> debt_net \<Rightarrow> (bool \<times> debt_net) option" where
  "sub_net ks m = copy_nodes m ks (False, map (\<lambda>k. (k, DebtNode_new (getCapital k m))) ks)"

fun adopt_nodes :: "debt_net \<Rightarrow> int list \<Rightarrow> debt_net \<Rightarrow> debt_net option" where
  \<comment> \<open>capitals are taken over from the liquidated sub-net and its debts erased\<close>
  "adopt_nodes sub [] m = Some m"
| "adopt_nodes sub (k # ks) m =
     (if um_find sub k = None then None
      else adopt_nodes sub ks (node_erase_net k sub (setCapital k (getCapital k sub) m)))"

fun share_loop :: "int \<Rightarrow> rat \<Rightarrow> rat \<Rightarrow> (int, rat) umap \<Rightarrow> debt_net \<Rightarrow> debt_net" where
  \<comment> \<open>the payment of a share to each creditor\<close>
  "share_loop k debt cap [] m = m"
| "share_loop k debt cap ((node, x) # es) m =
     share_loop k debt cap es
       (node_erase node k (if debt > 0 then addCapital node (cap * x / debt) m else m))"

definition settle :: "int \<Rightarrow> debt_net \<Rightarrow> debt_net" where
  "settle k m =
     (let debt = getDebt k m; cap = getCapital k m
      in if debt > cap
         then at_node k (\<lambda>n. n\<lparr>dn_capital := 0, dn_debtSheet := []\<rparr>) (share_loop k debt cap (getDebtSheet k m) m)
         else repayAll k m)"

fun settle_nodes :: "int list \<Rightarrow> debt_net \<Rightarrow> debt_net" where
  "settle_nodes [] m = m"
| "settle_nodes (k # ks) m = settle_nodes ks (settle k m)"

function liquidate :: "debt_net \<Rightarrow> bool \<times> debt_net" where
  "liquidate m =
     (if m = [] then (True, m)
      else if positive_nodes m = [] then (True, m)
      else let ks = negative_nodes m; m1 = repay_nodes (positive_nodes m) m
           in case sub_net ks m1 of
                None \<Rightarrow> (False, m1)
              | Some (False, sub) \<Rightarrow> (True, settle_nodes ks m1)
              | Some (True, sub) \<Rightarrow>
                  (case liquidate sub of
                     (False, sub1) \<Rightarrow> (False, m1)
                   | (True, sub1) \<Rightarrow>
                       (case adopt_nodes sub1 ks m1 of
                          None \<Rightarrow> (False, m1)
                        | Some m2 \<Rightarrow> (True, settle_nodes ks m2))))"
  by pat_completeness auto

termination
proof (relation "measure length", simp)
  have put: "um_find s k \<noteq> None \<Longrightarrow> length (um_put k n s) = length s" for k n and s :: debt_net
    by (induction s) auto
  then have at: "length (tally k c x s) = length s" for k c x and s :: debt_net
    by (simp add: tally_def at_node_def split: option.split)
  have sheet: "length (snd (copy_sheet k es s)) = length (snd s)" for k es and s :: "bool \<times> debt_net"
    by (induction k es s rule: copy_sheet.induct) (auto simp: at)
  have nodes: "copy_nodes m ks s = Some s' \<Longrightarrow> length (snd s') = length (snd s)" for m ks and s s' :: "bool \<times> debt_net"
  proof (induction m ks s rule: copy_nodes.induct)
    case (2 m k ks test sub)
    then show ?case using sheet[of k "getDebtSheet k m" "(test, sub)"] by (auto split: if_splits)
  qed simp
  have fewer: "length (negative_nodes m) < length m" if p: "positive_nodes m \<noteq> []" for m
  proof -
    from p obtain k where "k \<in> set (map fst m)" "getDebt k m < 0" by (auto simp: positive_nodes_def filter_empty_conv)
    then show ?thesis using length_filter_less[of k "map fst m" "\<lambda>k. \<not> getDebt k m < 0"] by (simp add: negative_nodes_def)
  qed
  have sub: "length s < length m" if "positive_nodes m \<noteq> []" "sub_net (negative_nodes m) m1 = Some (t, s)" for m m1 s t
    using fewer[OF that(1)] nodes[of m1 "negative_nodes m" _ "(t, s)"] that(2) by (fastforce simp: sub_net_def)
  fix m :: debt_net and ks m1 p t s
  assume "m \<noteq> []" "positive_nodes m \<noteq> []" "ks = negative_nodes m" "m1 = repay_nodes (positive_nodes m) m"
    "sub_net ks m1 = Some p" "(t, s) = p" "t = True"
  then show "(s, m) \<in> measure length" using sub[of m m1 t s] by auto
qed

declare liquidate.simps [simp del]

section \<open>Vocabulary of the properties\<close>

definition entry :: "debt_net \<Rightarrow> int \<Rightarrow> int \<Rightarrow> rat option" where
  "entry m k c = um_find (getDebtSheet k m) c"

definition owes :: "debt_net \<Rightarrow> int \<Rightarrow> int \<Rightarrow> rat" where
  "owes m k c = (case entry m k c of None \<Rightarrow> 0 | Some x \<Rightarrow> x)"

definition ids :: "debt_net \<Rightarrow> int set" where
  "ids m = set (map fst m)"

definition net_ok :: "debt_net \<Rightarrow> bool" where
  \<comment> \<open>double entry: what one node owes another, that one has to receive\<close>
  "net_ok m \<longleftrightarrow> um_wf m \<and>
     (\<forall>(k, n) \<in> set m. um_wf (dn_debtSheet n) \<and> (\<forall>(c, x) \<in> set (dn_debtSheet n). entry m c k = Some (- x)))"

definition worth :: "debt_net \<Rightarrow> int \<Rightarrow> rat" where
  \<comment> \<open>capital less debts, plus what is to be received\<close>
  "worth m k = getCapital k m - getDebt k m"

definition total_capital :: "debt_net \<Rightarrow> rat" where
  "total_capital m = sum_list (map (\<lambda>(k, n). dn_capital n) m)"

definition cut :: "(int \<Rightarrow> int \<Rightarrow> bool) \<Rightarrow> debt_net \<Rightarrow> debt_net \<Rightarrow> bool" where
  \<comment> \<open>the entries for which \<open>P\<close> holds are gone, the others are as they were\<close>
  "cut P m m' \<longleftrightarrow> map fst m' = map fst m \<and> (\<forall>k. um_wf (getDebtSheet k m'))
     \<and> (\<forall>k c. entry m' k c = (if P k c then None else entry m k c))"

definition inner :: "int list \<Rightarrow> debt_net \<Rightarrow> int \<Rightarrow> rat" where
  \<comment> \<open>what a node owes the nodes of a list\<close>
  "inner ks m k = (\<Sum>c\<in>set ks. owes m k c)"

definition among :: "int list \<Rightarrow> int \<Rightarrow> int \<Rightarrow> bool" where
  "among ks i j \<longleftrightarrow> i \<in> set ks \<and> j \<in> set ks"

definition round_ok :: "int list \<Rightarrow> int list \<Rightarrow> debt_net \<Rightarrow> bool" where
  \<comment> \<open>the net after the creditors \<open>ps\<close> have paid: they owe nothing, the debtors \<open>ks\<close> still do\<close>
  "round_ok ps ks m \<longleftrightarrow> net_ok m \<and> ids m = set ps \<union> set ks \<and> set ps \<inter> set ks = {} \<and> distinct ks
     \<and> (\<forall>k \<in> set ps. \<forall>c. owes m k c \<le> 0) \<and> (\<forall>k \<in> set ks. 0 \<le> getDebt k m)"

definition cleared :: "debt_net \<Rightarrow> debt_net \<Rightarrow> bool" where
  \<comment> \<open>what the liquidation of \<open>m\<close> to \<open>m'\<close> achieves\<close>
  "cleared m m' \<longleftrightarrow> map fst m' = map fst m \<and> (\<forall>k. getDebt k m' = 0)
     \<and> ((\<forall>k. 0 \<le> getCapital k m) \<longrightarrow> (\<Sum>k\<in>ids m. getCapital k m') = (\<Sum>k\<in>ids m. getCapital k m)
          \<and> (\<forall>k. 0 \<le> getDebt k m \<longrightarrow> 0 \<le> getCapital k m'))
     \<and> ((\<forall>k. 0 \<le> worth m k) \<longrightarrow> (\<forall>k. getCapital k m' = worth m k))"

definition triangle :: debt_net where
  \<comment> \<open>1 owes 100 to 2, 2 owes 60 to 3, and 3 owes 10 to 1\<close>
  "triangle =
     [(1, \<lparr>dn_capital = 100, dn_debtSheet = [(2, 100), (3, - 10)]\<rparr>),
      (2, \<lparr>dn_capital = 20, dn_debtSheet = [(1, - 100), (3, 60)]\<rparr>),
      (3, \<lparr>dn_capital = 30, dn_debtSheet = [(2, - 60), (1, 10)]\<rparr>)]"

definition bankrupt :: debt_net where
  \<comment> \<open>1 has nothing and owes 150 to 2, which has nothing and owes 100 to 3\<close>
  "bankrupt =
     [(1, \<lparr>dn_capital = 0, dn_debtSheet = [(2, 150)]\<rparr>),
      (2, \<lparr>dn_capital = 0, dn_debtSheet = [(1, - 150), (3, 100)]\<rparr>),
      (3, \<lparr>dn_capital = 0, dn_debtSheet = [(2, - 100)]\<rparr>)]"

section \<open>Reading a net\<close>

lemma at_node_find: "um_find (at_node k f m) j = (if j = k then map_option f (um_find m k) else um_find m j)"
  by (simp add: at_node_def container_simps split: option.split)

lemma at_node_keys [simp]: "map fst (at_node k f m) = map fst m"
proof -
  have "um_find m k \<noteq> None \<Longrightarrow> map fst (um_put k n m) = map fst m" for n by (induction m) auto
  then show ?thesis by (simp add: at_node_def split: option.split)
qed

lemma keys_ids: "map fst m' = map fst m \<Longrightarrow> ids m' = ids m"
  by (simp add: ids_def)

lemma find_ids: "um_find m k \<noteq> None \<longleftrightarrow> k \<in> ids m"
  using um_find_None_iff[of m k] by (auto simp: ids_def)

lemma sheet_outside: "k \<notin> ids m \<Longrightarrow> getDebtSheet k m = []"
  using find_ids[of m k] by (simp add: getDebtSheet_def)

lemma net_okI:
  assumes "um_wf m" and "\<And>k. um_wf (getDebtSheet k m)" and "\<And>k c x. entry m k c = Some x \<Longrightarrow> entry m c k = Some (- x)"
  shows "net_ok m"
proof -
  have "um_wf (dn_debtSheet n) \<and> (\<forall>(c, x) \<in> set (dn_debtSheet n). entry m c k = Some (- x))" if "(k, n) \<in> set m" for k n
  proof -
    have s: "getDebtSheet k m = dn_debtSheet n" using um_mem_find[OF assms(1) that] by (simp add: getDebtSheet_def)
    then have w: "um_wf (dn_debtSheet n)" using assms(2)[of k] by simp
    then have "entry m k c = Some x" if "(c, x) \<in> set (dn_debtSheet n)" for c x
      using that s by (simp add: entry_def)
    then show ?thesis using w assms(3) by blast
  qed
  then show ?thesis using assms(1) by (fastforce simp: net_ok_def)
qed

lemma net_okD:
  assumes "net_ok m"
  shows "um_wf m" and "um_wf (getDebtSheet k m)" and "entry m k c = Some x \<Longrightarrow> entry m c k = Some (- x)"
    and "entry m k c = Some x \<Longrightarrow> k \<in> ids m \<and> c \<in> ids m" and "entry m k k = Some x \<Longrightarrow> x = 0"
proof -
  show "um_wf m" using assms by (simp add: net_ok_def)
  show "um_wf (getDebtSheet k m)"
    using assms by (cases "um_find m k") (auto simp: getDebtSheet_def net_ok_def dest!: um_find_Some_mem)
  have sym: "entry m c k = Some (- x)" if "entry m k c = Some x" for k c x
    using that assms um_find_Some_mem[of m k]
    by (cases "um_find m k") (auto simp: entry_def getDebtSheet_def net_ok_def dest!: um_find_Some_mem)
  have dom: "k \<in> ids m" if "entry m k c = Some x" for k c x
    using that sheet_outside[of k m] by (cases "k \<in> ids m") (auto simp: entry_def)
  show "entry m k c = Some x \<Longrightarrow> entry m c k = Some (- x)" by (rule sym)
  show "entry m k c = Some x \<Longrightarrow> k \<in> ids m \<and> c \<in> ids m" using sym dom by blast
  show "entry m k k = Some x \<Longrightarrow> x = 0" using sym[of k k x] by simp
qed

lemma owes_antisym: "net_ok m \<Longrightarrow> owes m c k = - owes m k c"
  using net_okD(3)[of m k c] net_okD(3)[of m c k] by (fastforce simp: owes_def split: option.split)

lemma sum_snd_sheet:
  assumes "um_wf s" and "finite A" and "fst ` set s \<subseteq> A"
  shows "sum_list (map snd s) = (\<Sum>c\<in>A. case um_find s c of None \<Rightarrow> 0 | Some (x::rat) \<Rightarrow> x)"
  using assms(1,3)
proof (induction s)
  case (Cons e s)
  obtain c x where e: "e = (c, x)" by fastforce
  have c: "c \<in> A" "um_find s c = None" using Cons.prems e by (auto simp: um_find_None_iff)
  have "(\<Sum>d\<in>A. case um_find (e # s) d of None \<Rightarrow> 0 | Some x \<Rightarrow> x)
      = (\<Sum>d\<in>A. (case um_find s d of None \<Rightarrow> 0 | Some x \<Rightarrow> x) + (if d = c then x else 0))"
    by (rule sum.cong) (auto simp: e c)
  also have "\<dots> = (\<Sum>d\<in>A. case um_find s d of None \<Rightarrow> 0 | Some x \<Rightarrow> x) + x"
    using assms(2) c(1) by (simp add: sum.distrib)
  finally show ?case using Cons by (simp add: e)
qed simp

lemma getDebt_sum:
  assumes "net_ok m"
  shows "getDebt k m = (\<Sum>c\<in>ids m. owes m k c)"
proof -
  have "fst ` set (getDebtSheet k m) \<subseteq> ids m"
  proof
    fix c assume "c \<in> fst ` set (getDebtSheet k m)"
    then have "entry m k c \<noteq> None" by (simp add: entry_def um_find_None_iff)
    then show "c \<in> ids m" using net_okD(4)[OF assms] by blast
  qed
  then show ?thesis
    using sum_snd_sheet[OF net_okD(2)[OF assms], of "ids m" k] by (simp add: getDebt_def owes_def entry_def ids_def)
qed

lemma finite_ids [simp]: "finite (ids m)" by (simp add: ids_def)

lemma total_capital_sum: "um_wf m \<Longrightarrow> total_capital m = (\<Sum>k\<in>ids m. getCapital k m)"
proof (induction m)
  case (Cons e m)
  obtain k n where e: "e = (k, n)" by fastforce
  have "(\<Sum>j\<in>ids m. getCapital j (e # m)) = (\<Sum>j\<in>ids m. getCapital j m)"
    using Cons.prems by (intro sum.cong) (auto simp: e getCapital_def ids_def)
  then show ?case using Cons by (simp add: e total_capital_def ids_def getCapital_def)
qed (simp add: total_capital_def ids_def)

section \<open>Repaying\<close>

lemma cut_ok:
  assumes "net_ok m" and "cut P m m'" and "symp P"
  shows "net_ok m'" and "ids m' = ids m"
proof -
  show "net_ok m'"
  proof (rule net_okI)
    show "um_wf m'" using assms(1,2) net_okD(1) by (metis cut_def)
    show "um_wf (getDebtSheet k m')" for k using assms(2) by (simp add: cut_def)
    show "entry m' c k = Some (- x)" if "entry m' k c = Some x" for k c x
    proof -
      have "\<not> P k c" "entry m k c = Some x" using that assms(2) by (auto simp: cut_def split: if_splits)
      moreover from this have "\<not> P c k" using assms(3) by (auto dest: sympD)
      ultimately show ?thesis using net_okD(3)[OF assms(1), of k c x] assms(2) by (simp add: cut_def)
    qed
  qed
  show "ids m' = ids m" by (rule keys_ids) (use assms(2) in \<open>simp add: cut_def\<close>)
qed

lemma at_node_read:
  "getCapital j (at_node k f m) = (if j = k \<and> k \<in> ids m then dn_capital (f (the (um_find m k))) else getCapital j m)"
  "getDebtSheet j (at_node k f m) = (if j = k \<and> k \<in> ids m then dn_debtSheet (f (the (um_find m k))) else getDebtSheet j m)"
  using find_ids[of m k] by (auto simp: getCapital_def getDebtSheet_def at_node_find split: option.split)

lemma at_node_the:
  "k \<in> ids m \<Longrightarrow> dn_capital (the (um_find m k)) = getCapital k m"
  "k \<in> ids m \<Longrightarrow> dn_debtSheet (the (um_find m k)) = getDebtSheet k m"
  using find_ids[of m k] by (auto simp: getCapital_def getDebtSheet_def)

lemma paid_read:
  "getCapital j (paid k c x m) = getCapital j m - (if j = k \<and> k \<in> ids m then x else 0)"
  "getDebtSheet j (paid k c x m) = (if j = k then um_erase c (getDebtSheet k m) else getDebtSheet j m)"
  using sheet_outside[of k m] by (auto simp: paid_def at_node_read at_node_the)

lemma paid_keys [simp]: "map fst (paid k c x m) = map fst m"
  by (simp add: paid_def)

lemma receipt_paid:
  assumes "entry m c k = Some (- x)" and "0 < x"
  shows "receipt c k m = (True, paid c k (- x) m)"
proof -
  obtain n where "um_find m c = Some n" using assms(1) by (cases "um_find m c") (auto simp: entry_def getDebtSheet_def)
  then show ?thesis
    using assms by (simp add: receipt_def paid_def at_node_def entry_def getDebtSheet_def)
qed

lemma pay_step:
  assumes ok: "net_ok m" and e: "entry m k c = Some x" and x: "0 < x"
  defines "m' \<equiv> paid k c x (snd (receipt c k m))"
  shows "fst (receipt c k m)" and "cut (\<lambda>i j. (i = k \<and> j = c) \<or> (i = c \<and> j = k)) m m'"
    and "getCapital j m' = getCapital j m - (if j = k then x else 0) + (if j = c then x else 0)"
proof -
  have r: "receipt c k m = (True, paid c k (- x) m)" using receipt_paid[OF net_okD(3)[OF ok e] x] .
  have ids: "k \<in> ids m" "c \<in> ids m" using net_okD(4)[OF ok e] by simp_all
  have ids1: "ids (paid c k (- x) m) = ids m" by (rule keys_ids) simp
  show "fst (receipt c k m)" using r by simp
  show "getCapital j m' = getCapital j m - (if j = k then x else 0) + (if j = c then x else 0)"
    using ids ids1 by (simp add: m'_def r paid_read)
  show "cut (\<lambda>i j. (i = k \<and> j = c) \<or> (i = c \<and> j = k)) m m'"
    using net_okD(2)[OF ok]
    by (auto simp: cut_def m'_def r paid_read entry_def container_simps)
qed

lemma debt_after_cut:
  assumes ok: "net_ok m" and c: "cut P m m'" and s: "symp P"
  shows "getDebt j m' = getDebt j m - (\<Sum>d\<in>ids m. if P j d then owes m j d else 0)"
proof -
  note k = cut_ok[OF ok c s]
  have "getDebt j m' = (\<Sum>d\<in>ids m. owes m j d - (if P j d then owes m j d else 0))"
    using c by (unfold getDebt_sum[OF k(1)] k(2), intro sum.cong) (auto simp: owes_def cut_def)
  then show ?thesis by (simp add: sum_subtractf getDebt_sum[OF ok])
qed

lemma pay_worth:
  assumes ok: "net_ok m" and e: "entry m k c = Some x" and x: "0 < x"
  shows "worth (paid k c x (snd (receipt c k m))) j = worth m j"
proof -
  note p = pay_step[OF assms]
  let ?P = "\<lambda>i j. (i = k \<and> j = c) \<or> (i = c \<and> j = k)"
  have ids: "k \<in> ids m" "c \<in> ids m" using net_okD(4)[OF ok e] by simp_all
  have ne: "k \<noteq> c" using net_okD(5)[OF ok] e x by (metis less_irrefl)
  have o: "owes m k c = x" "owes m c k = - x" using e net_okD(3)[OF ok e] by (simp_all add: owes_def)
  have "(\<Sum>d\<in>ids m. if ?P j d then owes m j d else 0) =
      (if j = k then x else 0) - (if j = c then x else 0)"
  proof -
    have "(\<Sum>d\<in>ids m. if ?P j d then owes m j d else 0) =
        (\<Sum>d\<in>ids m. (if j = k \<and> d = c then x else 0) + (if j = c \<and> d = k then - x else 0))"
      using ne o by (intro sum.cong) auto
    also have "\<dots> = (if j = k then x else 0) - (if j = c then x else 0)"
      using ids by (cases "j = k"; cases "j = c") (simp_all add: sum.distrib)
    finally show ?thesis .
  qed
  then show ?thesis
    using debt_after_cut[OF ok p(2), of j] p(3) by (simp add: worth_def symp_def)
qed

lemma cut_trans:
  "cut P m m' \<Longrightarrow> cut Q m' m'' \<Longrightarrow> cut (\<lambda>k c. P k c \<or> Q k c) m m''"
  by (simp add: cut_def)

lemma cut_refl: "net_ok m \<Longrightarrow> cut (\<lambda>k c. False) m m"
  by (simp add: cut_def net_okD(2))

lemma cut_cong: "cut P m m' \<Longrightarrow> (\<And>k c. P k c = Q k c) \<Longrightarrow> cut Q m m'"
  by (simp add: cut_def)

lemma repay_loop_spec:
  assumes "net_ok m" and "um_wf es" and "\<forall>c x. (c, x) \<in> set es \<longrightarrow> entry m k c = Some x"
  shows "cut (\<lambda>i j. (i = k \<and> (\<exists>x>0. (j, x) \<in> set es)) \<or> (j = k \<and> (\<exists>x>0. (i, x) \<in> set es))) m (repay_loop k es m)
    \<and> (\<forall>j. worth (repay_loop k es m) j = worth m j)
    \<and> (\<forall>j. j \<noteq> k \<longrightarrow> getCapital j m \<le> getCapital j (repay_loop k es m))
    \<and> getCapital k (repay_loop k es m) \<le> getCapital k m"
  using assms
proof (induction es arbitrary: m)
  case Nil
  then show ?case by (simp add: cut_refl)
next
  case (Cons e es)
  obtain c x where e: "e = (c, x)" by fastforce
  have ex: "entry m k c = Some x" using Cons.prems(3) e by simp
  have wf: "um_wf es" "\<And>y. (c, y) \<notin> set es" using Cons.prems(2) e by force+
  show ?case
  proof (cases "0 < x")
    case False
    then have "repay_loop k (e # es) m = repay_loop k es m" by (simp add: e)
    then show ?thesis
      using Cons.IH[OF Cons.prems(1) wf(1)] Cons.prems(3) False
      by (auto simp: e elim!: cut_cong)
  next
    case True
    define m1 where "m1 = paid k c x (snd (receipt c k m))"
    note p = pay_step[OF Cons.prems(1) ex True, folded m1_def]
    have r: "repay_loop k (e # es) m = repay_loop k es m1"
      using p(1) True by (cases "receipt c k m") (simp add: e m1_def)
    have sy: "symp (\<lambda>i j. (i = k \<and> j = c) \<or> (i = c \<and> j = k))" by (auto simp: symp_def)
    have ne: "c \<noteq> k" using net_okD(5)[OF Cons.prems(1)] ex True by (metis less_irrefl)
    have "\<forall>d y. (d, y) \<in> set es \<longrightarrow> entry m1 k d = Some y"
      using Cons.prems(3) p(2) wf(2) ne by (auto simp: cut_def e)
    note ih = Cons.IH[OF cut_ok(1)[OF Cons.prems(1) p(2) sy] wf(1) this]
    have "cut (\<lambda>i j. (i = k \<and> (\<exists>x>0. (j, x) \<in> set (e # es))) \<or> (j = k \<and> (\<exists>x>0. (i, x) \<in> set (e # es)))) m
        (repay_loop k es m1)"
      by (rule cut_cong[OF cut_trans[OF p(2) ih[THEN conjunct1]]]) (use True in \<open>auto simp: e\<close>)
    moreover have "worth (repay_loop k es m1) j = worth m j" for j
      using ih pay_worth[OF Cons.prems(1) ex True] by (simp add: m1_def)
    moreover have "getCapital j m \<le> getCapital j (repay_loop k es m1)" if "j \<noteq> k" for j
      using ih p(3)[of j] that True by (fastforce intro: order_trans[of _ "getCapital j m1"])
    moreover have "getCapital k (repay_loop k es m1) \<le> getCapital k m"
      using ih p(3)[of k] ne True by (auto intro: order_trans[of _ "getCapital k m1"])
    ultimately show ?thesis unfolding r by blast
  qed
qed

lemma repayAll_spec:
  assumes "net_ok m"
  shows "cut (\<lambda>i j. (i = k \<and> 0 < owes m k j) \<or> (j = k \<and> 0 < owes m k i)) m (repayAll k m)"
    and "worth (repayAll k m) j = worth m j"
    and "j \<noteq> k \<Longrightarrow> getCapital j m \<le> getCapital j (repayAll k m)"
proof -
  have wf: "um_wf (getDebtSheet k m)" by (rule net_okD(2)[OF assms])
  have "\<forall>c x. (c, x) \<in> set (getDebtSheet k m) \<longrightarrow> entry m k c = Some x" using wf by (simp add: entry_def)
  note s = repay_loop_spec[OF assms wf this]
  have ex: "(\<exists>x>0. (c, x) \<in> set (getDebtSheet k m)) \<longleftrightarrow> 0 < owes m k c" for c
  proof (cases "um_find (getDebtSheet k m) c")
    case None
    then show ?thesis using um_find_None_iff[of "getDebtSheet k m" c] by (force simp: owes_def entry_def)
  next
    case (Some y)
    then have "(c, x) \<in> set (getDebtSheet k m) \<longleftrightarrow> x = y" for x
      using um_mem_find[OF wf, of c x] um_find_Some_mem[OF Some] by fastforce
    then show ?thesis using Some by (simp add: owes_def entry_def)
  qed
  show "cut (\<lambda>i j. (i = k \<and> 0 < owes m k j) \<or> (j = k \<and> 0 < owes m k i)) m (repayAll k m)"
    using s[THEN conjunct1] unfolding ex repayAll_def .
  show "worth (repayAll k m) j = worth m j" using s by (simp add: repayAll_def)
  show "j \<noteq> k \<Longrightarrow> getCapital j m \<le> getCapital j (repayAll k m)" using s by (simp add: repayAll_def)
qed

lemma repay_nodes_spec:
  assumes "net_ok m"
  shows "\<exists>P. symp P \<and> cut P m (repay_nodes ps m)
    \<and> (\<forall>i j. P i j \<longrightarrow> i \<in> set ps \<or> j \<in> set ps)
    \<and> (\<forall>k \<in> set ps. \<forall>c. owes (repay_nodes ps m) k c \<le> 0)
    \<and> (\<forall>j. worth (repay_nodes ps m) j = worth m j)
    \<and> (\<forall>j. j \<notin> set ps \<longrightarrow> getCapital j m \<le> getCapital j (repay_nodes ps m))"
  using assms
proof (induction ps arbitrary: m)
  case Nil
  then show ?case using cut_refl[OF Nil] by (intro exI[of _ "\<lambda>k c. False"]) (simp add: symp_def)
next
  case (Cons k ps)
  let ?Q = "\<lambda>i j. (i = k \<and> 0 < owes m k j) \<or> (j = k \<and> 0 < owes m k i)"
  define m1 where "m1 = repayAll k m"
  note r = repayAll_spec[OF Cons.prems, where k = k, folded m1_def]
  have sy: "symp ?Q" by (auto simp: symp_def)
  have ok: "net_ok m1" by (rule cut_ok(1)[OF Cons.prems r(1) sy])
  obtain P where P: "symp P" "cut P m1 (repay_nodes ps m1)" "\<forall>i j. P i j \<longrightarrow> i \<in> set ps \<or> j \<in> set ps"
    "\<forall>k \<in> set ps. \<forall>c. owes (repay_nodes ps m1) k c \<le> 0"
    "\<forall>j. worth (repay_nodes ps m1) j = worth m1 j"
    "\<forall>j. j \<notin> set ps \<longrightarrow> getCapital j m1 \<le> getCapital j (repay_nodes ps m1)"
    using Cons.IH[OF ok] by blast
  have k1: "owes m1 k c \<le> 0" for c using r(1) by (auto simp: cut_def owes_def split: option.split)
  have k2: "owes (repay_nodes ps m1) k c \<le> 0" for c
    using P(2) k1[of c] by (auto simp: cut_def owes_def split: option.splits if_splits)
  have "cut (\<lambda>i j. ?Q i j \<or> P i j) m (repay_nodes ps m1)" by (rule cut_trans[OF r(1) P(2)])
  moreover have "symp (\<lambda>i j. ?Q i j \<or> P i j)" using sy P(1) by (auto simp: symp_def)
  moreover have "getCapital j m \<le> getCapital j (repay_nodes ps m1)" if "j \<notin> set (k # ps)" for j
    using r(3)[of j] P(6) that by (auto intro: order_trans[of _ "getCapital j m1"])
  moreover have "\<forall>i j. ?Q i j \<or> P i j \<longrightarrow> i \<in> set (k # ps) \<or> j \<in> set (k # ps)" using P(3) by auto
  moreover have "\<forall>i \<in> set (k # ps). \<forall>c. owes (repay_nodes ps m1) i c \<le> 0" using P(4) k2 by simp
  moreover have "worth (repay_nodes ps m1) j = worth m j" for j using P(5) r(2) by simp
  ultimately show ?case
    unfolding repay_nodes.simps m1_def[symmetric] by blast
qed

section \<open>The sub-net\<close>

lemma tally_read:
  assumes "k \<in> ids s" and "entry s k c = None"
  shows "map fst (tally k c x s) = map fst s" and "getCapital j (tally k c x s) = getCapital j s"
    and "getDebtSheet j (tally k c x s) = (if j = k then getDebtSheet k s @ [(c, x)] else getDebtSheet j s)"
proof -
  have n: "um_find (getDebtSheet k s) c = None" using assms(2) by (simp add: entry_def)
  show "map fst (tally k c x s) = map fst s" by (simp add: tally_def)
  show "getCapital j (tally k c x s) = getCapital j s"
    using assms(1) by (simp add: tally_def at_node_read at_node_the)
  show "getDebtSheet j (tally k c x s) = (if j = k then getDebtSheet k s @ [(c, x)] else getDebtSheet j s)"
    using assms(1) n by (simp add: tally_def at_node_read at_node_the um_insert_def)
qed

lemma copy_sheet_spec:
  assumes "um_wf es" and "k \<in> ids s" and "\<And>j. um_wf (getDebtSheet j s)" and "\<forall>c \<in> fst ` set es. entry s k c = None"
  shows "\<exists>t' s'. copy_sheet k es (t, s) = (t', s') \<and> map fst s' = map fst s \<and> (\<forall>j. getCapital j s' = getCapital j s)
    \<and> (\<forall>j. um_wf (getDebtSheet j s')) \<and> (t' \<longleftrightarrow> t \<or> (\<exists>c \<in> fst ` set es. c \<in> ids s))
    \<and> (\<forall>i j. entry s' i j = (if i = k \<and> j \<in> ids s \<and> um_find es j \<noteq> None then um_find es j else entry s i j))"
  using assms
proof (induction es arbitrary: t s)
  case (Cons e es)
  obtain c x where e: "e = (c, x)" by fastforce
  have wf: "um_wf es" "c \<notin> fst ` set es" using Cons.prems(1) e by auto
  have nc: "um_find es c = None" using wf(2) by (simp add: um_find_None_iff)
  show ?case
  proof (cases "c \<in> ids s")
    case False
    then have r: "copy_sheet k (e # es) (t, s) = copy_sheet k es (t, s)" using find_ids[of s c] by (simp add: e)
    have "\<forall>c \<in> fst ` set es. entry s k c = None" using Cons.prems(4) by simp
    from Cons.IH[OF wf(1) Cons.prems(2,3) this, of t] False show ?thesis unfolding r by (auto simp: e)
  next
    case True
    have n: "entry s k c = None" using Cons.prems(4) e by simp
    note ta = tally_read[OF Cons.prems(2) n, where x = x]
    let ?s = "tally k c x s"
    have r: "copy_sheet k (e # es) (t, s) = copy_sheet k es (True, ?s)" using find_ids[of s c] True by (simp add: e)
    have ids: "ids ?s = ids s" by (rule keys_ids[OF ta(1)])
    have en: "entry ?s i j = (if i = k \<and> j = c then Some x else entry s i j)" for i j
      using n by (auto simp: entry_def ta(3) map_add_def split: option.split)
    have w: "um_wf (getDebtSheet j ?s)" for j
      using Cons.prems(3)[of j] n um_find_None_iff[of "getDebtSheet k s" c] by (auto simp: ta(3) entry_def)
    have "\<forall>d \<in> fst ` set es. entry ?s k d = None" using Cons.prems(4) wf(2) en by (auto simp: e)
    from Cons.IH[OF wf(1) _ w this, of True] Cons.prems(2) obtain t' s' where
      "copy_sheet k es (True, ?s) = (t', s')" "map fst s' = map fst ?s" "\<forall>j. getCapital j s' = getCapital j ?s"
      "\<forall>j. um_wf (getDebtSheet j s')" "t'"
      "\<forall>i j. entry s' i j = (if i = k \<and> j \<in> ids s \<and> um_find es j \<noteq> None then um_find es j else entry ?s i j)"
      unfolding ids by auto
    then show ?thesis unfolding r using ta en True nc by (auto simp: e)
  qed
qed simp

lemma copy_nodes_spec:
  assumes "net_ok m" and "distinct ks" and "set ks \<subseteq> ids s" and "\<And>j. um_wf (getDebtSheet j s)"
    and "\<forall>k \<in> set ks. \<forall>c. entry s k c = None"
  shows "\<exists>t' s'. copy_nodes m ks (t, s) = Some (t', s') \<and> map fst s' = map fst s \<and> (\<forall>j. getCapital j s' = getCapital j s)
    \<and> (\<forall>j. um_wf (getDebtSheet j s'))
    \<and> (t' \<longleftrightarrow> t \<or> (\<exists>k \<in> set ks. \<exists>c \<in> ids s. entry m k c \<noteq> None))
    \<and> (\<forall>i j. entry s' i j = (if i \<in> set ks then (if j \<in> ids s then entry m i j else None) else entry s i j))"
  using assms(2-5)
proof (induction ks arbitrary: t s)
  case (Cons k ks)
  have k: "k \<in> ids s" using Cons.prems(2) by simp
  have "\<forall>c \<in> fst ` set (getDebtSheet k m). entry s k c = None" using Cons.prems(4) by simp
  from copy_sheet_spec[OF net_okD(2)[OF assms(1)] k Cons.prems(3) this, of t, folded entry_def] obtain t1 s1 where
    c: "copy_sheet k (getDebtSheet k m) (t, s) = (t1, s1)" "map fst s1 = map fst s" "\<forall>j. getCapital j s1 = getCapital j s"
      "\<forall>j. um_wf (getDebtSheet j s1)" "t1 \<longleftrightarrow> t \<or> (\<exists>c \<in> fst ` set (getDebtSheet k m). c \<in> ids s)"
      "\<forall>i j. entry s1 i j = (if i = k \<and> j \<in> ids s \<and> entry m k j \<noteq> None then entry m k j else entry s i j)"
    by blast
  have ids: "ids s1 = ids s" by (rule keys_ids[OF c(2)])
  have n: "\<forall>i \<in> set ks. \<forall>j. entry s1 i j = None" using Cons.prems(1,4) c(6) by auto
  have d: "distinct ks" "set ks \<subseteq> ids s1" "\<And>j. um_wf (getDebtSheet j s1)"
    using Cons.prems(1,2) c(4) ids by simp_all
  from Cons.IH[OF d n, of t1, unfolded ids] obtain t' s' where
    i: "copy_nodes m ks (t1, s1) = Some (t', s')" "map fst s' = map fst s1" "\<forall>j. getCapital j s' = getCapital j s1"
      "\<forall>j. um_wf (getDebtSheet j s')" "t' \<longleftrightarrow> t1 \<or> (\<exists>k \<in> set ks. \<exists>c \<in> ids s. entry m k c \<noteq> None)"
      "\<forall>i j. entry s' i j = (if i \<in> set ks then (if j \<in> ids s then entry m i j else None) else entry s1 i j)"
    by blast
  have t: "(\<exists>c \<in> fst ` set (getDebtSheet k m). c \<in> ids s) \<longleftrightarrow> (\<exists>c \<in> ids s. entry m k c \<noteq> None)"
    by (simp only: entry_def um_find_None_iff not_not) blast
  have "copy_nodes m (k # ks) (t, s) = Some (t', s')" using i(1) c(1) k find_ids[of s k] by simp
  moreover have "t' \<longleftrightarrow> t \<or> (\<exists>k \<in> set (k # ks). \<exists>c \<in> ids s. entry m k c \<noteq> None)" using i(5) c(5) t by auto
  moreover have "entry s' i j = (if i \<in> set (k # ks) then (if j \<in> ids s then entry m i j else None) else entry s i j)" for i j
    using i(6) c(6) Cons.prems(4) by auto
  ultimately show ?case using i(2-4) c(2,3) by simp
qed simp

lemma sub_net_spec:
  assumes ok: "net_ok m" and d: "distinct ks" and sub: "set ks \<subseteq> ids m"
  shows "\<exists>t s. sub_net ks m = Some (t, s) \<and> map fst s = ks \<and> net_ok s
    \<and> (\<forall>k \<in> set ks. getCapital k s = getCapital k m) \<and> (t \<longleftrightarrow> (\<exists>k \<in> set ks. \<exists>c \<in> set ks. entry m k c \<noteq> None))
    \<and> (\<forall>i j. entry s i j = (if i \<in> set ks \<and> j \<in> set ks then entry m i j else None))"
proof -
  let ?s = "map (\<lambda>k. (k, DebtNode_new (getCapital k m))) ks"
  have f: "um_find ?s k = (if k \<in> set ks then Some (DebtNode_new (getCapital k m)) else None)" for k
    by (induction ks) auto
  have keys: "map fst ?s = ks" by (simp add: comp_def)
  have sh: "getDebtSheet j ?s = []" for j unfolding getDebtSheet_def f by (simp add: DebtNode_new_def)
  have ids: "ids ?s = set ks" by (simp only: ids_def keys)
  have "\<exists>t' s'. copy_nodes m ks (False, ?s) = Some (t', s') \<and> map fst s' = map fst ?s \<and> (\<forall>j. getCapital j s' = getCapital j ?s)
    \<and> (\<forall>j. um_wf (getDebtSheet j s')) \<and> (t' \<longleftrightarrow> False \<or> (\<exists>k \<in> set ks. \<exists>c \<in> ids ?s. entry m k c \<noteq> None))
    \<and> (\<forall>i j. entry s' i j = (if i \<in> set ks then (if j \<in> ids ?s then entry m i j else None) else entry ?s i j))"
    by (rule copy_nodes_spec[OF ok d]) (simp_all only: ids sh entry_def, simp_all)
  then obtain t s where "sub_net ks m = Some (t, s)" "map fst s = map fst ?s" "\<forall>j. getCapital j s = getCapital j ?s"
    "\<forall>j. um_wf (getDebtSheet j s)" "t \<longleftrightarrow> False \<or> (\<exists>k \<in> set ks. \<exists>c \<in> ids ?s. entry m k c \<noteq> None)"
    "\<forall>i j. entry s i j = (if i \<in> set ks then (if j \<in> ids ?s then entry m i j else None) else entry ?s i j)"
    unfolding sub_net_def by blast
  moreover have "entry ?s i j = None" for i j by (simp only: entry_def sh map_of.simps)
  ultimately have s: "sub_net ks m = Some (t, s)" "map fst s = ks" "\<forall>j. getCapital j s = getCapital j ?s"
    "\<forall>j. um_wf (getDebtSheet j s)" "t \<longleftrightarrow> (\<exists>k \<in> set ks. \<exists>c \<in> set ks. entry m k c \<noteq> None)"
    "\<forall>i j. entry s i j = (if i \<in> set ks \<and> j \<in> set ks then entry m i j else None)"
    by (simp_all only: ids keys simp_thms if_bool_eq_conj split: if_splits) auto
  moreover have "net_ok s"
    by (rule net_okI) (use s d net_okD(3)[OF ok] in \<open>auto split: if_splits\<close>)
  moreover have "\<forall>k \<in> set ks. getCapital k s = getCapital k m"
  proof
    fix k assume "k \<in> set ks"
    then have "um_find ?s k = Some (DebtNode_new (getCapital k m))" by (simp only: f if_True)
    then have "getCapital k ?s = dn_capital (DebtNode_new (getCapital k m))" by (simp only: getCapital_def[of k ?s] option.case)
    then show "getCapital k s = getCapital k m" using s(3) by (simp add: DebtNode_new_def)
  qed
  ultimately show ?thesis by blast
qed

lemma node_erase_read:
  "map fst (node_erase k c m) = map fst m" "getCapital j (node_erase k c m) = getCapital j m"
  "getDebtSheet j (node_erase k c m) = (if j = k then um_erase c (getDebtSheet k m) else getDebtSheet j m)"
  using sheet_outside[of k m] by (auto simp: node_erase_def at_node_read at_node_the)

lemma erase_loop_spec:
  assumes "\<And>j. um_wf (getDebtSheet j m)"
  shows "cut (\<lambda>i j. (i = k \<and> j \<in> fst ` set es \<and> j \<in> ids sub) \<or> (j = k \<and> i \<in> fst ` set es \<and> i \<in> ids sub)) m (erase_loop k sub es m)
    \<and> (\<forall>j. getCapital j (erase_loop k sub es m) = getCapital j m)"
  using assms
proof (induction es arbitrary: m)
  case (Cons e es)
  obtain c x where e: "e = (c, x)" by fastforce
  let ?m = "if um_find sub c \<noteq> None then node_erase c k (node_erase k c m) else m"
  have w: "um_wf (getDebtSheet j ?m)" for j using Cons.prems[of j] Cons.prems[of k] Cons.prems[of c] by (simp add: node_erase_read)
  have c: "cut (\<lambda>i j. c \<in> ids sub \<and> ((i = k \<and> j = c) \<or> (j = k \<and> i = c))) m ?m"
    using w find_ids[of sub c] by (auto simp: cut_def entry_def node_erase_read container_simps)
  have g: "getCapital j ?m = getCapital j m" for j by (simp add: node_erase_read)
  have r: "erase_loop k sub (e # es) m = erase_loop k sub es ?m" by (simp add: e)
  have "cut (\<lambda>i j. (i = k \<and> j \<in> fst ` set (e # es) \<and> j \<in> ids sub) \<or> (j = k \<and> i \<in> fst ` set (e # es) \<and> i \<in> ids sub)) m
      (erase_loop k sub es ?m)"
    by (rule cut_cong[OF cut_trans[OF c Cons.IH[OF w, THEN conjunct1]]]) (auto simp: e)
  then show ?case unfolding r using Cons.IH[OF w, THEN conjunct2] g by simp
qed (simp add: cut_def)

lemma erase_net_spec:
  assumes "net_ok m"
  shows "cut (\<lambda>i j. (i = k \<and> j \<in> ids sub) \<or> (j = k \<and> i \<in> ids sub)) m (node_erase_net k sub m)"
    and "getCapital j (node_erase_net k sub m) = getCapital j m"
proof -
  note s = erase_loop_spec[OF net_okD(2)[OF assms], of k "getDebtSheet k m" sub]
  have "c \<in> fst ` set (getDebtSheet k m) \<longleftrightarrow> entry m k c \<noteq> None" for c by (simp add: entry_def um_find_None_iff)
  moreover have "entry m k c = None \<Longrightarrow> entry m c k = None" for c
    using net_okD(3)[OF assms, of c k] by (cases "entry m c k") auto
  ultimately show "cut (\<lambda>i j. (i = k \<and> j \<in> ids sub) \<or> (j = k \<and> i \<in> ids sub)) m (node_erase_net k sub m)"
    using s[THEN conjunct1] unfolding cut_def node_erase_net_def by auto
  show "getCapital j (node_erase_net k sub m) = getCapital j m" using s by (simp add: node_erase_net_def)
qed

lemma setCapital_read:
  "map fst (setCapital k c m) = map fst m" "getDebtSheet j (setCapital k c m) = getDebtSheet j m"
  "getCapital j (setCapital k c m) = (if j = k \<and> k \<in> ids m then c else getCapital j m)"
  by (auto simp: setCapital_def at_node_read at_node_the)

lemma same_sheets_ok:
  assumes "net_ok m" and "map fst m' = map fst m" and "\<And>j. getDebtSheet j m' = getDebtSheet j m"
  shows "net_ok m'"
proof (rule net_okI)
  show "um_wf m'" using assms(2) net_okD(1)[OF assms(1)] by simp
  show "um_wf (getDebtSheet k m')" for k using assms(3) net_okD(2)[OF assms(1)] by simp
  show "entry m' k c = Some x \<Longrightarrow> entry m' c k = Some (- x)" for k c x
    using net_okD(3)[OF assms(1), of k c x] assms(3) by (simp add: entry_def)
qed

lemma adopt_nodes_spec:
  assumes "net_ok m" and "set ks \<subseteq> ids sub" and "set ks \<subseteq> ids m"
  shows "\<exists>m'. adopt_nodes sub ks m = Some m'
    \<and> cut (\<lambda>i j. (i \<in> set ks \<and> j \<in> ids sub) \<or> (j \<in> set ks \<and> i \<in> ids sub)) m m'
    \<and> (\<forall>j. getCapital j m' = (if j \<in> set ks then getCapital j sub else getCapital j m))"
  using assms
proof (induction ks arbitrary: m)
  case Nil
  then show ?case using cut_refl[of m] by simp
next
  case (Cons k ks)
  let ?s = "setCapital k (getCapital k sub) m"
  let ?m = "node_erase_net k sub ?s"
  let ?Q = "\<lambda>i j. (i = k \<and> j \<in> ids sub) \<or> (j = k \<and> i \<in> ids sub)"
  have oks: "net_ok ?s" by (rule same_sheets_ok[OF Cons.prems(1)]) (simp_all only: setCapital_read)
  note e = erase_net_spec[OF oks, where k = k and sub = sub]
  have c: "cut ?Q m ?m" using e(1) by (simp add: cut_def entry_def setCapital_read)
  have sy: "symp ?Q" by (auto simp: symp_def)
  have ids: "ids ?m = ids m" by (rule cut_ok(2)[OF Cons.prems(1) c sy])
  from Cons.IH[OF cut_ok(1)[OF Cons.prems(1) c sy]] Cons.prems(2,3) obtain m' where
    m': "adopt_nodes sub ks ?m = Some m'" "cut (\<lambda>i j. (i \<in> set ks \<and> j \<in> ids sub) \<or> (j \<in> set ks \<and> i \<in> ids sub)) ?m m'"
      "\<forall>j. getCapital j m' = (if j \<in> set ks then getCapital j sub else getCapital j ?m)"
    unfolding ids by auto
  have "adopt_nodes sub (k # ks) m = Some m'" using m'(1) Cons.prems(2) find_ids[of sub k] by auto
  moreover have "cut (\<lambda>i j. (i \<in> set (k # ks) \<and> j \<in> ids sub) \<or> (j \<in> set (k # ks) \<and> i \<in> ids sub)) m m'"
    by (rule cut_cong[OF cut_trans[OF c m'(2)]]) auto
  moreover have "getCapital j m' = (if j \<in> set (k # ks) then getCapital j sub else getCapital j m)" for j
    using m'(3) e(2) Cons.prems(3) by (auto simp: setCapital_read)
  ultimately show ?case by blast
qed

section \<open>Settling\<close>

lemma addCapital_read:
  "map fst (addCapital k c m) = map fst m" "getDebtSheet j (addCapital k c m) = getDebtSheet j m"
  "getCapital j (addCapital k c m) = getCapital j m + (if j = k \<and> k \<in> ids m then c else 0)"
  by (auto simp: addCapital_def at_node_read at_node_the)

lemma share_loop_spec:
  assumes "\<And>j. um_wf (getDebtSheet j m)" and "um_wf es" and "fst ` set es \<subseteq> ids m" and "k \<notin> fst ` set es"
  shows "cut (\<lambda>i j. j = k \<and> i \<in> fst ` set es) m (share_loop k debt cap es m)
    \<and> (\<forall>j. getCapital j (share_loop k debt cap es m) =
          getCapital j m + (if 0 < debt then cap * (case um_find es j of None \<Rightarrow> 0 | Some x \<Rightarrow> x) / debt else 0))"
  using assms
proof (induction es arbitrary: m)
  case (Cons e es)
  obtain c x where e: "e = (c, x)" by fastforce
  let ?m = "node_erase c k (if debt > 0 then addCapital c (cap * x / debt) m else m)"
  have w: "um_wf (getDebtSheet j ?m)" for j using Cons.prems(1)[of j] Cons.prems(1)[of c]
    by (simp add: node_erase_read addCapital_read)
  have keys: "map fst ?m = map fst m" by (simp add: node_erase_read addCapital_read)
  have c: "cut (\<lambda>i j. j = k \<and> i = c) m ?m"
    using w by (auto simp: cut_def entry_def node_erase_read addCapital_read container_simps)
  have es: "um_wf es" "fst ` set es \<subseteq> ids ?m" "k \<notin> fst ` set es" "um_find es c = None" "c \<in> ids m"
    using Cons.prems(2-4) keys_ids[OF keys] by (auto simp: e um_find_None_iff)
  note ih = Cons.IH[OF w es(1-3)]
  have g: "getCapital j ?m = getCapital j m + (if 0 < debt \<and> j = c then cap * x / debt else 0)" for j
    using es(5) by (simp add: node_erase_read addCapital_read)
  have r: "share_loop k debt cap (e # es) m = share_loop k debt cap es ?m" by (simp add: e)
  have "cut (\<lambda>i j. j = k \<and> i \<in> fst ` set (e # es)) m (share_loop k debt cap es ?m)"
    by (rule cut_cong[OF cut_trans[OF c ih[THEN conjunct1]]]) (auto simp: e)
  then show ?case unfolding r using ih[THEN conjunct2] g es(4) by (simp add: e)
qed (simp add: cut_def)

lemma settle_bankrupt:
  assumes ok: "net_ok m" and k: "k \<in> ids m" and pos: "\<forall>c x. entry m k c = Some x \<longrightarrow> 0 \<le> x \<and> c \<noteq> k"
    and b: "getCapital k m < getDebt k m"
  shows "cut (\<lambda>i j. i = k \<or> j = k) m (settle k m)" and "getCapital k (settle k m) = 0"
    and "j \<noteq> k \<Longrightarrow> getCapital j (settle k m) =
           getCapital j m + (if 0 < getDebt k m then getCapital k m * owes m k j / getDebt k m else 0)"
proof -
  let ?sh = "share_loop k (getDebt k m) (getCapital k m) (getDebtSheet k m) m"
  have st: "settle k m = at_node k (\<lambda>n. n\<lparr>dn_capital := 0, dn_debtSheet := []\<rparr>) ?sh"
    using b by (simp add: settle_def Let_def)
  have mem: "c \<in> fst ` set (getDebtSheet k m) \<longleftrightarrow> entry m k c \<noteq> None" for c
    by (simp add: entry_def um_find_None_iff)
  have sub: "fst ` set (getDebtSheet k m) \<subseteq> ids m" "k \<notin> fst ` set (getDebtSheet k m)"
    using mem net_okD(4)[OF ok] pos by blast+
  note s = share_loop_spec[OF net_okD(2)[OF ok] net_okD(2)[OF ok] sub, of "getDebt k m" "getCapital k m"]
  have ids: "ids ?sh = ids m" by (rule keys_ids) (use s in \<open>simp add: cut_def\<close>)
  have sym: "entry m k c = None \<Longrightarrow> entry m c k = None" for c
    using net_okD(3)[OF ok, of c k] by (cases "entry m c k") auto
  show "cut (\<lambda>i j. i = k \<or> j = k) m (settle k m)"
    using s[THEN conjunct1] k ids mem sym by (auto simp: st cut_def at_node_read entry_def[of "at_node k f a" for f a] entry_def[of ?sh])
  show "getCapital k (settle k m) = 0" using k ids by (simp add: st at_node_read)
  show "getCapital j (settle k m) =
           getCapital j m + (if 0 < getDebt k m then getCapital k m * owes m k j / getDebt k m else 0)" if "j \<noteq> k"
    using s[THEN conjunct2] that by (simp add: st at_node_read owes_def entry_def)
qed

lemma total_debt:
  assumes "net_ok m"
  shows "(\<Sum>k\<in>ids m. getDebt k m) = 0"
proof -
  have "(\<Sum>k\<in>ids m. getDebt k m) = (\<Sum>k\<in>ids m. \<Sum>c\<in>ids m. owes m k c)" by (simp add: getDebt_sum[OF assms])
  also have "\<dots> = (\<Sum>c\<in>ids m. \<Sum>k\<in>ids m. owes m k c)" by (rule sum.swap)
  also have "\<dots> = (\<Sum>c\<in>ids m. \<Sum>k\<in>ids m. - owes m c k)" by (intro sum.cong refl) (rule owes_antisym[OF assms])
  also have "\<dots> = - (\<Sum>k\<in>ids m. getDebt k m)" by (simp add: getDebt_sum[OF assms] sum_negf)
  finally show ?thesis by simp
qed

lemma capital_worth:
  assumes "net_ok m"
  shows "(\<Sum>k\<in>ids m. getCapital k m) = (\<Sum>k\<in>ids m. worth m k)"
  using total_debt[OF assms] by (simp add: worth_def sum_subtractf)

lemma settle_solvent:
  assumes ok: "net_ok m" and pos: "\<forall>c x. entry m k c = Some x \<longrightarrow> 0 \<le> x \<and> c \<noteq> k"
    and b: "\<not> getCapital k m < getDebt k m"
  defines "P \<equiv> \<lambda>i j. (i = k \<and> 0 < owes m k j) \<or> (j = k \<and> 0 < owes m k i)"
  shows "cut P m (settle k m)" and "symp P" and "owes (settle k m) k c = 0" and "worth (settle k m) j = worth m j"
    and "getCapital k (settle k m) = worth m k" and "j \<noteq> k \<Longrightarrow> entry m k j = None \<Longrightarrow> getCapital j (settle k m) = getCapital j m"
proof -
  have st: "settle k m = repayAll k m" using b by (simp add: settle_def Let_def)
  note r = repayAll_spec[OF ok, where k = k, folded st P_def]
  show sy: "symp P" by (auto simp: symp_def P_def)
  show "cut P m (settle k m)" by (rule r(1))
  note o = cut_ok[OF ok r(1) sy]
  have ow: "0 \<le> owes m k c" for c using pos by (auto simp: owes_def split: option.split)
  show z: "owes (settle k m) k c = 0" for c
    using r(1) ow[of c] by (auto simp: cut_def owes_def P_def split: option.splits if_splits)
  show w: "worth (settle k m) j = worth m j" for j by (rule r(2))
  have "getDebt k (settle k m) = 0" by (simp add: getDebt_sum[OF o(1)] z)
  then show "getCapital k (settle k m) = worth m k" using w[of k] by (simp add: worth_def)
  show "getCapital j (settle k m) = getCapital j m" if "j \<noteq> k" "entry m k j = None"
  proof -
    have "getDebt j (settle k m) = getDebt j m"
      unfolding debt_after_cut[OF ok r(1) sy] using that by (simp add: P_def owes_def)
    then show ?thesis using w[of j] by (simp add: worth_def)
  qed
qed

lemma settle_spec:
  assumes ok: "net_ok m" and k: "k \<in> ids m" and pos: "\<forall>c x. entry m k c = Some x \<longrightarrow> 0 \<le> x \<and> c \<noteq> k"
  shows "\<exists>P. symp P \<and> cut P m (settle k m) \<and> (\<forall>i j. P i j \<longrightarrow> i = k \<or> j = k) \<and> (\<forall>c. owes (settle k m) k c = 0)
    \<and> 0 \<le> getCapital k (settle k m)
    \<and> ((getCapital k m < 0 \<longrightarrow> 0 < getDebt k m) \<longrightarrow>
          (\<Sum>j\<in>ids m. getCapital j (settle k m)) = (\<Sum>j\<in>ids m. getCapital j m))
    \<and> (\<forall>j. j \<noteq> k \<and> entry m k j = None \<longrightarrow> getCapital j (settle k m) = getCapital j m)
    \<and> (getDebt k m \<le> getCapital k m \<longrightarrow> (\<forall>j. worth (settle k m) j = worth m j))"
proof (cases "getCapital k m < getDebt k m")
  case False
  let ?P = "\<lambda>i j. (i = k \<and> 0 < owes m k j) \<or> (j = k \<and> 0 < owes m k i)"
  note s = settle_solvent[OF ok pos False]
  note o = cut_ok[OF ok s(1,2)]
  have "(\<Sum>j\<in>ids m. getCapital j (settle k m)) = (\<Sum>j\<in>ids m. getCapital j m)"
    using capital_worth[OF o(1)] capital_worth[OF ok] s(4) o(2) by simp
  moreover have "0 \<le> getCapital k (settle k m)" using s(5) False by (simp add: worth_def)
  moreover have "\<forall>i j. ?P i j \<longrightarrow> i = k \<or> j = k" by blast
  ultimately show ?thesis using s by blast
next
  case True
  note s = settle_bankrupt[OF ok k pos True]
  have sy: "symp (\<lambda>i j. i = k \<or> j = k)" by (auto simp: symp_def)
  have z: "owes (settle k m) k c = 0" for c using s(1) by (simp add: cut_def owes_def)
  have same: "getCapital j (settle k m) = getCapital j m" if "j \<noteq> k" "entry m k j = None" for j
    using s(3)[OF that(1)] that(2) by (simp add: owes_def)
  have self: "owes m k k = 0" using pos by (auto simp: owes_def split: option.split)
  have "(\<Sum>j\<in>ids m. getCapital j (settle k m)) = (\<Sum>j\<in>ids m. getCapital j m)"
    if h: "getCapital k m < 0 \<longrightarrow> 0 < getDebt k m"
  proof -
    have d: "0 < getDebt k m" using h True by linarith
    have "getCapital j (settle k m) = getCapital j m + getCapital k m / getDebt k m * owes m k j
        - (if j = k then getCapital k m else 0)" for j
      using s(2) s(3)[of j] self d by (cases "j = k") (simp_all add: mult.commute)
    then have "(\<Sum>j\<in>ids m. getCapital j (settle k m)) = (\<Sum>j\<in>ids m. getCapital j m)
        + getCapital k m / getDebt k m * (\<Sum>j\<in>ids m. owes m k j) - getCapital k m"
      using k by (simp add: sum.distrib sum_subtractf sum_distrib_left)
    then show ?thesis using d getDebt_sum[OF ok, of k] by simp
  qed
  then show ?thesis
    using s(1,2) sy z same True by (intro exI[of _ "\<lambda>i j. i = k \<or> j = k"]) auto
qed

lemma settle_far:
  assumes "net_ok m" and "distinct (k # ks)"
    and "\<forall>i \<in> set (k # ks). \<forall>c x. entry m i c = Some x \<longrightarrow> 0 \<le> x \<and> c \<notin> set (k # ks)"
    and "symp P" and "cut P m m1" and "\<forall>i j. P i j \<longrightarrow> i = k \<or> j = k" and "i \<in> set ks"
  shows "entry m k i = None" and "entry m1 i c = entry m i c" and "getDebt i m1 = getDebt i m" and "entry m i k = None"
proof -
  note o = cut_ok[OF assms(1,5,4)]
  show n: "entry m k i = None" using assms(3,7) by (cases "entry m k i") auto
  show nk: "entry m i k = None" using assms(3,7) by (cases "entry m i k") fastforce+
  show ent: "entry m1 i c = entry m i c" for c using nk assms(2,5,6,7) by (cases "c = k") (auto simp: cut_def)
  show "getDebt i m1 = getDebt i m"
    unfolding getDebt_sum[OF o(1)] getDebt_sum[OF assms(1)] o(2) by (simp add: owes_def ent)
qed

lemma settle_nodes_spec:
  assumes "net_ok m" and "distinct ks" and "set ks \<subseteq> ids m"
    and "\<forall>k \<in> set ks. \<forall>c x. entry m k c = Some x \<longrightarrow> 0 \<le> x \<and> c \<notin> set ks"
  shows "net_ok (settle_nodes ks m) \<and> map fst (settle_nodes ks m) = map fst m
    \<and> (\<forall>k \<in> set ks. (\<forall>c. owes (settle_nodes ks m) k c = 0) \<and> 0 \<le> getCapital k (settle_nodes ks m))
    \<and> (\<forall>i j. i \<notin> set ks \<and> j \<notin> set ks \<longrightarrow> owes (settle_nodes ks m) i j = owes m i j)
    \<and> (\<forall>j. (\<forall>k \<in> set ks. j \<noteq> k \<and> entry m k j = None) \<longrightarrow> getCapital j (settle_nodes ks m) = getCapital j m)
    \<and> ((\<forall>k \<in> set ks. getCapital k m < 0 \<longrightarrow> 0 < getDebt k m) \<longrightarrow>
          (\<Sum>j\<in>ids m. getCapital j (settle_nodes ks m)) = (\<Sum>j\<in>ids m. getCapital j m))
    \<and> ((\<forall>k \<in> set ks. getDebt k m \<le> getCapital k m) \<longrightarrow> (\<forall>j. worth (settle_nodes ks m) j = worth m j))"
  using assms
proof (induction ks arbitrary: m)
  case (Cons k ks)
  define m1 where "m1 = settle k m"
  have k: "k \<in> ids m" "k \<notin> set ks" "distinct ks" using Cons.prems(2,3) by simp_all
  have "\<forall>c x. entry m k c = Some x \<longrightarrow> 0 \<le> x \<and> c \<noteq> k" using Cons.prems(4) by auto
  from settle_spec[OF Cons.prems(1) k(1) this, folded m1_def] obtain P where
    P: "symp P" "cut P m m1" "\<forall>i j. P i j \<longrightarrow> i = k \<or> j = k" "\<forall>c. owes m1 k c = 0" "0 \<le> getCapital k m1"
      "(getCapital k m < 0 \<longrightarrow> 0 < getDebt k m) \<longrightarrow> (\<Sum>j\<in>ids m. getCapital j m1) = (\<Sum>j\<in>ids m. getCapital j m)"
      "\<forall>j. j \<noteq> k \<and> entry m k j = None \<longrightarrow> getCapital j m1 = getCapital j m"
      "getDebt k m \<le> getCapital k m \<longrightarrow> (\<forall>j. worth m1 j = worth m j)" by blast
  note o = cut_ok[OF Cons.prems(1) P(2,1)]
  have keys: "map fst m1 = map fst m" using P(2) by (simp add: cut_def)
  note far = settle_far[OF Cons.prems(1,2,4) P(1,2,3)]
  have cap: "getCapital i m1 = getCapital i m" if "i \<in> set ks" for i using P(7) far(1)[OF that] that k(2) by auto
  note ent = far(2) and debt = far(3)
  have "\<forall>i \<in> set ks. \<forall>c x. entry m1 i c = Some x \<longrightarrow> 0 \<le> x \<and> c \<notin> set ks"
    using Cons.prems(4) ent by auto
  moreover have "set ks \<subseteq> ids m1" using Cons.prems(3) o(2) by simp
  ultimately have ih: "net_ok (settle_nodes ks m1)" "map fst (settle_nodes ks m1) = map fst m1"
    "\<forall>k \<in> set ks. (\<forall>c. owes (settle_nodes ks m1) k c = 0) \<and> 0 \<le> getCapital k (settle_nodes ks m1)"
    "\<forall>i j. i \<notin> set ks \<and> j \<notin> set ks \<longrightarrow> owes (settle_nodes ks m1) i j = owes m1 i j"
    "\<forall>j. (\<forall>k \<in> set ks. j \<noteq> k \<and> entry m1 k j = None) \<longrightarrow> getCapital j (settle_nodes ks m1) = getCapital j m1"
    "(\<forall>k \<in> set ks. getCapital k m1 < 0 \<longrightarrow> 0 < getDebt k m1) \<longrightarrow>
          (\<Sum>j\<in>ids m1. getCapital j (settle_nodes ks m1)) = (\<Sum>j\<in>ids m1. getCapital j m1)"
    "(\<forall>k \<in> set ks. getDebt k m1 \<le> getCapital k m1) \<longrightarrow> (\<forall>j. worth (settle_nodes ks m1) j = worth m1 j)"
    using Cons.IH[OF o(1) k(3)] by blast+
  have z: "owes (settle_nodes ks m1) k c = 0" for c
  proof (cases "c \<in> set ks")
    case True
    then have "owes (settle_nodes ks m1) c k = 0" using ih(3) by blast
    then show ?thesis using owes_antisym[OF ih(1), of k c] by simp
  qed (use ih(4) k(2) P(4) in auto)
  have kc: "getCapital k (settle_nodes ks m1) = getCapital k m1" using ih(5) k(2) far(4) ent by auto
  have oth: "owes m1 i j = owes m i j" if "i \<noteq> k" "j \<noteq> k" for i j using P(2,3) that by (auto simp: cut_def owes_def)
  have r: "settle_nodes (k # ks) m = settle_nodes ks m1" by (simp add: m1_def)
  have c1: "\<forall>i \<in> set (k # ks). (\<forall>c. owes (settle_nodes ks m1) i c = 0) \<and> 0 \<le> getCapital i (settle_nodes ks m1)"
    using ih(3) z kc P(5) by auto
  have c2: "\<forall>i j. i \<notin> set (k # ks) \<and> j \<notin> set (k # ks) \<longrightarrow> owes (settle_nodes ks m1) i j = owes m i j"
    using ih(4) oth by auto
  have c3: "\<forall>j. (\<forall>i \<in> set (k # ks). j \<noteq> i \<and> entry m i j = None) \<longrightarrow> getCapital j (settle_nodes ks m1) = getCapital j m"
    using ih(5) P(7) ent by auto
  have c4: "(\<forall>i \<in> set (k # ks). getCapital i m < 0 \<longrightarrow> 0 < getDebt i m) \<longrightarrow>
      (\<Sum>j\<in>ids m. getCapital j (settle_nodes ks m1)) = (\<Sum>j\<in>ids m. getCapital j m)"
    using ih(6) P(6) cap debt o(2) by auto
  have c5: "(\<forall>i \<in> set (k # ks). getDebt i m \<le> getCapital i m) \<longrightarrow> (\<forall>j. worth (settle_nodes ks m1) j = worth m j)"
    using ih(7) P(8) cap debt by auto
  show ?case unfolding r using ih(1,2) keys c1 c2 c3 c4 c5 by simp
qed simp

section \<open>Liquidation\<close>

lemma capital_outside: "k \<notin> ids m \<Longrightarrow> getCapital k m = 0"
  using find_ids[of m k] by (simp add: getCapital_def)

lemma debt_outside: "k \<notin> ids m \<Longrightarrow> getDebt k m = 0"
  by (simp add: getDebt_def sheet_outside)

lemma cleared_ids: "cleared m m' \<Longrightarrow> ids m' = ids m"
  by (rule keys_ids) (simp add: cleared_def)

lemma among_symp [simp]: "symp (among ks)"
  by (auto simp: symp_def among_def)

lemma round_okD:
  assumes "round_ok ps ks m"
  shows "net_ok m" "ids m = set ps \<union> set ks" "set ps \<inter> set ks = {}" "distinct ks" "set ks \<subseteq> ids m"
    "k \<in> set ps \<Longrightarrow> owes m k c \<le> 0" "k \<in> set ps \<Longrightarrow> 0 \<le> owes m c k" "k \<in> set ks \<Longrightarrow> 0 \<le> getDebt k m"
proof -
  show ok: "net_ok m" and "ids m = set ps \<union> set ks" "set ps \<inter> set ks = {}" "distinct ks" "set ks \<subseteq> ids m"
    using assms by (auto simp: round_ok_def)
  show low: "k \<in> set ps \<Longrightarrow> owes m k c \<le> 0" for c using assms by (simp add: round_ok_def)
  show "k \<in> set ps \<Longrightarrow> 0 \<le> owes m c k" using low[of c] owes_antisym[OF ok, of c k] by simp
  show "k \<in> set ks \<Longrightarrow> 0 \<le> getDebt k m" using assms by (simp add: round_ok_def)
qed

lemma round_sum:
  assumes "round_ok ps ks m"
  shows "(\<Sum>k\<in>ids m. f k) = (\<Sum>k\<in>set ps. f k) + (\<Sum>k\<in>set ks. f k :: rat)"
  unfolding round_okD(2)[OF assms] using round_okD(3)[OF assms] by (simp add: sum.union_disjoint)

lemma inner_cut_debt:
  assumes r: "round_ok ps ks m1" and c: "cut (among ks) m1 m2"
  shows "getDebt k m2 = getDebt k m1 - (if k \<in> set ks then inner ks m1 k else 0)"
proof -
  have "(\<Sum>c\<in>ids m1. if among ks k c then owes m1 k c else 0) = (if k \<in> set ks then inner ks m1 k else 0)"
    using round_okD(5)[OF r] by (simp add: inner_def among_def sum.If_cases Int_absorb1)
  then show ?thesis using debt_after_cut[OF round_okD(1)[OF r] c among_symp, of k] by simp
qed

lemma inner_cut_entries:
  assumes r: "round_ok ps ks m1" and c: "cut (among ks) m1 m2"
  shows "\<forall>k \<in> set ks. \<forall>c x. entry m2 k c = Some x \<longrightarrow> 0 \<le> x \<and> c \<notin> set ks"
proof (intro ballI allI impI)
  fix k c x assume k: "k \<in> set ks" and e: "entry m2 k c = Some x"
  then have c1: "c \<notin> set ks" "entry m1 k c = Some x" using assms(2) by (auto simp: cut_def among_def split: if_splits)
  then have "c \<in> set ps" using net_okD(4)[OF round_okD(1)[OF r] c1(2)] round_okD(2)[OF r] by blast
  then show "0 \<le> x \<and> c \<notin> set ks" using round_okD(7)[OF r, of c k] c1 by (simp add: owes_def)
qed

lemma inner_cut_settle:
  assumes r: "round_ok ps ks m1" and c: "cut (among ks) m1 m2"
  defines "m' \<equiv> settle_nodes ks m2"
  shows "net_ok m'" "map fst m' = map fst m1"
    "k \<in> set ks \<Longrightarrow> owes m' k c = 0" "k \<in> set ks \<Longrightarrow> 0 \<le> getCapital k m'"
    "i \<notin> set ks \<Longrightarrow> j \<notin> set ks \<Longrightarrow> owes m' i j = owes m1 i j"
    "\<forall>k \<in> set ks. getCapital k m2 < 0 \<longrightarrow> 0 < getDebt k m2 \<Longrightarrow>
       (\<Sum>j\<in>ids m1. getCapital j m') = (\<Sum>j\<in>ids m1. getCapital j m2)"
    "\<forall>k \<in> set ks. getDebt k m2 \<le> getCapital k m2 \<Longrightarrow> worth m' j = worth m2 j"
proof -
  note o = cut_ok[OF round_okD(1)[OF r] c among_symp]
  have "set ks \<subseteq> ids m2" using round_okD(5)[OF r] o(2) by simp
  note s = settle_nodes_spec[OF o(1) round_okD(4)[OF r] this inner_cut_entries[OF r c], folded m'_def, unfolded o(2)]
  show "map fst m' = map fst m1" using s c by (simp add: cut_def)
  show "i \<notin> set ks \<Longrightarrow> j \<notin> set ks \<Longrightarrow> owes m' i j = owes m1 i j"
    using s c by (auto simp: cut_def owes_def among_def)
qed (use settle_nodes_spec[OF cut_ok(1)[OF round_okD(1)[OF r] c among_symp] round_okD(4)[OF r] _ inner_cut_entries[OF r c]]
      cut_ok(2)[OF round_okD(1)[OF r] c among_symp] round_okD(5)[OF r] in \<open>auto simp: m'_def\<close>)

lemma inner_cut_clears:
  assumes r: "round_ok ps ks m1" and c: "cut (among ks) m1 m2"
  shows "getDebt k (settle_nodes ks m2) = 0"
proof -
  let ?m = "settle_nodes ks m2"
  note s = inner_cut_settle[OF r c]
  have "owes ?m i j = 0" for i j
  proof (cases "i \<in> set ks \<or> j \<in> set ks")
    case True
    then show ?thesis using s(3)[of i j] s(3)[of j i] owes_antisym[OF s(1), of i j] by auto
  next
    case False
    then have e: "owes ?m i j = owes m1 i j" using s(5) by simp
    have "owes m1 i j = 0"
    proof (cases "entry m1 i j")
      case (Some x)
      then have "i \<in> set ps" "j \<in> set ps"
        using net_okD(4)[OF round_okD(1)[OF r] Some] round_okD(2)[OF r] False by auto
      then show ?thesis using round_okD(6)[OF r, of i j] round_okD(7)[OF r, of j i] by simp
    qed (simp add: owes_def)
    then show ?thesis using e by simp
  qed
  then show ?thesis by (simp add: getDebt_sum[OF s(1)])
qed

lemma inner_cut_capital:
  assumes r: "round_ok ps ks m1" and c: "cut (among ks) m1 m2"
    and same: "\<forall>k. k \<notin> set ks \<longrightarrow> getCapital k m2 = getCapital k m1"
    and t: "(\<Sum>k\<in>set ks. getCapital k m2) = (\<Sum>k\<in>set ks. getCapital k m1)"
    and n: "\<forall>k \<in> set ks. 0 \<le> inner ks m1 k \<longrightarrow> 0 \<le> getCapital k m2"
  shows "(\<Sum>k\<in>ids m1. getCapital k (settle_nodes ks m2)) = (\<Sum>k\<in>ids m1. getCapital k m1)"
proof -
  have "(\<Sum>k\<in>set ps. getCapital k m2) = (\<Sum>k\<in>set ps. getCapital k m1)"
    using same round_okD(3)[OF r] by (intro sum.cong) auto
  then have "(\<Sum>k\<in>ids m1. getCapital k m2) = (\<Sum>k\<in>ids m1. getCapital k m1)" using t by (simp add: round_sum[OF r])
  moreover have "\<forall>k \<in> set ks. getCapital k m2 < 0 \<longrightarrow> 0 < getDebt k m2"
  proof (intro ballI impI)
    fix k assume k: "k \<in> set ks" and "getCapital k m2 < 0"
    then have "inner ks m1 k < 0" using n by force
    then show "0 < getDebt k m2" using inner_cut_debt[OF r c, of k] round_okD(8)[OF r k] k by simp
  qed
  ultimately show ?thesis using inner_cut_settle(6)[OF r c] by simp
qed

lemma inner_cut_worth:
  assumes r: "round_ok ps ks m1" and c: "cut (among ks) m1 m2"
    and same: "\<forall>k. k \<notin> set ks \<longrightarrow> getCapital k m2 = getCapital k m1"
    and h: "\<forall>k \<in> set ks. getCapital k m2 = getCapital k m1 - inner ks m1 k" and w: "\<forall>k \<in> set ks. 0 \<le> worth m1 k"
  shows "getCapital k (settle_nodes ks m2) = worth m1 k"
proof -
  have w2: "worth m2 j = worth m1 j" for j using h same inner_cut_debt[OF r c, of j] by (auto simp: worth_def)
  have "\<forall>k \<in> set ks. getDebt k m2 \<le> getCapital k m2" 
  proof
    fix k assume "k \<in> set ks"
    then have "0 \<le> worth m2 k" using w w2 by simp
    then show "getDebt k m2 \<le> getCapital k m2" by (simp add: worth_def)
  qed
  then have "worth (settle_nodes ks m2) k = worth m1 k" using inner_cut_settle(7)[OF r c] w2 by simp
  then show ?thesis using inner_cut_clears[OF r c] by (simp add: worth_def)
qed

lemma nodes_split:
  "set (positive_nodes m) \<union> set (negative_nodes m) = ids m" "set (positive_nodes m) \<inter> set (negative_nodes m) = {}"
  "um_wf m \<Longrightarrow> distinct (negative_nodes m)" "k \<in> set (negative_nodes m) \<longleftrightarrow> k \<in> ids m \<and> 0 \<le> getDebt k m"
  by (auto simp: positive_nodes_def negative_nodes_def ids_def)

lemma no_positive_node:
  assumes "net_ok m" and "positive_nodes m = []"
  shows "getDebt k m = 0"
proof (cases "k \<in> ids m")
  case True
  have nn: "\<And>j. j \<in> ids m \<Longrightarrow> 0 \<le> getDebt j m"
    using nodes_split(1)[of m] nodes_split(4)[of _ m] assms(2) by auto
  show ?thesis
    using sum_nonneg_eq_0_iff[of "ids m" "\<lambda>j. getDebt j m"] nn total_debt[OF assms(1)] True by auto
qed (simp add: debt_outside)

lemma creditors_pay:
  assumes ok: "net_ok m"
  defines "ks \<equiv> negative_nodes m" and "m1 \<equiv> repay_nodes (positive_nodes m) m"
  shows "round_ok (positive_nodes m) ks m1" "map fst m1 = map fst m" "worth m1 k = worth m k"
    "k \<in> set ks \<Longrightarrow> getCapital k m \<le> getCapital k m1"
    "(\<Sum>k\<in>ids m. getCapital k m1) = (\<Sum>k\<in>ids m. getCapital k m)"
proof -
  let ?ps = "positive_nodes m"
  obtain P where P: "symp P" "cut P m m1" "\<forall>k \<in> set ?ps. \<forall>c. owes m1 k c \<le> 0" "\<forall>j. worth m1 j = worth m j"
    "\<forall>j. j \<notin> set ?ps \<longrightarrow> getCapital j m \<le> getCapital j m1"
    using repay_nodes_spec[OF ok, of ?ps] unfolding m1_def by blast
  note o = cut_ok[OF ok P(2,1)]
  show "map fst m1 = map fst m" using P(2) by (simp add: cut_def)
  show "worth m1 k = worth m k" using P(4) by simp
  show more: "k \<in> set ks \<Longrightarrow> getCapital k m \<le> getCapital k m1" for k
    using P(5) nodes_split(2)[of m] unfolding ks_def by blast
  have "0 \<le> getDebt k m1" if "k \<in> set ks" for k
  proof -
    have "0 \<le> getDebt k m" using that nodes_split(4)[of k m] by (simp add: ks_def)
    moreover have "worth m1 k = worth m k" using P(4) by blast
    ultimately show ?thesis using more[OF that] by (simp add: worth_def)
  qed
  then show "round_ok ?ps ks m1"
    using o P(3) nodes_split(1,2)[of m] nodes_split(3)[OF net_okD(1)[OF ok]] by (simp add: round_ok_def ks_def)
  show "(\<Sum>k\<in>ids m. getCapital k m1) = (\<Sum>k\<in>ids m. getCapital k m)"
    using capital_worth[OF o(1)] capital_worth[OF ok] P(4) o(2) by simp
qed

lemma round_cleared:
  assumes ok: "net_ok m"
  defines "ks \<equiv> negative_nodes m" and "m1 \<equiv> repay_nodes (positive_nodes m) m"
  assumes c: "cut (among ks) m1 m2" and same: "\<forall>k. k \<notin> set ks \<longrightarrow> getCapital k m2 = getCapital k m1"
    and a: "(\<forall>k. 0 \<le> getCapital k m) \<longrightarrow> (\<Sum>k\<in>set ks. getCapital k m2) = (\<Sum>k\<in>set ks. getCapital k m1)
      \<and> (\<forall>k \<in> set ks. 0 \<le> inner ks m1 k \<longrightarrow> 0 \<le> getCapital k m2)"
    and b: "(\<forall>k. 0 \<le> worth m k) \<longrightarrow> (\<forall>k \<in> set ks. getCapital k m2 = getCapital k m1 - inner ks m1 k)"
  shows "cleared m (settle_nodes ks m2)"
proof -
  let ?m = "settle_nodes ks m2"
  note p = creditors_pay[OF ok, folded ks_def m1_def]
  note s = inner_cut_settle[OF p(1) c]
  have ids: "ids m1 = ids m" "ids ?m = ids m" using keys_ids[OF p(2)] keys_ids[OF s(2)] by simp_all
  have "(\<Sum>k\<in>ids m. getCapital k ?m) = (\<Sum>k\<in>ids m. getCapital k m)" if "\<forall>k. 0 \<le> getCapital k m"
    using inner_cut_capital[OF p(1) c same] a that p(5) ids(1) by simp
  moreover have "0 \<le> getCapital k ?m" if "0 \<le> getDebt k m" for k
    using s(4)[of k] capital_outside[of k ?m] ids(2) nodes_split(4)[of k m] that unfolding ks_def by force
  moreover have "getCapital k ?m = worth m k" if "\<forall>k. 0 \<le> worth m k" for k
    using inner_cut_worth[OF p(1) c same, of k] b that p(3) by simp
  ultimately show ?thesis using inner_cut_clears[OF p(1) c] s(2) p(2) by (simp add: cleared_def)
qed

lemma sub_net_round:
  assumes r: "round_ok ps ks m1"
  obtains t s where "sub_net ks m1 = Some (t, s)" "map fst s = ks" "net_ok s" "ids s = set ks"
    "\<forall>k \<in> set ks. getCapital k s = getCapital k m1" "\<forall>k \<in> set ks. getDebt k s = inner ks m1 k"
    "t \<longleftrightarrow> (\<exists>k \<in> set ks. \<exists>c \<in> set ks. entry m1 k c \<noteq> None)"
    "\<forall>k \<in> set ks. worth m1 k \<le> worth s k"
proof -
  from sub_net_spec[OF round_okD(1,4,5)[OF r]] obtain t s where
    s: "sub_net ks m1 = Some (t, s)" "map fst s = ks" "net_ok s" "\<forall>k \<in> set ks. getCapital k s = getCapital k m1"
      "t \<longleftrightarrow> (\<exists>k \<in> set ks. \<exists>c \<in> set ks. entry m1 k c \<noteq> None)"
      "\<forall>i j. entry s i j = (if i \<in> set ks \<and> j \<in> set ks then entry m1 i j else None)" by blast
  have ids: "ids s = set ks" using s(2) by (simp add: ids_def)
  have debt: "getDebt k s = inner ks m1 k" if "k \<in> set ks" for k
    unfolding getDebt_sum[OF s(3)] ids inner_def using s(6) that by (intro sum.cong) (simp_all add: owes_def)
  have "worth m1 k \<le> worth s k" if k: "k \<in> set ks" for k
  proof -
    have "0 \<le> (\<Sum>c\<in>set ps. owes m1 k c)" using round_okD(7)[OF r] by (intro sum_nonneg) auto
    moreover have "getDebt k m1 = (\<Sum>c\<in>set ps. owes m1 k c) + getDebt k s"
      unfolding getDebt_sum[OF round_okD(1)[OF r]] round_sum[OF r] debt[OF k] inner_def ..
    ultimately show ?thesis using s(4) k by (simp add: worth_def)
  qed
  then show ?thesis using that[OF s(1,2,3) ids s(4) _ s(5)] debt by blast
qed

lemma no_inner_debts:
  assumes ok: "net_ok m"
  defines "ks \<equiv> negative_nodes m" and "m1 \<equiv> repay_nodes (positive_nodes m) m"
  assumes none: "\<forall>i \<in> set ks. \<forall>j \<in> set ks. entry m1 i j = None"
  shows "cleared m (settle_nodes ks m1)"
proof -
  note p = creditors_pay[OF ok, folded ks_def m1_def]
  have c: "cut (among ks) m1 m1" using none net_okD(2)[OF round_okD(1)[OF p(1)]] by (simp add: cut_def among_def)
  have z: "inner ks m1 k = 0" if "k \<in> set ks" for k using none that by (simp add: inner_def owes_def)
  have "0 \<le> getCapital k m1" if "\<forall>k. 0 \<le> getCapital k m" "k \<in> set ks" for k using p(4)[OF that(2)] that(1) order_trans by blast
  then show ?thesis using round_cleared[OF ok, folded ks_def m1_def, OF c] z by simp
qed

lemma liquidated_sub_net:
  assumes ok: "net_ok m"
  defines "ks \<equiv> negative_nodes m" and "m1 \<equiv> repay_nodes (positive_nodes m) m"
  assumes s: "ids s = set ks" "\<forall>k \<in> set ks. getCapital k s = getCapital k m1" "\<forall>k \<in> set ks. getDebt k s = inner ks m1 k"
      "\<forall>k \<in> set ks. worth m1 k \<le> worth s k"
    and cl: "cleared s s'"
    and a: "adopt_nodes s' ks m1 = Some m2"
  shows "cleared m (settle_nodes ks m2)"
proof -
  note p = creditors_pay[OF ok, folded ks_def m1_def]
  have ids': "ids s' = set ks" using cleared_ids[OF cl] s(1) by simp
  have m2: "cut (among ks) m1 m2" "getCapital j m2 = (if j \<in> set ks then getCapital j s' else getCapital j m1)" for j
    using adopt_nodes_spec[OF round_okD(1)[OF p(1)], of ks s'] ids' round_okD(5)[OF p(1)] a
    by (auto intro: cut_cong simp: among_def)
  have caps: "0 \<le> getCapital k s" if "\<forall>k. 0 \<le> getCapital k m" for k
    using capital_outside[of k s] s(1,2) p(4)[of k] that order_trans by (cases "k \<in> set ks") fastforce+
  have worths: "0 \<le> worth s k" if w: "\<forall>k. 0 \<le> worth m k" for k
    using s(1,4) w p(3)[of k] order_trans[of 0 "worth m1 k" "worth s k"] capital_outside[of k s] debt_outside[of k s]
    by (cases "k \<in> set ks") (auto simp: worth_def)
  have "(\<Sum>k\<in>set ks. getCapital k s) = (\<Sum>k\<in>set ks. getCapital k m1)" using s(2) by (intro sum.cong) auto
  then show ?thesis
    using cl s caps worths m2(2)
    by (intro round_cleared[OF ok, folded ks_def m1_def, OF m2(1)]) (auto simp: cleared_def worth_def)
qed

lemma liquidate_spec:
  assumes "net_ok m"
  shows "\<exists>m'. liquidate m = (True, m') \<and> cleared m m'"
  using assms
proof (induction m rule: length_induct)
  case (1 m)
  note ok = "1.prems"
  let ?ks = "negative_nodes m" and ?m1 = "repay_nodes (positive_nodes m) m"
  show ?case
  proof (cases "m = [] \<or> positive_nodes m = []")
    case True
    then have l: "liquidate m = (True, m)" by (subst liquidate.simps) auto
    have "getDebt k m = 0" for k
      using no_positive_node[OF ok] True by (auto simp: getDebt_def getDebtSheet_def)
    then show ?thesis unfolding l by (simp add: worth_def cleared_def)
  next
    case False
    note p = creditors_pay[OF ok]
    from sub_net_round[OF p(1)] obtain t s where
      s: "sub_net ?ks ?m1 = Some (t, s)" "map fst s = ?ks" "net_ok s" "ids s = set ?ks"
        "\<forall>k \<in> set ?ks. getCapital k s = getCapital k ?m1" "\<forall>k \<in> set ?ks. getDebt k s = inner ?ks ?m1 k"
        "t \<longleftrightarrow> (\<exists>k \<in> set ?ks. \<exists>c \<in> set ?ks. entry ?m1 k c \<noteq> None)" "\<forall>k \<in> set ?ks. worth ?m1 k \<le> worth s k" by metis
    show ?thesis
    proof (cases t)
      case False': False
      have "liquidate m = (True, settle_nodes ?ks ?m1)"
        using False False' s(1) by (subst liquidate.simps) (simp add: Let_def)
      then show ?thesis using no_inner_debts[OF ok] s(7) False' by simp
    next
      case True
      have "length ?ks < length m"
        using False length_filter_less[of "hd (positive_nodes m)" "map fst m" "\<lambda>k. \<not> getDebt k m < 0"]
          hd_in_set[of "positive_nodes m"] by (auto simp: negative_nodes_def positive_nodes_def)
      then have "length s < length m" using s(2) by (metis length_map)
      from "1.IH"[rule_format, OF this s(3)] obtain s' where i: "liquidate s = (True, s')" "cleared s s'" by blast
      have "set ?ks \<subseteq> ids s'" using cleared_ids[OF i(2)] s(4) by simp
      from adopt_nodes_spec[OF round_okD(1)[OF p(1)] this round_okD(5)[OF p(1)]] obtain m2 where
        m2: "adopt_nodes s' ?ks ?m1 = Some m2" by blast
      have "liquidate m = (True, settle_nodes ?ks m2)"
        using False True s(1) i(1) m2 by (subst liquidate.simps) (simp add: Let_def)
      then show ?thesis using liquidated_sub_net[OF ok s(4,5,6,8) i(2) m2] by simp
    qed
  qed
qed

section \<open>Properties\<close>



lemma triangle_ok: "net_ok triangle"
  by code_simp

lemma triangle_read:
  "getDebt k triangle = (if k = 1 then 90 else if k = 2 then - 40 else if k = 3 then - 50 else 0)"
  "getCapital k triangle = (if k = 1 then 100 else if k = 2 then 20 else if k = 3 then 30 else 0)"
  by (simp_all add: triangle_def getDebt_def getDebtSheet_def getCapital_def)



text \<open>A node that is owed more than it owes can end up with negative capital although nobody
  starts with any: it pays its debts in full before it knows that its own debtors cannot pay.\<close>
theorem liquidation_overdraws_creditor:
  "net_ok bankrupt \<and> list_all (\<lambda>(k, n). 0 \<le> dn_capital n) bankrupt
   \<and> getDebt 2 bankrupt < 0 \<and> getCapital 2 (snd (liquidate bankrupt)) = - 100
   \<and> getCapital 3 (snd (liquidate bankrupt)) = 100"
  by code_simp

end
