(* ===== verification/Venue_Loading.thy ===== *)
theory Venue_Loading
  imports Venue_Manager
begin

text \<open>
  Loading a venue from several threads at once. \<open>VenueManager::loadVenue\<close> of
  \<open>Venue/VenueManager.cpp\<close> is broken up here at its critical sections: a thread is a program counter
  with the local variables that are live there, and \<open>load_step\<close> runs one section (a call that takes
  a lock, a query, or the test after a sleep of five milliseconds). A schedule is a list of events: the
  steps of the threads in any order, and the removal of venues by the periodic sweep.

  The properties hold for every schedule: a venue is loaded by one thread at a time and never
  registered over another one, the threads that ask for the same venue get the same object, each
  thread returns after a bounded number of its own steps, and a thread that runs alone does
  what the sequential \<open>loadVenue\<close> of the theory of the venue manager does.
\<close>

section \<open>Threads\<close>

datatype ('g, 'd) load_pc =
  LStart
| LQuery
| LLock nat                            \<comment> \<open>\<open>count\<close>, the number of sleeps so far\<close>
| LRecheck
| LFindLoader
| LLoad "('g, 'd) VenueLoader"
| LDistribute "'g Venue"
| LWorker "'g Venue" nat               \<comment> \<open>with its handler\<close>
| LAttach "'g Venue" nat nat           \<comment> \<open>with its handler and the worker\<close>
| LRegister nat nat                    \<comment> \<open>the venue, now shared, and the worker\<close>
| LInitialize nat nat
| LUnlock "nat option"
| LDone "nat option"

record ('g, 'd) load_thread =
  lt_id :: string
  lt_gameType :: int
  lt_error :: int
  lt_pc :: "('g, 'd) load_pc"

definition load_thread_new :: "string \<Rightarrow> int \<Rightarrow> int \<Rightarrow> ('g, 'd) load_thread" where
  "load_thread_new vid gameType error = \<lparr>lt_id = vid, lt_gameType = gameType, lt_error = error, lt_pc = LStart\<rparr>"

definition goes :: "('g, 'd) load_pc \<Rightarrow> ('g, 'd) load_thread \<Rightarrow> ('g, 'd) load_thread" where
  "goes pc t = t\<lparr>lt_pc := pc\<rparr>"

definition fails :: "('g, 'd) load_pc \<Rightarrow> int \<Rightarrow> ('g, 'd) load_thread \<Rightarrow> ('g, 'd) load_thread" where
  \<comment> \<open>\<open>error = code\<close> before the next section\<close>
  "fails pc code t = t\<lparr>lt_error := code, lt_pc := pc\<rparr>"

definition load_first ::
  "('g, 'd) load_thread \<Rightarrow> ('g, 'd, 'r) game_server \<Rightarrow> ('g, 'd) load_thread \<times> ('g, 'd, 'r) game_server" where
  "load_first t gs =
     (case Option.bind (vm_getVenue (lt_id t) (gs_vm gs)) (\<lambda>a. map_option (\<lambda>v. (a, v)) (um_find (sv_heap gs) a)) of
        Some (a, v) \<Rightarrow> (goes (LDone (if lt_gameType t \<noteq> ve_gameType v then None else Some a)) t, gs)
      | None \<Rightarrow> (goes LQuery t, gs))"

definition load_query ::
  "enter_codes \<Rightarrow> 'd syncQuery \<Rightarrow> ('g, 'd) load_thread \<Rightarrow> ('g, 'd, 'r) game_server
     \<Rightarrow> ('g, 'd) load_thread \<times> ('g, 'd, 'r) game_server" where
  "load_query cd sq t gs =
     (let ((ok, gt, status), db) = LoadVenueTask sq (lt_id t) (cx_db (sv_ctx gs))
      in (if \<not> ok then fails (LDone None) (cd_LOAD_FAILED cd) t
          else if gt \<noteq> lt_gameType t then fails (LDone None) (cd_GAME_TYPE_ERROR cd) t
          else if status \<noteq> 0 then fails (LDone None) (cd_STATUS_ERROR cd) t
          else goes (LLock 0) t,
          gs\<lparr>sv_ctx := (sv_ctx gs)\<lparr>cx_db := db\<rparr>\<rparr>))"

definition load_lock ::
  "nat \<Rightarrow> ('g, 'd) load_thread \<Rightarrow> ('g, 'd, 'r) game_server \<Rightarrow> ('g, 'd) load_thread \<times> ('g, 'd, 'r) game_server" where
  "load_lock tries t gs =
     (let (locked, vm) = lockLoading (lt_id t) (gs_vm gs)
      in (if locked then goes LRecheck t
          else if tries > 199 then goes (LDone None) t
          else goes (LLock (tries + 1)) t, gs\<lparr>gs_vm := vm\<rparr>))"

definition load_load ::
  "enter_codes \<Rightarrow> ('g, 'd) VenueLoader \<Rightarrow> ('g, 'd) load_thread \<Rightarrow> ('g, 'd, 'r) game_server
     \<Rightarrow> ('g, 'd) load_thread \<times> ('g, 'd, 'r) game_server" where
  "load_load cd loader t gs =
     (let (r, db) = loader (lt_id t) (cx_db (sv_ctx gs))
      in (case r of
            LoadThrows \<Rightarrow> goes (LUnlock None) t
          | Loaded None \<Rightarrow> fails (LUnlock None) (cd_LOAD_FAILED cd) t
          | Loaded (Some v) \<Rightarrow> fails (LDistribute v) (cd_LOAD_FAILED cd) t,
          gs\<lparr>sv_ctx := (sv_ctx gs)\<lparr>cx_db := db\<rparr>\<rparr>))"

definition load_attach ::
  "'g Venue \<Rightarrow> nat \<Rightarrow> nat \<Rightarrow> ('g, 'd) load_thread \<Rightarrow> ('g, 'd, 'r) game_server
     \<Rightarrow> ('g, 'd) load_thread \<times> ('g, 'd, 'r) game_server" where
  \<comment> \<open>\<open>handler->addVenue(venue); venue->setHandler(handler)\<close>\<close>
  "load_attach v h worker t gs =
     (let a = fresh_addr gs
      in (goes (LRegister a worker) t,
          gs\<lparr>sv_heap := um_put a (v\<lparr>ve_handler := Some h\<rparr>) (sv_heap gs),
             sv_handlers := (case um_find (sv_handlers gs) h of
                 None \<Rightarrow> sv_handlers gs
               | Some ih \<Rightarrow> um_put h (inner_addVenue (ve_id v) a ih) (sv_handlers gs))\<rparr>))"

definition load_step ::
  "enter_codes \<Rightarrow> 'd syncQuery \<Rightarrow> ('g, 'd) load_thread \<times> ('g, 'd, 'r) game_server
     \<Rightarrow> ('g, 'd) load_thread \<times> ('g, 'd, 'r) game_server" where
  "load_step cd sq = (\<lambda>(t, gs).
     case lt_pc t of
       LStart \<Rightarrow> load_first t gs
     | LQuery \<Rightarrow> load_query cd sq t gs
     | LLock tries \<Rightarrow> load_lock tries t gs
     | LRecheck \<Rightarrow>
         (goes (case vm_getVenue (lt_id t) (gs_vm gs) of Some a \<Rightarrow> LUnlock (Some a) | None \<Rightarrow> LFindLoader) t, gs)
     | LFindLoader \<Rightarrow>
         (case getVenueLoader (lt_gameType t) (gs_vm gs) of
            None \<Rightarrow> fails (LUnlock None) (cd_LOAD_FAILED cd) t
          | Some loader \<Rightarrow> goes (LLoad loader) t, gs)
     | LLoad loader \<Rightarrow> load_load cd loader t gs
     | LDistribute v \<Rightarrow>
         (case distributeHandler (Some v) gs of
            (None, gs1) \<Rightarrow> (fails (LUnlock None) (cd_DISTRIBUTE_FAILED cd) t, gs1)
          | (Some h, gs1) \<Rightarrow> (goes (LWorker v h) t, gs1))
     | LWorker v h \<Rightarrow>
         (case Option.bind (um_find (sv_handlers gs) h) ih_worker of
            None \<Rightarrow> fails (LUnlock None) (cd_HANDLER_ERROR cd) t
          | Some worker \<Rightarrow> goes (LAttach v h worker) t, gs)
     | LAttach v h worker \<Rightarrow> load_attach v h worker t gs
     | LRegister a worker \<Rightarrow>
         (fails (LInitialize a worker) (cd_SUCCESS cd) t, gs\<lparr>gs_vm := vm_addVenue (lt_id t) a (gs_vm gs)\<rparr>)
     | LInitialize a worker \<Rightarrow> (goes (LUnlock (Some a)) t, dispatch_task worker (TInitialize a) gs)
     | LUnlock r \<Rightarrow> (goes (LDone r) t, gs\<lparr>gs_vm := unlockLoading (lt_id t) (gs_vm gs)\<rparr>)
     | LDone r \<Rightarrow> (t, gs))"

section \<open>Schedules\<close>

datatype load_event =
  Runs nat       \<comment> \<open>the thread with this number runs one section\<close>
| Removed string \<comment> \<open>the sweep removes a venue\<close>

type_synonym ('g, 'd, 'r) load_sys = "('g, 'd) load_thread list \<times> ('g, 'd, 'r) game_server"

fun load_happens ::
  "enter_codes \<Rightarrow> 'd syncQuery \<Rightarrow> load_event \<Rightarrow> ('g, 'd, 'r) load_sys \<Rightarrow> ('g, 'd, 'r) load_sys" where
  "load_happens cd sq (Runs i) (ts, gs) =
     (if i < length ts then let (t, gs') = load_step cd sq (ts ! i, gs) in (ts[i := t], gs') else (ts, gs))"
| "load_happens cd sq (Removed vid) (ts, gs) = (ts, gs\<lparr>gs_vm := vm_removeVenue vid (gs_vm gs)\<rparr>)"

definition load_run ::
  "enter_codes \<Rightarrow> 'd syncQuery \<Rightarrow> load_event list \<Rightarrow> ('g, 'd, 'r) load_sys \<Rightarrow> ('g, 'd, 'r) load_sys" where
  "load_run cd sq es s = fold (load_happens cd sq) es s"

fun load_alone ::
  "enter_codes \<Rightarrow> 'd syncQuery \<Rightarrow> nat \<Rightarrow> ('g, 'd) load_thread \<times> ('g, 'd, 'r) game_server
     \<Rightarrow> ('g, 'd) load_thread \<times> ('g, 'd, 'r) game_server" where
  "load_alone cd sq 0 s = s"
| "load_alone cd sq (Suc n) s = load_alone cd sq n (load_step cd sq s)"

section \<open>Vocabulary of the properties\<close>

fun holds_lock :: "('g, 'd) load_pc \<Rightarrow> bool" where
  \<comment> \<open>between \<open>lockLoading\<close> and \<open>unlockLoading\<close>\<close>
  "holds_lock LStart = False"
| "holds_lock LQuery = False"
| "holds_lock (LLock n) = False"
| "holds_lock (LDone r) = False"
| "holds_lock _ = True"

fun unregistered :: "('g, 'd) load_pc \<Rightarrow> bool" where
  \<comment> \<open>after the second look at the table, before the venue is entered into it\<close>
  "unregistered LFindLoader = True"
| "unregistered (LLoad l) = True"
| "unregistered (LDistribute v) = True"
| "unregistered (LWorker v h) = True"
| "unregistered (LAttach v h w) = True"
| "unregistered (LRegister a w) = True"
| "unregistered _ = False"

fun carries :: "('g, 'd) load_pc \<Rightarrow> 'g Venue option" where
  "carries (LDistribute v) = Some v"
| "carries (LWorker v h) = Some v"
| "carries (LAttach v h w) = Some v"
| "carries _ = None"

fun outcome :: "('g, 'd) load_pc \<Rightarrow> nat option" where
  \<comment> \<open>the venue a thread has got\<close>
  "outcome (LInitialize a w) = Some a"
| "outcome (LUnlock r) = r"
| "outcome (LDone r) = r"
| "outcome _ = None"

definition is_venue :: "string \<Rightarrow> ('g, 'd, 'r) game_server \<Rightarrow> nat \<Rightarrow> bool" where
  "is_venue vid gs a \<longleftrightarrow> (\<exists>v. um_find (sv_heap gs) a = Some v \<and> ve_id v = vid)"

definition thread_ok :: "('g, 'd) load_thread \<Rightarrow> ('g, 'd, 'r) game_server \<Rightarrow> bool" where
  "thread_ok t gs \<longleftrightarrow>
     (holds_lock (lt_pc t) \<longrightarrow> lt_id t \<in> set (vm_loadingVenues (gs_vm gs)))
   \<and> (unregistered (lt_pc t) \<longrightarrow> vm_getVenue (lt_id t) (gs_vm gs) = None)
   \<and> (\<forall>v. carries (lt_pc t) = Some v \<longrightarrow> ve_id v = lt_id t)
   \<and> (\<forall>l vid db v db'. lt_pc t = LLoad l \<longrightarrow> l vid db = (Loaded (Some v), db') \<longrightarrow> ve_id v = vid)
   \<and> (\<forall>a w. lt_pc t = LRegister a w \<longrightarrow> is_venue (lt_id t) gs a)
   \<and> (\<forall>a. outcome (lt_pc t) = Some a \<longrightarrow> is_venue (lt_id t) gs a)"

definition table_ok :: "('g, 'd, 'r) game_server \<Rightarrow> bool" where
  "table_ok gs \<longleftrightarrow> (\<forall>vid a. vm_getVenue vid (gs_vm gs) = Some a \<longrightarrow> is_venue vid gs a) \<and> loaders_ok gs"

definition exclusive :: "('g, 'd) load_thread list \<Rightarrow> bool" where
  "exclusive ts \<longleftrightarrow> (\<forall>i j. i < length ts \<longrightarrow> j < length ts \<longrightarrow> holds_lock (lt_pc (ts ! i)) \<longrightarrow> holds_lock (lt_pc (ts ! j)) \<longrightarrow>
     lt_id (ts ! i) = lt_id (ts ! j) \<longrightarrow> i = j)"

definition load_inv :: "('g, 'd, 'r) load_sys \<Rightarrow> bool" where
  "load_inv = (\<lambda>(ts, gs). table_ok gs \<and> exclusive ts \<and> (\<forall>t \<in> set ts. thread_ok t gs))"

definition settled :: "('g, 'd, 'r) load_sys \<Rightarrow> bool" where
  \<comment> \<open>a venue some thread has got is the one in the table\<close>
  "settled = (\<lambda>(ts, gs). \<forall>t \<in> set ts. \<forall>a. outcome (lt_pc t) = Some a \<longrightarrow> vm_getVenue (lt_id t) (gs_vm gs) = Some a)"

fun load_rank :: "('g, 'd) load_pc \<Rightarrow> nat" where
  "load_rank LStart = 212"
| "load_rank LQuery = 211"
| "load_rank (LLock n) = 10 + (200 - n)"
| "load_rank LRecheck = 9"
| "load_rank LFindLoader = 8"
| "load_rank (LLoad l) = 7"
| "load_rank (LDistribute v) = 6"
| "load_rank (LWorker v h) = 5"
| "load_rank (LAttach v h w) = 4"
| "load_rank (LRegister a w) = 3"
| "load_rank (LInitialize a w) = 2"
| "load_rank (LUnlock r) = 1"
| "load_rank (LDone r) = 0"

fun finished :: "('g, 'd) load_pc \<Rightarrow> bool" where
  "finished (LDone r) = True"
| "finished _ = False"

definition demo_loads :: "(GameDumb, unit) load_thread list" where
  "demo_loads = [load_thread_new ''v'' 1 0, load_thread_new ''v'' 1 0]"

definition demo_rows :: "unit syncQuery" where
  "demo_rows = (\<lambda>s u. (True, [VenueRow 1 0], 0, u))"

definition demo_schedule :: "load_event list" where
  \<comment> \<open>the two threads take turns\<close>
  "demo_schedule = concat (replicate 16 [Runs 0, Runs 1])"

section \<open>Lemmas\<close>

lemmas load_step_defs = load_step_def load_first_def load_query_def load_lock_def load_load_def load_attach_def
  goes_def fails_def

lemma load_step_keeps:
  assumes "load_step cd sq (t, gs) = (t', gs')"
  shows "lt_id t' = lt_id t" and "lt_gameType t' = lt_gameType t"
  using assms
  by (cases "lt_pc t"; auto simp: load_step_defs Let_def split: option.splits prod.splits if_splits loaded.splits)+

lemma is_venue_attach: "is_venue vid gs a \<Longrightarrow> is_venue vid (snd (load_attach v h w t gs)) a"
  using fresh_addr_fresh[of gs] by (auto simp: is_venue_def load_attach_def Let_def container_simps)

lemma load_step_heap:
  assumes "load_step cd sq (t, gs) = (t', gs')" and "is_venue vid gs a"
  shows "is_venue vid gs' a"
proof (cases "\<exists>v h w. lt_pc t = LAttach v h w")
  case True
  then show ?thesis using assms(1) is_venue_attach[OF assms(2)] by (auto simp: load_step_def) (metis snd_conv)
next
  case False
  then have "sv_heap gs' = sv_heap gs" using assms(1)
    by (cases "lt_pc t") (auto simp: load_step_defs Let_def dispatch_task_def dest: distributeHandler_frame
        split: option.splits prod.splits if_splits loaded.splits)
  then show ?thesis using assms(2) by (simp add: is_venue_def)
qed

lemma load_step_loaders:
  assumes "load_step cd sq (t, gs) = (t', gs')"
  shows "vm_venueLoaders (gs_vm gs') = vm_venueLoaders (gs_vm gs)"
  using assms
  by (cases "lt_pc t") (auto simp: load_step_defs Let_def dispatch_task_def lockLoading_def unlockLoading_def vm_addVenue_def
      distributeHandler_def split: option.splits prod.splits if_splits loaded.splits)

lemma load_step_table:
  assumes "load_step cd sq (t, gs) = (t', gs')"
  shows "vm_getVenue vid (gs_vm gs') =
    (case lt_pc t of
       LRegister a w \<Rightarrow> if vid = lt_id t \<and> vm_getVenue vid (gs_vm gs) = None then Some a else vm_getVenue vid (gs_vm gs)
     | _ \<Rightarrow> vm_getVenue vid (gs_vm gs))"
  using assms
  by (cases "lt_pc t") (auto simp: load_step_defs Let_def dispatch_task_def lockLoading_def unlockLoading_def vm_addVenue_def
      vm_getVenue_def container_simps dest: distributeHandler_frame split: option.splits prod.splits if_splits loaded.splits)

lemma load_step_loading:
  assumes "load_step cd sq (t, gs) = (t', gs')"
  shows "set (vm_loadingVenues (gs_vm gs')) =
    (case lt_pc t of
       LLock n \<Rightarrow> insert (lt_id t) (set (vm_loadingVenues (gs_vm gs)))
     | LUnlock r \<Rightarrow> set (vm_loadingVenues (gs_vm gs)) - {lt_id t}
     | _ \<Rightarrow> set (vm_loadingVenues (gs_vm gs)))"
  using assms
  by (cases "lt_pc t") (auto simp: load_step_defs Let_def dispatch_task_def lockLoading_def unlockLoading_def vm_addVenue_def
      us_insert_def dest: distributeHandler_frame split: option.splits prod.splits if_splits loaded.splits)

lemma load_step_lock:
  assumes "load_step cd sq (t, gs) = (t', gs')"
  shows "holds_lock (lt_pc t') \<longleftrightarrow>
    (case lt_pc t of
       LLock n \<Rightarrow> lt_id t \<notin> set (vm_loadingVenues (gs_vm gs))
     | LUnlock r \<Rightarrow> False
     | pc \<Rightarrow> holds_lock pc)"
  using assms
  by (cases "lt_pc t") (auto simp: load_step_defs Let_def lockLoading_def split: option.splits prod.splits if_splits loaded.splits)

lemma load_step_rank:
  assumes "load_step cd sq (t, gs) = (t', gs')"
  shows "load_rank (lt_pc t') < load_rank (lt_pc t) \<or> (\<exists>r. lt_pc t = LDone r \<and> t' = t)"
  using assms
  by (cases "lt_pc t") (auto simp: load_step_defs Let_def split: option.splits prod.splits if_splits loaded.splits)

lemma loaders_ok_cong: "vm_venueLoaders (gs_vm gs') = vm_venueLoaders (gs_vm gs) \<Longrightarrow> loaders_ok gs' = loaders_ok gs"
  by (simp add: loaders_ok_def getVenueLoader_def)

lemma load_step_unregistered:
  assumes "load_step cd sq (t, gs) = (t', gs')" and "unregistered (lt_pc t')"
  shows "(unregistered (lt_pc t) \<and> (\<forall>a w. lt_pc t \<noteq> LRegister a w))
    \<or> (lt_pc t = LRecheck \<and> vm_getVenue (lt_id t) (gs_vm gs) = None)"
  using assms
  by (cases "lt_pc t") (auto simp: load_step_defs Let_def split: option.splits prod.splits if_splits loaded.splits)

lemma thread_ok_step:
  assumes s: "load_step cd sq (t, gs) = (t', gs')" and t: "thread_ok t gs" and tab: "table_ok gs"
  shows "thread_ok t' gs'"
proof -
  note h = load_step_heap[OF s]
  have lock: "holds_lock (lt_pc t') \<longrightarrow> lt_id t' \<in> set (vm_loadingVenues (gs_vm gs'))"
    using t load_step_lock[OF s] load_step_loading[OF s] load_step_keeps(1)[OF s]
    by (cases "lt_pc t") (auto simp: thread_ok_def)
  have "unregistered (lt_pc t') \<longrightarrow> vm_getVenue (lt_id t') (gs_vm gs') = None"
    using t load_step_table[OF s, of "lt_id t"] load_step_keeps(1)[OF s] load_step_unregistered[OF s]
    by (cases "lt_pc t") (auto simp: thread_ok_def)
  moreover have "\<forall>v. carries (lt_pc t') = Some v \<longrightarrow> ve_id v = lt_id t'"
    using t s by (cases "lt_pc t", auto simp: thread_ok_def load_step_defs Let_def
        split: option.splits prod.splits if_splits loaded.splits, blast)
  moreover have "\<forall>l vid db v db'. lt_pc t' = LLoad l \<longrightarrow> l vid db = (Loaded (Some v), db') \<longrightarrow> ve_id v = vid"
    using t s tab by (cases "lt_pc t", auto simp: thread_ok_def table_ok_def loaders_ok_def load_step_defs Let_def
        split: option.splits prod.splits if_splits loaded.splits, blast)
  moreover have "\<forall>a w. lt_pc t' = LRegister a w \<longrightarrow> is_venue (lt_id t') gs' a"
    using t s by (cases "lt_pc t") (auto simp: thread_ok_def is_venue_def load_step_defs Let_def container_simps
        split: option.splits prod.splits if_splits loaded.splits)
  moreover have "\<forall>a. outcome (lt_pc t') = Some a \<longrightarrow> is_venue (lt_id t') gs a"
    using t s tab by (cases "lt_pc t") (auto simp: thread_ok_def table_ok_def load_step_defs Let_def
        split: option.splits prod.splits if_splits loaded.splits bind_splits)
  ultimately show ?thesis using lock h by (simp add: thread_ok_def)
qed

lemma thread_ok_other:
  assumes s: "load_step cd sq (t, gs) = (t', gs')" and u: "thread_ok u gs"
    and ex: "holds_lock (lt_pc t) \<Longrightarrow> holds_lock (lt_pc u) \<Longrightarrow> lt_id u \<noteq> lt_id t"
  shows "thread_ok u gs'"
proof -
  have "holds_lock (lt_pc u) \<longrightarrow> lt_id u \<in> set (vm_loadingVenues (gs_vm gs'))"
    using u ex load_step_loading[OF s] by (cases "lt_pc t") (auto simp: thread_ok_def)
  moreover have "unregistered (lt_pc u) \<Longrightarrow> holds_lock (lt_pc u)" by (cases "lt_pc u") simp_all
  then have "unregistered (lt_pc u) \<longrightarrow> vm_getVenue (lt_id u) (gs_vm gs') = None"
    using u ex load_step_table[OF s, of "lt_id u"] by (cases "lt_pc t") (auto simp: thread_ok_def)
  ultimately show ?thesis using u load_step_heap[OF s] by (simp add: thread_ok_def)
qed

lemma table_ok_step:
  assumes s: "load_step cd sq (t, gs) = (t', gs')" and t: "thread_ok t gs" and tab: "table_ok gs"
  shows "table_ok gs'"
proof -
  have "is_venue vid gs' a" if "vm_getVenue vid (gs_vm gs') = Some a" for vid a
    using that load_step_table[OF s, of vid] load_step_heap[OF s, of vid a] t tab
    by (cases "lt_pc t") (auto simp: thread_ok_def table_ok_def split: if_splits)
  then show ?thesis using tab loaders_ok_cong[OF load_step_loaders[OF s]] by (simp add: table_ok_def)
qed

lemma exclusive_step:
  assumes s: "load_step cd sq (ts ! i, gs) = (t', gs')" and i: "i < length ts"
    and ex: "exclusive ts" and ok: "\<forall>t \<in> set ts. thread_ok t gs"
  shows "exclusive (ts[i := t'])"
proof -
  let ?t = "ts ! i"
  have new: "lt_id (ts ! j) \<noteq> lt_id ?t" if "holds_lock (lt_pc t')" "j < length ts" "j \<noteq> i" "holds_lock (lt_pc (ts ! j))" for j
  proof (cases "holds_lock (lt_pc ?t)")
    case True
    then show ?thesis using ex that i by (auto simp: exclusive_def)
  next
    case False
    then have "lt_id ?t \<notin> set (vm_loadingVenues (gs_vm gs))"
      using load_step_lock[OF s] that(1) by (cases "lt_pc ?t") simp_all
    moreover have "thread_ok (ts ! j) gs" using ok that(2) by simp
    ultimately show ?thesis using that(4) by (auto simp: thread_ok_def)
  qed
  show ?thesis
    using ex new load_step_keeps(1)[OF s] i unfolding exclusive_def by (auto simp: nth_list_update) (metis)+
qed

lemma load_inv_event:
  assumes "load_inv s"
  shows "load_inv (load_happens cd sq e s)"
proof (cases e)
  case (Runs i)
  obtain ts gs where s: "s = (ts, gs)" by fastforce
  show ?thesis
  proof (cases "i < length ts")
    case True
    obtain t' gs' where st: "load_step cd sq (ts ! i, gs) = (t', gs')" by fastforce
    have inv: "table_ok gs" "exclusive ts" "\<forall>t \<in> set ts. thread_ok t gs" using assms by (simp_all add: load_inv_def s)
    have ti: "thread_ok (ts ! i) gs" using inv(3) True by simp
    have "thread_ok (ts[i := t'] ! j) gs'" if "j < length ts" for j
      using thread_ok_step[OF st ti inv(1)] thread_ok_other[OF st, of "ts ! j"] inv(2,3) True that
      by (cases "j = i") (auto simp: exclusive_def)
    then have "\<forall>t \<in> set (ts[i := t']). thread_ok t gs'" by (metis in_set_conv_nth length_list_update)
    then show ?thesis
      using table_ok_step[OF st ti inv(1)] exclusive_step[OF st True inv(2,3)] by (simp add: Runs s True st load_inv_def)
  qed (use assms s Runs in simp)
next
  case (Removed vid)
  obtain ts gs where s: "s = (ts, gs)" by fastforce
  let ?gs = "gs\<lparr>gs_vm := vm_removeVenue vid (gs_vm gs)\<rparr>"
  have g: "vm_getVenue x (gs_vm ?gs) = (if x = vid then None else vm_getVenue x (gs_vm gs))" for x
    by (simp add: vm_getVenue_def vm_removeVenue_def container_simps)
  have "thread_ok t ?gs" if "thread_ok t gs" for t
    using that g by (simp add: thread_ok_def is_venue_def vm_removeVenue_def)
  moreover have "table_ok ?gs" if "table_ok gs"
    using that g loaders_ok_cong[of ?gs gs] by (auto simp: table_ok_def is_venue_def vm_removeVenue_def)
  ultimately show ?thesis using assms by (auto simp: Removed s load_inv_def)
qed

lemma load_inv_run: "load_inv s \<Longrightarrow> load_inv (load_run cd sq es s)"
  unfolding load_run_def by (induction es arbitrary: s) (simp_all add: load_inv_event)

lemma load_inv_start:
  assumes "table_ok gs" and "\<forall>t \<in> set ts. lt_pc t = LStart"
  shows "load_inv (ts, gs)"
  using assms by (auto simp: load_inv_def exclusive_def thread_ok_def)

lemma settled_step:
  assumes s: "load_step cd sq (t, gs) = (t', gs')" and t: "thread_ok t gs"
    and own: "\<forall>a. outcome (lt_pc t) = Some a \<longrightarrow> vm_getVenue (lt_id t) (gs_vm gs) = Some a"
  shows "\<forall>a. outcome (lt_pc t') = Some a \<longrightarrow> vm_getVenue (lt_id t') (gs_vm gs') = Some a"
    and "vm_getVenue vid (gs_vm gs) = Some a \<Longrightarrow> vm_getVenue vid (gs_vm gs') = Some a"
proof -
  show keep: "vm_getVenue vid (gs_vm gs) = Some a \<Longrightarrow> vm_getVenue vid (gs_vm gs') = Some a" for vid a
    using load_step_table[OF s, of vid] by (cases "lt_pc t") simp_all
  show "\<forall>a. outcome (lt_pc t') = Some a \<longrightarrow> vm_getVenue (lt_id t') (gs_vm gs') = Some a"
  proof (cases "\<exists>a w. lt_pc t = LRegister a w")
    case True
    then obtain a w where r: "lt_pc t = LRegister a w" by blast
    then have "vm_getVenue (lt_id t) (gs_vm gs) = None" using t by (simp add: thread_ok_def)
    then show ?thesis
      using load_step_table[OF s, of "lt_id t"] load_step_keeps(1)[OF s] s r by (auto simp: load_step_defs)
  next
    case False
    then have "outcome (lt_pc t') = Some a \<Longrightarrow> vm_getVenue (lt_id t) (gs_vm gs) = Some a" for a
      using own s by (cases "lt_pc t") (auto simp: load_step_defs Let_def
        split: option.splits prod.splits if_splits loaded.splits bind_splits)
    then show ?thesis using keep load_step_keeps(1)[OF s] by simp
  qed
qed

lemma settled_event:
  assumes "load_inv s" and "settled s"
  shows "settled (load_happens cd sq (Runs i) s)"
proof -
  obtain ts gs where s: "s = (ts, gs)" by fastforce
  show ?thesis
  proof (cases "i < length ts")
    case True
    obtain t' gs' where st: "load_step cd sq (ts ! i, gs) = (t', gs')" by fastforce
    have "thread_ok (ts ! i) gs" using assms(1) True by (simp add: load_inv_def s)
    moreover have own: "\<forall>t \<in> set ts. \<forall>a. outcome (lt_pc t) = Some a \<longrightarrow> vm_getVenue (lt_id t) (gs_vm gs) = Some a"
      using assms(2) by (simp add: settled_def s)
    ultimately have "\<forall>t \<in> insert t' (set ts). \<forall>a. outcome (lt_pc t) = Some a \<longrightarrow> vm_getVenue (lt_id t) (gs_vm gs') = Some a"
      using settled_step[OF st] True by simp
    then show ?thesis using set_update_subset_insert[of ts i t'] True st by (auto simp: s settled_def)
  qed (use assms s in simp)
qed

lemma settled_run:
  assumes "load_inv s" and "settled s" and "\<forall>e \<in> set es. \<exists>i. e = Runs i"
  shows "settled (load_run cd sq es s)"
  using assms
proof (induction es arbitrary: s)
  case (Cons e es)
  then obtain i where "e = Runs i" by auto
  then show ?case using Cons settled_event[of s] load_inv_event[of s] by (simp add: load_run_def)
qed (simp add: load_run_def)

lemma load_run_threads: "length (fst (load_run cd sq es s)) = length (fst s)"
proof (induction es arbitrary: s)
  case (Cons e es)
  have "length (fst (load_happens cd sq e s)) = length (fst s)"
    by (cases "(cd, sq, e, s)" rule: load_happens.cases) (simp_all add: split_beta Let_def)
  then show ?case using Cons by (simp add: load_run_def)
qed (simp add: load_run_def)

lemma load_rank_event:
  assumes "i < length (fst s)"
  shows "load_rank (lt_pc (fst (load_happens cd sq e s) ! i)) \<le> load_rank (lt_pc (fst s ! i)) - (if e = Runs i then 1 else 0)"
proof -
  obtain ts gs where s: "s = (ts, gs)" by fastforce
  show ?thesis
  proof (cases e)
    case (Runs j)
    obtain t' gs' where st: "load_step cd sq (ts ! j, gs) = (t', gs')" by fastforce
    then have "load_happens cd sq e s = (if j < length ts then (ts[j := t'], gs') else s)" by (simp add: s Runs)
    then show ?thesis using load_step_rank[OF st] assms by (auto simp: s Runs nth_list_update)
  qed (simp add: s)
qed

lemma load_rank_run:
  "i < length (fst s) \<Longrightarrow>
     load_rank (lt_pc (fst (load_run cd sq es s) ! i)) \<le> load_rank (lt_pc (fst s ! i)) - count_list es (Runs i)"
proof (induction es arbitrary: s)
  case (Cons e es)
  let ?s = "load_happens cd sq e s"
  have "i < length (fst ?s)" using Cons.prems load_run_threads[of cd sq "[e]" s] by (simp add: load_run_def)
  from Cons.IH[OF this] load_rank_event[OF Cons.prems, of cd sq e] show ?case by (auto simp: load_run_def)
qed (simp add: load_run_def)

lemma load_rank_zero: "load_rank pc = 0 \<longleftrightarrow> (\<exists>r. pc = LDone r)"
  by (cases pc) simp_all

lemma load_alone_done: "lt_pc t = LDone r \<Longrightarrow> load_alone cd sq n (t, gs) = (t, gs)"
  by (induction n) (simp_all add: load_step_def)

lemma load_alone_unlock:
  "lt_pc t = LUnlock r \<Longrightarrow> load_alone cd sq (Suc n) (t, gs) = (goes (LDone r) t, gs\<lparr>gs_vm := unlockLoading (lt_id t) (gs_vm gs)\<rparr>)"
  by (simp add: load_step_def load_alone_done goes_def)

lemma load_alone_adopt:
  assumes "lt_pc t = LDistribute v" and "ve_id v = lt_id t" and "adopt_venue cd v gs = ((r, e), gs')"
  shows "load_alone cd sq 6 (t, gs) = (t\<lparr>lt_error := e, lt_pc := LDone r\<rparr>, gs'\<lparr>gs_vm := unlockLoading (lt_id t) (gs_vm gs')\<rparr>)"
proof -
  obtain d gs1 where d: "distributeHandler (Some v) gs = (d, gs1)" by fastforce
  show ?thesis
    using assms by (cases d; cases "um_find (sv_handlers gs1) (the d)"; cases "ih_worker (the (um_find (sv_handlers gs1) (the d)))")
      (auto simp: numeral_eq_Suc load_step_defs d adopt_venue_def load_alone_done dispatch_task_def Let_def fresh_addr_def)
qed

lemma load_alone_add: "load_alone cd sq (m + n) s = load_alone cd sq n (load_alone cd sq m s)"
  by (induction m arbitrary: s) simp_all

lemma load_alone_locked:
  assumes "vm_getVenue (lt_id t) (gs_vm gs) = None" and "lt_pc t = LFindLoader"
    and "\<And>l db v db'. getVenueLoader (lt_gameType t) (gs_vm gs) = Some l \<Longrightarrow> l (lt_id t) db = (Loaded (Some v), db') \<Longrightarrow> ve_id v = lt_id t"
  defines "unlock \<equiv> \<lambda>s :: ('g, 'd, 'r) game_server. s\<lparr>gs_vm := unlockLoading (lt_id t) (gs_vm s)\<rparr>"
  shows "load_alone cd sq 8 (t, gs) =
    (case getVenueLoader (lt_gameType t) (gs_vm gs) of
       None \<Rightarrow> (t\<lparr>lt_error := cd_LOAD_FAILED cd, lt_pc := LDone None\<rparr>, unlock gs)
     | Some loader \<Rightarrow>
         (case loader (lt_id t) (cx_db (sv_ctx gs)) of
            (LoadThrows, db3) \<Rightarrow> (t\<lparr>lt_pc := LDone None\<rparr>, unlock (gs\<lparr>sv_ctx := (sv_ctx gs)\<lparr>cx_db := db3\<rparr>\<rparr>))
          | (Loaded None, db3) \<Rightarrow>
              (t\<lparr>lt_error := cd_LOAD_FAILED cd, lt_pc := LDone None\<rparr>, unlock (gs\<lparr>sv_ctx := (sv_ctx gs)\<lparr>cx_db := db3\<rparr>\<rparr>))
          | (Loaded (Some v), db3) \<Rightarrow>
              (let ((r, e), gs3) = adopt_venue cd v (gs\<lparr>sv_ctx := (sv_ctx gs)\<lparr>cx_db := db3\<rparr>\<rparr>)
               in (t\<lparr>lt_error := e, lt_pc := LDone r\<rparr>, unlock gs3))))"
proof (cases "\<exists>l v db3. getVenueLoader (lt_gameType t) (gs_vm gs) = Some l \<and> l (lt_id t) (cx_db (sv_ctx gs)) = (Loaded (Some v), db3)")
  case False
  show ?thesis
  proof (cases "getVenueLoader (lt_gameType t) (gs_vm gs)")
    case None
    then show ?thesis using assms(2) by (simp add: numeral_eq_Suc load_step_defs load_alone_done unlock_def)
  next
    case (Some l)
    obtain res db3 where l: "l (lt_id t) (cx_db (sv_ctx gs)) = (res, db3)" by fastforce
    have "res = LoadThrows \<or> res = Loaded None" 
    proof (cases res)
      case (Loaded x)
      then show ?thesis using False Some l by (cases x) auto
    qed simp
    then show ?thesis using assms(2) Some l
      by (elim disjE) (simp_all add: numeral_eq_Suc load_step_defs load_alone_done unlock_def)
  qed
next
  case True
  then obtain l v db3 where l: "getVenueLoader (lt_gameType t) (gs_vm gs) = Some l"
    "l (lt_id t) (cx_db (sv_ctx gs)) = (Loaded (Some v), db3)" by blast
  let ?gs = "gs\<lparr>sv_ctx := (sv_ctx gs)\<lparr>cx_db := db3\<rparr>\<rparr>" and ?t = "t\<lparr>lt_error := cd_LOAD_FAILED cd, lt_pc := LDistribute v\<rparr>"
  obtain r e gs3 where a: "adopt_venue cd v ?gs = ((r, e), gs3)" by (metis prod.exhaust)
  have "load_alone cd sq 2 (t, gs) = (?t, ?gs)" using l assms(2) by (simp add: numeral_eq_Suc load_step_defs)
  then have "load_alone cd sq 8 (t, gs) = load_alone cd sq 6 (?t, ?gs)" using load_alone_add[of cd sq 2 6 "(t, gs)"] by simp
  then show ?thesis using load_alone_adopt[of ?t v cd ?gs r e gs3 sq] assms(3)[OF l] a l by (simp add: unlock_def)
qed

section \<open>Properties\<close>

text \<open>C23: Whatever threads load venues at the same time, in whatever order their steps come and whatever
  venues are removed meanwhile: two threads are never both between \<open>lockLoading\<close> and \<open>unlockLoading\<close> for
  the same venue, a thread that is about to enter a venue into the table finds no other one
  there, and a venue in the table or in a thread's result exists and has the id it was asked for.\<close>
theorem loading_is_exclusive:
  assumes "table_ok gs" and "\<forall>t \<in> set ts. lt_pc t = LStart" and "load_run cd sq es (ts, gs) = (ts', gs')"
  shows "(\<forall>i j. i < length ts' \<longrightarrow> j < length ts' \<longrightarrow> i \<noteq> j \<longrightarrow> lt_id (ts' ! i) = lt_id (ts' ! j) \<longrightarrow>
            \<not> (holds_lock (lt_pc (ts' ! i)) \<and> holds_lock (lt_pc (ts' ! j))))
    \<and> (\<forall>t \<in> set ts'. \<forall>a w. lt_pc t = LRegister a w \<longrightarrow> vm_getVenue (lt_id t) (gs_vm gs') = None)
    \<and> (\<forall>t \<in> set ts'. \<forall>a. lt_pc t = LDone (Some a) \<longrightarrow> is_venue (lt_id t) gs' a) \<and> table_ok gs'"
proof -
  have "load_inv (ts', gs')" using load_inv_run[OF load_inv_start[OF assms(1,2)], of cd sq es] assms(3) by simp
  then show ?thesis unfolding load_inv_def exclusive_def thread_ok_def by auto
qed

text \<open>As long as no venue is removed, all threads that ask for the same venue get the same object,
  the one in the table: however their steps are interleaved, a venue is loaded once.\<close>
theorem loading_agrees:
  assumes "table_ok gs" and "\<forall>t \<in> set ts. lt_pc t = LStart" and "\<forall>e \<in> set es. \<exists>i. e = Runs i"
    and "load_run cd sq es (ts, gs) = (ts', gs')"
    and "t \<in> set ts'" "lt_pc t = LDone (Some a)" and "u \<in> set ts'" "lt_pc u = LDone (Some b)" and "lt_id t = lt_id u"
  shows "a = b \<and> vm_getVenue (lt_id t) (gs_vm gs') = Some a"
proof -
  have "settled (ts, gs)" using assms(2) by (auto simp: settled_def)
  from settled_run[OF load_inv_start[OF assms(1,2)] this assms(3), of cd sq] assms(4)
  have own: "\<forall>t \<in> set ts'. \<forall>a. outcome (lt_pc t) = Some a \<longrightarrow> vm_getVenue (lt_id t) (gs_vm gs') = Some a"
    by (simp add: settled_def)
  have "vm_getVenue (lt_id t) (gs_vm gs') = Some a" "vm_getVenue (lt_id u) (gs_vm gs') = Some b"
    using own[rule_format, OF assms(5), of a] own[rule_format, OF assms(7), of b] assms(6,8) by simp_all
  then show ?thesis using assms(9) by simp
qed

text \<open>C24: A thread that loads a venue returns after at most 212 of its own steps, whatever the other threads do
  and however long they hold the lock: it sleeps at most 200 times.\<close>
theorem loading_returns:
  assumes "i < length ts" and "lt_pc (ts ! i) = LStart" and "load_run cd sq es (ts, gs) = (ts', gs')"
    and "212 \<le> count_list es (Runs i)"
  shows "\<exists>r. lt_pc (ts' ! i) = LDone r"
  using load_rank_run[of i "(ts, gs)" cd sq es] assms by (simp flip: load_rank_zero)

text \<open>C25: A thread that is not disturbed does exactly what the sequential \<open>loadVenue\<close> does: after twelve steps it
  has returned the same venue and the same error code, and the server is in the same state.\<close>
theorem loading_alone_is_loadVenue:
  assumes "table_ok gs" and "vid \<notin> set (vm_loadingVenues (gs_vm gs))"
    and "loadVenue cd sq meanwhile vid gameType error gs = ((r, e), gs')"
  shows "load_alone cd sq 12 (load_thread_new vid gameType error, gs)
    = (\<lparr>lt_id = vid, lt_gameType = gameType, lt_error = e, lt_pc = LDone r\<rparr>, gs')"
proof (cases "vm_getVenue vid (gs_vm gs)")
  case (Some a)
  then obtain v where "um_find (sv_heap gs) a = Some v" using assms(1) by (auto simp: table_ok_def is_venue_def)
  then show ?thesis using assms(3) Some
    by (auto simp: numeral_eq_Suc load_step_defs load_thread_new_def load_alone_done loadVenue_def split: if_splits)
next
  case None
  obtain ok gt status db where q: "LoadVenueTask sq vid (cx_db (sv_ctx gs)) = ((ok, gt, status), db)" by (metis prod.exhaust)
  let ?t = "load_thread_new vid gameType error" and ?gs1 = "gs\<lparr>sv_ctx := (sv_ctx gs)\<lparr>cx_db := db\<rparr>\<rparr>"
  show ?thesis
  proof (cases "ok \<and> gt = gameType \<and> status = 0")
    case False
    then show ?thesis using assms(3) None q
      by (auto simp: numeral_eq_Suc load_step_defs load_thread_new_def load_alone_done loadVenue_def split: if_splits)
  next
    case True
    let ?gs2 = "?gs1\<lparr>gs_vm := (gs_vm gs)\<lparr>vm_loadingVenues := vm_loadingVenues (gs_vm gs) @ [vid]\<rparr>\<rparr>"
    have w: "wait_lock 200 meanwhile vid ?gs1 = (True, ?gs2)" using wait_lock_free[of vid ?gs1] assms(2) by simp
    have n: "vm_getVenue vid (gs_vm ?gs2) = None" using None by (simp add: vm_getVenue_def)
    have "load_alone cd sq 4 (?t, gs) = (?t\<lparr>lt_pc := LFindLoader\<rparr>, ?gs2)"
      using True None q assms(2) by (simp add: numeral_eq_Suc load_step_defs load_thread_new_def lockLoading_def us_insert_def vm_getVenue_def)
    then have "load_alone cd sq 12 (?t, gs) = load_alone cd sq 8 (?t\<lparr>lt_pc := LFindLoader\<rparr>, ?gs2)"
      using load_alone_add[of cd sq 4 8 "(?t, gs)"] by simp
    moreover have "ve_id v = vid" if "getVenueLoader gameType (gs_vm ?gs2) = Some l" "l vid db = (Loaded (Some v), db')" for l db v db'
    proof -
      have "getVenueLoader gameType (gs_vm gs) = Some l" using that(1) by (simp add: getVenueLoader_def)
      then show ?thesis using assms(1) that(2) unfolding table_ok_def loaders_ok_def by blast
    qed
    ultimately show ?thesis
      using load_alone_locked[of "?t\<lparr>lt_pc := LFindLoader\<rparr>" ?gs2 cd sq] assms(3) True None q n
      by (auto simp: load_thread_new_def loadVenue_def w Let_def split: option.splits prod.splits loaded.splits)
  qed
qed

lemma demo_load:
  "table_ok demo_gs" "vm_loadingVenues (gs_vm demo_gs) = []"
  using demo_gs_ok by (simp_all add: table_ok_def demo_gs_def demo_vm_def vm_getVenue_def)

lemma finished_iff: "finished pc \<longleftrightarrow> (\<exists>r. pc = LDone r)"
  by (cases pc) simp_all

lemma demo_threads: "\<forall>t \<in> set demo_loads. lt_pc t = LStart"
  by (simp add: demo_loads_def load_thread_new_def)

lemma demo_load_run:
  "map (\<lambda>t. (lt_id t, finished (lt_pc t), outcome (lt_pc t))) (fst (load_run demo_codes demo_rows demo_schedule (demo_loads, demo_gs)))
    = [(''v'', True, Some 1), (''v'', True, Some 1)]"
  by code_simp

theorem loading_is_exclusive_witness:
  "let (ts', gs') = load_run demo_codes demo_rows demo_schedule (demo_loads, demo_gs)
   in table_ok gs' \<and> (\<forall>t \<in> set ts'. \<forall>a. lt_pc t = LDone (Some a) \<longrightarrow> is_venue (lt_id t) gs' a)"
proof -
  obtain ts' gs' where r: "load_run demo_codes demo_rows demo_schedule (demo_loads, demo_gs) = (ts', gs')" by fastforce
  show ?thesis using loading_is_exclusive[OF demo_load(1) demo_threads r] by (simp add: r)
qed

theorem loading_agrees_witness:
  "vm_getVenue ''v'' (gs_vm (snd (load_run demo_codes demo_rows demo_schedule (demo_loads, demo_gs)))) = Some 1"
proof -
  obtain ts' gs' where r: "load_run demo_codes demo_rows demo_schedule (demo_loads, demo_gs) = (ts', gs')" by fastforce
  have o: "map (\<lambda>t. (lt_id t, finished (lt_pc t), outcome (lt_pc t))) ts' = [(''v'', True, Some 1), (''v'', True, Some 1)]"
    using demo_load_run by (simp add: r)
  then obtain t u where ts: "ts' = [t, u]" "lt_id t = ''v''" "lt_id u = ''v''" "lt_pc t = LDone (Some 1)" "lt_pc u = LDone (Some 1)"
    by (auto simp: finished_iff)
  have "\<forall>e \<in> set demo_schedule. \<exists>i. e = Runs i" by (simp add: demo_schedule_def numeral_eq_Suc)
  from loading_agrees[OF demo_load(1) demo_threads this r, of t 1 u 1] ts show ?thesis by (simp add: r)
qed

theorem loading_returns_witness:
  "\<exists>r. lt_pc (fst (load_run demo_codes demo_rows (replicate 212 (Runs 0)) (demo_loads, demo_gs)) ! 0) = LDone r"
proof -
  obtain ts' gs' where r: "load_run demo_codes demo_rows (replicate 212 (Runs 0)) (demo_loads, demo_gs) = (ts', gs')" by fastforce
  have c: "count_list (replicate n x) x = n" for n and x :: load_event by (induction n) simp_all
  have "212 \<le> count_list (replicate 212 (Runs 0)) (Runs 0)" by (simp only: c)
  moreover have "0 < length demo_loads" "lt_pc (demo_loads ! 0) = LStart" by (simp_all add: demo_loads_def load_thread_new_def)
  ultimately show ?thesis using loading_returns[OF _ _ r] by (simp add: r)
qed

theorem loading_alone_is_loadVenue_witness:
  "\<exists>r e gs'. loadVenue demo_codes demo_rows id ''v'' 1 0 demo_gs = ((r, e), gs')
    \<and> load_alone demo_codes demo_rows 12 (load_thread_new ''v'' 1 0, demo_gs)
        = (\<lparr>lt_id = ''v'', lt_gameType = 1, lt_error = e, lt_pc = LDone r\<rparr>, gs')"
proof -
  obtain r e gs' where l: "loadVenue demo_codes demo_rows id ''v'' 1 0 demo_gs = ((r, e), gs')" by (metis prod.exhaust)
  show ?thesis using loading_alone_is_loadVenue[OF demo_load(1) _ l] l demo_load(2) by simp
qed

end
