(* ===== verification/Message_Types.thy ===== *)
theory Message_Types
  imports Game_Room
begin

text \<open>
  The catalogue of messages: the type names (\<open>Game/GameMessages.cpp\<close>, \<open>Venue/VenueMessages.cpp\<close>,
  \<open>Player/PlayerMessages.cpp\<close>, \<open>Message/MsgDisconnect.cpp\<close>), the message classes no modelled operation
  uses, the registration of the creators of received messages, and what the handlers subscribe to.

  The template argument of a creator is a value of \<open>msg_class\<close>. The sources register through
  \<open>registCreator\<close>, which no class of the program has (\<open>MessageManager\<close> has \<open>registerCreator\<close>); it is a
  parameter of the registration, and the properties say what they need of it. What MessagePack makes
  of the bytes of a message is the parameter \<open>unpacker\<close>.
\<close>

section \<open>Message classes\<close>

record MsgPlayerDiamonds =
  pd_playerIds :: "string list"
  pd_seats :: "int list"
  pd_diamonds :: "int list"

type_synonym MsgPlayerReady = MsgVenueInner

record MsgPlayerReadyResp =
  pr_playerId :: string
  pr_seat :: int

definition MsgPlayerReadyResp_new :: MsgPlayerReadyResp where
  "MsgPlayerReadyResp_new = \<lparr>pr_playerId = [], pr_seat = - 1\<rparr>"

type_synonym MsgPlayerAuthorize = MsgVenueInner

record MsgPlayerAuthorizeResp =
  pa_seat :: int
  pa_playerId :: string
  pa_authorize :: bool

definition MsgPlayerAuthorizeResp_new :: MsgPlayerAuthorizeResp where
  "MsgPlayerAuthorizeResp_new = \<lparr>pa_seat = 0, pa_playerId = [], pa_authorize = False\<rparr>"

type_synonym MsgDisbandRequest = MsgVenueInner

record MsgDisbandChoose = MsgVenueInner +
  dc_choice :: int

record MsgDisbandChoice =
  dd_playerId :: string
  dd_seat :: int
  dd_choice :: int

definition MsgDisbandChoice_new :: MsgDisbandChoice where
  "MsgDisbandChoice_new = \<lparr>dd_playerId = [], dd_seat = 0, dd_choice = 0\<rparr>"

record MsgDisband =
  db_placeholder :: int

definition MsgDisband_new :: MsgDisband where
  "MsgDisband_new = \<lparr>db_placeholder = 0\<rparr>"

record MsgDisbandObsolete =
  do_placeholder :: int

definition MsgDisbandObsolete_new :: MsgDisbandObsolete where
  "MsgDisbandObsolete_new = \<lparr>do_placeholder = 0\<rparr>"

datatype msg_class =
    AddAvatarC | RemoveAvatarC | AddSpectatorC | RemoveSpectatorC | AvatarConnectC | GetAvatarsC | GetSpectatorsC
  | PlayerDiamondsC | PlayerReadyC | PlayerReadyRespC | PlayerAuthorizeC | PlayerAuthorizeRespC | PlayerGeolocationC
  | GetDistancesC | GetDistancesRespC | DisbandRequestC | DisbandChooseC | DisbandChoiceC | DisbandC | DisbandObsoleteC
  | ChatClientC | ChatServerC | EffectClientC | EffectServerC | VoiceClientC | VoiceServerC
  | EnterVenueC | EnterVenueRespC | HeartbeatC | HeartbeatRespC | LeaveVenueC | LeaveVenueRespC
  | PlayerConnectC | PlayerSignatureErrorC | DisconnectC

fun GameMessages_TYPE :: "msg_class \<Rightarrow> string option" where
  "GameMessages_TYPE AddAvatarC = Some ''MsgAddAvatar''"
| "GameMessages_TYPE RemoveAvatarC = Some ''MsgRemoveAvatar''"
| "GameMessages_TYPE AddSpectatorC = Some ''MsgAddSpectator''"
| "GameMessages_TYPE RemoveSpectatorC = Some ''MsgRemoveSpectator''"
| "GameMessages_TYPE AvatarConnectC = Some ''MsgAvatarConnect''"
| "GameMessages_TYPE GetAvatarsC = Some ''MsgGetAvatars''"
| "GameMessages_TYPE GetSpectatorsC = Some ''MsgGetSpectators''"
| "GameMessages_TYPE PlayerDiamondsC = Some ''MsgPlayerDiamonds''"
| "GameMessages_TYPE PlayerReadyC = Some ''MsgPlayerReady''"
| "GameMessages_TYPE PlayerReadyRespC = Some ''MsgPlayerReadyResp''"
| "GameMessages_TYPE PlayerAuthorizeC = Some ''MsgPlayerAuthorize''"
| "GameMessages_TYPE PlayerAuthorizeRespC = Some ''MsgPlayerAuthorizeResp''"
| "GameMessages_TYPE PlayerGeolocationC = Some ''MsgPlayerGeolocation''"
| "GameMessages_TYPE GetDistancesC = Some ''MsgGetDistances''"
| "GameMessages_TYPE GetDistancesRespC = Some ''MsgGetDistancesResp''"
| "GameMessages_TYPE DisbandRequestC = Some ''MsgDisbandRequest''"
| "GameMessages_TYPE DisbandChooseC = Some ''MsgDisbandChoose''"
| "GameMessages_TYPE DisbandChoiceC = Some ''MsgDisbandChoice''"
| "GameMessages_TYPE DisbandC = Some ''MsgDisband''"
| "GameMessages_TYPE DisbandObsoleteC = Some ''MsgDisbandObsolete''"
| "GameMessages_TYPE ChatClientC = Some ''MsgChatClient''"
| "GameMessages_TYPE ChatServerC = Some ''MsgChatServer''"
| "GameMessages_TYPE EffectClientC = Some ''MsgEffectClient''"
| "GameMessages_TYPE EffectServerC = Some ''MsgEffectServer''"
| "GameMessages_TYPE VoiceClientC = Some ''MsgVoiceClient''"
| "GameMessages_TYPE VoiceServerC = Some ''MsgVoiceServer''"
| "GameMessages_TYPE _ = None"

fun VenueMessages_TYPE :: "msg_class \<Rightarrow> string option" where
  "VenueMessages_TYPE EnterVenueC = Some ''MsgEnterVenue''"
| "VenueMessages_TYPE EnterVenueRespC = Some ''MsgEnterVenueResp''"
| "VenueMessages_TYPE HeartbeatC = Some ''MsgHeartbeat''"
| "VenueMessages_TYPE HeartbeatRespC = Some ''MsgHeartbeatResp''"
| "VenueMessages_TYPE LeaveVenueC = Some ''MsgLeaveVenue''"
| "VenueMessages_TYPE LeaveVenueRespC = Some ''MsgLeaveVenueResp''"
| "VenueMessages_TYPE _ = None"

fun PlayerMessages_TYPE :: "msg_class \<Rightarrow> string option" where
  "PlayerMessages_TYPE PlayerConnectC = Some ''MsgPlayerConnect''"
| "PlayerMessages_TYPE PlayerSignatureErrorC = Some ''MsgPlayerSignatureError''"
| "PlayerMessages_TYPE _ = None"

definition MsgDisconnect_TYPE :: string where
  "MsgDisconnect_TYPE = ''MsgDisconnect''"

definition TYPE_of :: "msg_class \<Rightarrow> string" where
  \<comment> \<open>\<open>TYPE\<close> of a class, from the file that defines it\<close>
  "TYPE_of c =
     (case GameMessages_TYPE c of
        Some t \<Rightarrow> t
      | None \<Rightarrow> (case VenueMessages_TYPE c of
                   Some t \<Rightarrow> t
                 | None \<Rightarrow> (case PlayerMessages_TYPE c of Some t \<Rightarrow> t | None \<Rightarrow> MsgDisconnect_TYPE)))"

section \<open>Registration\<close>

type_synonym 'm registration =
  "string \<Rightarrow> msg_class option \<Rightarrow> ('m, msg_class) MessageManager \<Rightarrow> ('m, msg_class) MessageManager"

fun regist_all :: "'m registration \<Rightarrow> msg_class list \<Rightarrow> ('m, msg_class) MessageManager \<Rightarrow> ('m, msg_class) MessageManager" where
  \<comment> \<open>\<open>creator = new MsgCreator<T>(); registCreator(T::TYPE, creator);\<close> for every class in turn\<close>
  "regist_all registCreator [] mm = mm"
| "regist_all registCreator (c # cs) mm = regist_all registCreator cs (registCreator (TYPE_of c) (Some c) mm)"

definition GameMessages_registMessages :: "'m registration \<Rightarrow> ('m, msg_class) MessageManager \<Rightarrow> ('m, msg_class) MessageManager" where
  "GameMessages_registMessages registCreator =
     regist_all registCreator [GetAvatarsC, GetSpectatorsC, PlayerReadyC, PlayerAuthorizeC, PlayerGeolocationC,
       GetDistancesC, DisbandRequestC, DisbandChooseC, ChatClientC, EffectClientC, VoiceClientC]"

definition VenueMessages_registMessages :: "'m registration \<Rightarrow> ('m, msg_class) MessageManager \<Rightarrow> ('m, msg_class) MessageManager" where
  "VenueMessages_registMessages registCreator = regist_all registCreator [EnterVenueC, HeartbeatC, LeaveVenueC]"

definition PlayerMessages_registMessages :: "'m registration \<Rightarrow> ('m, msg_class) MessageManager \<Rightarrow> ('m, msg_class) MessageManager" where
  "PlayerMessages_registMessages registCreator = regist_all registCreator [PlayerConnectC]"

definition MsgCreator_deserialize ::
  "(msg_class \<Rightarrow> string \<Rightarrow> 'm option) \<Rightarrow> (string \<Rightarrow> string option) \<Rightarrow> msg_class \<Rightarrow> MsgWrapper \<Rightarrow> 'm option" where
  "MsgCreator_deserialize unpacker dec c wrapper = unpackMessage (unpacker c) dec wrapper"

definition VenueOuterHandler_messages :: "string list" where
  "VenueOuterHandler_messages = [TYPE_of PlayerConnectC, TYPE_of DisconnectC, TYPE_of EnterVenueC, TYPE_of LeaveVenueC]"

section \<open>Vocabulary of the properties\<close>

definition regist_every :: "'m registration \<Rightarrow> ('m, msg_class) MessageManager \<Rightarrow> ('m, msg_class) MessageManager" where
  "regist_every registCreator mm =
     GameMessages_registMessages registCreator (VenueMessages_registMessages registCreator
       (PlayerMessages_registMessages registCreator mm))"

definition registers :: "'m registration \<Rightarrow> bool" where
  \<comment> \<open>a new type gets its creator, and nothing else changes\<close>
  "registers registCreator \<longleftrightarrow>
     (\<forall>t c mm. um_find (mm_creatorMap mm) t = None \<longrightarrow>
        um_find (mm_creatorMap (registCreator t (Some c) mm)) = (um_find (mm_creatorMap mm))(t \<mapsto> c))"

definition registered_classes :: "msg_class list" where
  "registered_classes = [PlayerConnectC, EnterVenueC, HeartbeatC, LeaveVenueC, GetAvatarsC, GetSpectatorsC, PlayerReadyC,
     PlayerAuthorizeC, PlayerGeolocationC, GetDistancesC, DisbandRequestC, DisbandChooseC, ChatClientC, EffectClientC,
     VoiceClientC]"

section \<open>Properties\<close>

lemmas type_simps = TYPE_of_def MsgDisconnect_TYPE_def

lemma TYPE_of_inject: "TYPE_of c = TYPE_of c' \<Longrightarrow> c = c'"
  by (cases c; cases c') (simp_all add: type_simps)

lemma TYPE_of_eq [simp]: "TYPE_of c = TYPE_of c' \<longleftrightarrow> c = c'"
  using TYPE_of_inject by blast

lemma regist_every_all: "regist_every rc mm = regist_all rc registered_classes mm"
  by (simp add: regist_every_def GameMessages_registMessages_def VenueMessages_registMessages_def
      PlayerMessages_registMessages_def registered_classes_def)

lemma regist_all_lookup:
  assumes "registers rc" and "distinct cs" and "\<And>c. c \<in> set cs \<Longrightarrow> um_find (mm_creatorMap mm) (TYPE_of c) = None"
  shows "um_find (mm_creatorMap (regist_all rc cs mm)) t =
    (case find (\<lambda>c. TYPE_of c = t) cs of Some c \<Rightarrow> Some c | None \<Rightarrow> um_find (mm_creatorMap mm) t)"
  using assms(2,3)
proof (induction cs arbitrary: mm)
  case (Cons c cs)
  let ?mm = "rc (TYPE_of c) (Some c) mm"
  have "um_find (mm_creatorMap ?mm) = (um_find (mm_creatorMap mm))(TYPE_of c \<mapsto> c)"
    by (rule assms(1)[unfolded registers_def, rule_format]) (simp add: Cons.prems(2))
  then have m: "um_find (mm_creatorMap ?mm) t' = (if t' = TYPE_of c then Some c else um_find (mm_creatorMap mm) t')" for t'
    by (simp only: fun_upd_apply)
  have "um_find (mm_creatorMap ?mm) (TYPE_of c') = None" if "c' \<in> set cs" for c'
    using that Cons.prems m by auto
  moreover have "find (\<lambda>c'. TYPE_of c' = t) cs = None" if "TYPE_of c = t"
    using that Cons.prems(1) by (auto simp: find_None_iff)
  ultimately show ?case using Cons.IH[of ?mm] Cons.prems(1) by (cases "TYPE_of c = t") (auto simp: m split: option.split)
qed simp

lemma find_class: "distinct cs \<Longrightarrow> find (\<lambda>c. TYPE_of c = t) cs = Some c \<longleftrightarrow> c \<in> set cs \<and> TYPE_of c = t"
proof (induction cs)
  case (Cons a cs)
  then show ?case by auto
qed simp

lemma registered_types:
  "TYPE_of ` set registered_classes = (set GameRoomHandler_messages \<union> set VenueOuterHandler_messages) - {MsgDisconnect_TYPE}"
  unfolding registered_classes_def GameRoomHandler_messages_def VenueOuterHandler_messages_def
  by (simp add: type_simps insert_Diff_if insert_commute)



lemma registerCreator_all_empty: "mm_creatorMap mm = [] \<Longrightarrow> mm_creatorMap (regist_all registerCreator cs mm) = []"
  by (induction cs arbitrary: mm) (simp_all add: registerCreator_empty)

text \<open>With the registration the message manager really has, the catalogue stays empty: after the
  three \<open>registMessages\<close> no packet of a client, whatever its type and contents, becomes a message.\<close>
theorem registration_leaves_catalogue_empty:
  assumes "mm_creatorMap mm = []"
  shows "createMessage (MsgCreator_deserialize unpacker dec) wrapper (regist_every registerCreator mm) = None"
  using registerCreator_all_empty[OF assms, of registered_classes]
  by (simp add: regist_every_all createMessage_def split: option.split)

theorem registration_leaves_catalogue_empty_witness:
  "createMessage (MsgCreator_deserialize (\<lambda>c s. Some c) Some) (Some \<lparr>mw_msgType = ''MsgHeartbeat'', mw_msgPack = ''AAAA''\<rparr>)
     (regist_every registerCreator \<lparr>mm_creatorMap = [], mm_handlers = [], mm_handlerSN = 0, mm_store = []\<rparr>) = None"
  by (rule registration_leaves_catalogue_empty) simp

end
