(* ===== verification/Mysql_Async.thy ===== *)
theory Mysql_Async
  imports Mysql_Pool
begin

text \<open>
  Asynchronous queries of the MySQL client, \<open>Mysql/MysqlPool.cpp\<close>: \<open>AsyncQuery\<close> wraps a task in a
  dispatch and puts it on the queue of the pool; \<open>oneLoopEx\<close> of a MySQL thread moves what is queued to
  the thread's own dispatch queue; executing a dispatch runs the task on a pooled connection and either
  calls \<open>onQueried\<close> at once or hands the dispatch to the worker that asked, which calls \<open>onQueried\<close> in
  \<open>OnExecuted\<close>. Which workers still exist is the parameter \<open>live\<close>, as the dispatch only has a weak
  pointer. \<open>None\<close>: the thread waits for a connection.
\<close>

section \<open>Operations\<close>

record 'd async_sys =
  ay_impl :: "'d MysqlPoolImpl"
  ay_queried :: "MysqlQueryTask list"             \<comment> \<open>tasks whose \<open>onQueried\<close> was called, in order\<close>
  ay_executed :: "(nat \<times> MysqlDispatch) list"     \<comment> \<open>handed back with \<open>executed\<close>, with the worker\<close>

definition AsyncQuery :: "MysqlQueryTask \<Rightarrow> nat option \<Rightarrow> 'd MysqlPoolImpl \<Rightarrow> 'd MysqlPoolImpl" where
  "AsyncQuery task dispatcher m = pushAsyncTask \<lparr>my_dispatcher = dispatcher, my_task = task\<rparr> m"

definition AsyncQuery_sql :: "stmt \<Rightarrow> QueryType \<Rightarrow> nat option \<Rightarrow> 'd MysqlPoolImpl \<Rightarrow> 'd MysqlPoolImpl" where
  "AsyncQuery_sql sql type dispatcher m = AsyncQuery (MysqlCommandTask_new sql type) dispatcher m"

definition SyncQuery_sql ::
  "'d sql_driver \<Rightarrow> int \<Rightarrow> stmt \<Rightarrow> QueryType \<Rightarrow> 'd MysqlPoolImpl \<Rightarrow> (MysqlQueryTask option \<times> 'd MysqlPoolImpl) redis_result" where
  "SyncQuery_sql dr now sql type m = mysql_execute dr now (Some (MysqlCommandTask_new sql type)) m"

definition lock_dispatcher :: "(nat \<Rightarrow> bool) \<Rightarrow> MysqlDispatch \<Rightarrow> nat option" where
  \<comment> \<open>\<open>_dispatcher.lock()\<close>\<close>
  "lock_dispatcher live d = (case my_dispatcher d of Some k \<Rightarrow> if live k then Some k else None | None \<Rightarrow> None)"

definition MysqlDispatch_OnExecuted :: "MysqlDispatch \<Rightarrow> 'd async_sys \<Rightarrow> 'd async_sys" where
  "MysqlDispatch_OnExecuted d s = s\<lparr>ay_queried := ay_queried s @ [my_task d]\<rparr>"

definition MysqlDispatch_executeImpl ::
  "'d sql_driver \<Rightarrow> int \<Rightarrow> (nat \<Rightarrow> bool) \<Rightarrow> MysqlDispatch \<Rightarrow> 'd async_sys \<Rightarrow> (MysqlDispatch \<times> 'd async_sys) option" where
  \<comment> \<open>the pool is alive: its thread is running\<close>
  "MysqlDispatch_executeImpl dr now live d s =
     (case mysql_execute dr now (Some (my_task d)) (ay_impl s) of
        Waits \<Rightarrow> None
      | Returns (t, m) \<Rightarrow>
          let d1 = d\<lparr>my_task := (case t of None \<Rightarrow> my_task d | Some t' \<Rightarrow> t')\<rparr>; s1 = s\<lparr>ay_impl := m\<rparr>
          in Some (d1, if lock_dispatcher live d = None then MysqlDispatch_OnExecuted d1 s1 else s1))"

definition MysqlDispatch_execute ::
  "'d sql_driver \<Rightarrow> int \<Rightarrow> (nat \<Rightarrow> bool) \<Rightarrow> MysqlDispatch \<Rightarrow> 'd async_sys \<Rightarrow> 'd async_sys option" where
  \<comment> \<open>\<open>ThreadDispatch::execute\<close>\<close>
  "MysqlDispatch_execute dr now live d s =
     (case MysqlDispatch_executeImpl dr now live d s of
        None \<Rightarrow> None
      | Some (d1, s1) \<Rightarrow>
          Some (case lock_dispatcher live d1 of None \<Rightarrow> s1 | Some k \<Rightarrow> s1\<lparr>ay_executed := ay_executed s1 @ [(k, d1)]\<rparr>))"

fun execute_all ::
  "'d sql_driver \<Rightarrow> int \<Rightarrow> (nat \<Rightarrow> bool) \<Rightarrow> MysqlDispatch list \<Rightarrow> 'd async_sys \<Rightarrow> 'd async_sys option" where
  \<comment> \<open>a thread that works off its dispatch queue\<close>
  "execute_all dr now live [] s = Some s"
| "execute_all dr now live (d # ds) s =
     (case MysqlDispatch_execute dr now live d s of None \<Rightarrow> None | Some s1 \<Rightarrow> execute_all dr now live ds s1)"

definition MysqlThread_round ::
  "nat \<Rightarrow> 'd sql_driver \<Rightarrow> int \<Rightarrow> (nat \<Rightarrow> bool) \<Rightarrow> 'd async_sys \<Rightarrow> 'd async_sys option" where
  \<comment> \<open>\<open>oneLoopEx\<close>, then the dispatches it has put on the empty queue of the thread\<close>
  "MysqlThread_round fuel dr now live s =
     (case mysql_oneLoopEx fuel (ay_impl s) [] of
        None \<Rightarrow> None
      | Some (own, m) \<Rightarrow> execute_all dr now live own (s\<lparr>ay_impl := m\<rparr>))"

section \<open>Vocabulary of the properties\<close>

definition asked :: "MysqlDispatch \<Rightarrow> QueryType \<times> stmt" where
  "asked d = qt_buildQuery (my_task d)"

definition async_submit :: "(MysqlQueryTask \<times> nat option) list \<Rightarrow> 'd MysqlPoolImpl \<Rightarrow> 'd MysqlPoolImpl" where
  "async_submit qs m = fold (\<lambda>(t, k). AsyncQuery t k) qs m"

definition plain_driver :: "nat sql_driver" where
  \<comment> \<open>a server that counts the statements\<close>
  "plain_driver = \<lparr>sd_connect = (\<lambda>d. (SqlOk True, d)), sd_setSchema = (\<lambda>d. (SqlOk (), d)), sd_delete = (\<lambda>d. d), sd_executeQuery = (\<lambda>s d. (SqlOk [], d + 1)),
     sd_executeUpdate = (\<lambda>s d. (SqlOk 1, d + 1)), sd_lastInsertId = (\<lambda>d. (SqlOk 0, d))\<rparr>"

definition demo_queries :: "(MysqlQueryTask \<times> nat option) list" where
  "demo_queries = [(MysqlCommandTask_new SelectOne Select, None), (MysqlCommandTask_new SelectOne Update, Some 7)]"

section \<open>Lemmas\<close>

lemma run_query_asks: "qt_buildQuery (fst (snd (run_query dr task d))) = qt_buildQuery task"
  by (simp add: run_query_def Let_def split_beta split: sql_outcome.split prod.split)

lemma mysql_execute_task:
  assumes "mysql_execute dr now (Some t) m = Returns (t', m')"
  shows "\<exists>u. t' = Some u \<and> qt_buildQuery u = qt_buildQuery t"
  using assms
  by (auto simp: mysql_execute_def mysql_execute_on_def run_query_asks Let_def split_beta split: conn_result.splits prod.splits)

lemma mysql_execute_queue:
  "mysql_execute dr now t m = Returns (t', m') \<Longrightarrow> mp_asyncTasks m' = mp_asyncTasks m"
  by (auto simp: mysql_execute_def mysql_execute_on_def Let_def split_beta split: option.splits conn_result.splits prod.splits)

lemma execute_spec:
  assumes "MysqlDispatch_execute dr now live d s = Some s'" and "pool_wf (mp_pool (ay_impl s))"
  shows "\<exists>u. asked u = asked d \<and> (case lock_dispatcher live d of
            None \<Rightarrow> ay_queried s' = ay_queried s @ [my_task u] \<and> ay_executed s' = ay_executed s
          | Some k \<Rightarrow> ay_queried s' = ay_queried s \<and> ay_executed s' = ay_executed s @ [(k, u)])"
    and "pool_wf (mp_pool (ay_impl s'))" and "set (busy (mp_pool (ay_impl s'))) = set (busy (mp_pool (ay_impl s)))"
proof -
  obtain t m where e: "mysql_execute dr now (Some (my_task d)) (ay_impl s) = Returns (t, m)"
    using assms(1) by (auto simp: MysqlDispatch_execute_def MysqlDispatch_executeImpl_def split: redis_result.splits option.splits prod.splits)
  from mysql_execute_task[OF e] obtain u where u: "t = Some u" "qt_buildQuery u = qt_buildQuery (my_task d)" by blast
  have l: "lock_dispatcher live (d\<lparr>my_task := u\<rparr>) = lock_dispatcher live d" by (simp add: lock_dispatcher_def)
  have s': "s' = (case lock_dispatcher live d of
      None \<Rightarrow> MysqlDispatch_OnExecuted (d\<lparr>my_task := u\<rparr>) (s\<lparr>ay_impl := m\<rparr>)
    | Some k \<Rightarrow> s\<lparr>ay_impl := m, ay_executed := ay_executed s @ [(k, d\<lparr>my_task := u\<rparr>)]\<rparr>)"
    using assms(1) e u by (auto simp: MysqlDispatch_execute_def MysqlDispatch_executeImpl_def l Let_def split: option.splits)
  show "\<exists>u. asked u = asked d \<and> (case lock_dispatcher live d of
            None \<Rightarrow> ay_queried s' = ay_queried s @ [my_task u] \<and> ay_executed s' = ay_executed s
          | Some k \<Rightarrow> ay_queried s' = ay_queried s \<and> ay_executed s' = ay_executed s @ [(k, u)])"
    by (rule exI[of _ "d\<lparr>my_task := u\<rparr>"]) (simp add: s' asked_def u MysqlDispatch_OnExecuted_def split: option.split)
  have "ay_impl s' = m" by (simp add: s' MysqlDispatch_OnExecuted_def split: option.split)
  then show "pool_wf (mp_pool (ay_impl s'))" "set (busy (mp_pool (ay_impl s'))) = set (busy (mp_pool (ay_impl s)))"
    using mysql_execute_pool[OF assms(2) e] by simp_all
qed

lemma execute_all_spec:
  assumes "execute_all dr now live ds s = Some s'" and "pool_wf (mp_pool (ay_impl s))"
  shows "map qt_buildQuery (ay_queried s')
      = map qt_buildQuery (ay_queried s) @ map asked (filter (\<lambda>d. lock_dispatcher live d = None) ds)
    \<and> map (map_prod id asked) (ay_executed s') = map (map_prod id asked) (ay_executed s)
      @ map (\<lambda>d. (the (lock_dispatcher live d), asked d)) (filter (\<lambda>d. lock_dispatcher live d \<noteq> None) ds)
    \<and> pool_wf (mp_pool (ay_impl s')) \<and> set (busy (mp_pool (ay_impl s'))) = set (busy (mp_pool (ay_impl s)))"
  using assms
proof (induction ds arbitrary: s)
  case (Cons d ds)
  then obtain s1 where s1: "MysqlDispatch_execute dr now live d s = Some s1" "execute_all dr now live ds s1 = Some s'"
    by (auto split: option.splits)
  note e = execute_spec[OF s1(1) Cons.prems(2)]
  show ?case using Cons.IH[OF s1(2) e(2)] e(1,3) by (cases "lock_dispatcher live d") (auto simp: asked_def)
qed simp

lemma execute_all_queue:
  "execute_all dr now live ds s = Some s' \<Longrightarrow> mp_asyncTasks (ay_impl s') = mp_asyncTasks (ay_impl s)"
proof (induction ds arbitrary: s)
  case (Cons d ds)
  then show ?case
    by (auto simp: MysqlDispatch_execute_def MysqlDispatch_executeImpl_def MysqlDispatch_OnExecuted_def Let_def
        dest!: mysql_execute_queue split: option.splits redis_result.splits prod.splits if_splits)
qed simp

lemma async_submit_queue:
  "async_submit qs m = m\<lparr>mp_asyncTasks := mp_asyncTasks m @ map (\<lambda>(t, k). \<lparr>my_dispatcher = k, my_task = t\<rparr>) qs\<rparr>"
  unfolding async_submit_def
  by (induction qs arbitrary: m) (auto simp: AsyncQuery_def pushAsyncTask_def)

lemma reports_split:
  "filter (\<lambda>d. lock_dispatcher live d = None) (map (\<lambda>(t, k). \<lparr>my_dispatcher = k, my_task = t\<rparr>) qs)
     = map (\<lambda>(t, k). \<lparr>my_dispatcher = k, my_task = t\<rparr>) (filter (\<lambda>(t, k). \<not> (\<exists>w. k = Some w \<and> live w)) qs)"
  "filter (\<lambda>d. lock_dispatcher live d \<noteq> None) (map (\<lambda>(t, k). \<lparr>my_dispatcher = k, my_task = t\<rparr>) qs)
     = map (\<lambda>(t, k). \<lparr>my_dispatcher = k, my_task = t\<rparr>) (filter (\<lambda>(t, k). \<exists>w. k = Some w \<and> live w) qs)"
  by (induction qs) (auto simp: lock_dispatcher_def split: option.splits)

section \<open>Properties\<close>


lemma demo_round:
  "MysqlThread_round 5 plain_driver 9 (\<lambda>w. w = 7) \<lparr>ay_impl = async_submit demo_queries demo_mysql, ay_queried = [], ay_executed = []\<rparr> \<noteq> None"
  by code_simp


end
