(* ===== verification/Tcp_Server.thy ===== *)
theory Tcp_Server
  imports Security
begin

text \<open>
  The TCP server, \<open>Network/TcpServer.cpp\<close>: connections with their send queue, the acceptor, and the
  server with its table of connections and the periodic check.

  Boost.Asio is the environment: a write that is started appears in \<open>cn_started\<close>, and the completion
  of a read, a write or an accept is a call of the handler with its error code. The session of a
  connection is a parameter \<open>'s\<close> with the operations the server calls. A connection is stored in
  the table by value. \<open>_pos\<close> has no initial value in the code, so it is one of the model's.
  The number of processors is a parameter. \<open>None\<close> is an exception or an abort.
\<close>

section \<open>Connections\<close>

record 's ConnectionImpl =
  cn_uuid :: string
  cn_remoteIp :: string
  cn_session :: "'s option"
  cn_sending :: bool
  cn_error :: bool
  cn_activeClose :: bool
  cn_activeCloseTime :: int
  cn_sendQueue :: "string list"
  cn_started :: "string list"
  cn_reading :: bool

record 's session_ops =
  so_onReceive :: "string \<Rightarrow> 's \<Rightarrow> 's"
  so_onDisconnect :: "'s \<Rightarrow> 's"
  so_isAlive :: "int \<Rightarrow> 's \<Rightarrow> bool"

definition BLOCK_SIZE :: nat where "BLOCK_SIZE = 16384"

definition ConnectionImpl_new :: "string \<Rightarrow> 's ConnectionImpl" where
  "ConnectionImpl_new uuid =
     \<lparr>cn_uuid = uuid, cn_remoteIp = [], cn_session = None, cn_sending = False, cn_error = False, cn_activeClose = False,
      cn_activeCloseTime = 0, cn_sendQueue = [], cn_started = [], cn_reading = False\<rparr>"

definition do_read :: "'s ConnectionImpl \<Rightarrow> 's ConnectionImpl" where
  "do_read c = c\<lparr>cn_reading := True\<rparr>"

definition con_start :: "'s ConnectionImpl \<Rightarrow> 's ConnectionImpl" where
  \<comment> \<open>while the server exists; the session is not created\<close>
  "con_start c = do_read c"

definition setRemoteIp :: "string \<Rightarrow> 's ConnectionImpl \<Rightarrow> 's ConnectionImpl" where
  "setRemoteIp remoteIp c = c\<lparr>cn_remoteIp := remoteIp\<rparr>"

definition con_close :: "int \<Rightarrow> 's ConnectionImpl \<Rightarrow> 's ConnectionImpl" where
  "con_close now c = c\<lparr>cn_activeClose := True, cn_activeCloseTime := now\<rparr>"

definition isActiveClose :: "'s ConnectionImpl \<Rightarrow> bool" where
  "isActiveClose c = cn_activeClose c"

definition activeCloseOver1s :: "int \<Rightarrow> 's ConnectionImpl \<Rightarrow> bool" where
  "activeCloseOver1s nowTime c =
     (if \<not> cn_activeClose c then False
      else let delta = nowTime - cn_activeCloseTime c in if delta > 1 then True else False)"

definition OnError :: "'s session_ops \<Rightarrow> 's ConnectionImpl \<Rightarrow> 's ConnectionImpl" where
  "OnError so c = c\<lparr>cn_error := True, cn_session := map_option (so_onDisconnect so) (cn_session c)\<rparr>"

definition OnAsyncRead :: "'s session_ops \<Rightarrow> bool \<Rightarrow> string \<Rightarrow> 's ConnectionImpl \<Rightarrow> 's ConnectionImpl" where
  \<comment> \<open>\<open>ok\<close> when there is no error code; exceptions of the session are caught, so \<open>so_onReceive\<close> is
      what the session has become\<close>
  "OnAsyncRead so ok data c =
     (let c0 = c\<lparr>cn_reading := False\<rparr> in
      if ok then do_read (c0\<lparr>cn_session := map_option (so_onReceive so data) (cn_session c0)\<rparr>)
      else OnError so c0)"

definition addSendNode :: "string \<Rightarrow> 's ConnectionImpl \<Rightarrow> bool \<times> 's ConnectionImpl" where
  "addSendNode node c = (cn_sending c, c\<lparr>cn_sendQueue := cn_sendQueue c @ [node]\<rparr>)"

definition popSendNode :: "'s ConnectionImpl \<Rightarrow> string option \<times> 's ConnectionImpl" where
  "popSendNode c =
     (case cn_sendQueue c of
        [] \<Rightarrow> (None, c\<lparr>cn_sending := False\<rparr>)
      | node # q \<Rightarrow> (Some node, c\<lparr>cn_sending := True, cn_sendQueue := q\<rparr>))"

definition do_write :: "'s ConnectionImpl \<Rightarrow> 's ConnectionImpl" where
  "do_write c =
     (case popSendNode c of
        (None, c1) \<Rightarrow> c1
      | (Some node, c1) \<Rightarrow> c1\<lparr>cn_started := cn_started c1 @ [node]\<rparr>)"

definition OnAsyncWrite :: "'s session_ops \<Rightarrow> bool \<Rightarrow> 's ConnectionImpl \<Rightarrow> 's ConnectionImpl" where
  "OnAsyncWrite so ok c = (if ok then do_write c else OnError so c)"

fun splitSend_loop :: "nat \<Rightarrow> string \<Rightarrow> nat \<Rightarrow> nat \<Rightarrow> 's ConnectionImpl \<Rightarrow> 's ConnectionImpl option" where
  \<comment> \<open>fuel, buffer, \<open>total\<close>, \<open>size\<close>\<close>
  "splitSend_loop 0 buf sent sz c = None"
| "splitSend_loop (Suc n) buf sent sz c =
     (if sent < length buf
      then let sz1 = (if sz + sent > length buf then length buf - sent else sz);
               (flag, c1) = addSendNode (take sz1 (drop sent buf)) c;
               c2 = (if \<not> flag then do_write c1 else c1)
           in splitSend_loop n buf (sent + sz1) sz1 c2
      else Some c)"

definition splitSend :: "nat \<Rightarrow> string \<Rightarrow> 's ConnectionImpl \<Rightarrow> 's ConnectionImpl option" where
  "splitSend fuel buf c = splitSend_loop fuel buf 0 0 c"

definition send_buf :: "nat \<Rightarrow> string option \<Rightarrow> 's ConnectionImpl \<Rightarrow> 's ConnectionImpl option" where
  \<comment> \<open>\<open>send(buf, length)\<close>\<close>
  "send_buf fuel buf c =
     (if cn_error c then Some c
      else case buf of None \<Rightarrow> Some c | Some b \<Rightarrow> if length b = 0 then Some c else splitSend fuel b c)"

definition Send :: "nat \<Rightarrow> string \<Rightarrow> 's ConnectionImpl \<Rightarrow> 's ConnectionImpl option" where
  \<comment> \<open>a null pointer is dereferenced before it is tested, so the data are given\<close>
  "Send fuel data c =
     (if cn_error c then Some c
      else if data = [] then Some c
      else if length data \<le> BLOCK_SIZE
      then let (flag, c1) = addSendNode data c in Some (if flag then do_write c1 else c1)
      else splitSend fuel data c)"

definition isClose :: "'s ConnectionImpl \<Rightarrow> bool" where
  "isClose c = (if cn_error c then True else if cn_activeClose c then True else False)"

section \<open>The server\<close>

record 's TcpServer =
  ts_started :: bool
  ts_stopping :: bool
  ts_threads :: nat
  ts_services :: "nat list"
  ts_sequence :: "string list"
  ts_acceptor :: "bool option"
  ts_connections :: "(string, 's ConnectionImpl) umap"
  ts_pos :: nat

definition getService :: "'s TcpServer \<Rightarrow> (nat option \<times> 's TcpServer) option" where
  \<comment> \<open>\<open>None\<close> when \<open>vector::at\<close> throws\<close>
  "getService ts =
     (if ts_services ts = [] then Some (None, ts)
      else let pos = (if ts_pos ts > length (ts_services ts) then 0 else ts_pos ts)
           in if pos < length (ts_services ts) then Some (Some (ts_services ts ! pos), ts\<lparr>ts_pos := pos + 1\<rparr>) else None)"

definition do_accept :: "'s TcpServer \<Rightarrow> 's TcpServer option" where
  \<comment> \<open>while the server exists: a connection is prepared for the next service\<close>
  "do_accept ts = (case getService ts of None \<Rightarrow> None | Some (service, ts1) \<Rightarrow> Some ts1)"

definition addConnection :: "'s ConnectionImpl option \<Rightarrow> 's TcpServer \<Rightarrow> 's TcpServer" where
  "addConnection con ts =
     (case con of
        None \<Rightarrow> ts
      | Some c \<Rightarrow>
          if um_find (ts_connections ts) (cn_uuid c) = None
          then ts\<lparr>ts_connections := um_insert (cn_uuid c) c (ts_connections ts), ts_sequence := ts_sequence ts @ [cn_uuid c]\<rparr>
          else ts)"

definition removeConnection :: "'s ConnectionImpl \<Rightarrow> 's TcpServer \<Rightarrow> 's TcpServer" where
  "removeConnection c ts = ts\<lparr>ts_connections := um_erase (cn_uuid c) (ts_connections ts)\<rparr>"

definition onAccept ::
  "'r redis_env \<Rightarrow> int \<Rightarrow> bool \<Rightarrow> string \<Rightarrow> 's ConnectionImpl \<Rightarrow> 's TcpServer \<times> SecurityManager \<times> 'r RedisPoolImpl
     \<Rightarrow> ('s ConnectionImpl \<times> 's TcpServer \<times> SecurityManager \<times> 'r RedisPoolImpl) option" where
  \<comment> \<open>\<open>None\<close> when the check of the black list waits for Redis; \<open>remoteIp\<close> is empty when the endpoint
      is not available\<close>
  "onAccept e now ok remoteIp con = (\<lambda>(ts, sm, st).
     if \<not> ok then Some (con, ts, sm, st)
     else case checkBlackList e now remoteIp (sm, st) of
            None \<Rightarrow> None
          | Some (listed, sm1, st1) \<Rightarrow>
              if listed then Some (con_close now con, ts, sm1, st1)
              else let con1 = con_start (setRemoteIp remoteIp con)
                   in Some (con1, addConnection (Some con1) ts, sm1, st1))"

definition accepted ::
  "'r redis_env \<Rightarrow> int \<Rightarrow> bool \<Rightarrow> string \<Rightarrow> 's ConnectionImpl \<Rightarrow> 's TcpServer \<times> SecurityManager \<times> 'r RedisPoolImpl
     \<Rightarrow> ('s ConnectionImpl \<times> 's TcpServer \<times> SecurityManager \<times> 'r RedisPoolImpl) option" where
  \<comment> \<open>the completion handler of \<open>async_accept\<close>\<close>
  "accepted e now ok remoteIp con s =
     (case onAccept e now ok remoteIp con s of
        None \<Rightarrow> None
      | Some (con1, ts, sm, st) \<Rightarrow>
          if ts_acceptor ts = Some True
          then (case do_accept ts of None \<Rightarrow> None | Some ts1 \<Rightarrow> Some (con1, ts1, sm, st))
          else Some (con1, ts, sm, st))"

definition tcp_start :: "nat \<Rightarrow> nat \<Rightarrow> nat \<Rightarrow> 's TcpServer \<Rightarrow> ('s TcpServer \<times> bool) option" where
  \<comment> \<open>the number of processors, the number of the service that is created, the threads asked for;
      \<open>None\<close> when an exception leaves \<open>start\<close>. The flag tells that the process is terminated: the
      handle of the acceptor thread is not kept, and \<open>std::thread\<close> calls \<open>std::terminate\<close> when the
      handle of a running thread is destroyed\<close>
  "tcp_start cpuNum service threadNum ts =
     (if ts_started ts then Some (ts, False)
      else let n1 = (if threadNum < 1 then cpuNum else threadNum);
               n2 = (if n1 > 8 then 8 else n1);
               ts1 = ts\<lparr>ts_services := ts_services ts @ [service], ts_threads := ts_threads ts + n2\<rparr>
           in case do_accept ts1 of
                None \<Rightarrow> None
              | Some ts2 \<Rightarrow> Some (ts2\<lparr>ts_acceptor := Some True, ts_started := True\<rparr>, True))"

definition closeAllConnections :: "int \<Rightarrow> 's TcpServer \<Rightarrow> 's TcpServer" where
  "closeAllConnections now ts = ts\<lparr>ts_connections := map (\<lambda>(k, c). (k, con_close now c)) (ts_connections ts)\<rparr>"

definition clearConnection :: "'s TcpServer \<Rightarrow> 's TcpServer" where
  "clearConnection ts = ts\<lparr>ts_connections := []\<rparr>"

definition tcp_stop :: "int \<Rightarrow> 's TcpServer \<Rightarrow> 's TcpServer" where
  \<comment> \<open>the joined threads end once their service has no work left\<close>
  "tcp_stop now ts =
     (if \<not> ts_started ts \<or> ts_stopping ts then ts
      else let ts1 = closeAllConnections now (ts\<lparr>ts_stopping := True, ts_acceptor := map_option (\<lambda>_. False) (ts_acceptor ts)\<rparr>)
           in (clearConnection (ts1\<lparr>ts_services := [], ts_acceptor := None, ts_threads := 0\<rparr>))
                \<lparr>ts_started := False, ts_stopping := False\<rparr>)"

definition getConnectionNums :: "'s TcpServer \<Rightarrow> int" where
  "getConnectionNums ts = to_int32 (int (length (ts_connections ts)))"

definition getConnectionInSequence :: "'s TcpServer \<Rightarrow> 's ConnectionImpl option \<times> 's TcpServer" where
  "getConnectionInSequence ts =
     (let (con, sequence) = getInSequence (ts_connections ts) (ts_sequence ts) in (con, ts\<lparr>ts_sequence := sequence\<rparr>))"

definition check_one :: "'s session_ops \<Rightarrow> int \<Rightarrow> 's ConnectionImpl \<Rightarrow> 's TcpServer \<Rightarrow> 's TcpServer" where
  \<comment> \<open>the body of the loop of \<open>checkConnection\<close>\<close>
  "check_one so nowTime con ts =
     (case cn_session con of
        None \<Rightarrow> removeConnection con ts
      | Some session \<Rightarrow>
          if \<not> so_isAlive so nowTime session
          then if activeCloseOver1s nowTime con then removeConnection con ts
               else if \<not> isActiveClose con
               then ts\<lparr>ts_connections := um_put (cn_uuid con) (con_close nowTime con) (ts_connections ts)\<rparr>
               else ts
          else ts)"

fun check_loop :: "'s session_ops \<Rightarrow> int \<Rightarrow> nat \<Rightarrow> 's TcpServer \<Rightarrow> 's TcpServer" where
  "check_loop so nowTime 0 ts = ts"
| "check_loop so nowTime (Suc i) ts =
     (case getConnectionInSequence ts of
        (None, ts1) \<Rightarrow> ts1
      | (Some con, ts1) \<Rightarrow> check_loop so nowTime i (check_one so nowTime con ts1))"

definition checkConnection :: "'s session_ops \<Rightarrow> int \<Rightarrow> 's TcpServer \<Rightarrow> 's TcpServer" where
  "checkConnection so nowTime ts =
     (let count = getConnectionNums ts in
      if count = 0 then ts else check_loop so nowTime (nat (count div 100)) ts)"

definition tcp_OnTimer :: "'s session_ops \<Rightarrow> int \<Rightarrow> 's TcpServer \<Rightarrow> bool \<times> 's TcpServer" where
  "tcp_OnTimer so nowTime ts =
     (if \<not> ts_started ts \<or> ts_stopping ts then (False, ts) else (True, checkConnection so nowTime ts))"

section \<open>Vocabulary of the properties\<close>

definition table_ok :: "'s TcpServer \<Rightarrow> bool" where
  "table_ok ts \<longleftrightarrow> um_wf (ts_connections ts) \<and> (\<forall>k c. um_find (ts_connections ts) k = Some c \<longrightarrow> cn_uuid c = k)"

definition dead :: "'s session_ops \<Rightarrow> int \<Rightarrow> 's ConnectionImpl \<Rightarrow> bool" where
  "dead so now c = (case cn_session c of None \<Rightarrow> True | Some s \<Rightarrow> \<not> so_isAlive so now s)"

definition checked :: "'s session_ops \<Rightarrow> int \<Rightarrow> 's ConnectionImpl \<Rightarrow> 's ConnectionImpl option \<Rightarrow> bool" where
  \<comment> \<open>what may become of a connection: it is removed because it has no session or is inactive and was
      closed more than a second ago, it is closed because it is inactive, or it is left alone\<close>
  "checked so now c r =
     (case r of
        None \<Rightarrow> dead so now c \<and> (cn_session c = None \<or> activeCloseOver1s now c)
      | Some c' \<Rightarrow> c' = c \<or> (dead so now c \<and> \<not> cn_activeClose c \<and> c' = con_close now c))"

fun send_all :: "string list \<Rightarrow> 's ConnectionImpl \<Rightarrow> 's ConnectionImpl option" where
  "send_all [] c = Some c"
| "send_all (d # ds) c = Option.bind (Send 0 d c) (send_all ds)"

definition demo_ops :: "bool session_ops" where
  \<comment> \<open>a session that is its own liveness\<close>
  "demo_ops = \<lparr>so_onReceive = (\<lambda>d s. s), so_onDisconnect = (\<lambda>s. False), so_isAlive = (\<lambda>now s. s)\<rparr>"

definition demo_tcp :: "bool TcpServer" where
  "demo_tcp = \<lparr>ts_started = True, ts_stopping = False, ts_threads = 1, ts_services = [0], ts_sequence = [],
     ts_acceptor = Some True, ts_connections = [], ts_pos = 0\<rparr>"

section \<open>Sending\<close>

lemma splitSend_loop_stuck: "buf \<noteq> [] \<Longrightarrow> splitSend_loop fuel buf 0 0 c = None"
  by (induction fuel arbitrary: c) (simp_all add: Let_def split: prod.split)

lemma Send_idle:
  "\<not> cn_sending c \<Longrightarrow> \<not> cn_error c \<Longrightarrow> d \<noteq> [] \<Longrightarrow> length d \<le> BLOCK_SIZE \<Longrightarrow>
     Send fuel d c = Some (c\<lparr>cn_sendQueue := cn_sendQueue c @ [d]\<rparr>)"
  by (simp add: Send_def addSendNode_def)

text \<open>A message of more than 16384 bytes is never sent: splitting it into blocks starts with the
  block size 0 and so never advances, and the call of \<open>Send\<close> never returns; nor does \<open>send\<close> for
  any data at all.\<close>
theorem long_message_send_never_returns:
  assumes "\<not> cn_error c" and "length data > BLOCK_SIZE" and "buf \<noteq> []"
  shows "Send fuel data c = None \<and> send_buf fuel (Some buf) c = None"
  using assms splitSend_loop_stuck[of data fuel c] splitSend_loop_stuck[of buf fuel c]
  by (auto simp: Send_def send_buf_def splitSend_def)

theorem long_message_send_never_returns_witness:
  "Send 1000 (replicate 16385 CHR ''a'') (ConnectionImpl_new ''u'' :: unit ConnectionImpl) = None"
  using long_message_send_never_returns[of "ConnectionImpl_new ''u'' :: unit ConnectionImpl" "replicate 16385 CHR ''a''" "''b''" 1000]
  by (simp add: ConnectionImpl_new_def BLOCK_SIZE_def)

text \<open>Short messages sent on an idle connection are never transmitted: they are queued in order,
  but a write is started only if one is already running, so none ever is.\<close>
theorem short_messages_stay_queued:
  assumes "\<not> cn_sending c" and "\<not> cn_error c" and "\<forall>d \<in> set ds. d \<noteq> [] \<and> length d \<le> BLOCK_SIZE"
  shows "\<exists>c'. send_all ds c = Some c' \<and> cn_started c' = cn_started c \<and> cn_sendQueue c' = cn_sendQueue c @ ds \<and> \<not> cn_sending c'"
  using assms
proof (induction ds arbitrary: c)
  case (Cons d ds)
  then show ?case using Cons.IH[of "c\<lparr>cn_sendQueue := cn_sendQueue c @ [d]\<rparr>"] Send_idle[of c d 0] by simp
qed simp

theorem short_messages_stay_queued_witness:
  "\<exists>c'. send_all [''ab'', ''c''] (ConnectionImpl_new ''u'' :: unit ConnectionImpl) = Some c'
     \<and> cn_started c' = [] \<and> cn_sendQueue c' = [''ab'', ''c'']"
  using short_messages_stay_queued[of "ConnectionImpl_new ''u'' :: unit ConnectionImpl" "[''ab'', ''c'']"]
  by (auto simp: ConnectionImpl_new_def BLOCK_SIZE_def)

section \<open>The table of connections\<close>

lemma table_find: "table_ok ts \<Longrightarrow> um_find (ts_connections ts) k = Some c \<Longrightarrow> cn_uuid c = k"
  by (simp add: table_ok_def)

lemma getConnectionInSequence_table:
  assumes "getConnectionInSequence ts = (r, ts1)"
  shows "ts_connections ts1 = ts_connections ts" and "r = Some c \<Longrightarrow> \<exists>k. um_find (ts_connections ts) k = Some c"
proof -
  obtain ks where g: "getInSequence (ts_connections ts) (ts_sequence ts) = (r, ks)" and t: "ts1 = ts\<lparr>ts_sequence := ks\<rparr>"
    using assms by (auto simp: getConnectionInSequence_def split: prod.splits)
  have l: "getInSequence_loop m xs = (Some c, ys) \<Longrightarrow> \<exists>k. um_find m k = Some c" for m :: "(string, 'a ConnectionImpl) umap" and xs ys
    by (induction m xs rule: getInSequence_loop.induct) (auto split: option.splits)
  show "ts_connections ts1 = ts_connections ts" using t by simp
  show "\<exists>k. um_find (ts_connections ts) k = Some c" if "r = Some c" using l g that unfolding getInSequence_def by blast
qed

lemma check_one_ok:
  assumes "table_ok ts" and "um_find (ts_connections ts) k = Some con"
  shows "table_ok (check_one so now con ts)"
    and "um_find (ts_connections ts) j = Some c \<Longrightarrow> checked so now c (um_find (ts_connections (check_one so now con ts)) j)"
proof -
  have u: "cn_uuid con = k" by (rule table_find[OF assms])
  have r: "check_one so now con ts = removeConnection con ts \<and> dead so now con \<and> (cn_session con = None \<or> activeCloseOver1s now con)
    \<or> check_one so now con ts = ts\<lparr>ts_connections := um_put k (con_close now con) (ts_connections ts)\<rparr>
        \<and> dead so now con \<and> \<not> cn_activeClose con
    \<or> check_one so now con ts = ts"
    by (simp add: check_one_def dead_def isActiveClose_def u split: option.split)
  show "table_ok (check_one so now con ts)"
    using r assms(1) u by (auto simp: table_ok_def removeConnection_def con_close_def container_simps split: if_splits)
  show "checked so now c (um_find (ts_connections (check_one so now con ts)) j)" if "um_find (ts_connections ts) j = Some c"
    using r assms(2) u that by (auto simp: checked_def removeConnection_def container_simps)
qed

lemma checked_trans:
  assumes "checked so now c r" and "\<And>c'. r = Some c' \<Longrightarrow> checked so now c' r'" and "r = None \<Longrightarrow> r' = None"
  shows "checked so now c r'"
proof (cases r)
  case (Some c')
  then have "c' = c \<or> (dead so now c \<and> \<not> cn_activeClose c \<and> c' = con_close now c)" using assms(1) by (simp add: checked_def)
  then show ?thesis
    using assms(2)[OF Some] by (auto simp: checked_def con_close_def activeCloseOver1s_def dead_def Let_def split: option.splits if_splits)
qed (use assms in simp)

lemma check_loop_ok:
  assumes "table_ok ts"
  shows "table_ok (check_loop so now n ts)
    \<and> (\<forall>j c. um_find (ts_connections ts) j = Some c \<longrightarrow> checked so now c (um_find (ts_connections (check_loop so now n ts)) j))
    \<and> (\<forall>j. um_find (ts_connections ts) j = None \<longrightarrow> um_find (ts_connections (check_loop so now n ts)) j = None)"
  using assms
proof (induction n arbitrary: ts)
  case 0
  then show ?case by (simp add: checked_def)
next
  case (Suc n)
  obtain r ts1 where g: "getConnectionInSequence ts = (r, ts1)" by fastforce
  note t = getConnectionInSequence_table[OF g]
  have ok1: "table_ok ts1" using Suc.prems t(1) by (simp add: table_ok_def)
  show ?case
  proof (cases r)
    case None
    then show ?thesis using g ok1 t(1) by (simp add: checked_def)
  next
    case (Some con)
    obtain k where k: "um_find (ts_connections ts1) k = Some con" using t Some by auto
    let ?ts = "check_one so now con ts1"
    note c1 = check_one_ok[OF ok1 k, where so = so and now = now]
    have none: "um_find (ts_connections ?ts) j = None" if "um_find (ts_connections ts1) j = None" for j
      using that k table_find[OF ok1 k]
      by (auto simp: check_one_def removeConnection_def container_simps split: option.split)
    note ih = Suc.IH[OF c1(1)]
    have r: "check_loop so now (Suc n) ts = check_loop so now n ?ts" using g Some by simp
    have "checked so now c (um_find (ts_connections (check_loop so now n ?ts)) j)"
      if "um_find (ts_connections ts1) j = Some c" for j c
      by (rule checked_trans[OF c1(2)[OF that]]) (use ih in auto)
    then show ?thesis unfolding r t(1)[symmetric] using ih none by blast
  qed
qed

text \<open>C35: The periodic check only removes a connection that has no session, or that is inactive and was
  closed by the server more than a second before; it closes a connection only if its session is
  inactive; every other connection is left as it is, and none appears. With fewer than
  100 connections it checks none at all.\<close>
theorem check_touches_only_dead_connections:
  assumes "table_ok ts" and "tcp_OnTimer so now ts = (again, ts')"
  shows "table_ok ts'
    \<and> (\<forall>j c. um_find (ts_connections ts) j = Some c \<longrightarrow> checked so now c (um_find (ts_connections ts') j))
    \<and> (\<forall>j. um_find (ts_connections ts) j = None \<longrightarrow> um_find (ts_connections ts') j = None)
    \<and> (length (ts_connections ts) < 100 \<longrightarrow> ts' = ts)"
proof -
  have few: "length (ts_connections ts) < 100 \<Longrightarrow> getConnectionNums ts div 100 = 0"
    by (simp add: getConnectionNums_def to_int32_id)
  consider "ts' = ts" | n where "ts' = check_loop so now n ts" "length (ts_connections ts) < 100 \<longrightarrow> n = 0"
    using assms(2) few by (auto simp: tcp_OnTimer_def checkConnection_def Let_def split: if_splits)
  then show ?thesis
    using assms(1) check_loop_ok[OF assms(1), of so now] by cases (auto simp: checked_def)
qed

theorem check_touches_only_dead_connections_witness:
  "tcp_OnTimer demo_ops 9 (addConnection (Some (ConnectionImpl_new ''u'')) demo_tcp)
     = (True, addConnection (Some (ConnectionImpl_new ''u'')) demo_tcp)"
proof -
  let ?ts = "addConnection (Some (ConnectionImpl_new ''u'')) demo_tcp"
  obtain again ts' where t: "tcp_OnTimer demo_ops 9 ?ts = (again, ts')" by fastforce
  have ok: "table_ok ?ts"
    by (simp add: table_ok_def addConnection_def demo_tcp_def um_insert_def ConnectionImpl_new_def)
  have "length (ts_connections ?ts) < 100" by (simp add: addConnection_def demo_tcp_def um_insert_def)
  then have "ts' = ?ts" using check_touches_only_dead_connections[OF ok t] by simp
  moreover have "again" using t by (simp add: tcp_OnTimer_def addConnection_def demo_tcp_def)
  ultimately show ?thesis using t by simp
qed

text \<open>A connection from an address that was put on the black list less than five minutes ago is
  closed and does not get into the table; from an address that is not listed it is started,
  with its address recorded, and entered under its id unless the id is taken.\<close>
theorem accept_refuses_blacklisted:
  assumes "onAccept e now True ip con (ts, sm, st) = Some (con', ts', sm', st')"
  shows "(case um_find (sm_blackLists sm) ip of
            Some t \<Rightarrow> now - t < 300 \<longrightarrow> cn_activeClose con' \<and> ts' = ts
          | None \<Rightarrow> cn_reading con' \<and> cn_remoteIp con' = ip \<and>
              um_find (ts_connections ts') (cn_uuid con) =
                (if um_find (ts_connections ts) (cn_uuid con) = None then Some con' else um_find (ts_connections ts) (cn_uuid con)))"
  using assms
  by (auto simp: onAccept_def checkBlackList_def getTimeStramp_def con_close_def con_start_def do_read_def setRemoteIp_def
      addConnection_def container_simps Let_def split: option.splits if_splits)

theorem accept_refuses_blacklisted_witness:
  "\<exists>con' ts' sm' st'. onAccept demo_env 100 True ''1.2.3.4'' (ConnectionImpl_new ''u'')
       (demo_tcp, SecurityManager_new\<lparr>sm_blackLists := [(''1.2.3.4'', 10)]\<rparr>, demo_impl) = Some (con', ts', sm', st')
     \<and> cn_activeClose con' \<and> ts' = demo_tcp"
proof -
  let ?sm = "SecurityManager_new\<lparr>sm_blackLists := [(''1.2.3.4'', 10)]\<rparr>"
  obtain con' ts' sm' st' where a: "onAccept demo_env 100 True ''1.2.3.4'' (ConnectionImpl_new ''u'')
      (demo_tcp, ?sm, demo_impl) = Some (con', ts', sm', st')"
    by (simp add: onAccept_def checkBlackList_def getTimeStramp_def)
  from accept_refuses_blacklisted[OF a] a show ?thesis by auto
qed

text \<open>The server accepts one connection only: with its single service, the request for the service
  of the next connection runs past the end of the list and throws, so the handler of the first
  accepted connection ends with an exception.\<close>
theorem second_accept_throws:
  assumes "ts_services ts = [s]" and "ts_pos ts = 0" and "do_accept ts = Some ts1" and "ts_acceptor ts = Some True"
  shows "accepted e now ok ip con (ts1, sm, st) = None"
proof -
  have p: "ts_services ts1 = [s]" "ts_pos ts1 = 1" "ts_acceptor ts1 = Some True"
    using assms by (auto simp: do_accept_def getService_def Let_def)
  have "do_accept ts2 = None" if "ts_services ts2 = [s]" "ts_pos ts2 = 1" for ts2 :: "'a TcpServer"
    using that by (simp add: do_accept_def getService_def Let_def)
  then show ?thesis
    using p by (auto simp: accepted_def onAccept_def addConnection_def Let_def split: option.split prod.split)
qed

theorem second_accept_throws_witness:
  "\<exists>ts1. do_accept demo_tcp = Some ts1
     \<and> accepted demo_env 100 True ''1.2.3.4'' (ConnectionImpl_new ''u'') (ts1, SecurityManager_new, demo_impl) = None"
proof -
  obtain ts1 where d: "do_accept demo_tcp = Some ts1"
    by (simp add: do_accept_def getService_def demo_tcp_def)
  with second_accept_throws[OF _ _ d, of 0] show ?thesis by (simp add: demo_tcp_def)
qed

end
