(* ===== verification/Session_Transport.thy ===== *)
theory Session_Transport
  imports Sessions Tcp_Server
begin

text \<open>
  Sessions on top of connections: \<open>Session::send\<close> (\<open>Network/Session.cpp\<close>), the echo session
  (\<open>Network/EchoSession.cpp\<close>) and \<open>MsgBase::send\<close> (\<open>Message/MsgBase.cpp\<close>), composed with the
  connections of \<open>Tcp_Server\<close>, and the run of a server's connections as a sequence of events.

  A weak pointer to a connection is its number; a connection that does not exist any more is not in
  the store. \<open>Connection\<close> is an interface: what its \<open>Send\<close> does is an argument of the operations of
  \<open>Session\<close>, and the laws the sessions rely on are the locale \<open>connection\<close>, interpreted on
  \<open>ConnectionImpl\<close>. \<open>ConnectionImpl\<close> spells the overload with a buffer and a length \<open>send\<close>; it stands
  here for the \<open>Send\<close> of the interface it is meant to be. \<open>None\<close> is a call that does not return.
\<close>

section \<open>Sending through a session\<close>

type_synonym 'c connections = "(nat, 'c) umap"

definition on_connection ::
  "('c \<Rightarrow> 'c option) \<Rightarrow> 'z Session_scheme \<Rightarrow> 'c connections \<Rightarrow> 'c connections option" where
  \<comment> \<open>\<open>con = _connection.lock(); if (con) ...\<close>\<close>
  "on_connection f s cons =
     (case um_find cons (se_connection s) of
        None \<Rightarrow> Some cons
      | Some c \<Rightarrow> map_option (\<lambda>c'. um_put (se_connection s) c' cons) (f c))"

definition Session_send_buf ::
  "(string \<Rightarrow> 'c \<Rightarrow> 'c option) \<Rightarrow> string \<Rightarrow> 'z Session_scheme \<Rightarrow> 'c connections \<Rightarrow> 'c connections option" where
  \<comment> \<open>\<open>send(buf, length)\<close>\<close>
  "Session_send_buf Send_buf buf s cons = on_connection (Send_buf buf) s cons"

definition Session_send_data ::
  "(string \<Rightarrow> 'c \<Rightarrow> 'c option) \<Rightarrow> string \<Rightarrow> 'z Session_scheme \<Rightarrow> 'c connections \<Rightarrow> 'c connections option" where
  \<comment> \<open>\<open>send(data)\<close>\<close>
  "Session_send_data Send_data data s cons = on_connection (Send_data data) s cons"

definition EchoSession_new :: "nat \<Rightarrow> string \<Rightarrow> Session" where
  "EchoSession_new con remoteIp = Session_new con remoteIp"

definition EchoSession_onReceive ::
  "(string \<Rightarrow> 'c \<Rightarrow> 'c option) \<Rightarrow> string \<Rightarrow> 'z Session_scheme \<Rightarrow> 'c connections \<Rightarrow> 'c connections option" where
  "EchoSession_onReceive Send_buf buf s cons = Session_send_buf Send_buf buf s cons"

definition send_message ::
  "(string \<Rightarrow> 'c \<Rightarrow> 'c option) \<Rightarrow> string option \<Rightarrow> 'z Session_scheme option \<Rightarrow> 'c connections \<Rightarrow> 'c connections option" where
  \<comment> \<open>\<open>MsgBase::send\<close> on this transport; \<open>data\<close> is what \<open>pack()\<close> returned\<close>
  "send_message Send_data data session cons =
     MsgBase_send data session (\<lambda>s d w. Option.bind w (Session_send_data Send_data d s)) (Some cons)"

definition conn_view :: "'s ConnectionImpl \<Rightarrow> ConnView" where
  "conn_view c = \<lparr>cv_id = cn_uuid c, cv_closed = isClose c\<rparr>"

definition conn_views :: "'s ConnectionImpl connections \<Rightarrow> (nat, ConnView) umap" where
  "conn_views cons = map (\<lambda>(n, c). (n, conn_view c)) cons"

section \<open>The run of the connections\<close>

datatype transport_event =
    Accept string string
  | Receive nat bool string
  | Written nat bool
  | SendData Session string
  | SendMessage "Session option" "string option"
  | Echo Session string
  | Close nat int
  | Expire nat

type_synonym 's transport = "nat \<times> 's ConnectionImpl connections"

definition at_connection :: "('s ConnectionImpl \<Rightarrow> 's ConnectionImpl) \<Rightarrow> nat \<Rightarrow> 's ConnectionImpl connections \<Rightarrow> 's ConnectionImpl connections" where
  "at_connection f n cons = (case um_find cons n of None \<Rightarrow> cons | Some c \<Rightarrow> um_put n (f c) cons)"

fun transport_step :: "nat \<Rightarrow> 's session_ops \<Rightarrow> transport_event \<Rightarrow> 's transport \<Rightarrow> 's transport option" where
  \<comment> \<open>the number of the next connection and the connections; the completion of a write is an event of
      a connection that is writing\<close>
  "transport_step fuel so (Accept uuid ip) (n, cons) =
     Some (Suc n, um_insert n (con_start (setRemoteIp ip (ConnectionImpl_new uuid))) cons)"
| "transport_step fuel so (Receive k ok buf) (n, cons) = Some (n, at_connection (OnAsyncRead so ok buf) k cons)"
| "transport_step fuel so (Written k ok) (n, cons) =
     Some (n, at_connection (\<lambda>c. if cn_sending c then OnAsyncWrite so ok c else c) k cons)"
| "transport_step fuel so (SendData s d) (n, cons) = map_option (Pair n) (Session_send_data (Send fuel) d s cons)"
| "transport_step fuel so (SendMessage s d) (n, cons) = map_option (Pair n) (send_message (Send fuel) d s cons)"
| "transport_step fuel so (Echo s d) (n, cons) =
     map_option (Pair n) (EchoSession_onReceive (\<lambda>buf. send_buf fuel (Some buf)) d s cons)"
| "transport_step fuel so (Close k now) (n, cons) = Some (n, at_connection (con_close now) k cons)"
| "transport_step fuel so (Expire k) (n, cons) = Some (n, um_erase k cons)"

fun transport_run :: "nat \<Rightarrow> 's session_ops \<Rightarrow> transport_event list \<Rightarrow> 's transport \<Rightarrow> 's transport option" where
  "transport_run fuel so [] t = Some t"
| "transport_run fuel so (ev # evs) t = Option.bind (transport_step fuel so ev t) (transport_run fuel so evs)"

section \<open>Vocabulary of the properties\<close>

inductive conn_step :: "nat \<Rightarrow> 's session_ops \<Rightarrow> 's ConnectionImpl \<Rightarrow> 's ConnectionImpl \<Rightarrow> bool" for fuel so where
  \<comment> \<open>what one event may do to one connection\<close>
  same: "conn_step fuel so c c"
| read: "conn_step fuel so c (OnAsyncRead so ok buf c)"
| written: "cn_sending c \<Longrightarrow> conn_step fuel so c (OnAsyncWrite so ok c)"
| sent: "Send fuel d c = Some c' \<Longrightarrow> conn_step fuel so c c'"
| closed: "conn_step fuel so c (con_close now c)"

definition quiet :: "'s ConnectionImpl \<Rightarrow> bool" where
  \<comment> \<open>no write has ever been started\<close>
  "quiet c \<longleftrightarrow> \<not> cn_sending c \<and> cn_started c = []"

definition every :: "('c \<Rightarrow> bool) \<Rightarrow> 'c connections \<Rightarrow> bool" where
  "every P cons \<longleftrightarrow> (\<forall>k c. um_find cons k = Some c \<longrightarrow> P c)"

definition ended :: "nat \<Rightarrow> 's transport \<Rightarrow> bool" where
  \<comment> \<open>the connection has existed, and is closed, broken or gone\<close>
  "ended k t \<longleftrightarrow> k < fst t \<and> (\<forall>c. um_find (snd t) k = Some c \<longrightarrow> isClose c)"

definition demo_traffic :: "transport_event list" where
  "demo_traffic =
     [Accept ''u'' ''1.2.3.4'', SendData (Session_new 0 ''1.2.3.4'') ''hello'', Receive 0 True ''x'', Written 0 True,
      SendMessage (Some (Session_new 0 ''1.2.3.4'')) (Some ''pack'')]"

section \<open>What sessions need of a connection\<close>

locale connection =
  fixes con_Send :: "string \<Rightarrow> 'c \<Rightarrow> 'c option" and broken :: "'c \<Rightarrow> bool"
  assumes broken_ignores: "broken c \<Longrightarrow> con_Send d c = Some c"
    and empty_ignored: "con_Send [] c = Some c"
    and keeps_state: "con_Send d c = Some c' \<Longrightarrow> broken c' = broken c"
begin

lemma send_nothing:
  assumes "d = [] \<or> (case um_find cons (se_connection s) of None \<Rightarrow> True | Some c \<Rightarrow> broken c)"
  shows "\<exists>cons'. on_connection (con_Send d) s cons = Some cons' \<and> um_find cons' = um_find cons"
  using assms by (auto simp: on_connection_def broken_ignores empty_ignored container_simps fun_eq_iff split: option.splits)

lemma send_frame:
  assumes "on_connection (con_Send d) s cons = Some cons'" and "k \<noteq> se_connection s"
  shows "um_find cons' k = um_find cons k"
  using assms by (auto simp: on_connection_def container_simps split: option.splits)

lemma send_keeps_broken:
  assumes "on_connection (con_Send d) s cons = Some cons'"
  shows "map_option broken (um_find cons' k) = map_option broken (um_find cons k)"
  using assms keeps_state by (cases "k = se_connection s") (auto simp: on_connection_def container_simps split: option.splits)

end

lemma splitSend_never: "buf \<noteq> [] \<Longrightarrow> splitSend fuel buf c = None"
  by (simp add: splitSend_def splitSend_loop_stuck)

lemma Send_cases:
  assumes "Send fuel d c = Some c'"
  shows "c' = c \<or> \<not> cn_error c \<and> (c' = c\<lparr>cn_sendQueue := cn_sendQueue c @ [d]\<rparr> \<and> \<not> cn_sending c
           \<or> cn_sending c \<and> c' = do_write (c\<lparr>cn_sendQueue := cn_sendQueue c @ [d]\<rparr>))"
  using assms by (cases "d = []") (auto simp: Send_def addSendNode_def splitSend_never split: if_splits)

lemma do_write_frame [simp]:
  "cn_error (do_write c) = cn_error c" "cn_activeClose (do_write c) = cn_activeClose c"
  by (simp_all add: do_write_def popSendNode_def split: list.splits prod.splits)

lemma Send_keeps:
  assumes "Send fuel d c = Some c'"
  shows "cn_error c' = cn_error c" and "cn_activeClose c' = cn_activeClose c"
  using Send_cases[OF assms] by auto

lemma Send_broken: "cn_error c \<Longrightarrow> Send fuel d c = Some c"
  by (simp add: Send_def)

lemma send_buf_total: "send_buf fuel (Some buf) c = (if cn_error c \<or> buf = [] then Some c else None)"
  by (auto simp: send_buf_def splitSend_never)

interpretation con_data: connection "Send fuel" cn_error for fuel
  by unfold_locales (simp_all add: Send_def [of _ "[]"] Send_broken Send_keeps)

interpretation con_buf: connection "\<lambda>buf. send_buf fuel (Some buf)" cn_error for fuel
  by unfold_locales (auto simp: send_buf_total split: if_splits)

section \<open>Runs\<close>

inductive_cases conn_stepE: "conn_step fuel so c c'"

lemma at_connection_step:
  assumes "um_find (at_connection f k0 cons) k = Some c'" and "\<And>c. conn_step fuel so c (f c)"
  shows "\<exists>c. um_find cons k = Some c \<and> conn_step fuel so c c'"
  using assms(1) assms(2) by (auto simp: at_connection_def container_simps intro: same split: option.splits if_splits)

lemma on_connection_step:
  assumes "on_connection f s cons = Some cons'" and "um_find cons' k = Some c'"
    and "\<And>c c'. f c = Some c' \<Longrightarrow> conn_step fuel so c c'"
  shows "\<exists>c. um_find cons k = Some c \<and> conn_step fuel so c c'"
  using assms by (auto simp: on_connection_def container_simps intro: same split: option.splits if_splits)

lemma send_message_step:
  fixes s :: "'z Session_scheme option"
  assumes "send_message (Send fuel) d s cons = Some cons'" and "um_find cons' k = Some c'"
  shows "\<exists>c. um_find cons k = Some c \<and> conn_step fuel so c c'"
proof (cases "send_message (Send fuel) d s cons = Some cons")
  case True
  then show ?thesis using assms by (auto intro: same)
next
  case False
  then obtain s0 :: "'z Session_scheme" and d0 where "on_connection (Send fuel d0) s0 cons = Some cons'"
    using assms(1) by (auto simp: send_message_def MsgBase_send_def Session_send_data_def split: option.splits if_splits)
  then show ?thesis using assms(2) by (rule on_connection_step) (rule sent)
qed

lemma transport_step_conn:
  assumes "transport_step fuel so ev t = Some t'" and "um_find (snd t') k = Some c'"
  shows "(\<exists>c. um_find (snd t) k = Some c \<and> conn_step fuel so c c')
    \<or> (k = fst t \<and> (\<exists>uuid ip. c' = con_start (setRemoteIp ip (ConnectionImpl_new uuid))))"
proof (cases t)
  case (Pair n cons)
  show ?thesis
  proof (cases ev)
    case (Accept uuid ip)
    then show ?thesis using assms Pair by (cases "k = n") (auto simp: container_simps same split: if_splits, blast+)
  next
    case (Receive k0 ok buf)
    then show ?thesis using assms Pair by (auto dest!: at_connection_step[where fuel = fuel and so = so] intro: read)
  next
    case (Written k0 ok)
    then show ?thesis using assms Pair
      by (auto simp: same written dest!: at_connection_step[where fuel = fuel and so = so])
  next
    case (SendData s d)
    then show ?thesis using assms Pair
      by (auto simp: Session_send_data_def dest!: on_connection_step[where fuel = fuel and so = so] intro: sent)
  next
    case (SendMessage s d)
    then show ?thesis using assms Pair by (auto dest!: send_message_step[where so = so])
  next
    case (Echo s d)
    then show ?thesis using assms Pair
      by (auto simp: EchoSession_onReceive_def Session_send_buf_def send_buf_total
          dest!: on_connection_step[where fuel = fuel and so = so] intro: same split: if_splits)
  next
    case (Close k0 now)
    then show ?thesis using assms Pair by (auto dest!: at_connection_step[where fuel = fuel and so = so] intro: closed)
  next
    case (Expire k0)
    then show ?thesis using assms Pair by (auto simp: container_simps same split: if_splits)
  qed
qed

lemma transport_step_next: "transport_step fuel so ev t = Some t' \<Longrightarrow> fst t \<le> fst t'"
  by (cases "(fuel, so, ev, t)" rule: transport_step.cases) auto

lemma transport_run_invariant:
  assumes "transport_run fuel so evs t = Some t'" and "I t"
    and "\<And>ev t t'. I t \<Longrightarrow> transport_step fuel so ev t = Some t' \<Longrightarrow> I t'"
  shows "I t'"
  using assms(1,2)
proof (induction evs arbitrary: t)
  case (Cons ev evs)
  then show ?case using assms(3) by (auto split: Option.bind_splits)
qed simp

lemma conn_step_quiet: "conn_step fuel so c c' \<Longrightarrow> quiet c \<Longrightarrow> quiet c'"
  by (erule conn_stepE)
    (auto simp: quiet_def OnAsyncRead_def OnError_def do_read_def con_close_def Let_def dest!: Send_cases)

lemma conn_step_isClose: "conn_step fuel so c c' \<Longrightarrow> isClose c \<Longrightarrow> isClose c'"
  by (erule conn_stepE)
    (auto simp: isClose_def OnAsyncRead_def OnAsyncWrite_def OnError_def do_read_def con_close_def Let_def
      dest: Send_keeps split: if_splits)

lemma new_quiet: "quiet (con_start (setRemoteIp ip (ConnectionImpl_new uuid)))"
  by (simp add: quiet_def con_start_def do_read_def setRemoteIp_def ConnectionImpl_new_def)

lemma step_quiet:
  assumes "every quiet (snd t)" and "transport_step fuel so ev t = Some t'"
  shows "every quiet (snd t')"
  unfolding every_def
proof (intro allI impI)
  fix k c' assume "um_find (snd t') k = Some c'"
  from transport_step_conn[OF assms(2) this] assms(1) show "quiet c'"
    by (auto simp: every_def new_quiet dest: conn_step_quiet)
qed

lemma step_ended:
  assumes "ended k t" and "transport_step fuel so ev t = Some t'"
  shows "ended k t'"
  using assms(1) transport_step_conn[OF assms(2), of k] transport_step_next[OF assms(2)] conn_step_isClose
  by (fastforce simp: ended_def)

lemma run_quiet:
  assumes "transport_run fuel so evs t = Some t'" and "every quiet (snd t)"
  shows "every quiet (snd t')"
  using assms by (rule transport_run_invariant[where I = "\<lambda>t. every quiet (snd t)"]) (rule step_quiet)

lemma run_ended:
  assumes "transport_run fuel so evs t = Some t'" and "ended k t"
  shows "ended k t'"
  using assms by (rule transport_run_invariant[where I = "ended k"]) (rule step_ended)

lemma conn_views_find: "um_find (conn_views cons) k = map_option conn_view (um_find cons k)"
  by (induction cons) (auto simp: conn_views_def)

lemma isAlive_views:
  "Session_isAlive (conn_views cons) s = (case um_find cons (se_connection s) of None \<Rightarrow> False | Some c \<Rightarrow> \<not> isClose c)"
  by (simp add: Session_isAlive_def conn_views_find conn_view_def split: option.split)

section \<open>Properties\<close>

text \<open>C40: As long as the calls return, the server never transmits anything: from a server without
  connections, whatever the sequence of accepted connections, received data, messages sent through
  sessions, echoes, closes and expired connections, no write is ever started on any connection.\<close>
theorem server_never_transmits:
  assumes "transport_run fuel so evs (n, []) = Some (n', cons')" and "um_find cons' k = Some c"
  shows "cn_started c = [] \<and> \<not> cn_sending c"
  using run_quiet[OF assms(1)] assms(2) by (auto simp: every_def quiet_def)

theorem server_never_transmits_witness:
  "case transport_run 5 demo_ops demo_traffic (0, []) of
     None \<Rightarrow> False
   | Some (n', cons') \<Rightarrow> (case um_find cons' 0 of None \<Rightarrow> False | Some c \<Rightarrow> cn_started c = [] \<and> cn_sendQueue c = [''hello'', ''pack''])"
proof -
  let ?c = "(con_start (setRemoteIp ''1.2.3.4'' (ConnectionImpl_new ''u'')) :: bool ConnectionImpl)\<lparr>cn_sendQueue := [''hello'', ''pack'']\<rparr>"
  have run: "transport_run 5 demo_ops demo_traffic (0, []) = Some (1, [(0, ?c)])"
    by (simp add: demo_traffic_def Session_send_data_def send_message_def MsgBase_send_def on_connection_def Session_new_def
        Send_def addSendNode_def BLOCK_SIZE_def con_start_def do_read_def setRemoteIp_def ConnectionImpl_new_def
        at_connection_def OnAsyncRead_def OnAsyncWrite_def um_insert_def)
  from server_never_transmits[OF run, of 0 ?c] show ?thesis by (simp add: run)
qed

text \<open>The echo session never answers: data received for a connection that exists and is not
  broken makes \<open>onReceive\<close> loop forever, however long it is given; in every other case it does
  nothing.\<close>
theorem echo_never_answers:
  "EchoSession_onReceive (\<lambda>buf. send_buf fuel (Some buf)) buf s cons =
     (case um_find cons (se_connection s) of
        None \<Rightarrow> Some cons
      | Some c \<Rightarrow> if cn_error c \<or> buf = [] then Some (um_put (se_connection s) c cons) else None)"
  by (simp add: EchoSession_onReceive_def Session_send_buf_def on_connection_def send_buf_total split: option.split)

text \<open>The end of a connection is final: once a connection is closed, broken or gone, no session on
  it is alive again, whatever happens afterwards.\<close>
theorem session_death_is_final:
  assumes "transport_run fuel so evs (n, cons) = Some (n', cons')" and "se_connection s < n"
    and "\<not> Session_isAlive (conn_views cons) s"
  shows "\<not> Session_isAlive (conn_views cons') s"
proof -
  have "ended (se_connection s) (n, cons)" using assms(2,3) by (auto simp: ended_def isAlive_views split: option.splits)
  with assms(1) have "ended (se_connection s) (n', cons')" by (rule run_ended)
  then show ?thesis by (auto simp: ended_def isAlive_views split: option.splits)
qed

theorem session_death_is_final_witness:
  "\<exists>cons'. transport_run 0 demo_ops [Accept ''v'' ''5.6.7.8''] (1, []) = Some (2, cons')
     \<and> \<not> Session_isAlive (conn_views cons') (Session_new 0 ''1.2.3.4'')"
  using session_death_is_final[of 0 demo_ops "[Accept ''v'' ''5.6.7.8'']" 1 "[]" 2 _ "Session_new 0 ''1.2.3.4''"]
  by (simp add: Session_new_def conn_views_def Session_isAlive_def)

end
