(* ===== verification/Rabbitmq.thy ===== *)
theory Rabbitmq
  imports Base_Utils
begin

text \<open>
  The RabbitMQ client, \<open>RabbitMQ/*.cpp\<close>: the classification of replies, the list of configuration
  items, the client that publishes and receives, the message handlers and the consumer that
  distributes messages to them, with the JSON messages of \<open>publishJson\<close> and their handler.

  The AMQP library and the broker behind it are the record \<open>amqp\<close>, a parameter over a broker state
  \<open>'q\<close>. A handler is a number; its state is kept by the consumer's model. What a handler accepts and
  does with a message are parameters. \<open>None\<close> is undefined behaviour: a null pointer or an invalid
  iterator that is used. Four methods of \<open>RabbitmqConfig\<close> pass arguments no constructor takes
  (\<open>exchangeDelete\<close>, \<open>queueDeclare\<close>, \<open>queueDelete\<close>, \<open>queueConsume\<close>) and are left out; the classes they mean are
  modelled. The text of log entries is not modelled.
\<close>

section \<open>Replies\<close>

datatype amqp_method = ConnectionBlocked | ConnectionClose | ChannelClose | BasicAck | BasicReturn | ChannelOpenOk
  | OtherMethod nat

datatype library_error = UnexpectedState | ConnectionClosed | SocketClosed | SocketError | OtherError int

datatype amqp_reply = ReplyNormal | ReplyNone | ReplyLibrary library_error | ReplyServer amqp_method

definition checkReplyError :: "amqp_reply \<Rightarrow> int" where
  "checkReplyError reply =
     (case reply of
        ReplyNormal \<Rightarrow> 0
      | ReplyNone \<Rightarrow> 3
      | ReplyLibrary _ \<Rightarrow> 3
      | ReplyServer cid \<Rightarrow>
          if cid = ConnectionBlocked then 1 else if cid = ChannelClose then 2 else 3)"

section \<open>Configuration\<close>

datatype ConfigItem =
    ExchangeDeclare string string bool bool bool
  | ExchangeBind string string string
  | ExchangeUnbind string string string
  | ExchangeDelete string bool
  | QueueDeclare string bool bool bool
  | QueueBind string string string
  | QueueUnbind string string string
  | QueueDelete string bool bool
  | QueueConsume string string bool bool bool

datatype amqp_rpc =
  \<comment> \<open>the calls of the AMQP library with their arguments in order; the first flag of a declaration is
      \<open>passive\<close>\<close>
    Amqp_exchange_declare string string bool bool bool bool
  | Amqp_exchange_bind string string string
  | Amqp_exchange_unbind string string string
  | Amqp_exchange_delete string bool
  | Amqp_queue_declare string bool bool bool bool
  | Amqp_queue_bind string string string
  | Amqp_queue_unbind string string string
  | Amqp_queue_delete string bool bool
  | Amqp_basic_consume string string bool bool bool

record RabbitmqConnection =
  co_ok :: bool
  co_state :: bool
  co_idAllocator :: int

record 'q amqp =
  am_rpc :: "amqp_rpc \<Rightarrow> int \<Rightarrow> 'q \<Rightarrow> amqp_reply \<times> 'q"
  am_open :: "int \<Rightarrow> 'q \<Rightarrow> amqp_reply \<times> 'q"
  am_close :: "int \<Rightarrow> 'q \<Rightarrow> amqp_reply \<times> 'q"
  am_publish :: "int \<Rightarrow> string \<Rightarrow> string \<Rightarrow> string \<Rightarrow> 'q \<Rightarrow> int \<times> 'q"
  am_reply :: "'q \<Rightarrow> amqp_reply"
  am_socket :: "'q \<Rightarrow> bool \<times> 'q"
  am_connect :: "'q \<Rightarrow> int \<times> 'q"
  am_login :: "'q \<Rightarrow> amqp_reply \<times> 'q"
  am_frame :: "'q \<Rightarrow> amqp_method option option \<times> 'q"
  am_read :: "'q \<Rightarrow> amqp_reply \<times> 'q"
  am_consume :: "'q \<Rightarrow> (amqp_reply \<times> string \<times> string) \<times> 'q"

definition exclusiveChannel :: "ConfigItem \<Rightarrow> bool" where
  "exclusiveChannel item = (case item of QueueConsume _ _ _ _ _ \<Rightarrow> True | _ \<Rightarrow> False)"

type_synonym 'q item_result =
  \<comment> \<open>the result, the connection and the channel afterwards\<close>
  "RabbitmqConnection option \<Rightarrow> int \<Rightarrow> 'q \<Rightarrow> bool \<times> RabbitmqConnection option \<times> int \<times> 'q"

definition config_call :: "'q amqp \<Rightarrow> amqp_rpc \<Rightarrow> 'q item_result" where
  \<comment> \<open>what every \<open>config\<close> has in common: the tests, a call on the channel and \<open>CHECK_REPLY_ERROR\<close>\<close>
  "config_call am rpc conn channel q =
     (case conn of
        None \<Rightarrow> (False, conn, channel, q)
      | Some c \<Rightarrow>
          if \<not> co_ok c \<or> channel = 0 \<or> \<not> co_state c then (False, conn, channel, q)
          else let (reply, q1) = am_rpc am rpc channel q; ret = checkReplyError reply
               in if ret = 0 then (True, conn, channel, q1)
                  else if ret = 1 then (False, Some (c\<lparr>co_ok := False\<rparr>), 0, q1)
                  else if ret = 2 then (False, conn, 0, q1)
                  else (False, conn, channel, q1))"

definition ExchangeDeclare_config ::
  "'q amqp \<Rightarrow> string \<Rightarrow> string \<Rightarrow> bool \<Rightarrow> bool \<Rightarrow> bool \<Rightarrow> 'q item_result" where
  "ExchangeDeclare_config am exchange type durable autoDelete internal = config_call am (Amqp_exchange_declare exchange type False durable autoDelete internal)"

definition ExchangeBind_config ::
  "'q amqp \<Rightarrow> string \<Rightarrow> string \<Rightarrow> string \<Rightarrow> 'q item_result" where
  "ExchangeBind_config am destination source routingKey = config_call am (Amqp_exchange_bind destination source routingKey)"

definition ExchangeUnbind_config ::
  "'q amqp \<Rightarrow> string \<Rightarrow> string \<Rightarrow> string \<Rightarrow> 'q item_result" where
  "ExchangeUnbind_config am destination source routingKey = config_call am (Amqp_exchange_unbind destination source routingKey)"

definition ExchangeDelete_config ::
  "'q amqp \<Rightarrow> string \<Rightarrow> bool \<Rightarrow> 'q item_result" where
  "ExchangeDelete_config am exchange isUnused = config_call am (Amqp_exchange_delete exchange isUnused)"

definition QueueDeclare_config ::
  "'q amqp \<Rightarrow> string \<Rightarrow> bool \<Rightarrow> bool \<Rightarrow> bool \<Rightarrow> 'q item_result" where
  "QueueDeclare_config am queue durable exclusive autoDelete = config_call am (Amqp_queue_declare queue False durable exclusive autoDelete)"

definition QueueBind_config ::
  "'q amqp \<Rightarrow> string \<Rightarrow> string \<Rightarrow> string \<Rightarrow> 'q item_result" where
  "QueueBind_config am queue exchange routingKey = config_call am (Amqp_queue_bind queue exchange routingKey)"

definition QueueUnbind_config ::
  "'q amqp \<Rightarrow> string \<Rightarrow> string \<Rightarrow> string \<Rightarrow> 'q item_result" where
  "QueueUnbind_config am queue exchange routingKey = config_call am (Amqp_queue_unbind queue exchange routingKey)"

definition QueueDelete_config ::
  "'q amqp \<Rightarrow> string \<Rightarrow> bool \<Rightarrow> bool \<Rightarrow> 'q item_result" where
  "QueueDelete_config am queue ifUnused ifEmpty = config_call am (Amqp_queue_delete queue ifUnused ifEmpty)"

definition QueueConsume_config ::
  "'q amqp \<Rightarrow> string \<Rightarrow> string \<Rightarrow> bool \<Rightarrow> bool \<Rightarrow> bool \<Rightarrow> 'q item_result" where
  "QueueConsume_config am queue tag noLocal noAck exclusive = config_call am (Amqp_basic_consume queue tag noLocal noAck exclusive)"

fun item_config :: "'q amqp \<Rightarrow> ConfigItem \<Rightarrow> 'q item_result" where
  \<comment> \<open>the virtual method \<open>ConfigItem::config\<close>\<close>
  "item_config am (ExchangeDeclare e t d a i) = ExchangeDeclare_config am e t d a i"
| "item_config am (ExchangeBind d s r) = ExchangeBind_config am d s r"
| "item_config am (ExchangeUnbind d s r) = ExchangeUnbind_config am d s r"
| "item_config am (ExchangeDelete e u) = ExchangeDelete_config am e u"
| "item_config am (QueueDeclare q d x a) = QueueDeclare_config am q d x a"
| "item_config am (QueueBind q e r) = QueueBind_config am q e r"
| "item_config am (QueueUnbind q e r) = QueueUnbind_config am q e r"
| "item_config am (QueueDelete q u e) = QueueDelete_config am q u e"
| "item_config am (QueueConsume q t l n x) = QueueConsume_config am q t l n x"

type_synonym config_list = "(ConfigItem \<times> bool) list"

definition mq_exchangeDeclare :: "string \<Rightarrow> string \<Rightarrow> bool \<Rightarrow> bool \<Rightarrow> bool \<Rightarrow> bool \<Rightarrow> config_list \<Rightarrow> config_list" where
  "mq_exchangeDeclare exchange type durable autoDelete internal redo items =
     items @ [(ExchangeDeclare exchange type durable autoDelete internal, redo)]"

definition mq_exchangeBind :: "string \<Rightarrow> string \<Rightarrow> string \<Rightarrow> bool \<Rightarrow> config_list \<Rightarrow> config_list" where
  "mq_exchangeBind destination source routingKey redo items = items @ [(ExchangeBind destination source routingKey, redo)]"

definition mq_exchangeUnbind :: "string \<Rightarrow> string \<Rightarrow> string \<Rightarrow> bool \<Rightarrow> config_list \<Rightarrow> config_list" where
  "mq_exchangeUnbind destination source routingKey redo items = items @ [(ExchangeBind destination source routingKey, redo)]"

definition mq_queueBind :: "string \<Rightarrow> string \<Rightarrow> string \<Rightarrow> bool \<Rightarrow> config_list \<Rightarrow> config_list" where
  "mq_queueBind queue exchange routingKey redo items = items @ [(ExchangeBind queue exchange routingKey, redo)]"

definition mq_queueUnbind :: "string \<Rightarrow> string \<Rightarrow> string \<Rightarrow> bool \<Rightarrow> config_list \<Rightarrow> config_list" where
  "mq_queueUnbind queue exchange routingKey redo items = items @ [(ExchangeBind queue exchange routingKey, redo)]"

fun config_loop ::
  "'q amqp \<Rightarrow> config_list \<Rightarrow> RabbitmqConnection option \<Rightarrow> int \<Rightarrow> int \<Rightarrow> bool \<Rightarrow> 'q
     \<Rightarrow> (bool \<times> RabbitmqConnection option \<times> 'q) option" where
  \<comment> \<open>the loop from the iterator on, with \<open>channel\<close>, \<open>sharedChannel\<close> and \<open>ret\<close>. The places that should open a
      channel are empty. An item that is not to be redone is erased and its iterator used again\<close>
  "config_loop am [] conn channel sharedChannel ret q = Some (ret, conn, q)"
| "config_loop am ((item, redo) # items) conn channel sharedChannel ret q =
     (let test = exclusiveChannel item;
          channel0 = (if test then channel else sharedChannel);
          (ok, conn1, channel1, q1) = item_config am item conn channel0 q;
          ret1 = (if ok then ret else False)
      in case conn1 of
           None \<Rightarrow> None
         | Some c \<Rightarrow>
             if \<not> co_ok c then Some (ret1, conn1, q1)
             else if redo
             then config_loop am items conn1 channel1 (if test then sharedChannel else channel1) ret1 q1
             else None)"

definition mq_config ::
  "'q amqp \<Rightarrow> config_list \<Rightarrow> RabbitmqConnection option \<Rightarrow> 'q \<Rightarrow> (bool \<times> RabbitmqConnection option \<times> 'q) option" where
  "mq_config am items conn q =
     (if items = [] then Some (False, conn, q) else config_loop am items conn 0 0 True q)"

section \<open>The client\<close>

record PublishItem =
  pi_exchange :: string
  pi_routingkey :: string
  pi_message :: string

record RabbitmqClient =
  mq_connection :: "RabbitmqConnection option"
  mq_configItems :: "config_list option"
  mq_stopFlag :: bool
  mq_publishId :: int
  mq_publishItem :: "PublishItem list"
  mq_thread :: bool

definition setPublishChannel :: "int \<Rightarrow> RabbitmqClient \<Rightarrow> RabbitmqClient" where
  "setPublishChannel cid cl = cl\<lparr>mq_publishId := cid\<rparr>"

definition getPublishChannel :: "RabbitmqClient \<Rightarrow> int" where
  "getPublishChannel cl = mq_publishId cl"

definition mq_onConnection :: "bool \<Rightarrow> RabbitmqClient \<Rightarrow> RabbitmqClient" where
  "mq_onConnection isOk cl =
     (if mq_stopFlag cl then cl else if \<not> isOk then setPublishChannel 0 cl else cl)"

definition mq_setOk :: "bool \<Rightarrow> RabbitmqClient \<Rightarrow> RabbitmqClient" where
  \<comment> \<open>\<open>RabbitmqConnectionImpl::setOk\<close> with the listener that \<open>Start\<close> installs\<close>
  "mq_setOk setting cl =
     mq_onConnection setting (cl\<lparr>mq_connection := map_option (\<lambda>c. c\<lparr>co_ok := setting\<rparr>) (mq_connection cl)\<rparr>)"

definition allocateId :: "RabbitmqConnection \<Rightarrow> int \<times> RabbitmqConnection" where
  "allocateId c = (co_idAllocator c + 1, c\<lparr>co_idAllocator := co_idAllocator c + 1\<rparr>)"

definition openChannel :: "'q amqp \<Rightarrow> RabbitmqClient \<Rightarrow> 'q \<Rightarrow> (int \<times> RabbitmqClient \<times> 'q) option" where
  "openChannel am cl q =
     (case mq_connection cl of
        None \<Rightarrow> None
      | Some c \<Rightarrow>
          if \<not> co_ok c then Some (0, cl, q)
          else let (cid, c1) = allocateId c; (reply, q1) = am_open am cid q
               in Some (if checkReplyError reply \<noteq> 0 then 0 else cid, cl\<lparr>mq_connection := Some c1\<rparr>, q1))"

definition closeChannel :: "'q amqp \<Rightarrow> int \<Rightarrow> 'q \<Rightarrow> 'q" where
  "closeChannel am cid q = snd (am_close am cid q)"

definition isConnectionOk :: "RabbitmqClient \<Rightarrow> bool" where
  "isConnectionOk cl = (case mq_connection cl of None \<Rightarrow> False | Some c \<Rightarrow> co_ok c)"

definition mq_publish :: "string \<Rightarrow> string \<Rightarrow> string \<Rightarrow> RabbitmqClient \<Rightarrow> (bool \<times> RabbitmqClient) option" where
  \<comment> \<open>\<open>_connection || !(_connection->isOk())\<close>: a connection refuses, and no connection is a null pointer\<close>
  "mq_publish exchange routingKey message cl =
     (case mq_connection cl of
        Some c \<Rightarrow> Some (False, cl)
      | None \<Rightarrow> None)"

definition enqueue_publish :: "string \<Rightarrow> string \<Rightarrow> string \<Rightarrow> RabbitmqClient \<Rightarrow> bool \<times> RabbitmqClient" where
  \<comment> \<open>the rest of \<open>publish\<close>, behind its first test\<close>
  "enqueue_publish exchange routingKey message cl =
     (if exchange = [] \<or> message = [] then (False, cl)
      else let q = mq_publishItem cl; q1 = (if length q > 2999 then drop (length q - 2999) q else q)
           in (True, cl\<lparr>mq_publishItem := q1 @ [\<lparr>pi_exchange = exchange, pi_routingkey = routingKey, pi_message = message\<rparr>]\<rparr>))"

definition json_text :: "(string \<Rightarrow> string \<Rightarrow> string) \<Rightarrow> (string \<Rightarrow> string) \<Rightarrow> string \<Rightarrow> string \<Rightarrow> string option" where
  \<comment> \<open>the message \<open>publishJson\<close> builds: \<open>print\<close> is \<open>toStyledString\<close> of the object with the members \<open>msgType\<close>
      and \<open>msgPack\<close>, \<open>enc\<close> the encoder of the cryptographic library\<close>
  "json_text print enc msgType json =
     (case encodeBase64 enc json of (False, _) \<Rightarrow> None | (True, base64) \<Rightarrow> Some (print msgType base64))"

definition mq_publishJson ::
  "(string \<Rightarrow> string \<Rightarrow> string) \<Rightarrow> (string \<Rightarrow> string) \<Rightarrow> string \<Rightarrow> string \<Rightarrow> string \<Rightarrow> string \<Rightarrow> RabbitmqClient
     \<Rightarrow> (bool \<times> RabbitmqClient) option" where
  "mq_publishJson print enc exchange routingKey msgType json cl =
     (case json_text print enc msgType json of
        None \<Rightarrow> Some (False, cl)
      | Some message \<Rightarrow> mq_publish exchange routingKey message cl)"

definition popPublishItem :: "RabbitmqClient \<Rightarrow> PublishItem option \<times> RabbitmqClient" where
  "popPublishItem cl =
     (case mq_publishItem cl of [] \<Rightarrow> (None, cl) | item # items \<Rightarrow> (Some item, cl\<lparr>mq_publishItem := items\<rparr>))"

definition checkPublish :: "'q amqp \<Rightarrow> RabbitmqClient \<Rightarrow> 'q \<Rightarrow> (int \<times> RabbitmqClient \<times> 'q) option" where
  "checkPublish am cl q =
     (let cid = getPublishChannel cl in
      if cid \<noteq> 0 then Some (cid, cl, q)
      else case openChannel am cl q of
             None \<Rightarrow> None
           | Some (id1, cl1, q1) \<Rightarrow> Some (id1, setPublishChannel id1 cl1, q1))"

fun publish_loop :: "'q amqp \<Rightarrow> int \<Rightarrow> PublishItem list \<Rightarrow> RabbitmqClient \<Rightarrow> 'q \<Rightarrow> bool \<times> RabbitmqClient \<times> 'q" where
  \<comment> \<open>the loop of \<open>publishInner\<close>; the list is the queue, from which each round pops\<close>
  "publish_loop am cid [] cl q = (False, cl\<lparr>mq_publishItem := []\<rparr>, q)"
| "publish_loop am cid (item # items) cl q =
     (let (ret, q1) = am_publish am cid (pi_exchange item) (pi_routingkey item) (pi_message item) q in
      if ret < 0
      then let e = checkReplyError (am_reply am q1)
           in if e = 1 then (True, mq_setOk False (cl\<lparr>mq_publishItem := items\<rparr>), q1)
              else if e = 2
              then (False, setPublishChannel 0 (cl\<lparr>mq_publishItem := items\<rparr>), closeChannel am cid q1)
              else publish_loop am cid items cl q1
      else publish_loop am cid items cl q1)"

definition publishInner :: "'q amqp \<Rightarrow> RabbitmqClient \<Rightarrow> 'q \<Rightarrow> (bool \<times> RabbitmqClient \<times> 'q) option" where
  "publishInner am cl q =
     (case checkPublish am cl q of
        None \<Rightarrow> None
      | Some (cid, cl1, q1) \<Rightarrow>
          if cid = 0 then Some (False, cl1, q1) else Some (publish_loop am cid (mq_publishItem cl1) cl1 q1))"

definition mq_checkConnection :: "'q amqp \<Rightarrow> RabbitmqClient \<Rightarrow> 'q \<Rightarrow> (bool \<times> RabbitmqClient \<times> 'q) option" where
  \<comment> \<open>after a successful login \<open>_impl\<close> is reset and then used\<close>
  "mq_checkConnection am cl q =
     (case mq_connection cl of
        None \<Rightarrow> None
      | Some c \<Rightarrow>
          if co_ok c then Some (True, cl, q)
          else let (socket, q1) = am_socket am q in
               if \<not> socket then Some (False, cl, q1)
               else let (status, q2) = am_connect am q1 in
                    if status \<noteq> 0 then Some (False, cl, q2)
                    else let (reply, q3) = am_login am q2 in
                         if checkReplyError reply \<noteq> 0 then Some (False, cl, q3) else None)"

definition mq_Start :: "'q amqp \<Rightarrow> config_list option \<Rightarrow> RabbitmqClient \<Rightarrow> 'q \<Rightarrow> (bool \<times> RabbitmqClient \<times> 'q) option" where
  "mq_Start am config cl q =
     (if mq_connection cl \<noteq> None then Some (False, cl, q)
      else let cl1 = cl\<lparr>mq_connection := Some \<lparr>co_ok = False, co_state = False, co_idAllocator = 1\<rparr>, mq_configItems := config\<rparr>
           in case mq_checkConnection am cl1 q of
                None \<Rightarrow> None
              | Some (ok, cl2, q1) \<Rightarrow>
                  if \<not> ok then Some (False, cl2\<lparr>mq_connection := None\<rparr>, q1)
                  else Some (True, cl2\<lparr>mq_thread := True\<rparr>, q1))"

definition mq_Stop :: "'q amqp \<Rightarrow> config_list option \<Rightarrow> RabbitmqClient \<Rightarrow> 'q \<Rightarrow> RabbitmqClient \<times> 'q" where
  "mq_Stop am config cl q =
     (case mq_connection cl of
        None \<Rightarrow> (cl, q)
      | Some c \<Rightarrow>
          let cl1 = cl\<lparr>mq_stopFlag := True, mq_thread := False\<rparr>; cid = getPublishChannel cl1;
              (cl2, q1) = (if co_ok c \<and> config \<noteq> None \<and> cid \<noteq> 0 then (setPublishChannel 0 cl1, closeChannel am cid q) else (cl1, q))
          in (cl2\<lparr>mq_connection := None\<rparr>, q1))"

definition consumeLibraryException :: "'q amqp \<Rightarrow> library_error \<Rightarrow> 'q \<Rightarrow> int \<times> 'q" where
  \<comment> \<open>\<open>am_frame\<close>: no frame, a frame that is not a method, or its method\<close>
  "consumeLibraryException am err q =
     (if err = UnexpectedState
      then case am_frame am q of
             (None, q1) \<Rightarrow> (0, q1)
           | (Some None, q1) \<Rightarrow> (0, q1)
           | (Some (Some BasicReturn), q1) \<Rightarrow> (0, snd (am_read am q1))
           | (Some (Some ChannelClose), q1) \<Rightarrow> (2, q1)
           | (Some (Some ConnectionClose), q1) \<Rightarrow> (1, q1)
           | (Some (Some _), q1) \<Rightarrow> (0, q1)
      else if err = ConnectionClosed
      then if err = SocketClosed \<or> err = SocketError then (1, q) else (0, q)
      else (0, q))"

definition consumeServerException :: "amqp_method \<Rightarrow> int" where
  "consumeServerException cid = (if cid = ConnectionClose then 1 else if cid = ChannelClose then 2 else 0)"

section \<open>Message handlers\<close>

record RabbitmqMesaageHandler =
  rh_tag :: string
  rh_msgQueue :: "string list"

definition handler_push :: "(string \<Rightarrow> bool) \<Rightarrow> string option \<Rightarrow> RabbitmqMesaageHandler \<Rightarrow> RabbitmqMesaageHandler" where
  "handler_push receive message h =
     (case message of
        None \<Rightarrow> h
      | Some m \<Rightarrow> if \<not> receive m then h else h\<lparr>rh_msgQueue := rh_msgQueue h @ [m]\<rparr>)"

definition base_receive :: "string \<Rightarrow> bool" where
  \<comment> \<open>\<open>RabbitmqMesaageHandler::receive\<close>\<close>
  "base_receive message = False"

fun handler_handle_loop :: "(string \<Rightarrow> 'w \<Rightarrow> 'w) \<Rightarrow> string list \<Rightarrow> 'w \<Rightarrow> 'w" where
  "handler_handle_loop handleImpl [] w = w"
| "handler_handle_loop handleImpl (m # ms) w = handler_handle_loop handleImpl ms (handleImpl m w)"

definition handler_handle :: "(string \<Rightarrow> 'w \<Rightarrow> 'w) \<Rightarrow> RabbitmqMesaageHandler \<Rightarrow> 'w \<Rightarrow> RabbitmqMesaageHandler \<times> 'w" where
  \<comment> \<open>for a \<open>handleImpl\<close> that returns\<close>
  "handler_handle handleImpl h w = (h\<lparr>rh_msgQueue := []\<rparr>, handler_handle_loop handleImpl (rh_msgQueue h) w)"

definition json_handleImpl ::
  "(string \<Rightarrow> string option \<times> string option) \<Rightarrow> (string \<Rightarrow> string option)
     \<Rightarrow> (string \<Rightarrow> string \<Rightarrow> 'w \<Rightarrow> 'w) \<Rightarrow> string \<Rightarrow> 'w \<Rightarrow> 'w option" where
  \<comment> \<open>\<open>RabbitmqMesaageJsonHandler::handleImpl\<close>: \<open>parse\<close> gives the strings \<open>msgType\<close> and \<open>msgPack\<close> of the JSON
      text; \<open>None\<close> when \<open>decodeBase64\<close> throws\<close>
  "json_handleImpl parse dec handleJson message w =
     (case parse message of
        (Some msgType, Some msgPack) \<Rightarrow>
          if msgType = [] \<and> msgPack = [] then Some w
          else (case decodeBase64 dec msgPack of
                  None \<Rightarrow> None
                | Some (ok, json) \<Rightarrow> if \<not> ok \<or> json = [] then Some w else Some (handleJson msgType json w))
      | _ \<Rightarrow> Some w)"

section \<open>The consumer\<close>

record RabbitmqConsumer =
  cs_StartFlag :: bool
  cs_timer :: bool
  cs_handlers :: "(string, nat list) umap"
  cs_handlerList :: "nat list"
  cs_changed :: bool
  cs_heap :: "(nat, RabbitmqMesaageHandler) umap"

definition consumer_Start :: "RabbitmqConsumer \<Rightarrow> RabbitmqConsumer" where
  \<comment> \<open>the timer that is added calls \<open>consumer_callback\<close>\<close>
  "consumer_Start cs = (if cs_StartFlag cs then cs else cs\<lparr>cs_StartFlag := True, cs_timer := True\<rparr>)"

definition hasHandler :: "nat option \<Rightarrow> RabbitmqConsumer \<Rightarrow> bool" where
  "hasHandler handler cs =
     (case Option.bind handler (um_find (cs_heap cs)) of
        None \<Rightarrow> False
      | Some h \<Rightarrow> (case um_find (cs_handlers cs) (rh_tag h) of None \<Rightarrow> False | Some s \<Rightarrow> the handler \<in> set s))"

definition register_handler :: "nat \<Rightarrow> string \<Rightarrow> RabbitmqConsumer \<Rightarrow> RabbitmqConsumer" where
  \<comment> \<open>\<open>addHandler\<close> behind its tests\<close>
  "register_handler i tag cs =
     cs\<lparr>cs_handlers := um_put tag (us_insert i (case um_find (cs_handlers cs) tag of None \<Rightarrow> [] | Some s \<Rightarrow> s)) (cs_handlers cs),
        cs_changed := True\<rparr>"

definition addHandler :: "nat option \<Rightarrow> RabbitmqConsumer \<Rightarrow> RabbitmqConsumer option" where
  \<comment> \<open>a handler is turned away, and without one the tag of a null pointer is read\<close>
  "addHandler handler cs = (if handler \<noteq> None then Some cs else None)"

definition removeHandler :: "nat option \<Rightarrow> RabbitmqConsumer \<Rightarrow> bool \<times> RabbitmqConsumer" where
  "removeHandler handler cs =
     (case Option.bind handler (um_find (cs_heap cs)) of
        None \<Rightarrow> (False, cs)
      | Some h \<Rightarrow>
          (case um_find (cs_handlers cs) (rh_tag h) of
             None \<Rightarrow> (False, cs)
           | Some s \<Rightarrow>
               let found = the handler \<in> set s; s1 = us_erase (the handler) s
               in (found, cs\<lparr>cs_changed := cs_changed cs \<or> found,
                     cs_handlers := (if s1 = [] then um_erase (rh_tag h) (cs_handlers cs) else um_put (rh_tag h) s1 (cs_handlers cs))\<rparr>)))"

definition getHandlers :: "string \<Rightarrow> RabbitmqConsumer \<Rightarrow> nat list" where
  "getHandlers tag cs = (case um_find (cs_handlers cs) tag of None \<Rightarrow> [] | Some s \<Rightarrow> s)"

fun push_all :: "(nat \<Rightarrow> string \<Rightarrow> bool) \<Rightarrow> string \<Rightarrow> nat list \<Rightarrow> (nat, RabbitmqMesaageHandler) umap \<Rightarrow> (nat, RabbitmqMesaageHandler) umap" where
  "push_all receive message [] heap = heap"
| "push_all receive message (i # is) heap =
     push_all receive message is
       (case um_find heap i of None \<Rightarrow> heap | Some h \<Rightarrow> um_put i (handler_push (receive i) (Some message) h) heap)"

definition consume :: "(nat \<Rightarrow> string \<Rightarrow> bool) \<Rightarrow> string \<Rightarrow> string \<Rightarrow> RabbitmqConsumer \<Rightarrow> RabbitmqConsumer" where
  "consume receive message tag cs =
     (let handlers = getHandlers tag cs in
      if handlers = [] then cs else cs\<lparr>cs_heap := push_all receive message handlers (cs_heap cs)\<rparr>)"

definition SyncHandlerList :: "RabbitmqConsumer \<Rightarrow> RabbitmqConsumer" where
  "SyncHandlerList cs = cs\<lparr>cs_handlerList := concat (map snd (cs_handlers cs)), cs_changed := True\<rparr>"

fun handle_all ::
  "(nat \<Rightarrow> string \<Rightarrow> 'w \<Rightarrow> 'w) \<Rightarrow> nat list \<Rightarrow> (nat, RabbitmqMesaageHandler) umap \<times> 'w \<Rightarrow> (nat, RabbitmqMesaageHandler) umap \<times> 'w" where
  "handle_all impl [] s = s"
| "handle_all impl (i # is) (heap, w) =
     (case um_find heap i of
        None \<Rightarrow> handle_all impl is (heap, w)
      | Some h \<Rightarrow> let (h1, w1) = handler_handle (impl i) h w in handle_all impl is (um_put i h1 heap, w1))"

definition consumer_OnTimer ::
  "(nat \<Rightarrow> string \<Rightarrow> 'w \<Rightarrow> 'w) \<Rightarrow> RabbitmqConsumer \<Rightarrow> 'w \<Rightarrow> bool \<times> RabbitmqConsumer \<times> 'w" where
  "consumer_OnTimer impl cs w =
     (let cs1 = (if cs_changed cs then SyncHandlerList cs else cs) in
      if cs_handlerList cs1 = [] then (False, cs1, w)
      else let (heap, w1) = handle_all impl (cs_handlerList cs1) (cs_heap cs1, w) in (False, cs1\<lparr>cs_heap := heap\<rparr>, w1))"

definition consumer_callback ::
  "(nat \<Rightarrow> string \<Rightarrow> 'w \<Rightarrow> 'w) \<Rightarrow> RabbitmqConsumer \<Rightarrow> 'w \<Rightarrow> bool \<times> RabbitmqConsumer \<times> 'w" where
  \<comment> \<open>the timer returns while the consumer lives, and calls \<open>OnTimer\<close> once it is gone\<close>
  "consumer_callback impl cs w = (if cs_timer cs then (True, cs, w) else consumer_OnTimer impl cs w)"

definition threadFunc_round ::
  "'q amqp \<Rightarrow> (nat \<Rightarrow> string \<Rightarrow> bool) \<Rightarrow> RabbitmqClient \<Rightarrow> RabbitmqConsumer \<Rightarrow> 'q \<Rightarrow> RabbitmqClient \<times> RabbitmqConsumer \<times> 'q" where
  \<comment> \<open>one round of the loop of \<open>threadFunc\<close>; \<open>am_consume\<close> gives the reply, the message and the consumer tag\<close>
  "threadFunc_round am receive cl cs q =
     (let ((reply, message, tag), q1) = am_consume am q in
      case reply of
        ReplyNormal \<Rightarrow> (cl, consume receive message tag cs, q1)
      | ReplyLibrary err \<Rightarrow>
          let (ret, q2) = consumeLibraryException am err q1 in ((if ret = 1 then mq_setOk False cl else cl), cs, q2)
      | ReplyServer cid \<Rightarrow> ((if consumeServerException cid \<noteq> 0 then mq_setOk False cl else cl), cs, q1)
      | ReplyNone \<Rightarrow> (cl, cs, q1))"

section \<open>Vocabulary of the properties\<close>

type_synonym 'q mq_system = "RabbitmqClient \<times> RabbitmqConsumer \<times> 'q"

inductive mq_step :: "'q amqp \<Rightarrow> 'q mq_system \<Rightarrow> 'q mq_system \<Rightarrow> bool" for am where
  start: "mq_Start am cfg cl q = Some (r, cl', q') \<Longrightarrow> mq_step am (cl, cs, q) (cl', cs, q')"
| stop: "mq_Stop am cfg cl q = (cl', q') \<Longrightarrow> mq_step am (cl, cs, q) (cl', cs, q')"
| publish: "mq_publish ex rk m cl = Some (r, cl') \<Longrightarrow> mq_step am (cl, cs, q) (cl', cs, q)"
| inner: "publishInner am cl q = Some (r, cl', q') \<Longrightarrow> mq_step am (cl, cs, q) (cl', cs, q')"
| round: "threadFunc_round am recv cl cs q = (cl', cs', q') \<Longrightarrow> mq_step am (cl, cs, q) (cl', cs', q')"
| consumer: "mq_step am (cl, cs, q) (cl, consumer_Start cs, q)"
| add: "addHandler h cs = Some cs' \<Longrightarrow> mq_step am (cl, cs, q) (cl, cs', q)"
| remove: "removeHandler h cs = (r, cs') \<Longrightarrow> mq_step am (cl, cs, q) (cl, cs', q)"
| tick: "consumer_callback impl cs q = (r, cs', q') \<Longrightarrow> mq_step am (cl, cs, q) (cl, cs', q')"
| broker: "mq_step am (cl, cs, q) (cl, cs, q')"

definition mq_new :: "'q \<Rightarrow> 'q mq_system" where
  "mq_new q =
     (\<lparr>mq_connection = None, mq_configItems = None, mq_stopFlag = False, mq_publishId = 0, mq_publishItem = [], mq_thread = False\<rparr>,
      \<lparr>cs_StartFlag = False, cs_timer = False, cs_handlers = [], cs_handlerList = [], cs_changed = False, cs_heap = []\<rparr>, q)"

definition publish_one :: "'q amqp \<Rightarrow> int \<Rightarrow> PublishItem \<Rightarrow> 'q \<Rightarrow> 'q" where
  "publish_one am cid item q = snd (am_publish am cid (pi_exchange item) (pi_routingkey item) (pi_message item) q)"

definition demo_amqp :: "string list amqp" where
  \<comment> \<open>a broker that accepts everything and records the messages published\<close>
  "demo_amqp = \<lparr>am_rpc = (\<lambda>i c q. (ReplyNormal, q)), am_open = (\<lambda>c q. (ReplyNormal, q)), am_close = (\<lambda>c q. (ReplyNormal, q)),
     am_publish = (\<lambda>c e r m q. (0, q @ [m])), am_reply = (\<lambda>q. ReplyNormal), am_socket = (\<lambda>q. (False, q)), am_connect = (\<lambda>q. (0, q)),
     am_login = (\<lambda>q. (ReplyNormal, q)), am_frame = (\<lambda>q. (None, q)), am_read = (\<lambda>q. (ReplyNormal, q)),
     am_consume = (\<lambda>q. ((ReplyNone, [], []), q))\<rparr>"

definition demo_print :: "string \<Rightarrow> string \<Rightarrow> string" where
  \<comment> \<open>a printer of two strings, the first preceded by its length in unary, and its parser\<close>
  "demo_print t b = replicate (length t) CHR ''1'' @ CHR ''0'' # t @ b"

definition demo_parse :: "string \<Rightarrow> string option \<times> string option" where
  "demo_parse m =
     (let n = length (takeWhile (\<lambda>c. c = CHR ''1'') m) in (Some (take n (drop (Suc n) m)), Some (drop n (drop (Suc n) m))))"

definition demo_client :: RabbitmqClient where
  "demo_client = \<lparr>mq_connection = Some \<lparr>co_ok = True, co_state = True, co_idAllocator = 1\<rparr>, mq_configItems = None, mq_stopFlag = False,
     mq_publishId = 0, mq_publishItem = [\<lparr>pi_exchange = ''e'', pi_routingkey = ''k'', pi_message = ''a''\<rparr>,
       \<lparr>pi_exchange = ''e'', pi_routingkey = ''k'', pi_message = ''b''\<rparr>], mq_thread = True\<rparr>"

definition demo_consumer :: RabbitmqConsumer where
  "demo_consumer = \<lparr>cs_StartFlag = True, cs_timer = True, cs_handlers = [(''t'', [1, 2])], cs_handlerList = [], cs_changed = False,
     cs_heap = [(1, \<lparr>rh_tag = ''t'', rh_msgQueue = [''x'']\<rparr>), (2, \<lparr>rh_tag = ''t'', rh_msgQueue = []\<rparr>)]\<rparr>"

section \<open>Nothing is published or delivered\<close>

lemma Start_queue: "mq_Start am cfg cl q = Some (r, cl', q') \<Longrightarrow> mq_publishItem cl' = mq_publishItem cl"
  by (auto simp: mq_Start_def mq_checkConnection_def Let_def split: if_splits option.splits prod.splits)

lemma Stop_queue: "mq_Stop am cfg cl q = (cl', q') \<Longrightarrow> mq_publishItem cl' = mq_publishItem cl"
  by (auto simp: mq_Stop_def setPublishChannel_def Let_def split: if_splits option.splits)

lemma setOk_queue [simp]: "mq_publishItem (mq_setOk b cl) = mq_publishItem cl"
  by (simp add: mq_setOk_def mq_onConnection_def setPublishChannel_def)

lemma checkPublish_queue: "checkPublish am cl q = Some (cid, cl', q') \<Longrightarrow> mq_publishItem cl' = mq_publishItem cl"
  by (auto simp: checkPublish_def openChannel_def setPublishChannel_def Let_def split: if_splits option.splits prod.splits)

lemma round_queue: "threadFunc_round am recv cl cs q = (cl', cs', q') \<Longrightarrow>
    mq_publishItem cl' = mq_publishItem cl \<and> cs_handlers cs' = cs_handlers cs"
  by (auto simp: threadFunc_round_def consume_def Let_def split: amqp_reply.splits prod.splits if_splits)

lemma callback_handlers: "consumer_callback impl cs w = (r, cs', w') \<Longrightarrow> cs_handlers cs' = cs_handlers cs"
  by (auto simp: consumer_callback_def consumer_OnTimer_def SyncHandlerList_def Let_def split: prod.splits if_splits)

lemma mq_step_mute:
  assumes "mq_step am s s'" and "mq_publishItem (fst s) = []" and "cs_handlers (fst (snd s)) = []"
  shows "mq_publishItem (fst s') = [] \<and> cs_handlers (fst (snd s')) = []"
  using assms
proof (induction rule: mq_step.induct)
  case (inner cl q r cl' q' cs)
  then show ?case using checkPublish_queue[of am cl q] by (auto simp: publishInner_def split: option.splits if_splits)
next
  case (remove h cs r cs' cl q)
  then show ?case by (auto simp: removeHandler_def split: option.splits)
qed (auto simp: mq_publish_def addHandler_def consumer_Start_def split: option.splits if_splits
      dest!: Start_queue Stop_queue round_queue callback_handlers)

text \<open>C38: Whatever the server does with its RabbitMQ client and consumer from the start on, and
  whatever the broker does, no message is ever queued for publication and no handler is ever
  registered: a published message is refused or ends in undefined behaviour, and a message
  that arrives is dropped.\<close>
theorem rabbitmq_mute:
  assumes "(mq_step am)\<^sup>*\<^sup>* (mq_new q0) (cl, cs, q)"
  shows "mq_publishItem cl = [] \<and> cs_handlers cs = []
    \<and> mq_publish ex rk m cl \<in> {None, Some (False, cl)} \<and> consume recv m tag cs = cs"
proof -
  have "mq_publishItem (fst s) = [] \<and> cs_handlers (fst (snd s)) = []" if "(mq_step am)\<^sup>*\<^sup>* (mq_new q0) s" for s
    using that
  proof (induction rule: rtranclp_induct)
    case base
    then show ?case by (simp add: mq_new_def)
  next
    case (step s s')
    then show ?case using mq_step_mute by blast
  qed
  from this[OF assms] show ?thesis
    by (auto simp: mq_publish_def consume_def getHandlers_def split: option.splits)
qed

theorem rabbitmq_mute_witness:
  "(mq_step demo_amqp)\<^sup>*\<^sup>* (mq_new []) (mq_new [''in'']) \<and> consume (\<lambda>_ _. True) ''m'' ''t'' (fst (snd (mq_new [''in'']))) = fst (snd (mq_new [''in'']))"
proof -
  have r: "(mq_step demo_amqp)\<^sup>*\<^sup>* (mq_new []) (mq_new [''in''])"
    unfolding mq_new_def by (rule r_into_rtranclp) (rule mq_step.broker)
  obtain cl cs where n: "mq_new [''in''] = (cl, cs, [''in''])" by (simp add: mq_new_def)
  with rabbitmq_mute[OF r[unfolded n]] r show ?thesis by simp
qed

section \<open>The queue of messages to publish\<close>

text \<open>The queue behind the test of \<open>publish\<close> is bounded: it never holds more than 3000 messages; the new
  message comes last, and of the old ones the oldest are dropped, only as many as needed.\<close>
theorem publish_queue_bounded:
  assumes "enqueue_publish ex rk m cl = (True, cl')" and "length (mq_publishItem cl) \<le> 3000"
  shows "length (mq_publishItem cl') \<le> 3000
    \<and> (\<exists>n. mq_publishItem cl' = drop n (mq_publishItem cl) @ [\<lparr>pi_exchange = ex, pi_routingkey = rk, pi_message = m\<rparr>]
         \<and> (0 < n \<longrightarrow> length (mq_publishItem cl') = 3000))"
  using assms by (auto simp: enqueue_publish_def Let_def split: if_splits intro: exI[of _ "0::nat"])

theorem publish_queue_bounded_witness:
  "\<exists>cl'. enqueue_publish ''e'' ''k'' ''c'' (demo_client\<lparr>mq_publishItem := replicate 3000 \<lparr>pi_exchange = ''e'', pi_routingkey = ''k'', pi_message = ''a''\<rparr>\<rparr>)
       = (True, cl') \<and> length (mq_publishItem cl') \<le> 3000"
proof -
  let ?cl = "demo_client\<lparr>mq_publishItem := replicate 3000 \<lparr>pi_exchange = ''e'', pi_routingkey = ''k'', pi_message = ''a''\<rparr>\<rparr>"
  have "fst (enqueue_publish ''e'' ''k'' ''c'' ?cl)" by (simp add: enqueue_publish_def Let_def)
  then obtain cl' where e: "enqueue_publish ''e'' ''k'' ''c'' ?cl = (True, cl')" by (cases "enqueue_publish ''e'' ''k'' ''c'' ?cl") auto
  from publish_queue_bounded[OF e] show ?thesis using e by simp
qed

lemma publish_loop_all:
  assumes "\<forall>e r m q. 0 \<le> fst (am_publish am cid e r m q)"
  shows "publish_loop am cid items cl q = (False, cl\<lparr>mq_publishItem := []\<rparr>, fold (publish_one am cid) items q)"
proof (induction items arbitrary: q)
  case (Cons item items)
  obtain ret q1 where p: "am_publish am cid (pi_exchange item) (pi_routingkey item) (pi_message item) q = (ret, q1)" by fastforce
  have "0 \<le> ret" using assms p by (metis fst_conv)
  then show ?case using Cons p by (simp add: publish_one_def)
qed simp

text \<open>When the broker accepts them, \<open>publishInner\<close> hands all queued messages to the broker in the
  order of the queue, each once, over one channel, and leaves the queue empty.\<close>
theorem publishInner_in_order:
  assumes "\<forall>c e r m q. 0 \<le> fst (am_publish am c e r m q)" and "checkPublish am cl q = Some (cid, cl1, q1)" and "cid \<noteq> 0"
  shows "publishInner am cl q = Some (False, cl1\<lparr>mq_publishItem := []\<rparr>, fold (publish_one am cid) (mq_publishItem cl) q1)"
  using assms checkPublish_queue[OF assms(2)] publish_loop_all[of am cid] by (simp add: publishInner_def)

theorem publishInner_in_order_witness:
  "\<exists>cl'. publishInner demo_amqp demo_client [] = Some (False, cl', [''a'', ''b''])"
proof -
  have a: "\<forall>c e r m q. 0 \<le> fst (am_publish demo_amqp c e r m q)" by (simp add: demo_amqp_def)
  obtain cl1 where c: "checkPublish demo_amqp demo_client [] = Some (2, cl1, [])"
    by (simp add: checkPublish_def openChannel_def demo_amqp_def demo_client_def getPublishChannel_def setPublishChannel_def
        allocateId_def checkReplyError_def Let_def)
  from publishInner_in_order[OF a c] show ?thesis by (simp add: publish_one_def demo_amqp_def demo_client_def)
qed

section \<open>Configuration and delivery\<close>

lemmas config_defs = ExchangeDeclare_config_def ExchangeBind_config_def ExchangeUnbind_config_def ExchangeDelete_config_def
  QueueDeclare_config_def QueueBind_config_def QueueUnbind_config_def QueueDelete_config_def QueueConsume_config_def

lemma item_config_call: "\<exists>rpc. item_config am item = config_call am rpc"
  by (cases item) (auto simp: config_defs)

lemma item_config_no_channel: "item_config am item conn 0 q = (False, conn, 0, q)"
  using item_config_call[of am item] by (auto simp: config_call_def split: option.split)

text \<open>Configuring a connection does nothing: no channel is ever opened for the items, so each is
  skipped, nothing reaches the broker and the result is failure.\<close>
theorem config_does_nothing:
  assumes "\<forall>(item, redo) \<in> set items. redo" and "co_ok c"
  shows "mq_config am items (Some c) q = Some (False, Some c, q)"
proof -
  have "config_loop am items (Some c) 0 0 ret q = Some (ret \<and> items = [], Some c, q)" for ret
    using assms by (induction items arbitrary: ret) (auto simp: item_config_no_channel)
  then show ?thesis by (simp add: mq_config_def)
qed

theorem config_does_nothing_witness:
  "mq_config demo_amqp (mq_queueBind ''q'' ''e'' ''k'' True []) (Some \<lparr>co_ok = True, co_state = True, co_idAllocator = 1\<rparr>) []
     = Some (False, Some \<lparr>co_ok = True, co_state = True, co_idAllocator = 1\<rparr>, [])"
  by (rule config_does_nothing) (simp_all add: mq_queueBind_def)

lemma push_all_find:
  assumes "distinct is"
  shows "um_find (push_all recv m is heap) j =
    (if j \<in> set is then map_option (handler_push (recv j) (Some m)) (um_find heap j) else um_find heap j)"
  using assms by (induction recv m "is" heap rule: push_all.induct) (auto simp: container_simps split: option.splits)

text \<open>Were handlers registered, delivery would be right: a message goes to the end of the queue of
  exactly those handlers registered for its tag that accept it, once each.\<close>
theorem consume_delivers:
  assumes "distinct (getHandlers tag cs)"
  shows "um_find (cs_heap (consume recv m tag cs)) j =
    map_option (\<lambda>h. if j \<in> set (getHandlers tag cs) \<and> recv j m then h\<lparr>rh_msgQueue := rh_msgQueue h @ [m]\<rparr> else h)
      (um_find (cs_heap cs) j)"
  using push_all_find[OF assms, of recv m "cs_heap cs" j]
  by (cases "um_find (cs_heap cs) j") (auto simp: consume_def handler_push_def Let_def)

theorem consume_delivers_witness:
  "um_find (cs_heap (consume (\<lambda>i m. i = 1) ''m'' ''t'' demo_consumer)) 1 = Some \<lparr>rh_tag = ''t'', rh_msgQueue = [''x'', ''m'']\<rparr>"
  using consume_delivers[of "''t''" demo_consumer "\<lambda>i m. i = 1" "''m''" 1] by (simp add: demo_consumer_def getHandlers_def)

section \<open>Messages as JSON\<close>

lemma demo_parse_print: "demo_parse (demo_print t b) = (Some t, Some b)"
  by (simp add: demo_parse_def demo_print_def takeWhile_append)

lemma demo_text:
  "json_text demo_print (\<lambda>s. replicate ((length s + 2) div 3 * 4) CHR ''A'') ''t'' ''abc'' = Some (demo_print ''t'' ''AAAA'')"
proof -
  have "replicate 4 CHR ''A'' = ''AAAA''" by code_simp
  then show ?thesis by (simp add: json_text_def encodeBase64_def)
qed



end
