(* ===== verification/Server_Jobs.thy ===== *)
theory Server_Jobs
  imports Venue_Manager Rabbitmq Thread_Worker
begin

text \<open>
  The start of the managers and their periodic jobs: \<open>PlayerManager::init\<close>, \<open>VenueManager::init\<close> with
  the handler of the commands that arrive over RabbitMQ, \<open>VenueInnerHandler::initialize\<close>, and the
  jobs they add to the timers, composed with the passes of the timer thread of \<open>Timers\<close>.

  A timer keeps a weak pointer to the \<open>_timer\<close> object of its manager, which is a number here: the job
  is alive while the manager still has the object of that number. The world of the callbacks is an
  option; \<open>None\<close> is a callback that waits forever. Times of timers are milliseconds, the clock of the
  player manager gives seconds.
\<close>

section \<open>Managers\<close>

datatype manager_job = PlayerJob nat | VenueJob nat

record ('g, 'd, 'r) job_state =
  js_server :: "('g, 'd, 'r) game_server"
  js_playerTimer :: "nat option"
  js_venueTimer :: "nat option"
  js_timers :: "manager_job AsyncTimer list"
  js_consumer :: RabbitmqConsumer

definition PlayerManager_init :: "int \<Rightarrow> nat \<Rightarrow> ('g, 'd, 'r) job_state \<Rightarrow> ('g, 'd, 'r) job_state" where
  \<comment> \<open>the time, and the number of the new \<open>_timer\<close>\<close>
  "PlayerManager_init clock n js =
     js\<lparr>js_playerTimer := Some n, js_timers := addAsyncTimer (5000, PlayerJob n, clock) (js_timers js)\<rparr>"

fun text_find :: "string \<Rightarrow> string \<Rightarrow> bool" where
  \<comment> \<open>\<open>text.find(pattern) != npos\<close>\<close>
  "text_find pattern [] = (pattern = [])"
| "text_find pattern (c # text) = (take (length pattern) (c # text) = pattern \<or> text_find pattern text)"

definition LeaveVenueHandler_receive :: "string \<Rightarrow> bool" where
  "LeaveVenueHandler_receive message = text_find ''MsgLeaveVenue'' message"

definition LeaveVenueHandler_handleImpl ::
  "(string \<Rightarrow> json_object) \<Rightarrow> string \<Rightarrow> string \<Rightarrow> ('g, 'd, 'r) game_server \<Rightarrow> ('g, 'd, 'r) game_server" where
  \<comment> \<open>\<open>json\<close> reads the text as an object\<close>
  "LeaveVenueHandler_handleImpl json msgType txt gs = vm_handleMessage msgType (json txt) gs"

definition LeaveVenueHandler_message ::
  "(string \<Rightarrow> string option \<times> string option) \<Rightarrow> (string \<Rightarrow> string option) \<Rightarrow> (string \<Rightarrow> json_object) \<Rightarrow> string
     \<Rightarrow> ('g, 'd, 'r) game_server \<Rightarrow> ('g, 'd, 'r) game_server option" where
  \<comment> \<open>what the handler does with a message it takes from its queue\<close>
  "LeaveVenueHandler_message parse dec json message gs =
     json_handleImpl parse dec (LeaveVenueHandler_handleImpl json) message gs"

definition leave_impl ::
  "(string \<Rightarrow> string option \<times> string option) \<Rightarrow> (string \<Rightarrow> string option) \<Rightarrow> (string \<Rightarrow> json_object)
     \<Rightarrow> nat \<Rightarrow> string \<Rightarrow> ('g, 'd, 'r) game_server option \<Rightarrow> ('g, 'd, 'r) game_server option" where
  \<comment> \<open>the handler as the consumer runs it, on a world that is \<open>None\<close> once it has thrown\<close>
  "leave_impl parse dec json i message w = Option.bind w (LeaveVenueHandler_message parse dec json message)"

definition leave_receive :: "nat \<Rightarrow> string \<Rightarrow> bool" where
  "leave_receive i = LeaveVenueHandler_receive"

definition VenueManager_init ::
  "int \<Rightarrow> nat \<Rightarrow> nat \<Rightarrow> ('g, 'd) VenueLoader \<Rightarrow> string \<Rightarrow> string \<Rightarrow> string \<Rightarrow> ('g, 'd, 'r) job_state \<Rightarrow> ('g, 'd, 'r) job_state option" where
  \<comment> \<open>the time, the numbers of the new \<open>_timer\<close> and of the new handler, and the loader of \<open>GameDumb\<close>\<close>
  "VenueManager_init clock n h dumbLoader serverId directExchange consumerTag js =
     (let gs = js_server js;
          vm = registLoader 1 dumbLoader ((gs_vm gs)\<lparr>vm_serverId := serverId, vm_directExchange := directExchange\<rparr>);
          cs = (js_consumer js)\<lparr>cs_heap := um_put h \<lparr>rh_tag = consumerTag, rh_msgQueue = []\<rparr> (cs_heap (js_consumer js))\<rparr>
      in case addHandler (Some h) cs of
           None \<Rightarrow> None
         | Some cs1 \<Rightarrow>
             Some (js\<lparr>js_server := gs\<lparr>gs_vm := vm\<rparr>, js_consumer := cs1, js_venueTimer := Some n,
                      js_timers := addAsyncTimer (2000, VenueJob n, clock) (js_timers js)\<rparr>))"

definition PlayerManager_onTimer :: "int \<Rightarrow> ('g, 'd, 'r) game_server \<Rightarrow> bool \<times> ('g, 'd, 'r) game_server" where
  "PlayerManager_onTimer nowTime gs =
     (False, gs\<lparr>sv_ctx := (sv_ctx gs)\<lparr>cx_pm := freeDormantPlayers (cx_sessions (sv_ctx gs)) nowTime (cx_pm (sv_ctx gs))\<rparr>\<rparr>)"

definition job_call :: "('d, 'r) env \<Rightarrow> int \<Rightarrow> (manager_job, ('g, 'd, 'r) job_state option) timer_call" where
  \<comment> \<open>the callbacks of both timers\<close>
  "job_call e now job w =
     (case w of
        None \<Rightarrow> (None, [], None)
      | Some js \<Rightarrow>
          (case job of
             PlayerJob n \<Rightarrow>
               if js_playerTimer js \<noteq> Some n then (Some True, [], w)
               else let (ret, gs) = PlayerManager_onTimer now (js_server js) in (Some ret, [], Some (js\<lparr>js_server := gs\<rparr>))
           | VenueJob n \<Rightarrow>
               if js_venueTimer js \<noteq> Some n then (Some True, [], w)
               else (case vm_onTimer e now (js_server js) of
                       None \<Rightarrow> (None, [], None)
                     | Some gs \<Rightarrow> (Some False, [], Some (js\<lparr>js_server := gs\<rparr>)))))"

definition VenueInnerHandler_initialize :: "int \<Rightarrow> nat \<Rightarrow> 'h \<Rightarrow> 'h ThreadWorker option \<Rightarrow> 'h ThreadWorker option" where
  \<comment> \<open>the time, the calling thread, the callback that runs \<open>onTimer\<close>, and the handler's worker if it has one\<close>
  "VenueInnerHandler_initialize clock caller onTimer worker =
     (case worker of None \<Rightarrow> None | Some w \<Rightarrow> Some (snd (addSyncTimer clock caller 30 onTimer w)))"

section \<open>Passes of the timer thread\<close>

definition logged :: "('h, 'w) timer_call \<Rightarrow> int \<Rightarrow> ('h, ('h \<times> int) list \<times> 'w) timer_call" where
  \<comment> \<open>the callbacks, with a record of what ran when\<close>
  "logged call now h = (\<lambda>(runs, w). let (ret, added, w') = call h w in (ret, added, (runs @ [(h, now)], w')))"

fun passes ::
  "nat \<Rightarrow> ('w \<Rightarrow> bool) \<Rightarrow> (int \<Rightarrow> ('h, 'w) timer_call) \<Rightarrow> int list \<Rightarrow> 'h AsyncTimer list \<Rightarrow> ('h \<times> int) list \<times> 'w
     \<Rightarrow> ('h AsyncTimer list \<times> ('h \<times> int) list \<times> 'w) option" where
  \<comment> \<open>passes at the given times\<close>
  "passes fuel stopped call [] l w = Some (l, w)"
| "passes fuel stopped call (now # nows) l w =
     (case oneLoopEx_timers fuel (\<lambda>(_, w). stopped w) (logged (call now) now) now l w of
        None \<Rightarrow> None
      | Some (l', w') \<Rightarrow> passes fuel stopped call nows l' w')"

section \<open>Vocabulary of the properties\<close>

definition keeps :: "('w \<Rightarrow> bool) \<Rightarrow> 'h set \<Rightarrow> ('h, 'w) timer_call \<Rightarrow> bool" where
  \<comment> \<open>in the worlds \<open>I\<close>, no callback of \<open>H\<close> gives its timer up, adds one or leaves these worlds\<close>
  "keeps I H call \<longleftrightarrow>
     (\<forall>h \<in> H. \<forall>w. I w \<longrightarrow> fst (call h w) \<noteq> Some True \<and> fst (snd (call h w)) = [] \<and> I (snd (snd (call h w))))"

definition kind_of :: "'h AsyncTimer \<Rightarrow> 'h \<times> int" where
  "kind_of t = (at_handler t, at_interval t)"

definition turns :: "('h \<times> int) list \<Rightarrow> 'h AsyncTimer list \<Rightarrow> ('h \<times> int) list \<Rightarrow> bool" where
  \<comment> \<open>the invariant: the list is the original one rotated by the number of runs; a timer that has run is
      armed for its interval after its last run\<close>
  "turns ks l runs \<longleftrightarrow>
     map kind_of l = rotate (length runs) ks \<and>
     (\<forall>i < length runs. fst (runs ! i) = fst (ks ! (i mod length ks))) \<and>
     (\<forall>i. i + length ks < length runs \<longrightarrow> snd (runs ! i) + snd (ks ! (i mod length ks)) \<le> snd (runs ! (i + length ks))) \<and>
     (\<forall>q < length ks. length ks \<le> length runs + q \<longrightarrow>
        at_triggerTime (l ! q) = snd (runs ! (length runs + q - length ks)) + at_interval (l ! q))"

definition logged_ok :: "('h \<times> int) list \<Rightarrow> ('w \<Rightarrow> bool) \<Rightarrow> int \<Rightarrow> 'h AsyncTimer list \<Rightarrow> ('h \<times> int) list \<times> 'w \<Rightarrow> bool" where
  "logged_ok ks I now l = (\<lambda>(runs, w). turns ks l runs \<and> I w \<and> sorted (map snd runs) \<and> (\<forall>r \<in> set runs. snd r \<le> now))"

definition demo_jobs :: "(GameDumb, unit, unit) job_state" where
  "demo_jobs = \<lparr>js_server = demo_gs, js_playerTimer = None, js_venueTimer = None, js_timers = [],
     js_consumer = fst (snd (mq_new ()))\<rparr>"

section \<open>Timers take turns\<close>

lemma turns_step:
  assumes t: "turns ks (a # l) runs" and now: "at_triggerTime a \<le> now" and ks: "ks \<noteq> []"
  shows "turns ks (l @ [AsyncTimer_setTriggerTime now a]) (runs @ [(at_handler a, now)])"
proof -
  let ?n = "length ks" and ?k = "length runs" and ?a = "AsyncTimer_setTriggerTime now a"
  let ?runs = "runs @ [(at_handler a, now)]"
  have k: "kind_of ?a = kind_of a" by (simp add: kind_of_def AsyncTimer_setTriggerTime_def)
  have m: "map kind_of (a # l) = rotate ?k ks" and h: "\<And>i. i < ?k \<Longrightarrow> fst (runs ! i) = fst (ks ! (i mod ?n))"
    and g: "\<And>i. i + ?n < ?k \<Longrightarrow> snd (runs ! i) + snd (ks ! (i mod ?n)) \<le> snd (runs ! (i + ?n))"
    and tr: "\<And>q. q < ?n \<Longrightarrow> ?n \<le> ?k + q \<Longrightarrow> at_triggerTime ((a # l) ! q) = snd (runs ! (?k + q - ?n)) + at_interval ((a # l) ! q)"
    using t by (auto simp: turns_def)
  have n: "Suc (length l) = ?n" using arg_cong[OF m, of length] by simp
  have "map kind_of (l @ [?a]) = rotate1 (map kind_of (a # l))" by (simp add: k)
  then have rot: "map kind_of (l @ [?a]) = rotate (length ?runs) ks" unfolding m by simp
  have "kind_of a = ks ! (?k mod ?n)" using arg_cong[OF m, of hd] ks by (simp add: hd_rotate_conv_nth)
  then have hd: "at_handler a = fst (ks ! (?k mod ?n))" "at_interval a = snd (ks ! (?k mod ?n))"
    by (metis kind_of_def fst_conv, metis kind_of_def snd_conv)
  have runs: "fst (?runs ! i) = fst (ks ! (i mod ?n))" if "i < length ?runs" for i
    using that h[of i] hd by (cases "i < ?k") (auto simp: nth_append less_Suc_eq)
  have gaps: "snd (?runs ! i) + snd (ks ! (i mod ?n)) \<le> snd (?runs ! (i + ?n))" if "i + ?n < length ?runs" for i
  proof (cases "i + ?n < ?k")
    case True
    then show ?thesis using g[of i] by (simp add: nth_append)
  next
    case False
    then have i: "?k = i + ?n" using that by simp
    then have "at_triggerTime a = snd (runs ! i) + at_interval a" using tr[of 0] ks by simp
    moreover have "at_interval a = snd (ks ! (i mod ?n))" using hd(2) by (simp add: i)
    ultimately show ?thesis using now ks by (simp add: i nth_append)
  qed
  have trig: "at_triggerTime ((l @ [?a]) ! q) = snd (?runs ! (length ?runs + q - ?n)) + at_interval ((l @ [?a]) ! q)"
    if "q < ?n" "?n \<le> length ?runs + q" for q
  proof (cases "q = length l")
    case True
    then have "length ?runs + q - ?n = ?k" using n by simp
    then show ?thesis using True by (simp add: nth_append AsyncTimer_setTriggerTime_def)
  next
    case False
    then have q: "q < length l" "length ?runs + q - ?n = ?k + Suc q - ?n" "?k + Suc q - ?n < ?k" using that n by auto
    then show ?thesis using tr[of "Suc q"] that n by (simp add: nth_append)
  qed
  show ?thesis unfolding turns_def using rot runs gaps trig by blast
qed

lemma turns_handlers: "turns ks l runs \<Longrightarrow> t \<in> set l \<Longrightarrow> at_handler t \<in> fst ` set ks"
proof -
  assume t: "turns ks l runs" and "t \<in> set l"
  then have "kind_of t \<in> set (map kind_of l)" by simp
  then have "kind_of t \<in> set ks" using t unfolding turns_def by (metis set_rotate)
  then show ?thesis by (force simp: kind_of_def)
qed

lemma pass_logged:
  assumes "keeps I (fst ` set ks) call" and "ks \<noteq> []"
    and "oneLoopEx_timers fuel (\<lambda>(_, w). stopped w) (logged call now) now l w = Some (l', w')"
    and "logged_ok ks I now l w"
  shows "logged_ok ks I now l' w'"
  using assms(3,4)
proof (induction fuel arbitrary: l w)
  case (Suc fuel)
  obtain runs v where w: "w = (runs, v)" by fastforce
  show ?case
  proof (cases "stopped v \<or> fst (CaptureFirstTimer now l) = None")
    case True
    then have "l' = l \<and> w' = w" using Suc.prems(1)
      by (auto simp: w CaptureFirstTimer_def split: list.splits if_splits)
    then show ?thesis using Suc.prems(2) by simp
  next
    case False
    then obtain a r where l: "l = a # r" and due: "at_triggerTime a \<le> now" and ns: "\<not> stopped v"
      by (auto simp: CaptureFirstTimer_def split: list.splits if_splits)
    have o: "turns ks (a # r) runs" "I v" "sorted (map snd runs)" "\<forall>x \<in> set runs. snd x \<le> now"
      using Suc.prems(2) by (simp_all add: logged_ok_def w l)
    obtain ret v' where c: "call (at_handler a) v = (ret, [], v')" "ret \<noteq> Some True" "I v'"
      using assms(1) turns_handlers[OF o(1), of a] o(2) unfolding keeps_def
      by (metis list.set_intros(1) prod.collapse)
    have lg: "logged call now (at_handler a) (runs, v) = (ret, [], runs @ [(at_handler a, now)], v')"
      by (simp add: logged_def c)
    have "logged_ok ks I now (r @ [AsyncTimer_setTriggerTime now a]) (runs @ [(at_handler a, now)], v')"
      using turns_step[OF o(1) due assms(2)] c(3) o(3,4) by (auto simp: logged_ok_def sorted_append)
    moreover have "oneLoopEx_timers fuel (\<lambda>(_, w). stopped w) (logged call now) now
        (r @ [AsyncTimer_setTriggerTime now a]) (runs @ [(at_handler a, now)], v') = Some (l', w')"
      using Suc.prems(1) due ns c(2) lg
      by (simp add: w l CaptureFirstTimer_def triggle_def AsyncTimerHolder_returnTimer_def Let_def
          AsyncTimer_setTriggerTime_def)
    ultimately show ?thesis by (rule Suc.IH[rotated])
  qed
qed simp

lemma logged_ok_later: "logged_ok ks I now l w \<Longrightarrow> now \<le> now' \<Longrightarrow> logged_ok ks I now' l w"
  by (auto simp: logged_ok_def)

lemma passes_logged:
  assumes "\<And>now. keeps I (fst ` set ks) (call now)" and "ks \<noteq> []" and "sorted (now # nows)"
    and "passes fuel stopped call nows l w = Some (l', w')" and "logged_ok ks I now l w"
  shows "\<exists>now'. logged_ok ks I now' l' w'"
  using assms(3-5)
proof (induction nows arbitrary: now l w)
  case (Cons now1 nows)
  obtain l1 w1 where p: "oneLoopEx_timers fuel (\<lambda>(_, w). stopped w) (logged (call now1) now1) now1 l w = Some (l1, w1)"
    and r: "passes fuel stopped call nows l1 w1 = Some (l', w')"
    using Cons.prems(2) by (auto split: option.splits)
  have "logged_ok ks I now1 l1 w1"
    using logged_ok_later[OF Cons.prems(3), of now1] Cons.prems(1) by (intro pass_logged[OF assms(1,2) p]) simp
  then show ?case using Cons.IH[of now1 l1 w1] Cons.prems(1) r by simp
qed auto

lemma turns_new: "turns (map kind_of l) l []"
  by (simp add: turns_def)

lemma passes_take_turns:
  assumes k: "\<And>now. keeps I (at_handler ` set l) (call now)" and ne: "l \<noteq> []" and s: "sorted nows" and i: "I w"
    and p: "passes fuel stopped call nows l ([], w) = Some (l', runs, w')"
  shows "sorted (map snd runs) \<and> (\<forall>i < length runs. fst (runs ! i) = at_handler (l ! (i mod length l))) \<and>
    (\<forall>i. i + length l < length runs \<longrightarrow> snd (runs ! i) + at_interval (l ! (i mod length l)) \<le> snd (runs ! (i + length l)))"
proof -
  have "logged_ok (map kind_of l) I (hd (nows @ [0])) l ([], w)" using i by (simp add: logged_ok_def turns_new)
  moreover have "fst ` set (map kind_of l) = at_handler ` set l" by (force simp: kind_of_def)
  moreover have "sorted (hd (nows @ [0]) # nows)" using s by (cases nows) auto
  ultimately have "\<exists>now'. logged_ok (map kind_of l) I now' l' (runs, w')"
    using k ne p by (intro passes_logged[where now = "hd (nows @ [0])" and nows = nows and l = l and w = "([], w)"]) auto
  then show ?thesis using ne by (auto simp: logged_ok_def turns_def kind_of_def)
qed

lemma pass_length:
  assumes "\<And>h w. fst (snd (call h w)) = []" and "oneLoopEx_timers fuel stopped call now l w = Some (l', w')"
  shows "length l' \<le> length l"
  using assms(2)
proof (induction fuel arbitrary: l w)
  case (Suc fuel)
  have c: "\<exists>r v. call h w = (r, [], v)" for h w using assms(1)[of h w] by (metis prod.collapse)
  show ?case
  proof (cases l)
    case (Cons a r)
    show ?thesis
    proof (cases "stopped w \<or> at_triggerTime a > now")
      case True
      then have "l' = l" using Suc.prems by (auto simp: Cons CaptureFirstTimer_def split: if_splits)
      then show ?thesis by simp
    next
      case False
      obtain ret v where f: "call (at_handler (AsyncTimer_setTriggerTime now a)) w = (ret, [], v)" using c by blast
      show ?thesis
      proof (cases "ret = Some True")
        case True
        then show ?thesis using Suc.prems False f Suc.IH[of r v]
          by (simp add: Cons CaptureFirstTimer_def triggle_def Let_def)
      next
        case False
        then show ?thesis using Suc.prems \<open>\<not> (stopped w \<or> at_triggerTime a > now)\<close> f
            Suc.IH[of "r @ [AsyncTimer_setTriggerTime now a]" v]
          by (simp add: Cons CaptureFirstTimer_def triggle_def Let_def AsyncTimerHolder_returnTimer_def)
      qed
    qed
  qed (use Suc.prems in \<open>auto simp: CaptureFirstTimer_def split: if_splits\<close>)
qed simp

lemma passes_return:
  assumes "\<And>now h w. fst (snd (call now h w)) = []" and "\<forall>t \<in> set l. 5 \<le> at_interval t" and "length l < fuel"
  shows "\<exists>r. passes fuel stopped call nows l w = Some r"
  using assms(2,3)
proof (induction nows arbitrary: l w)
  case (Cons now nows)
  let ?call = "logged (call now) now"
  have added: "fst (snd (?call h w)) = []" for h w
    using assms(1)[of now h "snd w"] by (cases w; cases "call now h (snd w)") (simp add: logged_def)
  have long: "async_pass.long_enough l" using Cons.prems(1) by (simp add: async_pass.long_enough_def)
  have d: "async_pass.due now l < fuel"
    using Cons.prems(2) length_filter_le[of "\<lambda>t. at_triggerTime t \<le> now" l] by (simp only: length_filter_due)
  have c: "clock_ok now ?call" by (simp add: clock_ok_def added)
  obtain l1 w1 where p: "oneLoopEx_timers fuel (\<lambda>(_, w). stopped w) ?call now l w = Some (l1, w1)"
    and "async_pass.long_enough l1"
    using async_pass.pass_terminates[OF long c d, of "\<lambda>(_, w). stopped w" w] by auto
  moreover have "length l1 \<le> length l" by (rule pass_length[OF added p])
  ultimately show ?case using Cons.IH[of l1 w1] Cons.prems(2) by (simp add: async_pass.long_enough_def)
qed simp

section \<open>The jobs of the managers\<close>

lemma job_call_added: "fst (snd (job_call e now h w)) = []"
  by (simp add: job_call_def PlayerManager_onTimer_def split: option.split manager_job.split)

lemma job_call_keeps:
  "keeps (\<lambda>w. case w of None \<Rightarrow> True | Some js \<Rightarrow> js_playerTimer js = Some m \<and> js_venueTimer js = Some n)
     {VenueJob n, PlayerJob m} (job_call e now)"
  by (auto simp: keeps_def job_call_def PlayerManager_onTimer_def split: option.splits)

lemma job_timers:
  assumes "VenueManager_init c n h dl sid ex tag (PlayerManager_init c m js) = Some js1" and "js_timers js = []"
  shows "js_timers js1 = [AsyncTimer_new 2000 (VenueJob n) c, AsyncTimer_new 5000 (PlayerJob m) c]"
    and "js_playerTimer js1 = Some m" and "js_venueTimer js1 = Some n"
  using assms by (auto simp: VenueManager_init_def PlayerManager_init_def addAsyncTimer_def AsyncTimerHolder_addTimer_def
      AsyncTimer_new_def AsyncTimer_setTriggerTime_def Let_def split: option.splits)

lemma alternate_rate:
  fixes f :: "nat \<Rightarrow> int"
  assumes mono: "\<And>i j. i \<le> j \<Longrightarrow> j < len \<Longrightarrow> f i \<le> f j"
    and gap: "\<And>i. i + 2 < len \<Longrightarrow> odd i \<Longrightarrow> f i + d \<le> f (i + 2)"
    and "even j" and "j + 2 * (k + 1) < len"
  shows "f j + int k * d \<le> f (j + 2 * (k + 1))"
proof -
  have "f (j + 1) + int k * d \<le> f (j + 1 + 2 * k)" if "j + 1 + 2 * k < len" for k
    using that
  proof (induction k)
    case (Suc k)
    then have "f (j + 1) + int k * d \<le> f (j + 1 + 2 * k)" by simp
    moreover have "f (j + 1 + 2 * k) + d \<le> f (j + 1 + 2 * k + 2)" using Suc.prems assms(3) by (intro gap) simp_all
    ultimately show ?case by (simp add: algebra_simps)
  qed simp
  from this[of k] mono[of j "j + 1"] mono[of "j + 1 + 2 * k" "j + 2 * (k + 1)"] assms(4) show ?thesis by simp
qed



text \<open>The venue manager reports the number of its players every two seconds, the player manager frees
  dormant players every five. Started together, the two jobs alternate, whenever the timer thread
  makes its passes: the report of the venue manager is made only as often as the job of the player
  manager, once in five seconds, so that \<open>k + 1\<close> further reports take at least \<open>5000 * k\<close>
  milliseconds.\<close>
theorem manager_jobs_alternate:
  assumes init: "VenueManager_init c n h dl sid ex tag (PlayerManager_init c m js) = Some js1" and "js_timers js = []"
    and s: "sorted nows" and f: "3 \<le> fuel"
  shows "\<exists>l' runs w'. passes fuel (\<lambda>w. w = None) (\<lambda>now. job_call e (now div 1000)) nows (js_timers js1) ([], Some js1) = Some (l', runs, w') \<and>
    (\<forall>i < length runs. fst (runs ! i) = (if even i then VenueJob n else PlayerJob m)) \<and>
    (\<forall>j k. even j \<and> j + 2 * (k + 1) < length runs \<longrightarrow> snd (runs ! j) + int k * 5000 \<le> snd (runs ! (j + 2 * (k + 1))))"
proof -
  let ?I = "\<lambda>w :: ('a, 'b, 'c) job_state option. case w of None \<Rightarrow> True | Some js \<Rightarrow> js_playerTimer js = Some m \<and> js_venueTimer js = Some n"
  let ?l = "[AsyncTimer_new 2000 (VenueJob n) c, AsyncTimer_new 5000 (PlayerJob m) c]"
  let ?p = "passes fuel (\<lambda>w. w = None) (\<lambda>now. job_call e (now div 1000)) nows ?l ([], Some js1)"
  note t = job_timers[OF init assms(2)]
  have at: "at_handler (AsyncTimer_new i j c) = j" "at_interval (AsyncTimer_new i j c) = i" for i and j :: manager_job
    by (simp_all add: AsyncTimer_new_def AsyncTimer_setTriggerTime_def)
  have "\<exists>r. ?p = Some r"
    using f by (intro passes_return) (simp_all add: job_call_added at)
  then obtain l' runs w' where p: "?p = Some (l', runs, w')" by auto
  have "keeps ?I (at_handler ` set ?l) (job_call e (now div 1000))" for now using job_call_keeps[of m n e] by (simp add: at)
  from passes_take_turns[OF this _ s _ p] t(2,3)
  have so: "sorted (map snd runs)" and tu: "\<And>i. i < length runs \<Longrightarrow> fst (runs ! i) = at_handler (?l ! (i mod 2))"
    and ga: "\<And>i. i + 2 < length runs \<Longrightarrow> snd (runs ! i) + at_interval (?l ! (i mod 2)) \<le> snd (runs ! (i + 2))"
    by (auto simp: numeral_2_eq_2)
  have "snd (runs ! i) + 5000 \<le> snd (runs ! (i + 2))" if "i + 2 < length runs" "odd i" for i
    using ga[OF that(1)] that(2) by (simp add: at odd_iff_mod_2_eq_one)
  moreover have "snd (runs ! i) \<le> snd (runs ! j)" if "i \<le> j" "j < length runs" for i j
    using sorted_nth_mono[OF so that(1)] that by simp
  ultimately have "\<forall>j k. even j \<and> j + 2 * (k + 1) < length runs \<longrightarrow> snd (runs ! j) + int k * 5000 \<le> snd (runs ! (j + 2 * (k + 1)))"
    using alternate_rate[of "length runs" "\<lambda>i. snd (runs ! i)" 5000] by blast
  moreover have "\<forall>i < length runs. fst (runs ! i) = (if even i then VenueJob n else PlayerJob m)"
    using tu by (auto simp: at odd_iff_mod_2_eq_one)
  ultimately show ?thesis using p t(1) by auto
qed

theorem manager_jobs_alternate_witness:
  "\<forall>e. \<exists>js1 l' runs w'. VenueManager_init 0 1 7 (\<lambda>vid db. (LoadThrows, db)) ''s1'' ''ex'' ''tag'' (PlayerManager_init 0 2 demo_jobs) = Some js1
     \<and> passes 3 (\<lambda>w. w = None) (\<lambda>now. job_call e (now div 1000)) [1000, 2000, 6000] (js_timers js1) ([], Some js1) = Some (l', runs, w')
     \<and> (\<forall>i < length runs. fst (runs ! i) = (if even i then VenueJob 1 else PlayerJob 2))"
proof
  fix e :: "(unit, unit) env"
  obtain js1 where i: "VenueManager_init 0 1 7 (\<lambda>vid db. (LoadThrows, db)) ''s1'' ''ex'' ''tag'' (PlayerManager_init 0 2 demo_jobs) = Some js1"
    by (simp add: VenueManager_init_def addHandler_def Let_def)
  have "js_timers demo_jobs = []" by (simp add: demo_jobs_def)
  from manager_jobs_alternate[OF i this, of "[1000, 2000, 6000]" 3 e] i
  show "\<exists>js1 l' runs w'. VenueManager_init 0 1 7 (\<lambda>vid db. (LoadThrows, db)) ''s1'' ''ex'' ''tag'' (PlayerManager_init 0 2 demo_jobs) = Some js1
     \<and> passes 3 (\<lambda>w. w = None) (\<lambda>now. job_call e (now div 1000)) [1000, 2000, 6000] (js_timers js1) ([], Some js1) = Some (l', runs, w')
     \<and> (\<forall>i < length runs. fst (runs ! i) = (if even i then VenueJob 1 else PlayerJob 2))" by auto
qed

section \<open>Commands over RabbitMQ\<close>

lemma leave_handler_message:
  assumes "parse m = (Some t, Some pack)" and "pack \<noteq> []" and "decodeBase64 dec pack = Some (True, txt)" and "txt \<noteq> []"
  shows "LeaveVenueHandler_message parse dec json m gs = Some (vm_handleMessage t (json txt) gs)"
  using assms by (simp add: LeaveVenueHandler_message_def json_handleImpl_def LeaveVenueHandler_handleImpl_def)

text \<open>A command to leave a venue that arrives over RabbitMQ would be handled: with the handler of
  \<open>VenueManager::init\<close> registered, a message that mentions \<open>MsgLeaveVenue\<close> and whose package decodes is
  given to the venue manager exactly once by the next round of the consumer, and the queue is empty
  again. But \<open>addHandler\<close> does not register it, and then the message is lost.\<close>
theorem leave_command_delivery:
  assumes "cs_handlers cs = []" and "um_find (cs_heap cs) h = Some \<lparr>rh_tag = tag, rh_msgQueue = []\<rparr>"
    and "LeaveVenueHandler_receive m" and "parse m = (Some t, Some pack)" and "pack \<noteq> []"
    and "decodeBase64 dec pack = Some (True, txt)" and "txt \<noteq> []"
  shows "(\<exists>cs'. consumer_OnTimer (leave_impl parse dec json) (consume leave_receive m tag (register_handler h tag cs)) (Some gs) =
        (False, cs', Some (vm_handleMessage t (json txt) gs))
      \<and> um_find (cs_heap cs') h = Some \<lparr>rh_tag = tag, rh_msgQueue = []\<rparr>) \<and>
    map_option (consume leave_receive m tag) (addHandler (Some h) cs) = Some cs"
proof
  have p: "push_all leave_receive m [h] (cs_heap cs) = um_put h \<lparr>rh_tag = tag, rh_msgQueue = [m]\<rparr> (cs_heap cs)"
    using assms(2,3) by (simp add: handler_push_def leave_receive_def)
  then show "\<exists>cs'. consumer_OnTimer (leave_impl parse dec json) (consume leave_receive m tag (register_handler h tag cs)) (Some gs) =
        (False, cs', Some (vm_handleMessage t (json txt) gs))
      \<and> um_find (cs_heap cs') h = Some \<lparr>rh_tag = tag, rh_msgQueue = []\<rparr>"
    using assms(1) leave_handler_message[where parse = parse and m = m and json = json and gs = gs, OF assms(4-7)]
    by (simp add: consumer_OnTimer_def consume_def register_handler_def getHandlers_def us_insert_def SyncHandlerList_def
        handler_handle_def leave_impl_def container_simps Let_def del: push_all.simps)
  show "map_option (consume leave_receive m tag) (addHandler (Some h) cs) = Some cs"
    using assms(1) by (simp add: addHandler_def consume_def getHandlers_def)
qed

theorem leave_command_delivery_witness:
  "\<exists>cs'. consumer_OnTimer (leave_impl (\<lambda>m. (Some ''MsgLeaveVenue'', Some (replicate 16 CHR ''A''))) (\<lambda>s. Some ''{}'') (\<lambda>_. []))
      (consume leave_receive ''MsgLeaveVenue'' ''t''
        (register_handler 1 ''t'' \<lparr>cs_StartFlag = True, cs_timer = True, cs_handlers = [], cs_handlerList = [], cs_changed = False,
          cs_heap = [(1, \<lparr>rh_tag = ''t'', rh_msgQueue = []\<rparr>)]\<rparr>)) (Some demo_gs) =
    (False, cs', Some (vm_handleMessage ''MsgLeaveVenue'' [] demo_gs))"
proof -
  let ?cs = "\<lparr>cs_StartFlag = True, cs_timer = True, cs_handlers = [], cs_handlerList = [], cs_changed = False,
          cs_heap = [(1, \<lparr>rh_tag = ''t'', rh_msgQueue = []\<rparr>)]\<rparr>"
  have "decodeBase64 (\<lambda>s. Some ''{}'') (replicate 16 CHR ''A'') = Some (True, ''{}'')" by code_simp
  moreover have "LeaveVenueHandler_receive ''MsgLeaveVenue''" by code_simp
  ultimately show ?thesis
    using leave_command_delivery[of ?cs 1 "''t''" "''MsgLeaveVenue''" "\<lambda>m. (Some ''MsgLeaveVenue'', Some (replicate 16 CHR ''A''))"
        "''MsgLeaveVenue''" "replicate 16 CHR ''A''" "\<lambda>s. Some ''{}''" "''{}''" "\<lambda>_. []" demo_gs]
    by auto
qed

end
