(* ===== verification/Msgpack_Pack.thy ===== *)
theory Msgpack_Pack
  imports Prelude "HOL-Library.Word"
begin

text \<open>
  The packer of the MessagePack library that carries every message of the server
  (\<open>src/3rdpart/msgpack/msgpack/v1/pack.hpp\<close>, \<open>v1/object.hpp\<close>).  A byte is a \<^typ>\<open>char\<close>, the stream
  a packer appends to is the string it has written; each \<open>pack_\<dots>\<close> function of the class
  \<open>packer\<close> is the string that it appends.  Unsigned and signed machine integers are \<^typ>\<open>int\<close>s (or
  \<^typ>\<open>nat\<close>s for the \<open>uint32_t\<close> lengths) that the stores reduce to their width; a \<open>float\<close> and
  a \<open>double\<close> are the bit patterns that the code itself reads through a union.

  \<open>object_parser\<close> is the explicit-stack traversal that the code uses to pack a
  \<open>msgpack::object\<close>; it is shown to write the recursive encoding \<open>pack_object\<close>, and the integer
  packers are shown to write the shortest of the formats that hold the value.
\<close>

unbundle bit_operations_syntax

subsection \<open>Bytes and the big-endian stores and loads\<close>

abbreviation byte :: "nat \<Rightarrow> char" where
  "byte n \<equiv> char_of n"

primrec be_bytes :: "nat \<Rightarrow> nat \<Rightarrow> string" where
  "be_bytes 0 n = []"
| "be_bytes (Suc k) n = be_bytes k (n div 256) @ [byte (n mod 256)]"

definition be_nat :: "string \<Rightarrow> nat" where
  "be_nat bs = foldl (\<lambda>acc c. acc * 256 + of_char c) 0 bs"

definition take8 :: "int \<Rightarrow> char" where
  \<comment> \<open>\<open>take8_8\<close>, \<open>take8_16\<close>, \<open>take8_32\<close>, \<open>take8_64\<close>: the low byte of the number\<close>
  "take8 d = byte (nat (d mod 256))"

definition msgpack_store :: "nat \<Rightarrow> int \<Rightarrow> string" where
  \<comment> \<open>\<open>_msgpack_store16/32/64\<close>: \<open>k\<close> bytes, the most significant one first\<close>
  "msgpack_store k d = be_bytes k (nat (d mod 256 ^ k))"

definition load_unsigned :: "nat \<Rightarrow> string \<Rightarrow> nat" where
  \<comment> \<open>\<open>load<uint8_t/uint16_t/uint32_t/uint64_t>\<close>\<close>
  "load_unsigned k n = be_nat (take k n)"

definition load_signed :: "nat \<Rightarrow> string \<Rightarrow> int" where
  \<comment> \<open>\<open>load<int8_t/\<dots>/int64_t>\<close>: the same bytes read in two's complement\<close>
  "load_signed k n =
     (let u = int (be_nat (take k n)) in if 2 * u < 256 ^ k then u else u - 256 ^ k)"

subsection \<open>The packer\<close>

definition pack_fix_uint8 :: "int \<Rightarrow> string" where
  "pack_fix_uint8 d = [byte 0xcc, take8 d]"

definition pack_fix_uint16 :: "int \<Rightarrow> string" where
  "pack_fix_uint16 d = byte 0xcd # msgpack_store 2 d"

definition pack_fix_uint32 :: "int \<Rightarrow> string" where
  "pack_fix_uint32 d = byte 0xce # msgpack_store 4 d"

definition pack_fix_uint64 :: "int \<Rightarrow> string" where
  "pack_fix_uint64 d = byte 0xcf # msgpack_store 8 d"

definition pack_fix_int8 :: "int \<Rightarrow> string" where
  "pack_fix_int8 d = [byte 0xd0, take8 d]"

definition pack_fix_int16 :: "int \<Rightarrow> string" where
  "pack_fix_int16 d = byte 0xd1 # msgpack_store 2 d"

definition pack_fix_int32 :: "int \<Rightarrow> string" where
  "pack_fix_int32 d = byte 0xd2 # msgpack_store 4 d"

definition pack_fix_int64 :: "int \<Rightarrow> string" where
  "pack_fix_int64 d = byte 0xd3 # msgpack_store 8 d"

definition pack_imp_uint8 :: "int \<Rightarrow> string" where
  "pack_imp_uint8 d = (if d < 2 ^ 7 then [take8 d] else [byte 0xcc, take8 d])"

definition pack_imp_uint16 :: "int \<Rightarrow> string" where
  "pack_imp_uint16 d =
     (if d < 2 ^ 7 then [take8 d]
      else if d < 2 ^ 8 then [byte 0xcc, take8 d]
      else byte 0xcd # msgpack_store 2 d)"

definition pack_imp_uint32 :: "int \<Rightarrow> string" where
  "pack_imp_uint32 d =
     (if d < 2 ^ 8 then (if d < 2 ^ 7 then [take8 d] else [byte 0xcc, take8 d])
      else if d < 2 ^ 16 then byte 0xcd # msgpack_store 2 d
      else byte 0xce # msgpack_store 4 d)"

definition pack_imp_uint64 :: "int \<Rightarrow> string" where
  "pack_imp_uint64 d =
     (if d < 2 ^ 8 then (if d < 2 ^ 7 then [take8 d] else [byte 0xcc, take8 d])
      else if d < 2 ^ 16 then byte 0xcd # msgpack_store 2 d
      else if d < 2 ^ 32 then byte 0xce # msgpack_store 4 d
      else byte 0xcf # msgpack_store 8 d)"

definition pack_imp_int8 :: "int \<Rightarrow> string" where
  "pack_imp_int8 d = (if d < - (2 ^ 5) then [byte 0xd0, take8 d] else [take8 d])"

definition pack_imp_int16 :: "int \<Rightarrow> string" where
  "pack_imp_int16 d =
     (if d < - (2 ^ 5) then
        (if d < - (2 ^ 7) then byte 0xd1 # msgpack_store 2 d else [byte 0xd0, take8 d])
      else if d < 2 ^ 7 then [take8 d]
      else if d < 2 ^ 8 then [byte 0xcc, take8 d]
      else byte 0xcd # msgpack_store 2 d)"

definition pack_imp_int32 :: "int \<Rightarrow> string" where
  "pack_imp_int32 d =
     (if d < - (2 ^ 5) then
        (if d < - (2 ^ 15) then byte 0xd2 # msgpack_store 4 d
         else if d < - (2 ^ 7) then byte 0xd1 # msgpack_store 2 d
         else [byte 0xd0, take8 d])
      else if d < 2 ^ 7 then [take8 d]
      else if d < 2 ^ 8 then [byte 0xcc, take8 d]
      else if d < 2 ^ 16 then byte 0xcd # msgpack_store 2 d
      else byte 0xce # msgpack_store 4 d)"

definition pack_imp_int64 :: "int \<Rightarrow> string" where
  "pack_imp_int64 d =
     (if d < - (2 ^ 5) then
        (if d < - (2 ^ 15) then
           (if d < - (2 ^ 31) then byte 0xd3 # msgpack_store 8 d
            else byte 0xd2 # msgpack_store 4 d)
         else if d < - (2 ^ 7) then byte 0xd1 # msgpack_store 2 d
         else [byte 0xd0, take8 d])
      else if d < 2 ^ 7 then [take8 d]
      else if d < 2 ^ 16 then
        (if d < 2 ^ 8 then [byte 0xcc, take8 d] else byte 0xcd # msgpack_store 2 d)
      else if d < 2 ^ 32 then byte 0xce # msgpack_store 4 d
      else byte 0xcf # msgpack_store 8 d)"

definition pack_float :: "nat \<Rightarrow> string" where
  "pack_float bits = byte 0xca # msgpack_store 4 (int bits)"

definition pack_double :: "nat \<Rightarrow> string" where
  "pack_double bits = byte 0xcb # msgpack_store 8 (int bits)"

definition pack_nil :: string where
  "pack_nil = [byte 0xc0]"

definition pack_true :: string where
  "pack_true = [byte 0xc3]"

definition pack_false :: string where
  "pack_false = [byte 0xc2]"

definition pack_array :: "nat \<Rightarrow> string" where
  "pack_array n =
     (if n < 16 then [byte (0x90 OR n)]
      else if n < 65536 then byte 0xdc # msgpack_store 2 (int n)
      else byte 0xdd # msgpack_store 4 (int n))"

definition pack_map :: "nat \<Rightarrow> string" where
  "pack_map n =
     (if n < 16 then [byte (0x80 OR n)]
      else if n < 65536 then byte 0xde # msgpack_store 2 (int n)
      else byte 0xdf # msgpack_store 4 (int n))"

definition pack_str :: "nat \<Rightarrow> string" where
  "pack_str l =
     (if l < 32 then [byte (0xa0 OR l)]
      else if l < 256 then [byte 0xd9, take8 (int l)]
      else if l < 65536 then byte 0xda # msgpack_store 2 (int l)
      else byte 0xdb # msgpack_store 4 (int l))"

definition pack_str_body :: "string \<Rightarrow> string" where
  "pack_str_body b = b"

definition pack_v4raw :: "nat \<Rightarrow> string" where
  "pack_v4raw l =
     (if l < 32 then [byte (0xa0 OR l)]
      else if l < 65536 then byte 0xda # msgpack_store 2 (int l)
      else byte 0xdb # msgpack_store 4 (int l))"

definition pack_bin :: "nat \<Rightarrow> string" where
  "pack_bin l =
     (if l < 256 then [byte 0xc4, take8 (int l)]
      else if l < 65536 then byte 0xc5 # msgpack_store 2 (int l)
      else byte 0xc6 # msgpack_store 4 (int l))"

definition pack_bin_body :: "string \<Rightarrow> string" where
  "pack_bin_body b = b"

definition pack_ext :: "nat \<Rightarrow> char \<Rightarrow> string" where
  "pack_ext l ty =
     (if l = 1 then [byte 0xd4, ty]
      else if l = 2 then [byte 0xd5, ty]
      else if l = 4 then [byte 0xd6, ty]
      else if l = 8 then [byte 0xd7, ty]
      else if l = 16 then [byte 0xd8, ty]
      else if l < 256 then [byte 0xc7, take8 (int l), ty]
      else if l < 65536 then byte 0xc8 # msgpack_store 2 (int l) @ [ty]
      else byte 0xc9 # msgpack_store 4 (int l) @ [ty])"

definition pack_ext_body :: "string \<Rightarrow> string" where
  "pack_ext_body b = b"

subsection \<open>Objects\<close>

text \<open>
  \<open>msgpack::object\<close>: the type tag with the member of the union that it selects.  An \<open>EXT\<close> keeps
  the bytes that \<open>via.ext.ptr\<close> points to, the type byte first.  A \<open>FLOAT32\<close> is kept as the
  pattern of the \<open>float\<close> that was read.
\<close>

datatype mobject =
    O_NIL
  | O_BOOLEAN bool
  | O_POSITIVE_INTEGER nat
  | O_NEGATIVE_INTEGER int
  | O_FLOAT32 nat
  | O_FLOAT64 nat
  | O_STR string
  | O_BIN string
  | O_EXT string
  | O_ARRAY "mobject list"
  | O_MAP "(mobject \<times> mobject) list"

fun object_pack_visit :: "mobject \<Rightarrow> string" where
  \<comment> \<open>what \<open>object_pack_visitor\<close> writes when \<open>object_parser\<close> reaches the object: the whole of a
      scalar, the header of a collection\<close>
  "object_pack_visit O_NIL = pack_nil"
| "object_pack_visit (O_BOOLEAN v) = (if v then pack_true else pack_false)"
| "object_pack_visit (O_POSITIVE_INTEGER v) = pack_imp_uint64 (int v)"
| "object_pack_visit (O_NEGATIVE_INTEGER v) = pack_imp_int64 v"
| "object_pack_visit (O_FLOAT32 v) = pack_float v"
| "object_pack_visit (O_FLOAT64 v) = pack_double v"
| "object_pack_visit (O_STR v) = pack_str (length v) @ pack_str_body v"
| "object_pack_visit (O_BIN v) = pack_bin (length v) @ pack_bin_body v"
| "object_pack_visit (O_EXT v) = pack_ext (length v - 1) (hd v) @ pack_ext_body (tl v)"
| "object_pack_visit (O_ARRAY os) = pack_array (length os)"
| "object_pack_visit (O_MAP kvs) = pack_map (length kvs)"

fun pack_object :: "mobject \<Rightarrow> string" where
  "pack_object (O_ARRAY os) = object_pack_visit (O_ARRAY os) @ concat (map pack_object os)"
| "pack_object (O_MAP kvs) =
     object_pack_visit (O_MAP kvs) @ concat (map (\<lambda>kv. pack_object (fst kv) @ pack_object (snd kv)) kvs)"
| "pack_object obj = object_pack_visit obj"

subsection \<open>The traversal of an object\<close>

text \<open>
  \<open>object_parser::elem\<close>: the position inside a collection.  The pointer \<open>as.obj_ptr\<close> or
  \<open>as.kv_ptr\<close> is the list of the members from it on, so that \<open>rest\<close> is the length of that list.
  Every function of \<open>object_pack_visitor\<close> returns true, so that \<open>next\<close> never aborts.
\<close>

datatype elem =
    ArrayElem "mobject list"
  | MapElem "(mobject \<times> mobject) list" bool

datatype next_ret = cont | finish

fun elem_get :: "elem \<Rightarrow> mobject" where
  "elem_get (MapElem kvs is_key) = (if is_key then fst (hd kvs) else snd (hd kvs))"
| "elem_get (ArrayElem os) = hd os"

fun elem_next :: "elem \<Rightarrow> next_ret \<times> elem" where
  "elem_next (MapElem kvs is_key) =
     (if kvs = [] then (finish, MapElem kvs is_key)
      else if is_key then (cont, MapElem kvs False)
      else if tl kvs = [] then (finish, MapElem (tl kvs) is_key)
      else (cont, MapElem (tl kvs) True))"
| "elem_next (ArrayElem os) =
     (if os = [] then (finish, ArrayElem os)
      else if tl os = [] then (finish, ArrayElem (tl os))
      else (cont, ArrayElem (tl os)))"

fun ctx_next :: "elem list \<Rightarrow> elem list option" where
  \<comment> \<open>the inner loop: finished collections are popped; \<open>None\<close> when the stack empties\<close>
  "ctx_next [] = None"
| "ctx_next (e # es) =
     (case elem_next e of (finish, _) \<Rightarrow> ctx_next es | (cont, e') \<Rightarrow> Some (e' # es))"

fun start_collection :: "mobject \<Rightarrow> elem list \<Rightarrow> bool \<times> elem list" where
  "start_collection (O_ARRAY os) ctx = (os \<noteq> [], ArrayElem os # ctx)"
| "start_collection (O_MAP kvs) ctx = (kvs \<noteq> [], MapElem kvs True # ctx)"
| "start_collection obj ctx = (False, ctx)"

fun nodes :: "mobject \<Rightarrow> nat" where
  "nodes (O_ARRAY os) = Suc (sum_list (map nodes os))"
| "nodes (O_MAP kvs) = Suc (sum_list (map (\<lambda>kv. nodes (fst kv) + nodes (snd kv)) kvs))"
| "nodes obj = 1"

fun later_nodes :: "elem \<Rightarrow> nat" where
  "later_nodes (ArrayElem os) = sum_list (map nodes (tl os))"
| "later_nodes (MapElem kvs is_key) =
     (if is_key \<and> kvs \<noteq> [] then nodes (snd (hd kvs)) else 0)
     + sum_list (map (\<lambda>kv. nodes (fst kv) + nodes (snd kv)) (tl kvs))"

fun later_pack :: "elem \<Rightarrow> string" where
  "later_pack (ArrayElem os) = concat (map pack_object (tl os))"
| "later_pack (MapElem kvs is_key) =
     (if is_key \<and> kvs \<noteq> [] then pack_object (snd (hd kvs)) else [])
     @ concat (map (\<lambda>kv. pack_object (fst kv) @ pack_object (snd kv)) (tl kvs))"

function object_parser_parse :: "mobject \<Rightarrow> elem list \<Rightarrow> string \<Rightarrow> string" where
  \<comment> \<open>\<open>object_parser::parse\<close> with the \<open>object_pack_visitor\<close>, from the object \<open>m_current\<close>\<close>
  "object_parser_parse obj ctx out =
     (case start_collection obj ctx of (started, ctx1) \<Rightarrow>
        (case (if started then Some ctx1 else ctx_next ctx1) of
           None \<Rightarrow> out @ object_pack_visit obj
         | Some ctx2 \<Rightarrow> object_parser_parse (elem_get (hd ctx2)) ctx2 (out @ object_pack_visit obj)))"
  by pat_completeness auto

termination
proof (relation "measure (\<lambda>(obj, ctx, _). nodes obj + sum_list (map later_nodes ctx))", goal_cases)
  case 1
  show ?case by simp
next
  case 2
  have step: "elem_next e = (cont, e') \<Longrightarrow> nodes (elem_get e') + later_nodes e' \<le> later_nodes e" for e e'
    by (cases e) (auto simp: neq_Nil_conv split: if_splits)
  have nxt: "nodes (elem_get (hd ctx2)) + sum_list (map later_nodes ctx2) \<le> sum_list (map later_nodes ctx1)"
    if "ctx_next ctx1 = Some ctx2" for ctx1 ctx2
    using that
  proof (induction ctx1)
    case (Cons e es)
    then show ?case using step[of e] by (fastforce split: prod.splits next_ret.splits)
  qed simp
  have pos: "1 \<le> nodes obj" for obj by (cases obj) auto
  have enter: "nodes (elem_get (hd ctx1)) + sum_list (map later_nodes ctx1)
      < nodes obj + sum_list (map later_nodes ctx)"
    if "start_collection obj ctx = (True, ctx1)" for obj ctx ctx1
    using that by (cases obj) (auto simp: neq_Nil_conv)
  have skip: "sum_list (map later_nodes ctx1) = sum_list (map later_nodes ctx)"
    if "start_collection obj ctx = (False, ctx1)" for obj ctx ctx1
    using that by (cases obj) auto
  have dec: "nodes (elem_get (hd ctx2)) + sum_list (map later_nodes ctx2)
      < nodes obj + sum_list (map later_nodes ctx)"
    if "(started, ctx1) = start_collection obj ctx"
      "(if started then Some ctx1 else ctx_next ctx1) = Some ctx2" for obj ctx started ctx1 ctx2
    using that(1)[symmetric] that(2) enter[of obj ctx ctx1] nxt[of ctx1 ctx2] skip[of obj ctx ctx1]
      pos[of obj]
    by (cases started) auto
  show ?case using 2 by (auto intro: dec)
qed

declare object_parser_parse.simps [simp del]

definition pack_object_adaptor :: "mobject \<Rightarrow> string" where
  \<comment> \<open>\<open>adaptor::pack<msgpack::object>\<close>\<close>
  "pack_object_adaptor v = object_parser_parse v [] []"

subsection \<open>The wire format\<close>

text \<open>
  The formats of the MessagePack specification, which the packer and the parser are measured
  against.  \<open>fmt tok bs\<close>: the bytes \<open>bs\<close> are the encoding of a scalar or the header of a collection
  of the given number of members; \<open>wire obj bs\<close>: they are an encoding of the object.
\<close>

definition int_object :: "int \<Rightarrow> mobject" where
  "int_object i = (if i \<ge> 0 then O_POSITIVE_INTEGER (nat i) else O_NEGATIVE_INTEGER i)"

datatype token = Scalar mobject | Open_array nat | Open_map nat

inductive fmt :: "token \<Rightarrow> string \<Rightarrow> bool" where
  fmt_nil: "fmt (Scalar O_NIL) [byte 0xc0]"
| fmt_bool: "fmt (Scalar (O_BOOLEAN b)) [byte (if b then 0xc3 else 0xc2)]"
| fmt_pos_fixint: "n < 128 \<Longrightarrow> fmt (Scalar (O_POSITIVE_INTEGER n)) [byte n]"
| fmt_neg_fixint: "- 32 \<le> i \<Longrightarrow> i < 0 \<Longrightarrow> fmt (Scalar (O_NEGATIVE_INTEGER i)) [byte (nat (256 + i))]"
| fmt_uint: "(c, k) \<in> set [(0xcc, 1), (0xcd, 2), (0xce, 4), (0xcf, 8)] \<Longrightarrow> length bs = k
    \<Longrightarrow> fmt (Scalar (O_POSITIVE_INTEGER (be_nat bs))) (byte c # bs)"
| fmt_int: "(c, k) \<in> set [(0xd0, 1), (0xd1, 2), (0xd2, 4), (0xd3, 8)] \<Longrightarrow> length bs = k
    \<Longrightarrow> fmt (Scalar (int_object (load_signed k bs))) (byte c # bs)"
| fmt_float: "length bs = 4 \<Longrightarrow> fmt (Scalar (O_FLOAT32 (be_nat bs))) (byte 0xca # bs)"
| fmt_double: "length bs = 8 \<Longrightarrow> fmt (Scalar (O_FLOAT64 (be_nat bs))) (byte 0xcb # bs)"
| fmt_fixstr: "length s < 32 \<Longrightarrow> fmt (Scalar (O_STR s)) (byte (0xa0 + length s) # s)"
| fmt_str: "(c, k) \<in> set [(0xd9, 1), (0xda, 2), (0xdb, 4)] \<Longrightarrow> length bs = k \<Longrightarrow> be_nat bs = length s
    \<Longrightarrow> fmt (Scalar (O_STR s)) (byte c # bs @ s)"
| fmt_bin: "(c, k) \<in> set [(0xc4, 1), (0xc5, 2), (0xc6, 4)] \<Longrightarrow> length bs = k \<Longrightarrow> be_nat bs = length s
    \<Longrightarrow> fmt (Scalar (O_BIN s)) (byte c # bs @ s)"
| fmt_fixext: "(c, l) \<in> set [(0xd4, 1), (0xd5, 2), (0xd6, 4), (0xd7, 8), (0xd8, 16)] \<Longrightarrow> length s = l
    \<Longrightarrow> fmt (Scalar (O_EXT (ty # s))) (byte c # ty # s)"
| fmt_ext: "(c, k) \<in> set [(0xc7, 1), (0xc8, 2), (0xc9, 4)] \<Longrightarrow> length bs = k \<Longrightarrow> be_nat bs = length s
    \<Longrightarrow> fmt (Scalar (O_EXT (ty # s))) (byte c # bs @ ty # s)"
| fmt_fixarray: "n < 16 \<Longrightarrow> fmt (Open_array n) [byte (0x90 + n)]"
| fmt_array: "(c, k) \<in> set [(0xdc, 2), (0xdd, 4)] \<Longrightarrow> length bs = k
    \<Longrightarrow> fmt (Open_array (be_nat bs)) (byte c # bs)"
| fmt_fixmap: "n < 16 \<Longrightarrow> fmt (Open_map n) [byte (0x80 + n)]"
| fmt_map: "(c, k) \<in> set [(0xde, 2), (0xdf, 4)] \<Longrightarrow> length bs = k
    \<Longrightarrow> fmt (Open_map (be_nat bs)) (byte c # bs)"

primrec token_pack :: "token \<Rightarrow> string" where
  "token_pack (Scalar obj) = object_pack_visit obj"
| "token_pack (Open_array n) = pack_array n"
| "token_pack (Open_map n) = pack_map n"

definition kv_flat :: "(mobject \<times> mobject) list \<Rightarrow> mobject list" where
  "kv_flat kvs = concat (map (\<lambda>kv. [fst kv, snd kv]) kvs)"

inductive wire :: "mobject \<Rightarrow> string \<Rightarrow> bool"
  and wires :: "mobject list \<Rightarrow> string \<Rightarrow> bool" where
  wire_scalar: "fmt (Scalar obj) bs \<Longrightarrow> wire obj bs"
| wire_array: "fmt (Open_array (length os)) h \<Longrightarrow> wires os bs \<Longrightarrow> wire (O_ARRAY os) (h @ bs)"
| wire_map: "fmt (Open_map (length kvs)) h \<Longrightarrow> wires (kv_flat kvs) bs \<Longrightarrow> wire (O_MAP kvs) (h @ bs)"
| wires_Nil: "wires [] []"
| wires_Cons: "wire obj a \<Longrightarrow> wires os b \<Longrightarrow> wires (obj # os) (a @ b)"

inductive_cases wires_NilE [elim!]: "wires [] bs"
inductive_cases wires_ConsE [elim!]: "wires (obj # os) bs"

fun wf_object :: "mobject \<Rightarrow> bool" where
  \<comment> \<open>the values that the members of the union can hold\<close>
  "wf_object (O_POSITIVE_INTEGER n) \<longleftrightarrow> n < 2 ^ 64"
| "wf_object (O_NEGATIVE_INTEGER i) \<longleftrightarrow> - (2 ^ 63) \<le> i \<and> i < 0"
| "wf_object (O_FLOAT32 bits) \<longleftrightarrow> bits < 2 ^ 32"
| "wf_object (O_FLOAT64 bits) \<longleftrightarrow> bits < 2 ^ 64"
| "wf_object (O_STR s) \<longleftrightarrow> length s < 2 ^ 32"
| "wf_object (O_BIN s) \<longleftrightarrow> length s < 2 ^ 32"
| "wf_object (O_EXT s) \<longleftrightarrow> 1 \<le> length s \<and> length s \<le> 2 ^ 32"
| "wf_object (O_ARRAY os) \<longleftrightarrow> length os < 2 ^ 32 \<and> (\<forall>obj \<in> set os. wf_object obj)"
| "wf_object (O_MAP kvs) \<longleftrightarrow>
     length kvs < 2 ^ 32 \<and> (\<forall>kv \<in> set kvs. wf_object (fst kv) \<and> wf_object (snd kv))"
| "wf_object obj \<longleftrightarrow> True"

subsection \<open>Bytes\<close>

lemma length_be_bytes [simp]: "length (be_bytes k n) = k"
  by (induction k arbitrary: n) auto

lemma be_nat_Nil [simp]: "be_nat [] = 0"
  by (simp add: be_nat_def)

lemma be_nat_snoc [simp]: "be_nat (bs @ [c]) = be_nat bs * 256 + of_char c"
  by (simp add: be_nat_def)

lemma be_nat_single [simp]: "be_nat [c] = of_char c"
  by (simp add: be_nat_def)

lemma be_nat_less: "be_nat bs < 256 ^ length bs"
proof (induction bs rule: rev_induct)
  case (snoc c bs)
  have "of_char c < (256 :: nat)" by simp
  then have "be_nat bs * 256 + of_char c < 256 * 256 ^ length bs" using snoc.IH by linarith
  then show ?case by simp
qed simp

lemma be_nat_be_bytes [simp]: "be_nat (be_bytes k n) = n mod 256 ^ k"
proof (induction k arbitrary: n)
  case (Suc k)
  then show ?case by (simp add: mod_mult2_eq mult.commute add.commute)
qed simp

lemma be_bytes_be_nat [simp]: "be_bytes (length bs) (be_nat bs) = bs"
  by (induction bs rule: rev_induct) auto

lemma length_msgpack_store [simp]: "length (msgpack_store k d) = k"
  by (simp add: msgpack_store_def)

lemma be_nat_store: "0 \<le> d \<Longrightarrow> d < 256 ^ k \<Longrightarrow> be_nat (msgpack_store k d) = nat d"
  by (simp add: msgpack_store_def nat_less_iff)

lemma msgpack_store_1 [simp]: "msgpack_store (Suc 0) d = [take8 d]"
  by (simp add: take8_def msgpack_store_def)

lemma of_char_take8: "0 \<le> d \<Longrightarrow> d < 256 \<Longrightarrow> of_char (take8 d) = nat d"
  by (simp add: take8_def nat_less_iff)

lemma load_signed_store:
  assumes "- (256 ^ k) \<le> 2 * d" and "2 * d < 256 ^ k"
  shows "load_signed k (msgpack_store k d) = d"
proof -
  have b: "int (be_nat (msgpack_store k d)) = d mod 256 ^ k"
    by (simp add: msgpack_store_def of_nat_mod)
  have "d mod 256 ^ k = (if 0 \<le> d then d else d + 256 ^ k)"
    using assms by (auto simp: int_mod_pos_eq[of d "256 ^ k" "- 1"])
  then show ?thesis using assms b by (auto simp: load_signed_def Let_def)
qed

subsection \<open>The traversal writes the recursive encoding\<close>

lemma elem_next_pack:
  "elem_next e = (cont, e') \<Longrightarrow> later_pack e = pack_object (elem_get e') @ later_pack e'"
  "elem_next e = (finish, e') \<Longrightarrow> later_pack e = []"
  by (cases e; auto simp: neq_Nil_conv split: if_splits)+

lemma ctx_next_pack:
  "concat (map later_pack ctx) =
     (case ctx_next ctx of None \<Rightarrow> []
      | Some ctx' \<Rightarrow> pack_object (elem_get (hd ctx')) @ concat (map later_pack ctx'))"
proof (induction ctx)
  case (Cons e es)
  obtain r e' where "elem_next e = (r, e')" by fastforce
  with Cons.IH show ?case
    by (cases r) (simp_all add: elem_next_pack)
qed simp

lemma concat_hd_tl: "xs \<noteq> [] \<Longrightarrow> concat (map f xs) = f (hd xs) @ concat (map f (tl xs))"
  by (cases xs) auto

lemma start_collection_pack:
  "start_collection obj ctx = (False, ctx1) \<Longrightarrow>
     pack_object obj = object_pack_visit obj \<and> concat (map later_pack ctx1) = concat (map later_pack ctx)"
  "start_collection obj ctx = (True, ctx1) \<Longrightarrow>
     pack_object obj @ concat (map later_pack ctx) =
       object_pack_visit obj @ pack_object (elem_get (hd ctx1)) @ concat (map later_pack ctx1)"
  by (cases obj; clarsimp simp: concat_hd_tl simp del: object_pack_visit.simps)+

lemma object_parser_parse_pack:
  "object_parser_parse obj ctx out = out @ pack_object obj @ concat (map later_pack ctx)"
proof (induction obj ctx out rule: object_parser_parse.induct)
  case (1 obj ctx out)
  obtain started ctx1 where sc: "start_collection obj ctx = (started, ctx1)" by fastforce
  show ?case
  proof (cases started)
    case True
    then show ?thesis
      using sc 1[OF sc[symmetric]] start_collection_pack(2)[of obj ctx ctx1]
      by (subst object_parser_parse.simps) simp
  next
    case False
    then show ?thesis
      using sc 1[OF sc[symmetric]] start_collection_pack(1)[of obj ctx ctx1] ctx_next_pack[of ctx1]
      by (subst object_parser_parse.simps) (simp split: option.splits)
  qed
qed

text \<open>C18: The explicit-stack traversal that packs an object writes the recursive encoding of
  the object: the header of each collection, then its members in order, keys before their values.\<close>
theorem object_parser_packs_recursively:
  "pack_object_adaptor obj = pack_object obj"
  by (simp add: pack_object_adaptor_def object_parser_parse_pack)

subsection \<open>The packer writes the wire format\<close>

lemma or_disjoint:
  fixes n :: nat
  shows "n < 16 \<Longrightarrow> (0x90 OR n) = 0x90 + n" and "n < 16 \<Longrightarrow> (0x80 OR n) = 0x80 + n"
    and "n < 32 \<Longrightarrow> (0xa0 OR n) = 0xa0 + n"
proof -
  have "\<forall>n \<in> set [0..<16]. (0x90 OR n) = (0x90 + n :: nat)" by code_simp
  moreover have "\<forall>n \<in> set [0..<16]. (0x80 OR n) = (0x80 + n :: nat)" by code_simp
  moreover have "\<forall>n \<in> set [0..<32]. (0xa0 OR n) = (0xa0 + n :: nat)" by code_simp
  ultimately show "n < 16 \<Longrightarrow> (0x90 OR n) = 0x90 + n" and "n < 16 \<Longrightarrow> (0x80 OR n) = 0x80 + n"
    and "n < 32 \<Longrightarrow> (0xa0 OR n) = 0xa0 + n" by auto
qed

lemma fmt_uint_store:
  assumes "(c, k) \<in> set [(0xcc, 1), (0xcd, 2), (0xce, 4), (0xcf, 8)]" and "0 \<le> d" "d < 256 ^ k"
  shows "fmt (Scalar (int_object d)) (byte c # msgpack_store k d)"
  using fmt_uint[OF assms(1), of "msgpack_store k d"] assms(2,3)
  by (simp add: be_nat_store int_object_def del: list.set)

lemma fmt_int_store:
  assumes "(c, k) \<in> set [(0xd0, 1), (0xd1, 2), (0xd2, 4), (0xd3, 8)]"
    and "- (256 ^ k) \<le> 2 * d" "2 * d < 256 ^ k"
  shows "fmt (Scalar (int_object d)) (byte c # msgpack_store k d)"
  using fmt_int[OF assms(1), of "msgpack_store k d"] assms(2,3)
  by (simp add: load_signed_store del: list.set)

lemma fmt_fixint:
  assumes "- 32 \<le> d" and "d < 128"
  shows "fmt (Scalar (int_object d)) [take8 d]"
proof (cases "0 \<le> d")
  case True
  then show ?thesis using fmt_pos_fixint[of "nat d"] assms by (simp add: int_object_def take8_def)
next
  case False
  then have "d mod 256 = 256 + d" using assms by (simp add: int_mod_pos_eq[of d 256 "- 1"])
  then show ?thesis using fmt_neg_fixint[of d] False assms by (simp add: int_object_def take8_def add.commute)
qed

lemmas pack_int_defs = pack_imp_uint8_def pack_imp_uint16_def pack_imp_uint32_def pack_imp_uint64_def
  pack_imp_int8_def pack_imp_int16_def pack_imp_int32_def pack_imp_int64_def

lemma pack_uint64_fmt:
  "0 \<le> d \<Longrightarrow> d < 2 ^ 64 \<Longrightarrow> fmt (Scalar (int_object d)) (pack_imp_uint64 d)"
  using fmt_fixint[of d] fmt_uint_store[of "0xcc" 1 d] fmt_uint_store[of "0xcd" 2 d]
    fmt_uint_store[of "0xce" 4 d] fmt_uint_store[of "0xcf" 8 d]
  by (auto simp: pack_int_defs)

lemma pack_int64_fmt:
  "- (2 ^ 63) \<le> d \<Longrightarrow> d < 2 ^ 63 \<Longrightarrow> fmt (Scalar (int_object d)) (pack_imp_int64 d)"
  using fmt_fixint[of d] fmt_uint_store[of "0xcc" 1 d] fmt_uint_store[of "0xcd" 2 d]
    fmt_uint_store[of "0xce" 4 d] fmt_uint_store[of "0xcf" 8 d] fmt_int_store[of "0xd0" 1 d]
    fmt_int_store[of "0xd1" 2 d] fmt_int_store[of "0xd2" 4 d] fmt_int_store[of "0xd3" 8 d]
  by (auto simp: pack_int_defs)

lemma pack_int32_fmt:
  "- (2 ^ 31) \<le> d \<Longrightarrow> d < 2 ^ 31 \<Longrightarrow> pack_imp_int32 d = pack_imp_int64 d"
  by (auto simp: pack_int_defs)

lemma pack_str_fmt: "length s < 2 ^ 32 \<Longrightarrow> fmt (Scalar (O_STR s)) (pack_str (length s) @ pack_str_body s)"
  using fmt_fixstr[of s] fmt_str[of "0xd9" 1 "msgpack_store 1 (int (length s))" s]
    fmt_str[of "0xda" 2 "msgpack_store 2 (int (length s))" s]
    fmt_str[of "0xdb" 4 "msgpack_store 4 (int (length s))" s]
  by (auto simp: pack_str_def pack_str_body_def or_disjoint be_nat_store of_char_take8)

lemma pack_bin_fmt: "length s < 2 ^ 32 \<Longrightarrow> fmt (Scalar (O_BIN s)) (pack_bin (length s) @ pack_bin_body s)"
  using fmt_bin[of "0xc4" 1 "msgpack_store 1 (int (length s))" s]
    fmt_bin[of "0xc5" 2 "msgpack_store 2 (int (length s))" s]
    fmt_bin[of "0xc6" 4 "msgpack_store 4 (int (length s))" s]
  by (auto simp: pack_bin_def pack_bin_body_def be_nat_store of_char_take8)

lemma pack_ext_fmt:
  "length s < 2 ^ 32 \<Longrightarrow> fmt (Scalar (O_EXT (ty # s))) (pack_ext (length s) ty @ pack_ext_body s)"
  using fmt_fixext[of "0xd4" 1 s ty] fmt_fixext[of "0xd5" 2 s ty] fmt_fixext[of "0xd6" 4 s ty]
    fmt_fixext[of "0xd7" 8 s ty] fmt_fixext[of "0xd8" 16 s ty]
    fmt_ext[of "0xc7" 1 "msgpack_store 1 (int (length s))" s ty]
    fmt_ext[of "0xc8" 2 "msgpack_store 2 (int (length s))" s ty]
    fmt_ext[of "0xc9" 4 "msgpack_store 4 (int (length s))" s ty]
  by (auto simp: pack_ext_def pack_ext_body_def be_nat_store of_char_take8)

lemma pack_array_fmt: "n < 2 ^ 32 \<Longrightarrow> fmt (Open_array n) (pack_array n)"
  using fmt_fixarray[of n] fmt_array[of "0xdc" 2 "msgpack_store 2 (int n)"]
    fmt_array[of "0xdd" 4 "msgpack_store 4 (int n)"]
  by (auto simp: pack_array_def or_disjoint be_nat_store of_char_take8)

lemma pack_map_fmt: "n < 2 ^ 32 \<Longrightarrow> fmt (Open_map n) (pack_map n)"
  using fmt_fixmap[of n] fmt_map[of "0xde" 2 "msgpack_store 2 (int n)"]
    fmt_map[of "0xdf" 4 "msgpack_store 4 (int n)"]
  by (auto simp: pack_map_def or_disjoint be_nat_store of_char_take8)

lemma wires_concat: "(\<And>obj. obj \<in> set os \<Longrightarrow> wire obj (f obj)) \<Longrightarrow> wires os (concat (map f os))"
  by (induction os) (auto intro: wires_Nil wires_Cons)

lemma wires_kv_flat:
  "(\<And>kv. kv \<in> set kvs \<Longrightarrow> wire (fst kv) (f (fst kv)) \<and> wire (snd kv) (f (snd kv)))
   \<Longrightarrow> wires (kv_flat kvs) (concat (map (\<lambda>kv. f (fst kv) @ f (snd kv)) kvs))"
proof (induction kvs)
  case (Cons kv kvs)
  then have "wires (fst kv # snd kv # kv_flat kvs)
      (f (fst kv) @ f (snd kv) @ concat (map (\<lambda>kv. f (fst kv) @ f (snd kv)) kvs))"
    by (intro wires_Cons) auto
  then show ?case by (simp add: kv_flat_def)
qed (simp add: kv_flat_def wires_Nil)

lemma object_pack_visit_fmt:
  assumes "wf_object obj" and "\<And>os. obj \<noteq> O_ARRAY os" "\<And>kvs. obj \<noteq> O_MAP kvs"
  shows "fmt (Scalar obj) (pack_object obj)"
proof (cases obj)
  case (O_POSITIVE_INTEGER n)
  then show ?thesis using pack_uint64_fmt[of "int n"] assms(1) by (simp add: int_object_def)
next
  case (O_NEGATIVE_INTEGER i)
  then show ?thesis using pack_int64_fmt[of i] assms(1) by (simp add: int_object_def)
next
  case (O_FLOAT32 b)
  then show ?thesis
    using fmt_float[of "msgpack_store 4 (int b)"] assms(1) by (simp add: pack_float_def be_nat_store)
next
  case (O_FLOAT64 b)
  then show ?thesis
    using fmt_double[of "msgpack_store 8 (int b)"] assms(1) by (simp add: pack_double_def be_nat_store)
next
  case (O_EXT v)
  then show ?thesis using pack_ext_fmt[of "tl v" "hd v"] assms(1) by (cases v) auto
qed (use assms fmt_nil fmt_bool[of True] fmt_bool[of False] pack_str_fmt pack_bin_fmt in
      \<open>auto simp: pack_nil_def pack_true_def pack_false_def\<close>)

lemma pack_object_wire: "wf_object obj \<Longrightarrow> wire obj (pack_object obj)"
proof (induction obj rule: pack_object.induct)
  case (1 os)
  then have "wires os (concat (map pack_object os))" by (intro wires_concat) auto
  moreover have "fmt (Open_array (length os)) (pack_array (length os))"
    using 1 by (intro pack_array_fmt) simp
  ultimately show ?case by (simp add: wire_array)
next
  case (2 kvs)
  then have "wires (kv_flat kvs) (concat (map (\<lambda>kv. pack_object (fst kv) @ pack_object (snd kv)) kvs))"
    by (intro wires_kv_flat) auto
  moreover have "fmt (Open_map (length kvs)) (pack_map (length kvs))"
    using 2 by (intro pack_map_fmt) simp
  ultimately show ?case by (simp add: wire_map)
qed (rule wire_scalar, rule object_pack_visit_fmt; simp)+

subsection \<open>The packer writes the shortest encoding\<close>

lemma load_signed_bounds:
  assumes "length bs = k"
  shows "- (256 ^ k) \<le> 2 * load_signed k bs" and "2 * load_signed k bs < 256 ^ k"
proof -
  define u where "u = int (be_nat bs)"
  have "0 \<le> u" and "u < 256 ^ k"
    using be_nat_less[of bs] assms by (auto simp: u_def)
  moreover have "load_signed k bs = (if 2 * u < 256 ^ k then u else u - 256 ^ k)"
    using assms by (simp add: load_signed_def Let_def u_def)
  ultimately show "- (256 ^ k) \<le> 2 * load_signed k bs" and "2 * load_signed k bs < 256 ^ k" by auto
qed

lemma fmt_shortest: "fmt tok bs \<Longrightarrow> length (token_pack tok) \<le> length bs"
proof (induction rule: fmt.induct)
  case (fmt_uint c k bs)
  then show ?case using be_nat_less[of bs] by (auto simp: pack_int_defs)
next
  case (fmt_int c k bs)
  then show ?case using load_signed_bounds[of bs k] by (auto simp: int_object_def pack_int_defs)
next
  case (fmt_array c k bs)
  then show ?case using be_nat_less[of bs] by (auto simp: pack_array_def)
next
  case (fmt_map c k bs)
  then show ?case using be_nat_less[of bs] by (auto simp: pack_map_def)
next
  case (fmt_str c k bs s)
  then show ?case using be_nat_less[of bs] by (auto simp: pack_str_def pack_str_body_def)
next
  case (fmt_bin c k bs s)
  then show ?case using be_nat_less[of bs] by (auto simp: pack_bin_def pack_bin_body_def)
next
  case (fmt_ext c k bs s ty)
  then show ?case using be_nat_less[of bs] by (auto simp: pack_ext_def pack_ext_body_def)
qed (auto simp: pack_nil_def pack_true_def pack_false_def pack_int_defs pack_float_def pack_double_def
       pack_str_def pack_str_body_def pack_ext_def pack_ext_body_def pack_array_def pack_map_def)

lemma fmt_scalar: "fmt (Scalar obj) bs \<Longrightarrow> pack_object obj = object_pack_visit obj"
  by (cases "Scalar obj" bs rule: fmt.cases) (auto simp: int_object_def)

lemma concat_kv_flat:
  "concat (map f (kv_flat kvs)) = concat (map (\<lambda>kv. f (fst kv) @ f (snd kv)) kvs)"
  by (induction kvs) (auto simp: kv_flat_def)

lemma wire_shortest:
  "wire obj bs \<Longrightarrow> length (pack_object obj) \<le> length bs"
  "wires os bs \<Longrightarrow> length (concat (map pack_object os)) \<le> length bs"
proof (induction rule: wire_wires.inducts)
  case (wire_scalar obj bs)
  then show ?case using fmt_shortest[of "Scalar obj" bs] fmt_scalar by simp
next
  case (wire_array os h bs)
  then show ?case using fmt_shortest[of "Open_array (length os)" h] by simp
next
  case (wire_map kvs h bs)
  then show ?case using fmt_shortest[of "Open_map (length kvs)" h] by (simp add: concat_kv_flat)
qed auto

lemma be_nat_le: "length bs \<le> k \<Longrightarrow> be_nat bs < 256 ^ k"
  using be_nat_less[of bs] power_increasing[of "length bs" k "256 :: nat"] by linarith

lemma be_nat_bounds:
  "length bs \<le> 4 \<Longrightarrow> be_nat bs < 4294967296"
  "length bs \<le> 8 \<Longrightarrow> be_nat bs < 18446744073709551616"
  "be_nat bs = length s \<Longrightarrow> length bs \<le> 4 \<Longrightarrow> length s < 4294967296"
  "be_nat bs = length s \<Longrightarrow> length bs \<le> 4 \<Longrightarrow> length s \<le> 4294967295"
  using be_nat_le[of bs 4] be_nat_le[of bs 8] by auto

lemma fmt_wf: "fmt tok bs \<Longrightarrow>
    (case tok of Scalar obj \<Rightarrow> wf_object obj | Open_array n \<Rightarrow> n < 2 ^ 32 | Open_map n \<Rightarrow> n < 2 ^ 32)"
proof (induction rule: fmt.induct)
  case (fmt_int c k bs)
  then show ?case using load_signed_bounds[of bs k] by (auto simp: int_object_def)
qed (auto intro: be_nat_bounds)

lemma wire_wf:
  "wire obj bs \<Longrightarrow> wf_object obj"
  "wires os bs \<Longrightarrow> \<forall>obj \<in> set os. wf_object obj"
proof (induction rule: wire_wires.inducts)
  case (wire_map kvs h bs)
  then show ?case using fmt_wf[of "Open_map (length kvs)" h] by (force simp: kv_flat_def)
qed (auto dest: fmt_wf)

text \<open>C16: The packer writes a well-formed object (the values its fields can hold) in the wire format,
  and in the shortest of the encodings that the format has for the object.\<close>
theorem pack_object_canonical:
  assumes "wf_object obj"
  shows "wire obj (pack_object_adaptor obj)
    \<and> (\<forall>bs. wire obj bs \<longrightarrow> length (pack_object_adaptor obj) \<le> length bs)"
  using pack_object_wire[OF assms] wire_shortest(1)
  by (simp add: pack_object_adaptor_def object_parser_parse_pack)

theorem pack_object_canonical_witness:
  "wire (O_ARRAY [O_NEGATIVE_INTEGER (- 33), O_STR ''hi'']) (pack_object_adaptor (O_ARRAY [O_NEGATIVE_INTEGER (- 33), O_STR ''hi'']))
    \<and> length (pack_object_adaptor (O_ARRAY [O_NEGATIVE_INTEGER (- 33), O_STR ''hi''])) = 6"
proof -
  have "length (pack_object_adaptor (O_ARRAY [O_NEGATIVE_INTEGER (- 33), O_STR ''hi''])) = 6"
    by code_simp
  then show ?thesis
    using pack_object_canonical[of "O_ARRAY [O_NEGATIVE_INTEGER (- 33), O_STR ''hi'']"] by simp
qed

end
