(* ===== verification/Msgpack_Parse.thy ===== *)
theory Msgpack_Parse
  imports Msgpack_Pack
begin

text \<open>
  The streaming parser of the MessagePack library (\<open>src/3rdpart/msgpack/msgpack/v2/parse.hpp\<close> and
  \<open>v3/parse.hpp\<close>) with the visitor that builds objects (\<open>v2/create_object_visitor.hpp\<close>).

  \<open>context::execute\<close> is modelled statement by statement: the pointers \<open>m_current\<close> and \<open>n\<close> are the
  list of the bytes from the pointer to \<open>pe\<close>, so that \<open>pe - m_current\<close> is its length and
  \<open>off\<close> is the length of the data less the length of the list.  The loop consumes a byte at each
  turn or sets \<open>fixed_trail_again\<close>, hence it is a total function.  An exception is a
  \<open>Throw\<close>; with it go the position that \<open>off\<close> has if the code stored one before throwing
  and the context that the exception leaves behind.

  The visitor writes into a tree of objects through a stack of pointers; the model keeps the
  object that the top pointer designates and, for each enclosing collection, the members that
  are already complete (\<open>object_kv\<close> members as keys and values in turn, the way the code steps
  through them with one \<open>object\<close> pointer).  The functions of this visitor return true or throw,
  so that the branches for \<open>PARSE_STOP_VISITOR\<close> are never taken.  Memory is not limited.
\<close>

unbundle bit_operations_syntax

subsection \<open>States, results and limits\<close>

abbreviation (input) MSGPACK_CS_HEADER :: nat where "MSGPACK_CS_HEADER \<equiv> 0x00"
abbreviation (input) MSGPACK_CS_BIN_8 :: nat where "MSGPACK_CS_BIN_8 \<equiv> 0x04"
abbreviation (input) MSGPACK_CS_BIN_16 :: nat where "MSGPACK_CS_BIN_16 \<equiv> 0x05"
abbreviation (input) MSGPACK_CS_BIN_32 :: nat where "MSGPACK_CS_BIN_32 \<equiv> 0x06"
abbreviation (input) MSGPACK_CS_EXT_8 :: nat where "MSGPACK_CS_EXT_8 \<equiv> 0x07"
abbreviation (input) MSGPACK_CS_EXT_16 :: nat where "MSGPACK_CS_EXT_16 \<equiv> 0x08"
abbreviation (input) MSGPACK_CS_EXT_32 :: nat where "MSGPACK_CS_EXT_32 \<equiv> 0x09"
abbreviation (input) MSGPACK_CS_FLOAT :: nat where "MSGPACK_CS_FLOAT \<equiv> 0x0a"
abbreviation (input) MSGPACK_CS_DOUBLE :: nat where "MSGPACK_CS_DOUBLE \<equiv> 0x0b"
abbreviation (input) MSGPACK_CS_UINT_8 :: nat where "MSGPACK_CS_UINT_8 \<equiv> 0x0c"
abbreviation (input) MSGPACK_CS_UINT_16 :: nat where "MSGPACK_CS_UINT_16 \<equiv> 0x0d"
abbreviation (input) MSGPACK_CS_UINT_32 :: nat where "MSGPACK_CS_UINT_32 \<equiv> 0x0e"
abbreviation (input) MSGPACK_CS_UINT_64 :: nat where "MSGPACK_CS_UINT_64 \<equiv> 0x0f"
abbreviation (input) MSGPACK_CS_INT_8 :: nat where "MSGPACK_CS_INT_8 \<equiv> 0x10"
abbreviation (input) MSGPACK_CS_INT_16 :: nat where "MSGPACK_CS_INT_16 \<equiv> 0x11"
abbreviation (input) MSGPACK_CS_INT_32 :: nat where "MSGPACK_CS_INT_32 \<equiv> 0x12"
abbreviation (input) MSGPACK_CS_INT_64 :: nat where "MSGPACK_CS_INT_64 \<equiv> 0x13"
abbreviation (input) MSGPACK_CS_FIXEXT_1 :: nat where "MSGPACK_CS_FIXEXT_1 \<equiv> 0x14"
abbreviation (input) MSGPACK_CS_FIXEXT_2 :: nat where "MSGPACK_CS_FIXEXT_2 \<equiv> 0x15"
abbreviation (input) MSGPACK_CS_FIXEXT_4 :: nat where "MSGPACK_CS_FIXEXT_4 \<equiv> 0x16"
abbreviation (input) MSGPACK_CS_FIXEXT_8 :: nat where "MSGPACK_CS_FIXEXT_8 \<equiv> 0x17"
abbreviation (input) MSGPACK_CS_FIXEXT_16 :: nat where "MSGPACK_CS_FIXEXT_16 \<equiv> 0x18"
abbreviation (input) MSGPACK_CS_STR_8 :: nat where "MSGPACK_CS_STR_8 \<equiv> 0x19"
abbreviation (input) MSGPACK_CS_STR_16 :: nat where "MSGPACK_CS_STR_16 \<equiv> 0x1a"
abbreviation (input) MSGPACK_CS_STR_32 :: nat where "MSGPACK_CS_STR_32 \<equiv> 0x1b"
abbreviation (input) MSGPACK_CS_ARRAY_16 :: nat where "MSGPACK_CS_ARRAY_16 \<equiv> 0x1c"
abbreviation (input) MSGPACK_CS_ARRAY_32 :: nat where "MSGPACK_CS_ARRAY_32 \<equiv> 0x1d"
abbreviation (input) MSGPACK_CS_MAP_16 :: nat where "MSGPACK_CS_MAP_16 \<equiv> 0x1e"
abbreviation (input) MSGPACK_CS_MAP_32 :: nat where "MSGPACK_CS_MAP_32 \<equiv> 0x1f"
abbreviation (input) MSGPACK_ACS_STR_VALUE :: nat where "MSGPACK_ACS_STR_VALUE \<equiv> 0x20"
abbreviation (input) MSGPACK_ACS_BIN_VALUE :: nat where "MSGPACK_ACS_BIN_VALUE \<equiv> 0x21"
abbreviation (input) MSGPACK_ACS_EXT_VALUE :: nat where "MSGPACK_ACS_EXT_VALUE \<equiv> 0x22"

datatype msgpack_container_type = CT_ARRAY_ITEM | CT_MAP_KEY | CT_MAP_VALUE

datatype parse_return =
  PARSE_SUCCESS | PARSE_EXTRA_BYTES | PARSE_CONTINUE | PARSE_PARSE_ERROR | PARSE_STOP_VISITOR

datatype msgpack_error =
    parse_error
  | insufficient_bytes
  | array_size_overflow
  | map_size_overflow
  | str_size_overflow
  | bin_size_overflow
  | ext_size_overflow
  | depth_size_overflow
  | type_error
  | container_size_overflow

record unpack_limit =
  limit_array :: nat
  limit_map :: nat
  limit_str :: nat
  limit_bin :: nat
  limit_ext :: nat
  limit_depth :: nat

definition unpack_limit_default :: unpack_limit where
  "unpack_limit_default =
     \<lparr>limit_array = 0xffffffff, limit_map = 0xffffffff, limit_str = 0xffffffff,
      limit_bin = 0xffffffff, limit_ext = 0xffffffff, limit_depth = 0xffffffff\<rparr>"

subsection \<open>The visitor that creates objects\<close>

record create_object_visitor =
  v_obj :: mobject
    \<comment> \<open>\<open>*m_stack.back()\<close>\<close>
  v_frames :: "mobject list list"
    \<comment> \<open>the complete members of the collections entered, the innermost one first\<close>
  v_func :: bool
    \<comment> \<open>\<open>m_func\<close>, a constant function here: true (the unpacker refers to strings inside its buffer)
        or a null pointer (\<open>msgpack::unpack\<close> copies them)\<close>
  v_referenced :: bool

definition visitor_new :: "bool \<Rightarrow> create_object_visitor" where
  "visitor_new f = \<lparr>v_obj = O_NIL, v_frames = [], v_func = f, v_referenced = False\<rparr>"

definition visitor_init :: "create_object_visitor \<Rightarrow> create_object_visitor" where
  "visitor_init v = v\<lparr>v_obj := O_NIL, v_frames := []\<rparr>"

definition visit_nil :: "create_object_visitor \<Rightarrow> msgpack_error + create_object_visitor" where
  "visit_nil v = Inr (v\<lparr>v_obj := O_NIL\<rparr>)"

definition visit_boolean :: "bool \<Rightarrow> create_object_visitor \<Rightarrow> msgpack_error + create_object_visitor" where
  "visit_boolean b v = Inr (v\<lparr>v_obj := O_BOOLEAN b\<rparr>)"

definition visit_positive_integer :: "nat \<Rightarrow> create_object_visitor \<Rightarrow> msgpack_error + create_object_visitor" where
  "visit_positive_integer n v = Inr (v\<lparr>v_obj := O_POSITIVE_INTEGER n\<rparr>)"

definition visit_negative_integer :: "int \<Rightarrow> create_object_visitor \<Rightarrow> msgpack_error + create_object_visitor" where
  "visit_negative_integer i v =
     Inr (v\<lparr>v_obj := (if i \<ge> 0 then O_POSITIVE_INTEGER (nat i) else O_NEGATIVE_INTEGER i)\<rparr>)"

definition visit_float32 :: "nat \<Rightarrow> create_object_visitor \<Rightarrow> msgpack_error + create_object_visitor" where
  "visit_float32 bits v = Inr (v\<lparr>v_obj := O_FLOAT32 bits\<rparr>)"

definition visit_float64 :: "nat \<Rightarrow> create_object_visitor \<Rightarrow> msgpack_error + create_object_visitor" where
  "visit_float64 bits v = Inr (v\<lparr>v_obj := O_FLOAT64 bits\<rparr>)"

text \<open>
  The three functions below are called with the pointer \<open>n\<close> and \<open>static_cast<uint32_t>(m_trail)\<close>;
  the object refers to (or copies) the bytes at \<open>n\<close>.  For an \<open>EXT\<close> of \<open>2 ^ 32 - 1\<close> bytes of payload the
  cast gives 0, which passes the limit, and \<open>size - 1\<close> then gives the payload size back.
\<close>

definition visit_str :: "unpack_limit \<Rightarrow> string \<Rightarrow> nat \<Rightarrow> create_object_visitor \<Rightarrow> msgpack_error + create_object_visitor" where
  "visit_str lim n sz v =
     (if sz mod 2 ^ 32 > limit_str lim then Inl str_size_overflow
      else Inr (v\<lparr>v_obj := O_STR (take sz n), v_referenced := v_referenced v \<or> v_func v\<rparr>))"

definition visit_bin :: "unpack_limit \<Rightarrow> string \<Rightarrow> nat \<Rightarrow> create_object_visitor \<Rightarrow> msgpack_error + create_object_visitor" where
  "visit_bin lim n sz v =
     (if sz mod 2 ^ 32 > limit_bin lim then Inl bin_size_overflow
      else Inr (v\<lparr>v_obj := O_BIN (take sz n), v_referenced := v_referenced v \<or> v_func v\<rparr>))"

definition visit_ext :: "unpack_limit \<Rightarrow> string \<Rightarrow> nat \<Rightarrow> create_object_visitor \<Rightarrow> msgpack_error + create_object_visitor" where
  "visit_ext lim n sz v =
     (if sz mod 2 ^ 32 > limit_ext lim then Inl ext_size_overflow
      else Inr (v\<lparr>v_obj := O_EXT (take sz n), v_referenced := v_referenced v \<or> v_func v\<rparr>))"

definition start_array :: "unpack_limit \<Rightarrow> nat \<Rightarrow> create_object_visitor \<Rightarrow> msgpack_error + create_object_visitor" where
  "start_array lim num v =
     (if num > limit_array lim then Inl array_size_overflow
      else if Suc (length (v_frames v)) > limit_depth lim then Inl depth_size_overflow
      else Inr (v\<lparr>v_frames := [] # v_frames v\<rparr>))"

definition start_map :: "unpack_limit \<Rightarrow> nat \<Rightarrow> create_object_visitor \<Rightarrow> msgpack_error + create_object_visitor" where
  "start_map lim num v =
     (if num > limit_map lim then Inl map_size_overflow
      else if Suc (length (v_frames v)) > limit_depth lim then Inl depth_size_overflow
      else Inr (v\<lparr>v_frames := [] # v_frames v\<rparr>))"

definition end_item :: "create_object_visitor \<Rightarrow> create_object_visitor" where
  \<comment> \<open>\<open>end_array_item\<close>, \<open>end_map_key\<close>, \<open>end_map_value\<close>: \<open>++m_stack.back()\<close>\<close>
  "end_item v = v\<lparr>v_frames := (hd (v_frames v) @ [v_obj v]) # tl (v_frames v)\<rparr>"

fun kv_pairs :: "mobject list \<Rightarrow> (mobject \<times> mobject) list" where
  "kv_pairs (k # v # os) = (k, v) # kv_pairs os"
| "kv_pairs os = []"

definition end_array :: "create_object_visitor \<Rightarrow> create_object_visitor" where
  "end_array v = v\<lparr>v_obj := O_ARRAY (hd (v_frames v)), v_frames := tl (v_frames v)\<rparr>"

definition end_map :: "create_object_visitor \<Rightarrow> create_object_visitor" where
  "end_map v = v\<lparr>v_obj := O_MAP (kv_pairs (hd (v_frames v))), v_frames := tl (v_frames v)\<rparr>"

subsection \<open>The parsing context\<close>

record context_t =
  m_trail :: nat
  m_cs :: nat
  m_stack :: "(msgpack_container_type \<times> nat) list"
    \<comment> \<open>\<open>unpack_stack\<close>, the top first: \<open>m_type\<close> and \<open>m_rest\<close>\<close>
  m_visitor :: create_object_visitor

definition context_new :: "bool \<Rightarrow> context_t" where
  "context_new f = \<lparr>m_trail = 0, m_cs = MSGPACK_CS_HEADER, m_stack = [], m_visitor = visitor_new f\<rparr>"

definition context_init :: "context_t \<Rightarrow> context_t" where
  "context_init c = c\<lparr>m_cs := MSGPACK_CS_HEADER, m_trail := 0, m_stack := [], m_visitor := visitor_init (m_visitor c)\<rparr>"

definition dec32 :: "nat \<Rightarrow> nat" where
  "dec32 r = (r + (2 ^ 32 - 1)) mod 2 ^ 32"

fun stack_consume ::
  "(msgpack_container_type \<times> nat) list \<Rightarrow> create_object_visitor
   \<Rightarrow> parse_return \<times> (msgpack_container_type \<times> nat) list \<times> create_object_visitor" where
  "stack_consume [] v = (PARSE_SUCCESS, [], v)"
| "stack_consume ((CT_ARRAY_ITEM, rest) # st) v =
     (if dec32 rest = 0 then stack_consume st (end_array (end_item v))
      else (PARSE_CONTINUE, (CT_ARRAY_ITEM, dec32 rest) # st, end_item v))"
| "stack_consume ((CT_MAP_KEY, rest) # st) v =
     (PARSE_CONTINUE, (CT_MAP_VALUE, rest) # st, end_item v)"
| "stack_consume ((CT_MAP_VALUE, rest) # st) v =
     (if dec32 rest = 0 then stack_consume st (end_map (end_item v))
      else (PARSE_CONTINUE, (CT_MAP_KEY, dec32 rest) # st, end_item v))"

datatype flow =
    Throw msgpack_error "string option" context_t
  | Return parse_return context_t string
  | Go context_t string bool
    \<comment> \<open>go on with \<open>m_current\<close> and \<open>fixed_trail_again\<close>\<close>

definition after_visit_proc :: "msgpack_error + create_object_visitor \<Rightarrow> context_t \<Rightarrow> string \<Rightarrow> flow" where
  "after_visit_proc visret c cur =
     (case visret of
        Inl e \<Rightarrow> Throw e None c
      | Inr v \<Rightarrow>
          (case stack_consume (m_stack c) v of (ret, st, v') \<Rightarrow>
             let c' = c\<lparr>m_cs := MSGPACK_CS_HEADER, m_stack := st, m_visitor := v'\<rparr> in
             if ret \<noteq> PARSE_CONTINUE then Return ret c' (tl cur) else Go c' (tl cur) False))"

definition start_aggregate ::
  "msgpack_container_type \<Rightarrow> (nat \<Rightarrow> create_object_visitor \<Rightarrow> msgpack_error + create_object_visitor)
   \<Rightarrow> (create_object_visitor \<Rightarrow> create_object_visitor) \<Rightarrow> nat \<Rightarrow> context_t \<Rightarrow> string \<Rightarrow> flow" where
  \<comment> \<open>\<open>sz\<close> is what \<open>load\<close> reads at \<open>load_pos\<close>\<close>
  "start_aggregate ty sv ev sz c cur =
     (case sv sz (m_visitor c) of
        Inl e \<Rightarrow> Throw e None c
      | Inr v \<Rightarrow>
          if sz = 0 then
            (case stack_consume (m_stack c) (ev v) of (ret, st, v') \<Rightarrow>
               let c' = c\<lparr>m_stack := st, m_visitor := v'\<rparr> in
               if ret \<noteq> PARSE_CONTINUE then Return ret c' (tl cur)
               else Go (c'\<lparr>m_cs := MSGPACK_CS_HEADER\<rparr>) (tl cur) False)
          else
            Go (c\<lparr>m_stack := (ty, sz mod 2 ^ 32) # m_stack c, m_visitor := v, m_cs := MSGPACK_CS_HEADER\<rparr>)
               (tl cur) False)"

definition trail_table :: "nat list" where
  "trail_table = [1, 2, 4, 1, 2, 4, 4, 8, 1, 2, 4, 8, 1, 2, 4, 8, 2, 3, 5, 9, 17, 1, 2, 4, 2, 4, 2, 4]"

definition next_cs :: "char \<Rightarrow> nat" where
  "next_cs p = of_char p AND 0x1f"

definition execute_header :: "unpack_limit \<Rightarrow> context_t \<Rightarrow> string \<Rightarrow> flow" where
  "execute_header lim c cur =
     (let selector = (of_char (hd cur) :: nat); v = m_visitor c in
      if selector \<le> 0x7f then
        after_visit_proc (visit_positive_integer selector v) c cur
      else if 0xe0 \<le> selector then
        after_visit_proc (visit_negative_integer (load_signed 1 cur) v) c cur
      else if 0xc4 \<le> selector \<and> selector \<le> 0xdf then
        Go (c\<lparr>m_trail := trail_table ! (selector - 0xc4), m_cs := next_cs (hd cur)\<rparr>) cur True
      else if 0xa0 \<le> selector \<and> selector \<le> 0xbf then
        (let c = c\<lparr>m_trail := selector AND 0x1f\<rparr> in
         if m_trail c = 0 then after_visit_proc (visit_str lim [] (m_trail c) v) c cur
         else Go (c\<lparr>m_cs := MSGPACK_ACS_STR_VALUE\<rparr>) cur True)
      else if 0x90 \<le> selector \<and> selector \<le> 0x9f then
        start_aggregate CT_ARRAY_ITEM (start_array lim) end_array (selector AND 0x0f) c cur
      else if 0x80 \<le> selector \<and> selector \<le> 0x8f then
        start_aggregate CT_MAP_KEY (start_map lim) end_map (selector AND 0x0f) c cur
      else if selector = 0xc2 then after_visit_proc (visit_boolean False v) c cur
      else if selector = 0xc3 then after_visit_proc (visit_boolean True v) c cur
      else if selector = 0xc0 then after_visit_proc (visit_nil v) c cur
      else Throw parse_error (Some cur) c)"

definition load_length ::
  "nat \<Rightarrow> nat \<Rightarrow> (nat \<Rightarrow> create_object_visitor \<Rightarrow> msgpack_error + create_object_visitor)
   \<Rightarrow> context_t \<Rightarrow> string \<Rightarrow> flow" where
  \<comment> \<open>the common shape of the cases \<open>STR_8\<close> to \<open>EXT_32\<close>: an empty value is visited at once, any
      other is read by the next turn of the loop\<close>
  "load_length trail acs vis c cur =
     (let c = c\<lparr>m_trail := trail\<rparr> in
      if m_trail c = 0 then after_visit_proc (vis (m_trail c) (m_visitor c)) c cur
      else Go (c\<lparr>m_cs := acs\<rparr>) cur True)"

definition execute_switch :: "unpack_limit \<Rightarrow> context_t \<Rightarrow> string \<Rightarrow> string \<Rightarrow> flow" where
  \<comment> \<open>the \<open>switch\<close> on \<open>m_cs\<close>, with \<open>n\<close> the first byte of the trail and \<open>cur\<close> the last one\<close>
  "execute_switch lim c n cur =
     (let v = m_visitor c; cs = m_cs c in
      if cs = MSGPACK_CS_FLOAT then after_visit_proc (visit_float32 (load_unsigned 4 n) v) c cur
      else if cs = MSGPACK_CS_DOUBLE then after_visit_proc (visit_float64 (load_unsigned 8 n) v) c cur
      else if cs = MSGPACK_CS_UINT_8 then after_visit_proc (visit_positive_integer (load_unsigned 1 n) v) c cur
      else if cs = MSGPACK_CS_UINT_16 then after_visit_proc (visit_positive_integer (load_unsigned 2 n) v) c cur
      else if cs = MSGPACK_CS_UINT_32 then after_visit_proc (visit_positive_integer (load_unsigned 4 n) v) c cur
      else if cs = MSGPACK_CS_UINT_64 then after_visit_proc (visit_positive_integer (load_unsigned 8 n) v) c cur
      else if cs = MSGPACK_CS_INT_8 then after_visit_proc (visit_negative_integer (load_signed 1 n) v) c cur
      else if cs = MSGPACK_CS_INT_16 then after_visit_proc (visit_negative_integer (load_signed 2 n) v) c cur
      else if cs = MSGPACK_CS_INT_32 then after_visit_proc (visit_negative_integer (load_signed 4 n) v) c cur
      else if cs = MSGPACK_CS_INT_64 then after_visit_proc (visit_negative_integer (load_signed 8 n) v) c cur
      else if cs = MSGPACK_CS_FIXEXT_1 then after_visit_proc (visit_ext lim n (1 + 1) v) c cur
      else if cs = MSGPACK_CS_FIXEXT_2 then after_visit_proc (visit_ext lim n (2 + 1) v) c cur
      else if cs = MSGPACK_CS_FIXEXT_4 then after_visit_proc (visit_ext lim n (4 + 1) v) c cur
      else if cs = MSGPACK_CS_FIXEXT_8 then after_visit_proc (visit_ext lim n (8 + 1) v) c cur
      else if cs = MSGPACK_CS_FIXEXT_16 then after_visit_proc (visit_ext lim n (16 + 1) v) c cur
      else if cs = MSGPACK_CS_STR_8 then load_length (load_unsigned 1 n) MSGPACK_ACS_STR_VALUE (visit_str lim n) c cur
      else if cs = MSGPACK_CS_BIN_8 then load_length (load_unsigned 1 n) MSGPACK_ACS_BIN_VALUE (visit_bin lim n) c cur
      else if cs = MSGPACK_CS_EXT_8 then load_length (load_unsigned 1 n + 1) MSGPACK_ACS_EXT_VALUE (visit_ext lim n) c cur
      else if cs = MSGPACK_CS_STR_16 then load_length (load_unsigned 2 n) MSGPACK_ACS_STR_VALUE (visit_str lim n) c cur
      else if cs = MSGPACK_CS_BIN_16 then load_length (load_unsigned 2 n) MSGPACK_ACS_BIN_VALUE (visit_bin lim n) c cur
      else if cs = MSGPACK_CS_EXT_16 then load_length (load_unsigned 2 n + 1) MSGPACK_ACS_EXT_VALUE (visit_ext lim n) c cur
      else if cs = MSGPACK_CS_STR_32 then load_length (load_unsigned 4 n) MSGPACK_ACS_STR_VALUE (visit_str lim n) c cur
      else if cs = MSGPACK_CS_BIN_32 then load_length (load_unsigned 4 n) MSGPACK_ACS_BIN_VALUE (visit_bin lim n) c cur
      else if cs = MSGPACK_CS_EXT_32 then load_length (load_unsigned 4 n + 1) MSGPACK_ACS_EXT_VALUE (visit_ext lim n) c cur
      else if cs = MSGPACK_ACS_STR_VALUE then after_visit_proc (visit_str lim n (m_trail c) v) c cur
      else if cs = MSGPACK_ACS_BIN_VALUE then after_visit_proc (visit_bin lim n (m_trail c) v) c cur
      else if cs = MSGPACK_ACS_EXT_VALUE then after_visit_proc (visit_ext lim n (m_trail c) v) c cur
      else if cs = MSGPACK_CS_ARRAY_16 then
        start_aggregate CT_ARRAY_ITEM (start_array lim) end_array (load_unsigned 2 n) c cur
      else if cs = MSGPACK_CS_ARRAY_32 then
        start_aggregate CT_ARRAY_ITEM (start_array lim) end_array (load_unsigned 4 n) c cur
      else if cs = MSGPACK_CS_MAP_16 then
        start_aggregate CT_MAP_KEY (start_map lim) end_map (load_unsigned 2 n) c cur
      else if cs = MSGPACK_CS_MAP_32 then
        start_aggregate CT_MAP_KEY (start_map lim) end_map (load_unsigned 4 n) c cur
      else Throw parse_error (Some cur) c)"

definition execute_trail :: "unpack_limit \<Rightarrow> context_t \<Rightarrow> string \<Rightarrow> bool \<Rightarrow> flow" where
  "execute_trail lim c cur again =
     (let cur = (if again then tl cur else cur) in
      if length cur < m_trail c then Return PARSE_CONTINUE c cur
      else execute_switch lim c cur (drop (m_trail c - 1) cur))"

definition execute_turn :: "unpack_limit \<Rightarrow> context_t \<Rightarrow> string \<Rightarrow> bool \<Rightarrow> flow" where
  \<comment> \<open>one turn of the \<open>do\<close> loop\<close>
  "execute_turn lim c cur again =
     (case (if m_cs c = MSGPACK_CS_HEADER then execute_header lim c cur else Go c cur again) of
        Go c' cur' again' \<Rightarrow>
          if m_cs c' \<noteq> MSGPACK_CS_HEADER \<or> again' then execute_trail lim c' cur' again'
          else Go c' cur' again'
      | r \<Rightarrow> r)"

function execute_loop :: "unpack_limit \<Rightarrow> context_t \<Rightarrow> string \<Rightarrow> bool \<Rightarrow> flow" where
  \<comment> \<open>the test before the loop and the condition of the loop are both \<open>m_current == pe\<close>, and both
      exits return \<open>PARSE_CONTINUE\<close>\<close>
  "execute_loop lim c cur again =
     (if cur = [] then Return PARSE_CONTINUE c cur
      else (case execute_turn lim c cur again of
              Go c' cur' again' \<Rightarrow> execute_loop lim c' cur' again'
            | r \<Rightarrow> r))"
  by pat_completeness auto

termination
proof (relation "measure (\<lambda>(lim, c, cur, again). 2 * length cur - (if again then 1 else 0))", goal_cases)
  case 1
  show ?case by simp
next
  case (2 lim c cur again c' cur' again')
  have visit: "cur' = tl cur \<and> \<not> again' \<and> m_cs c' = MSGPACK_CS_HEADER"
    if "after_visit_proc r c cur = Go c' cur' again'" for r c cur c' cur' again'
    using that by (auto simp: after_visit_proc_def Let_def split: sum.splits prod.splits if_splits)
  have aggr: "cur' = tl cur \<and> \<not> again' \<and> m_cs c' = MSGPACK_CS_HEADER"
    if "start_aggregate ty sv ev sz c cur = Go c' cur' again'" for ty sv ev sz c cur c' cur' again'
    using that by (auto simp: start_aggregate_def Let_def split: sum.splits prod.splits if_splits)
  have len: "cur' = tl cur \<and> \<not> again' \<or> cur' = cur \<and> again'"
    if "load_length t acs vis c cur = Go c' cur' again'" for t acs vis c cur c' cur' again'
    using that by (auto simp: load_length_def Let_def dest: visit split: if_splits)
  have switch: "cur' = tl cur \<and> \<not> again' \<or> cur' = cur \<and> again'"
    if "execute_switch lim c n cur = Go c' cur' again'" for c n cur c' cur' again'
    using that unfolding execute_switch_def Let_def
    by (simp split: if_split_asm) (blast dest: visit aggr len)+
  have trail: "2 * length cur' - (if again' then 1 else 0) < 2 * length cur - (if a then 1 else 0)"
    if "execute_trail lim c cur a = Go c' cur' again'" "cur \<noteq> []" for c cur a c' cur' again'
    using that by (cases cur) (auto simp: execute_trail_def Let_def dest!: switch split: if_splits)
  have header: "cur1 = tl cur \<and> \<not> a \<and> m_cs c1 = MSGPACK_CS_HEADER \<or> cur1 = cur \<and> a"
    if "execute_header lim c cur = Go c1 cur1 a" for c cur c1 cur1 a
    using that unfolding execute_header_def Let_def
    by (simp split: if_split_asm) (blast dest: visit aggr)+
  have "2 * length cur' - (if again' then 1 else 0) < 2 * length cur - (if again then 1 else 0)"
    using 2 trail[of c cur again] trail[of _ cur True] header[of c cur]
    by (cases cur) (fastforce simp: execute_turn_def split: flow.splits if_splits)+
  then show ?case by simp
qed

declare execute_loop.simps [simp del]

definition execute :: "unpack_limit \<Rightarrow> context_t \<Rightarrow> string \<Rightarrow> nat \<Rightarrow> flow" where
  \<comment> \<open>\<open>context::execute(data, len, off)\<close> with \<open>len\<close> the length of the data\<close>
  "execute lim c data off = execute_loop lim c (drop off data) False"

definition run :: "unpack_limit \<Rightarrow> flow \<Rightarrow> flow" where
  "run lim f = (case f of Go c cur again \<Rightarrow> execute_loop lim c cur again | r \<Rightarrow> r)"

definition context_ok :: "context_t \<Rightarrow> bool" where
  \<comment> \<open>between two calls, \<open>m_trail\<close> is the number of bytes that the state waits for\<close>
  "context_ok c \<longleftrightarrow> m_cs c = MSGPACK_CS_HEADER
     \<or> (MSGPACK_CS_BIN_8 \<le> m_cs c \<and> m_cs c \<le> MSGPACK_CS_MAP_32 \<and> m_trail c = trail_table ! (m_cs c - 4))
     \<or> (MSGPACK_ACS_STR_VALUE \<le> m_cs c \<and> m_cs c \<le> MSGPACK_ACS_EXT_VALUE \<and> 1 \<le> m_trail c)"

fun flow_append :: "string \<Rightarrow> flow \<Rightarrow> flow" where
  "flow_append d (Throw e off c) = Throw e (map_option (\<lambda>s. s @ d) off) c"
| "flow_append d (Return r c cur) = Return r c (cur @ d)"
| "flow_append d (Go c cur again) = Go c (cur @ d) again"

definition flow_ok :: "flow \<Rightarrow> bool" where
  "flow_ok f = (case f of
       Throw e off c \<Rightarrow> True
     | Return r c cur \<Rightarrow> r \<noteq> PARSE_CONTINUE
     | Go c cur again \<Rightarrow> context_ok c \<and> (again \<longrightarrow> cur \<noteq> [] \<and> m_cs c \<noteq> 0))"

definition resume_with :: "unpack_limit \<Rightarrow> string \<Rightarrow> flow \<Rightarrow> flow" where
  \<comment> \<open>what the parser does with the bytes \<open>d\<close> that arrive after it returned\<close>
  "resume_with lim d f = (case f of
       Return PARSE_CONTINUE c cur \<Rightarrow> execute_loop lim c (cur @ d) False
     | r \<Rightarrow> flow_append d r)"

subsection \<open>Running the loop\<close>

lemma execute_loop_run:
  "execute_loop lim c cur again =
     (if cur = [] then Return PARSE_CONTINUE c cur else run lim (execute_turn lim c cur again))"
  by (subst execute_loop.simps) (simp add: run_def)

lemma execute_loop_Nil [simp]: "execute_loop lim c [] again = Return PARSE_CONTINUE c []"
  by (simp add: execute_loop_run)

lemma run_simps [simp]:
  "run lim (Throw e off c) = Throw e off c"
  "run lim (Return r c cur) = Return r c cur"
  "run lim (Go c cur again) = execute_loop lim c cur again"
  by (simp_all add: run_def)

lemma loop_header:
  "m_cs c = 0 \<Longrightarrow> execute_loop lim c (b # xs) again =
     run lim (case execute_header lim c (b # xs) of
                Go c' cur' again' \<Rightarrow>
                  if m_cs c' \<noteq> 0 \<or> again' then execute_trail lim c' cur' again' else Go c' cur' again'
              | r \<Rightarrow> r)"
  by (subst execute_loop_run) (simp add: execute_turn_def)

lemma loop_body:
  "m_cs c \<noteq> 0 \<Longrightarrow> cur \<noteq> [] \<Longrightarrow> execute_loop lim c cur again = run lim (execute_trail lim c cur again)"
  by (subst execute_loop_run) (simp add: execute_turn_def)

lemma trail_table_pos: "i < 28 \<Longrightarrow> 1 \<le> trail_table ! i"
proof -
  have "\<forall>i \<in> set [0..<28]. 1 \<le> trail_table ! i" by code_simp
  then show "i < 28 \<Longrightarrow> 1 \<le> trail_table ! i" by auto
qed

lemma context_ok_trail: "context_ok c \<Longrightarrow> m_cs c \<noteq> 0 \<Longrightarrow> 1 \<le> m_trail c"
  using trail_table_pos[of "m_cs c - 4"] by (auto simp: context_ok_def)

lemma and_low:
  fixes n :: nat
  shows "n AND 0x1f = n mod 32" and "n AND 0x0f = n mod 16"
  using take_bit_eq_mask[of 5 n] take_bit_eq_mask[of 4 n]
  by (simp_all add: take_bit_eq_mod mask_eq_exp_minus_1)

lemma next_cs_byte:
  assumes "0xc0 \<le> b" and "b < 0xe0"
  shows "next_cs (byte b) = b - 0xc0"
proof -
  obtain k where k: "b = 0xc0 + k" "k < 32"
    using assms by (intro that[of "b - 0xc0"]) auto
  have "next_cs (byte b) = b mod 32" using assms by (simp add: next_cs_def and_low)
  also have "\<dots> = k" using k(2) mod_add_left_eq[of "0xc0" 32 k] by (simp add: k(1))
  finally show ?thesis by (simp add: k(1))
qed

subsection \<open>More bytes do not change what was parsed\<close>

lemma load_append:
  "k \<le> length n \<Longrightarrow> load_unsigned k (n @ d) = load_unsigned k n"
  "k \<le> length n \<Longrightarrow> load_signed k (n @ d) = load_signed k n"
  by (simp_all add: load_unsigned_def load_signed_def)

lemma visit_append:
  "sz \<le> length n \<Longrightarrow> visit_str lim (n @ d) sz = visit_str lim n sz"
  "sz \<le> length n \<Longrightarrow> visit_bin lim (n @ d) sz = visit_bin lim n sz"
  "sz \<le> length n \<Longrightarrow> visit_ext lim (n @ d) sz = visit_ext lim n sz"
  by (auto simp: visit_str_def visit_bin_def visit_ext_def)

lemma after_visit_append:
  "cur \<noteq> [] \<Longrightarrow> after_visit_proc r c (cur @ d) = flow_append d (after_visit_proc r c cur)"
  by (auto simp: after_visit_proc_def Let_def split: sum.split prod.split)

lemma start_aggregate_append:
  "cur \<noteq> [] \<Longrightarrow> start_aggregate ty sv ev sz c (cur @ d) = flow_append d (start_aggregate ty sv ev sz c cur)"
  by (auto simp: start_aggregate_def Let_def split: sum.split prod.split)

lemma load_length_append:
  "cur \<noteq> [] \<Longrightarrow> (\<And>v. vis' 0 v = vis 0 v) \<Longrightarrow>
   load_length t acs vis' c (cur @ d) = flow_append d (load_length t acs vis c cur)"
  by (auto simp: load_length_def Let_def after_visit_append)

lemma execute_header_append:
  "cur \<noteq> [] \<Longrightarrow> execute_header lim c (cur @ d) = flow_append d (execute_header lim c cur)"
  using load_append(2)[of 1 cur d]
  by (simp add: execute_header_def Let_def after_visit_append start_aggregate_append Suc_le_eq)

lemma if_append:
  "(P \<Longrightarrow> f = flow_append d f') \<Longrightarrow> (\<not> P \<Longrightarrow> g = flow_append d g')
   \<Longrightarrow> (if P then f else g) = flow_append d (if P then f' else g')"
  by simp

lemma trail_width:
  assumes "context_ok c" and "m_trail c \<le> length n"
  shows "m_cs c \<in> {4, 7, 12, 16, 25} \<Longrightarrow> 1 \<le> length n"
    and "m_cs c \<in> {5, 8, 13, 17, 20, 26, 28, 30} \<Longrightarrow> 2 \<le> length n"
    and "m_cs c = 21 \<Longrightarrow> 3 \<le> length n"
    and "m_cs c \<in> {6, 9, 10, 14, 18, 27, 29, 31} \<Longrightarrow> 4 \<le> length n"
    and "m_cs c = 22 \<Longrightarrow> 5 \<le> length n"
    and "m_cs c \<in> {11, 15, 19} \<Longrightarrow> 8 \<le> length n"
    and "m_cs c = 23 \<Longrightarrow> 9 \<le> length n"
    and "m_cs c = 24 \<Longrightarrow> 17 \<le> length n"
  using assms by (auto simp: context_ok_def trail_table_def)

lemma execute_switch_append:
  assumes "context_ok c" and "m_trail c \<le> length n" and "cur \<noteq> []"
  shows "execute_switch lim c (n @ d) (cur @ d) = flow_append d (execute_switch lim c n cur)"
  unfolding execute_switch_def Let_def
  by (intro if_append)
    (use assms(2,3) trail_width[OF assms(1,2)] in \<open>simp_all add: after_visit_append start_aggregate_append
      load_append visit_append load_length_append\<close>)

lemma after_visit_ok: "flow_ok (after_visit_proc r c cur)"
  by (auto simp: after_visit_proc_def flow_ok_def context_ok_def Let_def split: sum.split prod.split)

lemma start_aggregate_ok: "flow_ok (start_aggregate ty sv ev sz c cur)"
  by (auto simp: start_aggregate_def flow_ok_def context_ok_def Let_def split: sum.split prod.split)

lemma load_length_ok: "cur \<noteq> [] \<Longrightarrow> acs \<in> {32, 33, 34} \<Longrightarrow> flow_ok (load_length t acs vis c cur)"
  using after_visit_ok by (auto simp: load_length_def flow_ok_def context_ok_def Let_def)

lemma if_flow_ok: "(P \<Longrightarrow> flow_ok f) \<Longrightarrow> (\<not> P \<Longrightarrow> flow_ok g) \<Longrightarrow> flow_ok (if P then f else g)"
  by simp

lemmas flow_ok_rules = after_visit_ok start_aggregate_ok load_length_ok

lemma flow_ok_Throw [simp]: "flow_ok (Throw e off c)"
  by (simp add: flow_ok_def)

lemma execute_switch_ok: "cur \<noteq> [] \<Longrightarrow> flow_ok (execute_switch lim c n cur)"
  unfolding execute_switch_def Let_def by (intro if_flow_ok) (simp_all add: flow_ok_rules)

lemma execute_header_ok: "cur \<noteq> [] \<Longrightarrow> flow_ok (execute_header lim c cur)"
proof -
  assume cur: "cur \<noteq> []"
  have "flow_ok (Go (c\<lparr>m_trail := trail_table ! (sel - 0xc4), m_cs := next_cs (hd cur)\<rparr>) cur True)"
    if "0xc4 \<le> sel" "sel \<le> 0xdf" "sel = of_char (hd cur)" for sel
    using that cur next_cs_byte[of sel] by (simp add: flow_ok_def context_ok_def) (intro disjI1, arith)
  then show ?thesis
    unfolding execute_header_def Let_def
    by (intro if_flow_ok) (simp_all add: flow_ok_rules, simp add: flow_ok_def context_ok_def cur)
qed

lemma loop_not_Go: "execute_loop lim c cur again \<noteq> Go c' cur' again'"
proof (induction lim c cur again rule: execute_loop.induct)
  case (1 lim c cur again)
  then show ?case by (subst execute_loop.simps) (simp split: flow.split)
qed

lemma execute_trail_append:
  assumes "context_ok c" and "m_cs c \<noteq> 0" and "again \<longrightarrow> cur \<noteq> []"
  shows "run lim (execute_trail lim c (cur @ d) again) =
    (case execute_trail lim c cur again of
       Return PARSE_CONTINUE c' cur' \<Rightarrow> execute_loop lim c' (cur' @ d) False
     | r \<Rightarrow> run lim (flow_append d r))"
proof -
  define xs where "xs = (if again then tl cur else cur)"
  have xs: "(if again then tl (cur @ d) else cur @ d) = xs @ d" using assms(3) by (auto simp: xs_def)
  have t: "1 \<le> m_trail c" using context_ok_trail assms by blast
  show ?thesis
  proof (cases "length xs < m_trail c")
    case True
    have "execute_loop lim c (xs @ d) False = run lim (execute_trail lim c (cur @ d) again)"
      using assms(2) t xs by (subst execute_loop_run) (auto simp: execute_trail_def execute_turn_def Let_def)
    then show ?thesis using True by (simp add: execute_trail_def Let_def flip: xs_def)
  next
    case False
    have ne: "drop (m_trail c - 1) xs \<noteq> []" using False t by auto
    have "execute_trail lim c (cur @ d) again = flow_append d (execute_switch lim c xs (drop (m_trail c - 1) xs))"
      using False t xs execute_switch_append[OF assms(1) _ ne, of xs lim d]
      by (auto simp: execute_trail_def Let_def)
    moreover have "execute_switch lim c xs (drop (m_trail c - 1) xs) \<noteq> Return PARSE_CONTINUE c' cur'" for c' cur'
      using execute_switch_ok[OF ne, of lim c xs] by (auto simp: flow_ok_def)
    ultimately show ?thesis using False
      by (simp add: execute_trail_def Let_def flip: xs_def split: flow.split parse_return.split)
  qed
qed

lemma execute_turn_append:
  assumes "context_ok c" and "cur \<noteq> []"
  shows "run lim (execute_turn lim c (cur @ d) again) =
    (case execute_turn lim c cur again of
       Return PARSE_CONTINUE c' cur' \<Rightarrow> execute_loop lim c' (cur' @ d) False
     | r \<Rightarrow> run lim (flow_append d r))"
proof (cases "m_cs c = 0")
  case True
  then show ?thesis
    using assms execute_header_ok[of cur lim c] execute_trail_append[of _ _ _ lim d]
    by (auto simp: execute_turn_def execute_header_append flow_ok_def split: flow.splits parse_return.split)
next
  case False
  then show ?thesis
    using assms execute_trail_append[of c again cur lim d] by (simp add: execute_turn_def split: flow.split)
qed

lemma execute_turn_Go:
  assumes "context_ok c" and "cur \<noteq> []" and "execute_turn lim c cur again = Go c' cur' again'"
  shows "context_ok c' \<and> (again' \<longrightarrow> cur' \<noteq> [])"
proof -
  have trail: "flow_ok (Go c' cur' again')"
    if "execute_trail lim c1 cur1 a = Go c' cur' again'" "context_ok c1" "m_cs c1 \<noteq> 0" for c1 cur1 a
  proof -
    define xs where "xs = (if a then tl cur1 else cur1)"
    have sw: "\<not> length xs < m_trail c1" "execute_switch lim c1 xs (drop (m_trail c1 - 1) xs) = Go c' cur' again'"
      using that(1) by (auto simp: execute_trail_def Let_def simp flip: xs_def split: if_splits)
    then have "drop (m_trail c1 - 1) xs \<noteq> []" using context_ok_trail[OF that(2,3)] by auto
    from execute_switch_ok[OF this, of lim c1 xs] sw(2) show ?thesis by simp
  qed
  show ?thesis
  proof (cases "m_cs c = 0")
    case False
    then show ?thesis using assms trail[of c cur again] by (simp add: execute_turn_def flow_ok_def)
  next
    case True
    then obtain c1 cur1 a where h: "execute_header lim c cur = Go c1 cur1 a"
      using assms(3) by (cases "execute_header lim c cur") (auto simp: execute_turn_def)
    show ?thesis
      using True h assms(3) execute_header_ok[OF assms(2), of lim c] trail[of c1 cur1 a]
      by (auto simp: execute_turn_def flow_ok_def split: if_splits)
  qed
qed

lemma execute_loop_append:
  "context_ok c \<Longrightarrow> (again \<longrightarrow> cur \<noteq> []) \<Longrightarrow>
   execute_loop lim c (cur @ d) again = resume_with lim d (execute_loop lim c cur again)"
proof (induction lim c cur again rule: execute_loop.induct)
  case (1 lim c cur again)
  show ?case
  proof (cases "cur = []")
    case True
    then show ?thesis using 1 by (simp add: resume_with_def)
  next
    case False
    show ?thesis
    proof (cases "execute_turn lim c cur again")
      case (Go c' cur' again')
      then show ?thesis
        using 1 False execute_turn_append[OF 1(2) False, of lim d again] execute_turn_Go[OF 1(2) False Go]
        by (simp add: execute_loop_run[of lim c _ again])
    qed (use 1 False execute_turn_append[OF 1(2) False, of lim d again] in
        \<open>auto simp: execute_loop_run[of lim c _ again] resume_with_def split: parse_return.split\<close>)
  qed
qed

end
