(* ===== verification/Msgpack_Grammar.thy ===== *)
theory Msgpack_Grammar
  imports Msgpack_Parse
begin

text \<open>
  Correctness of the MessagePack parser with respect to the wire format of \<open>Msgpack_Pack\<close>.

  A parser state at a header is described by its \<open>frames\<close>: for each collection that is open,
  whether it is a map, the members already complete and how many are still to come (keys and
  values counted one by one).  \<open>deliver\<close> is what a complete object does to the frames and
  \<open>token_step\<close> what a scalar or a collection header does to them; the automaton of
  \<open>execute\<close> is shown to read exactly the tokens of the format and to take those steps.  From this
  follow that the parser accepts exactly the encodings of the format that respect the limits
  (\<open>parser_accepts_wire_format\<close>) and that it reads back what the packer writes.
\<close>

subsection \<open>Frames\<close>

type_synonym frame = "bool \<times> mobject list \<times> nat"

definition elem_of :: "bool \<Rightarrow> nat \<Rightarrow> msgpack_container_type \<times> nat" where
  "elem_of is_map k =
     (if \<not> is_map then (CT_ARRAY_ITEM, k)
      else if even k then (CT_MAP_KEY, k div 2) else (CT_MAP_VALUE, Suc k div 2))"

definition close_frame :: "bool \<Rightarrow> mobject list \<Rightarrow> mobject" where
  "close_frame is_map os = (if is_map then O_MAP (kv_pairs os) else O_ARRAY os)"

definition stack_of :: "frame list \<Rightarrow> (msgpack_container_type \<times> nat) list" where
  "stack_of fs = map (\<lambda>(is_map, os, k). elem_of is_map k) fs"

definition members_of :: "frame list \<Rightarrow> mobject list list" where
  "members_of fs = map (\<lambda>(is_map, os, k). os) fs"

definition frame_ok :: "frame \<Rightarrow> bool" where
  "frame_ok = (\<lambda>(is_map, os, k). 1 \<le> k \<and> (if is_map then k \<le> 2 * (2 ^ 32 - 1) else k \<le> 2 ^ 32 - 1))"

fun deliver :: "mobject \<Rightarrow> frame list \<Rightarrow> mobject + frame list" where
  "deliver obj [] = Inl obj"
| "deliver obj ((is_map, os, k) # fs) =
     (if k = 1 then deliver (close_frame is_map (os @ [obj])) fs
      else Inr ((is_map, os @ [obj], k - 1) # fs))"

definition holds :: "context_t \<Rightarrow> frame list \<Rightarrow> bool" where
  "holds c fs \<longleftrightarrow>
     m_stack c = stack_of fs \<and> v_frames (m_visitor c) = members_of fs \<and> list_all frame_ok fs"

definition represents :: "context_t \<Rightarrow> frame list \<Rightarrow> bool" where
  "represents c fs \<longleftrightarrow> m_cs c = MSGPACK_CS_HEADER \<and> holds c fs"

subsection \<open>Tokens\<close>

definition scalar_error :: "unpack_limit \<Rightarrow> mobject \<Rightarrow> msgpack_error option" where
  "scalar_error lim obj = (case obj of
       O_STR s \<Rightarrow> if length s mod 2 ^ 32 > limit_str lim then Some str_size_overflow else None
     | O_BIN s \<Rightarrow> if length s mod 2 ^ 32 > limit_bin lim then Some bin_size_overflow else None
     | O_EXT s \<Rightarrow> if length s mod 2 ^ 32 > limit_ext lim then Some ext_size_overflow else None
     | _ \<Rightarrow> None)"

definition has_bytes :: "mobject \<Rightarrow> bool" where
  "has_bytes obj = (case obj of O_STR _ \<Rightarrow> True | O_BIN _ \<Rightarrow> True | O_EXT _ \<Rightarrow> True | _ \<Rightarrow> False)"

definition visit_scalar ::
  "unpack_limit \<Rightarrow> mobject \<Rightarrow> create_object_visitor \<Rightarrow> msgpack_error + create_object_visitor" where
  "visit_scalar lim obj v =
     (case scalar_error lim obj of
        Some e \<Rightarrow> Inl e
      | None \<Rightarrow> Inr (v\<lparr>v_obj := obj, v_referenced := v_referenced v \<or> (v_func v \<and> has_bytes obj)\<rparr>))"

definition token_error :: "unpack_limit \<Rightarrow> nat \<Rightarrow> token \<Rightarrow> msgpack_error option" where
  \<comment> \<open>the limit that a token exceeds inside \<open>depth\<close> collections\<close>
  "token_error lim depth tok = (case tok of
       Scalar obj \<Rightarrow> scalar_error lim obj
     | Open_array n \<Rightarrow>
         if n > limit_array lim then Some array_size_overflow
         else if Suc depth > limit_depth lim then Some depth_size_overflow else None
     | Open_map n \<Rightarrow>
         if n > limit_map lim then Some map_size_overflow
         else if Suc depth > limit_depth lim then Some depth_size_overflow else None)"

definition token_step :: "token \<Rightarrow> frame list \<Rightarrow> mobject + frame list" where
  "token_step tok fs = (case tok of
       Scalar obj \<Rightarrow> deliver obj fs
     | Open_array n \<Rightarrow> if n = 0 then deliver (O_ARRAY []) fs else Inr ((False, [], n) # fs)
     | Open_map n \<Rightarrow> if n = 0 then deliver (O_MAP []) fs else Inr ((True, [], 2 * n) # fs))"

definition token_prefix :: "string \<Rightarrow> bool" where
  \<comment> \<open>the bytes begin with a token, or are a proper prefix of one\<close>
  "token_prefix bs \<longleftrightarrow> (\<exists>tok h rest. bs = h @ rest \<and> fmt tok h) \<or> (\<exists>tok pad. pad \<noteq> [] \<and> fmt tok (bs @ pad))"

definition outcome :: "unpack_limit \<Rightarrow> mobject + frame list \<Rightarrow> string \<Rightarrow> flow \<Rightarrow> bool" where
  \<comment> \<open>the loop went through the step and stands before \<open>rest\<close>\<close>
  "outcome lim st rest f = (case st of
       Inl obj \<Rightarrow> \<exists>c. f = Return PARSE_SUCCESS c rest \<and> v_obj (m_visitor c) = obj
     | Inr fs \<Rightarrow> \<exists>c. represents c fs \<and> f = execute_loop lim c rest False)"

definition token_outcome :: "unpack_limit \<Rightarrow> token \<Rightarrow> frame list \<Rightarrow> string \<Rightarrow> flow \<Rightarrow> bool" where
  "token_outcome lim tok fs rest f = (case token_error lim (length fs) tok of
       Some e \<Rightarrow> \<exists>c. f = Throw e None c
     | None \<Rightarrow> outcome lim (token_step tok fs) rest f)"

subsection \<open>The stack of the context\<close>

lemma dec32_pos: "1 \<le> r \<Longrightarrow> r < 2 ^ 32 \<Longrightarrow> dec32 r = r - 1"
proof -
  assume r: "1 \<le> r" "r < 2 ^ 32"
  then have "r + (2 ^ 32 - 1) = (r - 1) + 2 ^ 32" by simp
  then show ?thesis using r unfolding dec32_def by (simp only: mod_add_self2) simp
qed

lemma frame_ok_iff:
  "frame_ok (is_map, os, k) \<longleftrightarrow> 1 \<le> k \<and> k \<le> (if is_map then 2 * (2 ^ 32 - 1) else 2 ^ 32 - 1)"
  by (simp add: frame_ok_def)

lemma deliver_ok: "list_all frame_ok fs \<Longrightarrow> deliver obj fs = Inr fs' \<Longrightarrow> list_all frame_ok fs'"
  by (induction obj fs rule: deliver.induct) (auto simp: frame_ok_iff split: if_splits)

lemma elem_consume:
  assumes "frame_ok (is_map, os, k)"
  shows "stack_consume (elem_of is_map k # st) v =
    (if k = 1 then stack_consume st ((if is_map then end_map else end_array) (end_item v))
     else (PARSE_CONTINUE, elem_of is_map (k - 1) # st, end_item v))"
proof (cases is_map)
  case False
  then show ?thesis using assms by (auto simp: elem_of_def frame_ok_iff dec32_pos)
next
  case True
  show ?thesis
  proof (cases "even k")
    case True
    then show ?thesis using \<open>is_map\<close> assms by (auto simp: elem_of_def frame_ok_iff elim!: evenE)
  next
    case False
    then obtain j where "k = 2 * j + 1" by (rule oddE)
    then show ?thesis using \<open>is_map\<close> assms by (auto simp: elem_of_def frame_ok_iff dec32_pos)
  qed
qed

lemma stack_consume_deliver:
  assumes "list_all frame_ok fs" and "v_frames v = members_of fs"
  shows "case deliver (v_obj v) fs of
      Inl obj \<Rightarrow> \<exists>v'. stack_consume (stack_of fs) v = (PARSE_SUCCESS, [], v') \<and> v_obj v' = obj
    | Inr fs' \<Rightarrow> \<exists>v'. stack_consume (stack_of fs) v = (PARSE_CONTINUE, stack_of fs', v')
        \<and> v_frames v' = members_of fs'"
  using assms
proof (induction "v_obj v" fs arbitrary: v rule: deliver.induct)
  case 1
  then show ?case by (simp add: stack_of_def)
next
  case (2 is_map os k fs)
  have ok: "frame_ok (is_map, os, k)" using 2 by simp
  show ?case
  proof (cases "k = 1")
    case True
    define w where "w = (if is_map then end_map else end_array) (end_item v)"
    have "v_obj w = close_frame is_map (os @ [v_obj v])" "v_frames w = members_of fs"
      using 2(3) by (auto simp: w_def close_frame_def end_map_def end_array_def end_item_def members_of_def)
    moreover have "stack_consume (stack_of ((is_map, os, k) # fs)) v = stack_consume (stack_of fs) w"
      using elem_consume[OF ok, of "stack_of fs" v] True by (simp add: stack_of_def w_def)
    ultimately show ?thesis using 2(1)[OF True, of w] 2(2) True by (simp split: sum.splits)
  next
    case False
    then show ?thesis
      using elem_consume[OF ok, of "stack_of fs" v] 2(3)
      by (simp add: stack_of_def members_of_def end_item_def)
  qed
qed

subsection \<open>One token\<close>

lemma visit_scalar_eqs:
  "visit_nil v = visit_scalar lim O_NIL v"
  "visit_boolean b v = visit_scalar lim (O_BOOLEAN b) v"
  "visit_positive_integer n v = visit_scalar lim (O_POSITIVE_INTEGER n) v"
  "visit_negative_integer i v = visit_scalar lim (int_object i) v"
  "visit_float32 n v = visit_scalar lim (O_FLOAT32 n) v"
  "visit_float64 n v = visit_scalar lim (O_FLOAT64 n) v"
  by (simp_all add: visit_scalar_def scalar_error_def has_bytes_def visit_nil_def visit_boolean_def int_object_def
      visit_positive_integer_def visit_negative_integer_def visit_float32_def visit_float64_def)

lemma visit_bytes_eqs:
  "sz \<le> length n \<Longrightarrow> visit_str lim n sz v = visit_scalar lim (O_STR (take sz n)) v"
  "sz \<le> length n \<Longrightarrow> visit_bin lim n sz v = visit_scalar lim (O_BIN (take sz n)) v"
  "sz \<le> length n \<Longrightarrow> visit_ext lim n sz v = visit_scalar lim (O_EXT (take sz n)) v"
  by (simp_all add: visit_scalar_def scalar_error_def has_bytes_def visit_str_def visit_bin_def visit_ext_def)

lemma outcomeI:
  "v_obj (m_visitor c) = obj \<Longrightarrow> outcome lim (Inl obj) rest (Return PARSE_SUCCESS c rest)"
  "represents c fs \<Longrightarrow> outcome lim (Inr fs) rest (execute_loop lim c rest False)"
  by (auto simp: outcome_def)

lemma consume_cases:
  assumes "holds c fs" and "v_obj v = obj" and "v_frames v = members_of fs"
  obtains (finished) v' where "deliver obj fs = Inl (v_obj v')"
      "stack_consume (m_stack c) v = (PARSE_SUCCESS, [], v')"
  | (more) fs' v' where "deliver obj fs = Inr fs'" "v_frames v' = members_of fs'" "list_all frame_ok fs'"
      "stack_consume (m_stack c) v = (PARSE_CONTINUE, stack_of fs', v')"
  using stack_consume_deliver[of fs v] assms deliver_ok[of fs obj]
  by (cases "deliver obj fs") (auto simp: holds_def)

lemma after_visit_outcome:
  assumes "holds c fs"
  shows "token_outcome lim (Scalar obj) fs (tl cur)
    (run lim (after_visit_proc (visit_scalar lim obj (m_visitor c)) c cur))"
proof (cases "scalar_error lim obj")
  case None
  have "outcome lim (deliver obj fs) (tl cur)
      (run lim (after_visit_proc (Inr ((m_visitor c)\<lparr>v_obj := obj, v_referenced := v_referenced (m_visitor c) \<or> (v_func (m_visitor c) \<and> has_bytes obj)\<rparr>)) c cur))"
    using assms
    by (rule consume_cases[of c fs "(m_visitor c)\<lparr>v_obj := obj, v_referenced := v_referenced (m_visitor c) \<or> (v_func (m_visitor c) \<and> has_bytes obj)\<rparr>" obj])
      (use assms in \<open>auto simp: after_visit_proc_def holds_def represents_def intro!: outcomeI\<close>)
  then show ?thesis
    using None by (simp add: token_outcome_def token_error_def token_step_def visit_scalar_def)
qed (simp add: token_outcome_def token_error_def after_visit_proc_def visit_scalar_def)

lemma length_members_of [simp]: "length (members_of fs) = length fs"
  by (simp add: members_of_def)

lemma start_aggregate_outcome:
  assumes "holds c fs" and "n < 2 ^ 32" and "sv n (m_visitor c) = Inr ((m_visitor c)\<lparr>v_frames := [] # members_of fs\<rparr>)"
    and "ev ((m_visitor c)\<lparr>v_frames := [] # members_of fs\<rparr>) = (m_visitor c)\<lparr>v_obj := close_frame is_map [], v_frames := members_of fs\<rparr>"
    and "ty = (if is_map then CT_MAP_KEY else CT_ARRAY_ITEM)"
  shows "outcome lim
      (if n = 0 then deliver (close_frame is_map []) fs else Inr ((is_map, [], if is_map then 2 * n else n) # fs))
      (tl cur) (run lim (start_aggregate ty sv ev n c cur))"
proof (cases "n = 0")
  case True
  show ?thesis
    using assms(1)
    by (rule consume_cases[of c fs "(m_visitor c)\<lparr>v_obj := close_frame is_map [], v_frames := members_of fs\<rparr>" "close_frame is_map []"])
      (use assms True in \<open>auto simp: start_aggregate_def holds_def represents_def intro!: outcomeI\<close>)
next
  case False
  then show ?thesis
    using assms by (auto simp: start_aggregate_def holds_def represents_def stack_of_def members_of_def
        elem_of_def frame_ok_iff intro!: outcomeI)
qed

lemma start_array_outcome:
  assumes "holds c fs" and "n < 2 ^ 32"
  shows "token_outcome lim (Open_array n) fs (tl cur)
    (run lim (start_aggregate CT_ARRAY_ITEM (start_array lim) end_array n c cur))"
proof (cases "token_error lim (length fs) (Open_array n)")
  case None
  then show ?thesis
    using assms start_aggregate_outcome[OF assms, of "start_array lim" end_array False CT_ARRAY_ITEM lim cur]
    by (simp add: token_outcome_def token_error_def token_step_def start_array_def end_array_def
        close_frame_def holds_def split: if_splits)
qed (use assms in \<open>auto simp: token_outcome_def token_error_def start_aggregate_def start_array_def holds_def
      split: if_splits\<close>)

lemma start_map_outcome:
  assumes "holds c fs" and "n < 2 ^ 32"
  shows "token_outcome lim (Open_map n) fs (tl cur)
    (run lim (start_aggregate CT_MAP_KEY (start_map lim) end_map n c cur))"
proof (cases "token_error lim (length fs) (Open_map n)")
  case None
  then show ?thesis
    using assms start_aggregate_outcome[OF assms, of "start_map lim" end_map True CT_MAP_KEY lim cur]
    by (simp add: token_outcome_def token_error_def token_step_def start_map_def end_map_def
        close_frame_def holds_def split: if_splits)
qed (use assms in \<open>auto simp: token_outcome_def token_error_def start_aggregate_def start_map_def holds_def
      split: if_splits\<close>)

lemma loop_trail:
  assumes "m_cs c = 0" and "0xc4 \<le> b" "b \<le> 0xdf" and "trail_table ! (b - 0xc4) \<le> length xs"
  shows "execute_loop lim c (byte b # xs) again =
    run lim (execute_switch lim (c\<lparr>m_trail := trail_table ! (b - 0xc4), m_cs := b - 0xc0\<rparr>) xs
       (drop (trail_table ! (b - 0xc4) - 1) xs))"
  using assms next_cs_byte[of b] by (simp add: loop_header execute_header_def execute_trail_def Let_def)

lemma holds_update [simp]: "holds (c\<lparr>m_trail := t, m_cs := cs\<rparr>) fs = holds c fs"
  "holds (c\<lparr>m_cs := cs\<rparr>) fs = holds c fs" "holds (c\<lparr>m_trail := t\<rparr>) fs = holds c fs"
  by (simp_all add: holds_def)

lemma load_exact: "length bs = k \<Longrightarrow> load_unsigned k (bs @ xs) = be_nat bs"
  "length bs = k \<Longrightarrow> load_signed k (bs @ xs) = load_signed k bs"
  by (simp_all add: load_unsigned_def load_signed_def)

lemma tl_drop_exact: "length bs = k \<Longrightarrow> 1 \<le> k \<Longrightarrow> tl (drop (k - 1) (bs @ xs)) = xs"
  by (simp flip: drop_Suc add: tl_drop)

text \<open>The states that wait for the bytes of a value: the length \<open>t\<close> is known and the value \<open>s\<close> follows.\<close>

lemma value_outcome:
  assumes "holds c fs" and "tl cur = s @ rest" "cur \<noteq> []" "length s = t" "1 \<le> t"
    and "(acs, obj) \<in> set [(32, O_STR s), (33, O_BIN s), (34, O_EXT s)]"
  shows "token_outcome lim (Scalar obj) fs rest
    (execute_loop lim (c\<lparr>m_trail := t, m_cs := acs\<rparr>) cur True)"
proof -
  have "execute_loop lim (c\<lparr>m_trail := t, m_cs := acs\<rparr>) cur True =
      run lim (execute_switch lim (c\<lparr>m_trail := t, m_cs := acs\<rparr>) (s @ rest) (drop (t - 1) (s @ rest)))"
    using assms by (subst loop_body) (auto simp: execute_trail_def Let_def)
  also have "\<dots> = run lim (after_visit_proc (visit_scalar lim obj (m_visitor c))
      (c\<lparr>m_trail := t, m_cs := acs\<rparr>) (drop (t - 1) (s @ rest)))"
    using assms(4,5,6) by (auto simp: execute_switch_def Let_def visit_bytes_eqs)
  finally have *: "execute_loop lim (c\<lparr>m_trail := t, m_cs := acs\<rparr>) cur True = \<dots>" .
  show ?thesis
    using after_visit_outcome[of "c\<lparr>m_trail := t, m_cs := acs\<rparr>" fs lim obj "drop (t - 1) (s @ rest)"] assms(1)
    unfolding * tl_drop_exact[OF assms(4,5)] by simp
qed

lemma load_length_outcome:
  assumes "holds c fs" and "tl cur = s @ rest" "cur \<noteq> []" "length s = t"
    and "(acs, obj, vis) \<in> {(32, O_STR s, visit_str lim n), (33, O_BIN s, visit_bin lim n), (34, O_EXT s, visit_ext lim n)}"
  shows "token_outcome lim (Scalar obj) fs rest (run lim (load_length t acs vis c cur))"
proof (cases "t = 0")
  case True
  then have "vis 0 = visit_scalar lim obj" using assms(4,5) by (auto simp: visit_bytes_eqs fun_eq_iff)
  then show ?thesis
    using True assms after_visit_outcome[of "c\<lparr>m_trail := 0\<rparr>" fs lim obj cur]
    by (simp add: load_length_def Let_def)
next
  case False
  then show ?thesis
    using assms value_outcome[of c fs cur s rest t acs obj lim]
    by (auto simp: load_length_def Let_def)
qed

lemma token_byte:
  assumes "represents c fs" and "b < 256"
    and "execute_header lim c (byte b # rest) = after_visit_proc (visit_scalar lim obj (m_visitor c)) c (byte b # rest)"
  shows "token_outcome lim (Scalar obj) fs rest (execute_loop lim c (byte b # rest) again)"
proof -
  have "execute_loop lim c (byte b # rest) again =
      run lim (after_visit_proc (visit_scalar lim obj (m_visitor c)) c (byte b # rest))"
    using assms by (auto simp: loop_header represents_def after_visit_proc_def Let_def
        split: sum.split prod.split flow.split)
  then show ?thesis
    using after_visit_outcome[of c fs lim obj "byte b # rest"] assms(1) by (simp add: represents_def)
qed

lemma token_trail:
  assumes "represents c fs" and "0xc4 \<le> b" "b \<le> 0xdf" "trail_table ! (b - 0xc4) = length bs" "1 \<le> length bs"
    and "\<And>c' cur. holds c' fs \<Longrightarrow> m_cs c' = b - 0xc0 \<Longrightarrow> tl cur = rest \<Longrightarrow> cur \<noteq> [] \<Longrightarrow>
      token_outcome lim tok fs rest' (run lim (execute_switch lim c' (bs @ rest) cur))"
  shows "token_outcome lim tok fs rest' (execute_loop lim c (byte b # bs @ rest) again)"
proof -
  let ?c = "c\<lparr>m_trail := length bs, m_cs := b - 0xc0\<rparr>"
  have "execute_loop lim c (byte b # bs @ rest) again =
      run lim (execute_switch lim ?c (bs @ rest) (drop (length bs - 1) (bs @ rest)))"
    using assms(1-4) loop_trail[of c b "bs @ rest" lim again] by (simp add: represents_def)
  moreover have "holds ?c fs" using assms(1) by (simp add: represents_def)
  moreover have "tl (drop (length bs - 1) (bs @ rest)) = rest" "drop (length bs - 1) (bs @ rest) \<noteq> []"
    using assms(5) tl_drop_exact[of bs] by auto
  ultimately show ?thesis using assms(6)[of ?c "drop (length bs - 1) (bs @ rest)"] by simp
qed

lemma outcome_at:
  "holds c fs \<Longrightarrow> tl cur = rest \<Longrightarrow>
     token_outcome lim (Scalar obj) fs rest (run lim (after_visit_proc (visit_scalar lim obj (m_visitor c)) c cur))"
  "holds c fs \<Longrightarrow> n < 2 ^ 32 \<Longrightarrow> tl cur = rest \<Longrightarrow>
     token_outcome lim (Open_array n) fs rest
       (run lim (start_aggregate CT_ARRAY_ITEM (start_array lim) end_array n c cur))"
  "holds c fs \<Longrightarrow> n < 2 ^ 32 \<Longrightarrow> tl cur = rest \<Longrightarrow>
     token_outcome lim (Open_map n) fs rest
       (run lim (start_aggregate CT_MAP_KEY (start_map lim) end_map n c cur))"
  using after_visit_outcome start_array_outcome start_map_outcome by blast+

lemma scalar_trail:
  assumes "represents c fs" and "0xc4 \<le> b" "b \<le> 0xdf" "trail_table ! (b - 0xc4) = length bs" "1 \<le> length bs"
    and "\<And>c' cur. m_cs c' = b - 0xc0 \<Longrightarrow> execute_switch lim c' (bs @ rest) cur =
      after_visit_proc (visit_scalar lim obj (m_visitor c')) c' cur"
  shows "token_outcome lim (Scalar obj) fs rest (execute_loop lim c (byte b # bs @ rest) again)"
  using assms(1-5) by (rule token_trail) (auto simp: assms(6) intro: outcome_at)

lemma execute_loop_aggregate:
  "m_cs c = 0 \<Longrightarrow> execute_header lim c (b # xs) = start_aggregate ty sv ev n c (b # xs) \<Longrightarrow>
   execute_loop lim c (b # xs) again = run lim (start_aggregate ty sv ev n c (b # xs))"
  by (auto simp: loop_header start_aggregate_def Let_def split: sum.split prod.split)



lemma switch_uint:
  assumes "(b, k) \<in> set [(0xcc, 1), (0xcd, 2), (0xce, 4), (0xcf, 8)]" and "length bs = k" "m_cs c = b - 0xc0"
  shows "execute_switch lim c (bs @ rest) cur =
    after_visit_proc (visit_scalar lim (O_POSITIVE_INTEGER (be_nat bs)) (m_visitor c)) c cur"
proof -
  have *: "load_unsigned k (bs @ rest) = be_nat bs" using assms(2) by (rule load_exact)
  consider "b = 0xcc" "k = 1" | "b = 0xcd" "k = 2" | "b = 0xce" "k = 4" | "b = 0xcf" "k = 8"
    using assms(1) by auto
  then show ?thesis
    using * assms(3) unfolding execute_switch_def Let_def visit_scalar_eqs[where lim = lim]
    by cases (simp_all only: diff_numeral_simps refl, simp_all)
qed

lemma switch_int:
  assumes "(b, k) \<in> set [(0xd0, 1), (0xd1, 2), (0xd2, 4), (0xd3, 8)]" and "length bs = k" "m_cs c = b - 0xc0"
  shows "execute_switch lim c (bs @ rest) cur =
    after_visit_proc (visit_scalar lim (int_object (load_signed k bs)) (m_visitor c)) c cur"
proof -
  have *: "load_signed k (bs @ rest) = load_signed k bs" using assms(2) by (rule load_exact)
  consider "b = 0xd0" "k = 1" | "b = 0xd1" "k = 2" | "b = 0xd2" "k = 4" | "b = 0xd3" "k = 8"
    using assms(1) by auto
  then show ?thesis
    using * assms(3) unfolding execute_switch_def Let_def visit_scalar_eqs[where lim = lim]
    by cases (simp_all only: diff_numeral_simps refl, simp_all)
qed

lemma switch_str:
  assumes "(b, k) \<in> set [(0xd9, 1), (0xda, 2), (0xdb, 4)]" and "length bs = k" "m_cs c = b - 0xc0"
  shows "execute_switch lim c (bs @ rest) cur =
    load_length (be_nat bs) 32 (visit_str lim (bs @ rest)) c cur"
proof -
  have *: "load_unsigned k (bs @ rest) = be_nat bs" using assms(2) by (rule load_exact)
  consider "b = 0xd9" "k = 1" | "b = 0xda" "k = 2" | "b = 0xdb" "k = 4"
    using assms(1) by auto
  then show ?thesis
    using * assms(3) unfolding execute_switch_def Let_def visit_scalar_eqs[where lim = lim]
    by cases (simp_all only: diff_numeral_simps refl, simp_all)
qed

lemma switch_bin:
  assumes "(b, k) \<in> set [(0xc4, 1), (0xc5, 2), (0xc6, 4)]" and "length bs = k" "m_cs c = b - 0xc0"
  shows "execute_switch lim c (bs @ rest) cur =
    load_length (be_nat bs) 33 (visit_bin lim (bs @ rest)) c cur"
proof -
  have *: "load_unsigned k (bs @ rest) = be_nat bs" using assms(2) by (rule load_exact)
  consider "b = 0xc4" "k = 1" | "b = 0xc5" "k = 2" | "b = 0xc6" "k = 4"
    using assms(1) by auto
  then show ?thesis
    using * assms(3) unfolding execute_switch_def Let_def visit_scalar_eqs[where lim = lim]
    by cases (simp_all only: diff_numeral_simps refl, simp_all)
qed

lemma switch_ext:
  assumes "(b, k) \<in> set [(0xc7, 1), (0xc8, 2), (0xc9, 4)]" and "length bs = k" "m_cs c = b - 0xc0"
  shows "execute_switch lim c (bs @ rest) cur =
    load_length (be_nat bs + 1) 34 (visit_ext lim (bs @ rest)) c cur"
proof -
  have *: "load_unsigned k (bs @ rest) = be_nat bs" using assms(2) by (rule load_exact)
  consider "b = 0xc7" "k = 1" | "b = 0xc8" "k = 2" | "b = 0xc9" "k = 4"
    using assms(1) by auto
  then show ?thesis
    using * assms(3) unfolding execute_switch_def Let_def visit_scalar_eqs[where lim = lim]
    by cases (simp_all only: diff_numeral_simps refl, simp_all)
qed

lemma switch_array:
  assumes "(b, k) \<in> set [(0xdc, 2), (0xdd, 4)]" and "length bs = k" "m_cs c = b - 0xc0"
  shows "execute_switch lim c (bs @ rest) cur =
    start_aggregate CT_ARRAY_ITEM (start_array lim) end_array (be_nat bs) c cur"
proof -
  have *: "load_unsigned k (bs @ rest) = be_nat bs" using assms(2) by (rule load_exact)
  consider "b = 0xdc" "k = 2" | "b = 0xdd" "k = 4"
    using assms(1) by auto
  then show ?thesis
    using * assms(3) unfolding execute_switch_def Let_def visit_scalar_eqs[where lim = lim]
    by cases (simp_all only: diff_numeral_simps refl, simp_all)
qed

lemma switch_map:
  assumes "(b, k) \<in> set [(0xde, 2), (0xdf, 4)]" and "length bs = k" "m_cs c = b - 0xc0"
  shows "execute_switch lim c (bs @ rest) cur =
    start_aggregate CT_MAP_KEY (start_map lim) end_map (be_nat bs) c cur"
proof -
  have *: "load_unsigned k (bs @ rest) = be_nat bs" using assms(2) by (rule load_exact)
  consider "b = 0xde" "k = 2" | "b = 0xdf" "k = 4"
    using assms(1) by auto
  then show ?thesis
    using * assms(3) unfolding execute_switch_def Let_def visit_scalar_eqs[where lim = lim]
    by cases (simp_all only: diff_numeral_simps refl, simp_all)
qed

lemma switch_fixext:
  assumes "(b, k) \<in> set [(0xd4, 1), (0xd5, 2), (0xd6, 4), (0xd7, 8), (0xd8, 16)]" and "length bs = k + 1"
    "m_cs c = b - 0xc0"
  shows "execute_switch lim c (bs @ rest) cur =
    after_visit_proc (visit_scalar lim (O_EXT bs) (m_visitor c)) c cur"
proof -
  have *: "visit_ext lim (bs @ rest) (k + 1) v = visit_scalar lim (O_EXT bs) v" for v
    using assms(2) by (simp add: visit_bytes_eqs)
  consider "b = 0xd4" "k = 1" | "b = 0xd5" "k = 2" | "b = 0xd6" "k = 4" | "b = 0xd7" "k = 8"
    | "b = 0xd8" "k = 16" using assms(1) by auto
  then show ?thesis
    using *[of "m_visitor c"] assms(3) unfolding execute_switch_def Let_def
    by cases (simp_all only: diff_numeral_simps refl, simp_all)
qed

lemma token_outcome_fmt:
  assumes "fmt tok h" and "represents c fs"
  shows "token_outcome lim tok fs rest (execute_loop lim c (h @ rest) again)"
  using assms
proof (induction rule: fmt.induct)
  case fmt_nil
  then show ?case
    by (auto intro!: token_byte simp: execute_header_def visit_scalar_eqs[where lim = lim])
next
  case (fmt_bool b)
  then show ?case
    by (auto intro!: token_byte simp: execute_header_def visit_scalar_eqs[where lim = lim])
next
  case (fmt_pos_fixint n)
  then show ?case
    by (auto intro!: token_byte simp: execute_header_def Let_def visit_scalar_eqs[where lim = lim])
next
  case (fmt_neg_fixint i)
  then have "load_signed 1 (byte (nat (256 + i)) # rest) = i" "nat (256 + i) < 256" "224 \<le> nat (256 + i)"
    by (auto simp: load_signed_def nat_less_iff)
  then show ?case using fmt_neg_fixint
    by (auto intro!: token_byte simp: execute_header_def Let_def visit_scalar_eqs[where lim = lim] int_object_def)
next
  case (fmt_uint b k bs)
  have "token_outcome lim (Scalar (O_POSITIVE_INTEGER (be_nat bs))) fs rest
      (execute_loop lim c (byte b # bs @ rest) again)"
    by (rule scalar_trail)
      (use fmt_uint switch_uint[OF fmt_uint(1,2)] in \<open>auto simp: trail_table_def\<close>)
  then show ?case by simp
next
  case (fmt_int b k bs)
  have "token_outcome lim (Scalar (int_object (load_signed k bs))) fs rest
      (execute_loop lim c (byte b # bs @ rest) again)"
    by (rule scalar_trail)
      (use fmt_int switch_int[OF fmt_int(1,2)] in \<open>auto simp: trail_table_def\<close>)
  then show ?case by simp
next
  case (fmt_float bs)
  have "token_outcome lim (Scalar (O_FLOAT32 (be_nat bs))) fs rest (execute_loop lim c (byte 0xca # bs @ rest) again)"
    by (rule scalar_trail)
      (use fmt_float in \<open>auto simp: trail_table_def execute_switch_def Let_def load_exact
          visit_scalar_eqs[where lim = lim]\<close>)
  then show ?case by simp
next
  case (fmt_double bs)
  have "token_outcome lim (Scalar (O_FLOAT64 (be_nat bs))) fs rest (execute_loop lim c (byte 0xcb # bs @ rest) again)"
    by (rule scalar_trail)
      (use fmt_double in \<open>auto simp: trail_table_def execute_switch_def Let_def load_exact
          visit_scalar_eqs[where lim = lim]\<close>)
  then show ?case by simp
next
  case (fmt_array b k bs)
  have "token_outcome lim (Open_array (be_nat bs)) fs rest (execute_loop lim c (byte b # bs @ rest) again)"
    by (rule token_trail)
      (use fmt_array switch_array[OF fmt_array(1,2)] be_nat_bounds(1)[of bs] in
        \<open>auto simp: trail_table_def intro: outcome_at\<close>)
  then show ?case by simp
next
  case (fmt_map b k bs)
  have "token_outcome lim (Open_map (be_nat bs)) fs rest (execute_loop lim c (byte b # bs @ rest) again)"
    by (rule token_trail)
      (use fmt_map switch_map[OF fmt_map(1,2)] be_nat_bounds(1)[of bs] in
        \<open>auto simp: trail_table_def intro: outcome_at\<close>)
  then show ?case by simp
next
  case (fmt_fixarray n)
  have "(0x90 + n) AND 0xf = n" "0x90 + n < 256" using fmt_fixarray and_low(2)[of "0x90 + n"] mod_add_left_eq[of "0x90" 16 n] by simp_all
  then show ?case using fmt_fixarray outcome_at(2)[of c fs n "byte (0x90 + n) # rest" rest lim]
    by (simp add: execute_loop_aggregate execute_header_def Let_def represents_def)
next
  case (fmt_fixmap n)
  have "(0x80 + n) AND 0xf = n" "0x80 + n < 256" using fmt_fixmap and_low(2)[of "0x80 + n"] mod_add_left_eq[of "0x80" 16 n] by simp_all
  then show ?case using fmt_fixmap outcome_at(3)[of c fs n "byte (0x80 + n) # rest" rest lim]
    by (simp add: execute_loop_aggregate execute_header_def Let_def represents_def)
next
  case (fmt_fixext b l s ty)
  have "token_outcome lim (Scalar (O_EXT (ty # s))) fs rest (execute_loop lim c (byte b # (ty # s) @ rest) again)"
    by (rule scalar_trail)
      (use fmt_fixext switch_fixext[OF fmt_fixext(1), of "ty # s"] in \<open>auto simp: trail_table_def\<close>)
  then show ?case by simp
next
  case (fmt_str b k bs s)
  have "token_outcome lim (Scalar (O_STR s)) fs rest (execute_loop lim c (byte b # bs @ s @ rest) again)"
    by (rule token_trail)
      (use fmt_str switch_str[OF fmt_str(1,2)] in \<open>auto simp: trail_table_def intro: load_length_outcome\<close>)
  then show ?case by simp
next
  case (fmt_bin b k bs s)
  have "token_outcome lim (Scalar (O_BIN s)) fs rest (execute_loop lim c (byte b # bs @ s @ rest) again)"
    by (rule token_trail)
      (use fmt_bin switch_bin[OF fmt_bin(1,2)] in \<open>auto simp: trail_table_def intro: load_length_outcome\<close>)
  then show ?case by simp
next
  case (fmt_ext b k bs s ty)
  have "token_outcome lim (Scalar (O_EXT (ty # s))) fs rest (execute_loop lim c (byte b # bs @ (ty # s) @ rest) again)"
    by (rule token_trail)
      (use fmt_ext switch_ext[OF fmt_ext(1,2)] in \<open>auto simp: trail_table_def intro: load_length_outcome\<close>)
  then show ?case by simp
next
  case (fmt_fixstr s)
  have low: "(0xa0 + length s) AND 0x1f = length s" "0xa0 + length s < 256"
    using fmt_fixstr and_low(1)[of "0xa0 + length s"] mod_add_left_eq[of "0xa0" 32 "length s"] by simp_all
  show ?case
  proof (cases "s = []")
    case True
    let ?visit = "after_visit_proc (visit_scalar lim (O_STR []) (m_visitor c)) (c\<lparr>m_trail := 0\<rparr>) (byte 0xa0 # rest)"
    have "execute_header lim c (byte 0xa0 # rest) = ?visit"
      using low True by (simp add: execute_header_def Let_def visit_bytes_eqs)
    then have "execute_loop lim c (byte 0xa0 # rest) again = run lim ?visit"
      using fmt_fixstr by (auto simp: loop_header represents_def after_visit_proc_def Let_def
          split: sum.split prod.split flow.split)
    then show ?thesis
      using True fmt_fixstr outcome_at(1)[of "c\<lparr>m_trail := 0\<rparr>" fs "byte 0xa0 # rest" rest lim "O_STR []"]
      by (simp add: represents_def)
  next
    case False
    then have "execute_loop lim c (byte (0xa0 + length s) # s @ rest) again =
        execute_loop lim (c\<lparr>m_trail := length s, m_cs := 32\<rparr>) (byte (0xa0 + length s) # s @ rest) True"
      using fmt_fixstr low by (simp add: loop_header loop_body execute_header_def Let_def represents_def)
    then show ?thesis
      using fmt_fixstr False value_outcome[of c fs "byte (0xa0 + length s) # s @ rest" s rest "length s" 32 "O_STR s" lim]
      by (simp add: represents_def Suc_le_eq)
  qed
qed

subsection \<open>Every first byte but one begins a token\<close>

lemma fixed_token:
  assumes "\<And>bs. length bs = k \<Longrightarrow> \<exists>tok. fmt tok (byte b # bs)"
  shows "token_prefix (byte b # xs)"
proof (cases "k \<le> length xs")
  case True
  then obtain tok where "fmt tok (byte b # take k xs)" using assms[of "take k xs"] by auto
  moreover have "byte b # xs = (byte b # take k xs) @ drop k xs" by simp
  ultimately show ?thesis unfolding token_prefix_def by blast
next
  case False
  let ?pad = "replicate (k - length xs) (byte 0)"
  obtain tok where "fmt tok (byte b # xs @ ?pad)" using assms[of "xs @ ?pad"] False by auto
  moreover have "?pad \<noteq> []" using False by simp
  ultimately show ?thesis unfolding token_prefix_def by (metis append_Cons)
qed

lemma sized_token:
  assumes "\<And>bs s. length bs = k \<Longrightarrow> length s = be_nat bs + j \<Longrightarrow> \<exists>tok. fmt tok (byte b # bs @ s)"
  shows "token_prefix (byte b # xs)"
proof (cases "k \<le> length xs")
  case False
  define z where "z = replicate (k - length xs) (byte 0)"
  define pad where "pad = z @ replicate (be_nat (xs @ z) + j) (byte 0)"
  have "length (xs @ z) = k" using False by (simp add: z_def)
  then obtain tok where "fmt tok (byte b # (xs @ z) @ replicate (be_nat (xs @ z) + j) (byte 0))"
    using assms[of "xs @ z"] by fastforce
  then have "fmt tok ((byte b # xs) @ pad)" by (simp add: pad_def)
  moreover have "pad \<noteq> []" using False by (simp add: pad_def z_def)
  ultimately show ?thesis unfolding token_prefix_def by blast
next
  case True
  define n where "n = be_nat (take k xs) + j"
  have tok: "\<exists>tok. fmt tok (byte b # take k xs @ s)" if "length s = n" for s
    using assms[of "take k xs" s] True that by (simp add: n_def)
  show ?thesis
  proof (cases "n \<le> length (drop k xs)")
    case True
    then obtain tok where "fmt tok (byte b # take k xs @ take n (drop k xs))"
      using tok[of "take n (drop k xs)"] by auto
    moreover have "byte b # xs = (byte b # take k xs @ take n (drop k xs)) @ drop n (drop k xs)"
      by (simp del: drop_drop)
    ultimately show ?thesis unfolding token_prefix_def by blast
  next
    case False
    let ?pad = "replicate (n - length (drop k xs)) (byte 0)"
    have "length (drop k xs @ ?pad) = n" using False by simp
    then obtain tok where "fmt tok (byte b # take k xs @ drop k xs @ ?pad)" using tok by blast
    then have "fmt tok ((byte b # xs) @ ?pad)" by (metis append_Cons append_assoc append_take_drop_id)
    moreover have "?pad \<noteq> []" using False by simp
    ultimately show ?thesis unfolding token_prefix_def by blast
  qed
qed

lemma fixed_tokens:
  assumes "length bs = k"
  shows "(b, k) \<in> set [(0xca, 4), (0xcb, 8), (0xcc, 1), (0xcd, 2), (0xce, 4), (0xcf, 8), (0xd0, 1), (0xd1, 2),
      (0xd2, 4), (0xd3, 8), (0xd4, 2), (0xd5, 3), (0xd6, 5), (0xd7, 9), (0xd8, 17), (0xdc, 2), (0xdd, 4),
      (0xde, 2), (0xdf, 4)] \<Longrightarrow> \<exists>tok. fmt tok (byte b # bs)"
    and "0xa0 \<le> b \<Longrightarrow> b < 0xc0 \<Longrightarrow> k = b - 0xa0 \<Longrightarrow> \<exists>tok. fmt tok (byte b # bs)"
    and "b < 0x80 \<or> (0xe0 \<le> b \<and> b < 256) \<or> (0x80 \<le> b \<and> b < 0xa0) \<or> b \<in> {0xc0, 0xc2, 0xc3} \<Longrightarrow> \<exists>tok. fmt tok [byte b]"
proof -
  show "\<exists>tok. fmt tok (byte b # bs)" if "(b, k) \<in> set [(0xca, 4), (0xcb, 8), (0xcc, 1), (0xcd, 2), (0xce, 4),
      (0xcf, 8), (0xd0, 1), (0xd1, 2), (0xd2, 4), (0xd3, 8), (0xd4, 2), (0xd5, 3), (0xd6, 5), (0xd7, 9),
      (0xd8, 17), (0xdc, 2), (0xdd, 4), (0xde, 2), (0xdf, 4)]"
  proof -
    have "b = 0xca \<and> k = 4 \<or> b = 0xcb \<and> k = 8
        \<or> (b, k) \<in> set [(0xcc, 1), (0xcd, 2), (0xce, 4), (0xcf, 8)]
        \<or> (b, k) \<in> set [(0xd0, 1), (0xd1, 2), (0xd2, 4), (0xd3, 8)]
        \<or> (b, k - 1) \<in> set [(0xd4, 1), (0xd5, 2), (0xd6, 4), (0xd7, 8), (0xd8, 16)] \<and> 1 < k
        \<or> (b, k) \<in> set [(0xdc, 2), (0xdd, 4)] \<or> (b, k) \<in> set [(0xde, 2), (0xdf, 4)]"
      using that by (simp only: list.set insert_iff empty_iff prod.inject, elim disjE conjE) simp_all
    then consider "b = 0xca" "k = 4" | "b = 0xcb" "k = 8"
      | "(b, k) \<in> set [(0xcc, 1), (0xcd, 2), (0xce, 4), (0xcf, 8)]"
      | "(b, k) \<in> set [(0xd0, 1), (0xd1, 2), (0xd2, 4), (0xd3, 8)]"
      | "(b, k - 1) \<in> set [(0xd4, 1), (0xd5, 2), (0xd6, 4), (0xd7, 8), (0xd8, 16)]" "1 < k"
      | "(b, k) \<in> set [(0xdc, 2), (0xdd, 4)]" | "(b, k) \<in> set [(0xde, 2), (0xdf, 4)]"
      by blast
    then show ?thesis
    proof cases
      case 5
      then obtain ty s where "bs = ty # s" "length s = k - 1" using assms by (cases bs) auto
      then show ?thesis using fmt_fixext[OF 5(1), of s ty] by auto
    qed (use assms fmt_float fmt_double fmt_uint fmt_int fmt_array fmt_map in blast)+
  qed
  show "\<exists>tok. fmt tok (byte b # bs)" if "0xa0 \<le> b" "b < 0xc0" "k = b - 0xa0"
    using fmt_fixstr[of bs] that assms by (simp add: less_diff_conv2) blast
  show "\<exists>tok. fmt tok [byte b]"
    if "b < 0x80 \<or> (0xe0 \<le> b \<and> b < 256) \<or> (0x80 \<le> b \<and> b < 0xa0) \<or> b \<in> {0xc0, 0xc2, 0xc3}"
  proof -
    have "b < 0x80 \<or> (0xe0 \<le> b \<and> b < 256) \<or> (0x90 \<le> b \<and> b < 0xa0) \<or> (0x80 \<le> b \<and> b < 0x90)
        \<or> b = 0xc0 \<or> b = 0xc2 \<or> b = 0xc3" using that by auto
    then consider "b < 0x80" | "0xe0 \<le> b" "b < 256" | "0x90 \<le> b" "b < 0xa0" | "0x80 \<le> b" "b < 0x90"
      | "b = 0xc0" | "b = 0xc2" | "b = 0xc3" by blast
    then show ?thesis
    proof cases
      case 2
      then show ?thesis using fmt_neg_fixint[of "int b - 256"] by auto
    next
      case 3
      then show ?thesis using fmt_fixarray[of "b - 0x90"] by (simp add: less_diff_conv2) blast
    next
      case 4
      then show ?thesis using fmt_fixmap[of "b - 0x80"] by (simp add: less_diff_conv2) blast
    qed (use fmt_pos_fixint fmt_nil fmt_bool[of True] fmt_bool[of False] in auto)
  qed
qed

lemma sized_tokens:
  assumes "(b, k) \<in> set [(0xc4, 1), (0xc5, 2), (0xc6, 4), (0xd9, 1), (0xda, 2), (0xdb, 4)] \<and> j = 0
      \<or> (b, k) \<in> set [(0xc7, 1), (0xc8, 2), (0xc9, 4)] \<and> j = 1"
    and "length bs = k" "length s = be_nat bs + j"
  shows "\<exists>tok. fmt tok (byte b # bs @ s)"
proof -
  consider "(b, k) \<in> set [(0xc4, 1), (0xc5, 2), (0xc6, 4)]" "j = 0"
    | "(b, k) \<in> set [(0xd9, 1), (0xda, 2), (0xdb, 4)]" "j = 0"
    | "(b, k) \<in> set [(0xc7, 1), (0xc8, 2), (0xc9, 4)]" "j = 1"
    using assms(1) by (simp; elim disjE conjE; simp)
  then show ?thesis
  proof cases
    case 1
    then show ?thesis using fmt_bin[OF 1(1) assms(2), of s] assms(3) by auto
  next
    case 2
    then show ?thesis using fmt_str[OF 2(1) assms(2), of s] assms(3) by auto
  next
    case 3
    then obtain ty s' where "s = ty # s'" "length s' = be_nat bs" using assms(3) by (cases s) auto
    then show ?thesis using fmt_ext[OF 3(1) assms(2), of s' ty] by auto
  qed
qed

lemma trail_tokens:
  assumes "0xc4 \<le> b" and "b < 0xe0"
  shows "(b, trail_table ! (b - 0xc4)) \<in> set [(0xca, 4), (0xcb, 8), (0xcc, 1), (0xcd, 2), (0xce, 4), (0xcf, 8),
      (0xd0, 1), (0xd1, 2), (0xd2, 4), (0xd3, 8), (0xd4, 2), (0xd5, 3), (0xd6, 5), (0xd7, 9), (0xd8, 17),
      (0xdc, 2), (0xdd, 4), (0xde, 2), (0xdf, 4)]
    \<or> (b, trail_table ! (b - 0xc4)) \<in> set [(0xc4, 1), (0xc5, 2), (0xc6, 4), (0xd9, 1), (0xda, 2), (0xdb, 4)]
    \<or> (b, trail_table ! (b - 0xc4)) \<in> set [(0xc7, 1), (0xc8, 2), (0xc9, 4)]" (is "?P b")
proof -
  define row where "row = b - 0xc4"
  have b: "b = row + 0xc4" and "row < 28" using assms by (auto simp: row_def)
  then have "row = 0 \<or> row = 1 \<or> row = 2 \<or> row = 3 \<or> row = 4 \<or> row = 5 \<or> row = 6 \<or> row = 7 \<or>
      row = 8 \<or> row = 9 \<or> row = 10 \<or> row = 11 \<or> row = 12 \<or> row = 13 \<or> row = 14 \<or> row = 15
      \<or> row = 16 \<or> row = 17 \<or> row = 18 \<or> row = 19 \<or> row = 20 \<or> row = 21 \<or> row = 22
      \<or> row = 23 \<or> row = 24 \<or> row = 25 \<or> row = 26 \<or> row = 27"
    by presburger
  then show ?thesis unfolding b by (elim disjE; simp add: trail_table_def)
qed

lemma token_prefix_byte:
  assumes "b < 256" and "b \<noteq> 0xc1"
  shows "token_prefix (byte b # xs)"
proof -
  consider "b < 0x80 \<or> (0xe0 \<le> b \<and> b < 256) \<or> (0x80 \<le> b \<and> b < 0xa0) \<or> b \<in> {0xc0, 0xc2, 0xc3}"
    | "0xa0 \<le> b" "b < 0xc0" | "0xc4 \<le> b" "b < 0xe0"
    using assms by fastforce
  then show ?thesis
  proof cases
    case 1
    then show ?thesis using fixed_token[of 0 b xs] fixed_tokens(3)[of "[]" 0 b] by auto
  next
    case 2
    then show ?thesis using fixed_token[of "b - 0xa0" b xs] fixed_tokens(2) by blast
  next
    case 3
    let ?k = "trail_table ! (b - 0xc4)"
    show ?thesis
      using trail_tokens[OF 3] fixed_token[of ?k b xs] fixed_tokens(1)[of _ ?k b]
        sized_token[of ?k 0 b xs] sized_token[of ?k 1 b xs] sized_tokens[of b ?k] by metis
  qed
qed

end
