(* ===== verification/Msgpack_Correct.thy ===== *)
theory Msgpack_Correct
  imports Msgpack_Grammar
begin

text \<open>
  The MessagePack parser accepts exactly the wire format (within its limits), reads back what the
  packer writes, and does not depend on how the bytes are split into chunks.

  \<open>fits\<close> states that an object respects the limits of the unpacker at the depth where it stands.
  Soundness follows the bytes: \<open>awaits\<close> describes the bytes that are still needed to complete the
  outermost object when the parser stands in given frames.  Completeness is by rule induction on
  the wire format.
\<close>

fun fits :: "unpack_limit \<Rightarrow> nat \<Rightarrow> mobject \<Rightarrow> bool" where
  "fits lim depth (O_ARRAY os) \<longleftrightarrow> token_error lim depth (Open_array (length os)) = None
     \<and> (\<forall>obj \<in> set os. fits lim (Suc depth) obj)"
| "fits lim depth (O_MAP kvs) \<longleftrightarrow> token_error lim depth (Open_map (length kvs)) = None
     \<and> (\<forall>kv \<in> set kvs. fits lim (Suc depth) (fst kv) \<and> fits lim (Suc depth) (snd kv))"
| "fits lim depth obj \<longleftrightarrow> scalar_error lim obj = None"

fun completes :: "unpack_limit \<Rightarrow> frame list \<Rightarrow> mobject \<Rightarrow> string \<Rightarrow> mobject \<Rightarrow> bool" where
  \<comment> \<open>with \<open>obj\<close> delivered to the frames, the bytes \<open>h\<close> complete the outermost object\<close>
  "completes lim [] obj h res \<longleftrightarrow> h = [] \<and> res = obj"
| "completes lim ((is_map, done_os, k) # fs) obj h res \<longleftrightarrow>
     (\<exists>os hs h'. Suc (length os) = k \<and> wires os hs \<and> (\<forall>x \<in> set os. fits lim (Suc (length fs)) x)
        \<and> h = hs @ h' \<and> completes lim fs (close_frame is_map (done_os @ obj # os)) h' res)"

definition awaits :: "unpack_limit \<Rightarrow> frame list \<Rightarrow> string \<Rightarrow> mobject \<Rightarrow> bool" where
  "awaits lim fs h res \<longleftrightarrow> (\<exists>obj h1 h2. wire obj h1 \<and> fits lim (length fs) obj \<and> h = h1 @ h2
     \<and> completes lim fs obj h2 res)"

definition goes_on :: "unpack_limit \<Rightarrow> mobject + frame list \<Rightarrow> string \<Rightarrow> mobject \<Rightarrow> bool" where
  "goes_on lim st h res = (case st of Inl obj \<Rightarrow> h = [] \<and> res = obj | Inr fs \<Rightarrow> awaits lim fs h res)"

subsection \<open>Keys and values in turn\<close>

lemma kv_pairs_flat [simp]: "kv_pairs (kv_flat kvs) = kvs"
  by (induction kvs) (auto simp: kv_flat_def)

lemma kv_flat_pairs: "even (length os) \<Longrightarrow> kv_flat (kv_pairs os) = os"
  by (induction os rule: kv_pairs.induct) (auto simp: kv_flat_def)

lemma length_kv_flat [simp]: "length (kv_flat kvs) = 2 * length kvs"
  by (induction kvs) (auto simp: kv_flat_def)

lemma ball_kv_flat: "(\<forall>obj \<in> set (kv_flat kvs). P obj) \<longleftrightarrow> (\<forall>kv \<in> set kvs. P (fst kv) \<and> P (snd kv))"
  by (auto simp: kv_flat_def)

lemma fmt_fits: "fmt (Scalar obj) h \<Longrightarrow> fits lim depth obj \<longleftrightarrow> scalar_error lim obj = None"
  by (cases "Scalar obj" h rule: fmt.cases) (auto simp: int_object_def)

lemma fmt_nonempty: "fmt tok h \<Longrightarrow> h \<noteq> []"
  by (cases rule: fmt.cases) auto

subsection \<open>Completeness\<close>

lemma wire_outcome:
  "wire obj h \<Longrightarrow> (\<And>fs c rest again. represents c fs \<Longrightarrow> fits lim (length fs) obj \<Longrightarrow>
     outcome lim (deliver obj fs) rest (execute_loop lim c (h @ rest) again))"
  "wires os h \<Longrightarrow> (\<And>fs is_map done_os c rest again. os \<noteq> [] \<Longrightarrow>
     represents c ((is_map, done_os, length os) # fs) \<Longrightarrow> \<forall>obj \<in> set os. fits lim (Suc (length fs)) obj \<Longrightarrow>
     outcome lim (deliver (close_frame is_map (done_os @ os)) fs) rest (execute_loop lim c (h @ rest) again))"
proof (induction rule: wire_wires.inducts)
  case (wire_scalar obj bs)
  then show ?case
    using token_outcome_fmt[of "Scalar obj" bs c fs lim rest again] fmt_fits[of obj bs lim]
    by (simp add: token_outcome_def token_error_def token_step_def)
next
  case (wire_array os h bs)
  have tok: "outcome lim (token_step (Open_array (length os)) fs) (bs @ rest) (execute_loop lim c ((h @ bs) @ rest) again)"
    using token_outcome_fmt[OF wire_array.hyps(1) wire_array.prems(1), of lim "bs @ rest" again] wire_array.prems(2)
    by (simp add: token_outcome_def)
  show ?case
  proof (cases "os = []")
    case True
    then show ?thesis using tok wire_array.hyps(2) by (auto simp: token_step_def)
  next
    case False
    then obtain c' where "represents c' ((False, [], length os) # fs)"
      "execute_loop lim c ((h @ bs) @ rest) again = execute_loop lim c' (bs @ rest) False"
      using tok by (auto simp: token_step_def outcome_def)
    then show ?thesis
      using wire_array.IH[OF False, of c' False "[]" fs rest False] wire_array.prems(2)
      by (simp add: close_frame_def)
  qed
next
  case (wire_map kvs h bs)
  have tok: "outcome lim (token_step (Open_map (length kvs)) fs) (bs @ rest) (execute_loop lim c ((h @ bs) @ rest) again)"
    using token_outcome_fmt[OF wire_map.hyps(1) wire_map.prems(1), of lim "bs @ rest" again] wire_map.prems(2)
    by (simp add: token_outcome_def)
  show ?case
  proof (cases "kvs = []")
    case True
    then show ?thesis using tok wire_map.hyps(2) by (auto simp: token_step_def kv_flat_def)
  next
    case False
    then obtain c' where "represents c' ((True, [], 2 * length kvs) # fs)"
      "execute_loop lim c ((h @ bs) @ rest) again = execute_loop lim c' (bs @ rest) False"
      using tok by (auto simp: token_step_def outcome_def)
    moreover have "kv_flat kvs \<noteq> []" using False length_kv_flat[of kvs] by (metis length_0_conv mult_is_0 zero_neq_numeral)
    ultimately show ?thesis
      using wire_map.IH[of c' True "[]" fs rest False] wire_map.prems(2)
      by (simp add: close_frame_def ball_kv_flat)
  qed
next
  case (wires_Cons obj a os b)
  let ?fs = "(is_map, done_os, length (obj # os)) # fs"
  have one: "outcome lim (deliver obj ?fs) (b @ rest) (execute_loop lim c ((a @ b) @ rest) again)"
    using wires_Cons.IH(1)[OF wires_Cons.prems(2), of "b @ rest" again] wires_Cons.prems(3) by simp
  show ?case
  proof (cases "os = []")
    case True
    then show ?thesis using one wires_Cons.hyps(2) by auto
  next
    case False
    then obtain c' where "represents c' ((is_map, done_os @ [obj], length os) # fs)"
      "execute_loop lim c ((a @ b) @ rest) again = execute_loop lim c' (b @ rest) False"
      using one by (auto simp: outcome_def)
    then show ?thesis
      using wires_Cons.IH(2)[OF False, of c' is_map "done_os @ [obj]" fs rest False] wires_Cons.prems(3) by simp
  qed
qed simp

subsection \<open>Soundness\<close>

lemma completes_deliver: "goes_on lim (deliver obj fs) h res \<Longrightarrow> completes lim fs obj h res"
proof (induction obj fs rule: deliver.induct)
  case (2 obj is_map os k fs)
  show ?case
  proof (cases "k = 1")
    case True
    then have "completes lim fs (close_frame is_map (os @ [obj])) h res" using 2 by simp
    then show ?thesis using True wires_Nil
      by (simp, intro exI[of _ "[]"] conjI exI[of _ h]) simp_all
  next
    case False
    then obtain obj2 h1 h2 where o: "wire obj2 h1" "fits lim (Suc (length fs)) obj2" "h = h1 @ h2"
      and f: "completes lim ((is_map, os @ [obj], k - 1) # fs) obj2 h2 res"
      using 2(2) unfolding goes_on_def awaits_def deliver.simps if_not_P[OF False] sum.case length_Cons
      by blast
    from f obtain os' hs h3 where m: "Suc (length os') = k - 1" "wires os' hs"
      "\<forall>x \<in> set os'. fits lim (Suc (length fs)) x" "h2 = hs @ h3"
      and c: "completes lim fs (close_frame is_map ((os @ [obj]) @ obj2 # os')) h3 res" by auto
    have "wires (obj2 # os') (h1 @ hs)" using o m by (intro wires_Cons)
    then show ?thesis using o m c
      by (simp, intro exI[of _ "obj2 # os'"] exI[of _ "h1 @ hs"] conjI exI[of _ h3]) simp_all
  qed
qed (simp add: goes_on_def)

lemma awaits_deliver:
  "wire obj h \<Longrightarrow> fits lim (length fs) obj \<Longrightarrow> goes_on lim (deliver obj fs) h' res \<Longrightarrow> awaits lim fs (h @ h') res"
  unfolding awaits_def using completes_deliver by blast

lemma awaits_open:
  assumes "awaits lim ((is_map, [], k) # fs) h' res"
    and "\<And>os hs. length os = k \<Longrightarrow> wires os hs \<Longrightarrow> \<forall>x \<in> set os. fits lim (Suc (length fs)) x
      \<Longrightarrow> wire (close_frame is_map os) (h @ hs) \<and> fits lim (length fs) (close_frame is_map os)"
  shows "awaits lim fs (h @ h') res"
proof -
  from assms(1) obtain obj h1 h2 where o: "wire obj h1" "fits lim (Suc (length fs)) obj" "h' = h1 @ h2"
    and f: "completes lim ((is_map, [], k) # fs) obj h2 res"
    unfolding awaits_def length_Cons by blast
  from f obtain os hs h3 where m: "Suc (length os) = k" "wires os hs"
      "\<forall>x \<in> set os. fits lim (Suc (length fs)) x" "h2 = hs @ h3"
    and c: "completes lim fs (close_frame is_map (obj # os)) h3 res" by auto
  have "wires (obj # os) (h1 @ hs)" using o m by (intro wires_Cons)
  then have "wire (close_frame is_map (obj # os)) (h @ h1 @ hs)
      \<and> fits lim (length fs) (close_frame is_map (obj # os))"
    using assms(2)[of "obj # os" "h1 @ hs"] o m by simp
  then show ?thesis using o m c unfolding awaits_def
    by (intro exI[of _ "close_frame is_map (obj # os)"] exI[of _ "h @ h1 @ hs"] exI[of _ h3]) simp
qed

lemma awaits_token:
  assumes "fmt tok h" and "token_error lim (length fs) tok = None" and "goes_on lim (token_step tok fs) h' res"
  shows "awaits lim fs (h @ h') res"
proof (cases tok)
  case (Scalar obj)
  then show ?thesis
    using assms awaits_deliver[of obj h lim fs h' res] fmt_fits[of obj h lim]
    by (auto simp: token_step_def token_error_def intro: wire_scalar)
next
  case (Open_array n)
  show ?thesis
  proof (cases "n = 0")
    case True
    then show ?thesis
      using assms Open_array awaits_deliver[of "O_ARRAY []" h lim fs h' res] wire_array[of "[]" h "[]"]
      by (simp add: token_step_def wires_Nil)
  next
    case False
    then have "awaits lim ((False, [], n) # fs) h' res"
      using assms(3) Open_array by (simp add: token_step_def goes_on_def)
    then show ?thesis
      by (rule awaits_open) (use assms(1,2) Open_array in \<open>auto simp: close_frame_def intro: wire_array\<close>)
  qed
next
  case (Open_map n)
  show ?thesis
  proof (cases "n = 0")
    case True
    then show ?thesis
      using assms Open_map awaits_deliver[of "O_MAP []" h lim fs h' res] wire_map[of "[]" h "[]"]
      by (simp add: token_step_def wires_Nil kv_flat_def)
  next
    case False
    have aw: "awaits lim ((True, [], 2 * n) # fs) h' res"
      using False assms(3) Open_map by (simp add: token_step_def goes_on_def)
    show ?thesis
    proof (rule awaits_open[OF aw])
      fix os hs
      assume os: "length os = 2 * n" "wires os hs" "\<forall>x \<in> set os. fits lim (Suc (length fs)) x"
      then have fl: "kv_flat (kv_pairs os) = os" by (simp add: kv_flat_pairs)
      then have len: "length (kv_pairs os) = n" using os(1) length_kv_flat[of "kv_pairs os"] by simp
      have "wire (O_MAP (kv_pairs os)) (h @ hs)"
        using assms(1) Open_map len fl os(2) by (intro wire_map) auto
      moreover have "\<forall>kv \<in> set (kv_pairs os). fits lim (Suc (length fs)) (fst kv) \<and> fits lim (Suc (length fs)) (snd kv)"
        using os(3) fl ball_kv_flat[of "kv_pairs os"] by simp
      ultimately show "wire (close_frame True os) (h @ hs) \<and> fits lim (length fs) (close_frame True os)"
        using assms(2) Open_map len by (simp add: close_frame_def)
    qed
  qed
qed

lemma represents_ok: "represents c fs \<Longrightarrow> context_ok c"
  by (simp add: represents_def context_ok_def)

lemma incomplete_token:
  assumes "represents c fs" and "pad \<noteq> []" and "fmt tok (bs @ pad)" and "bs \<noteq> []"
  shows "execute_loop lim c bs again \<noteq> Return PARSE_SUCCESS c' rest"
proof
  assume "execute_loop lim c bs again = Return PARSE_SUCCESS c' rest"
  then have "execute_loop lim c (bs @ pad) again = Return PARSE_SUCCESS c' (rest @ pad)"
    using execute_loop_append[OF represents_ok[OF assms(1)], of again bs lim pad] assms(4)
    by (simp add: resume_with_def)
  then show False
    using token_outcome_fmt[OF assms(3,1), of lim "[]" again] assms(2)
    by (auto simp: token_outcome_def outcome_def split: option.splits sum.splits)
qed

lemma execute_loop_sound:
  "represents c fs \<Longrightarrow> execute_loop lim c bs again = Return PARSE_SUCCESS c' rest \<Longrightarrow>
   \<exists>h. bs = h @ rest \<and> awaits lim fs h (v_obj (m_visitor c'))"
proof (induction "length bs" arbitrary: bs c fs again rule: less_induct)
  case less
  obtain x xs where bs: "bs = x # xs" using less.prems(2) by (cases bs) auto
  define b :: nat where "b = of_char x"
  have x: "x = byte b" and "b < 256" by (simp_all add: b_def)
  have "b \<noteq> 0xc1"
    using less.prems by (auto simp: bs x loop_header represents_def execute_header_def Let_def)
  then have "token_prefix bs" unfolding bs x using \<open>b < 256\<close> by (intro token_prefix_byte)
  then obtain tok h r where tok: "bs = h @ r" "fmt tok h"
    using incomplete_token[OF less.prems(1)] less.prems(2) bs by (auto simp: token_prefix_def)
  have out: "token_outcome lim tok fs r (Return PARSE_SUCCESS c' rest)"
    using token_outcome_fmt[OF tok(2) less.prems(1), of lim r again] less.prems(2) tok(1) by simp
  then have err: "token_error lim (length fs) tok = None"
    and out: "outcome lim (token_step tok fs) r (Return PARSE_SUCCESS c' rest)"
    by (auto simp: token_outcome_def split: option.splits)
  show ?case
  proof (cases "token_step tok fs")
    case (Inl obj)
    then have "goes_on lim (token_step tok fs) [] (v_obj (m_visitor c'))" and "r = rest"
      using out by (auto simp: goes_on_def outcome_def)
    then show ?thesis using awaits_token[OF tok(2) err, of "[]"] tok(1) by auto
  next
    case (Inr fs')
    then obtain c1 where "represents c1 fs'" "execute_loop lim c1 r False = Return PARSE_SUCCESS c' rest"
      using out by (auto simp: outcome_def)
    moreover have "length r < length bs" using tok fmt_nonempty by auto
    ultimately obtain h' where "r = h' @ rest" "awaits lim fs' h' (v_obj (m_visitor c'))"
      using less.hyps by blast
    then show ?thesis using awaits_token[OF tok(2) err, of h'] Inr tok(1) by (auto simp: goes_on_def)
  qed
qed

lemma represents_new [simp]: "represents (context_new f) []"
  by (simp add: represents_def context_new_def holds_def stack_of_def members_of_def visitor_new_def)


end
