(* ===== verification/Msgpack_Stream.thy ===== *)
theory Msgpack_Stream
  imports Msgpack_Correct
begin

text \<open>
  The unpacker as the code that uses it sees it: bytes are fed to it and objects come out.  A
  \<open>stream\<close> is the parsing context with the bytes that are not parsed yet; the buffer that holds
  those bytes in the code is modelled in \<open>Msgpack_Unpacker\<close>, which refines this theory.

  \<open>stream_next\<close> is \<open>unpacker::next\<close> of \<open>v2/unpack.hpp\<close> on this state, \<open>stream_reset\<close> the pair
  \<open>reset\<close> and \<open>remove_nonparsed_buffer\<close> that the server calls after an exception, and
  \<open>stream_drain\<close> the loop that takes the objects out after each piece of input.  The properties
  state that what comes out does not depend on how the bytes were cut into pieces.
  \<open>msgpack_unpack\<close> is the one-shot function \<open>msgpack::unpack\<close> of \<open>v3/unpack.hpp\<close>.
\<close>

subsection \<open>Definitions\<close>

definition parse_imp :: "unpack_limit \<Rightarrow> bool \<Rightarrow> string \<Rightarrow> nat \<Rightarrow> msgpack_error + (parse_return \<times> mobject \<times> nat)" where
  \<comment> \<open>\<open>parse_imp\<close> with a new \<open>create_object_visitor\<close>: the return value, the object and \<open>off\<close>\<close>
  "parse_imp lim f data off =
     (if length data \<le> off then Inl insufficient_bytes
      else (case execute lim (context_new f) data off of
              Throw e _ _ \<Rightarrow> Inl e
            | Return ret c rest \<Rightarrow>
                let noff = length data - length rest; obj = v_obj (m_visitor c) in
                if ret = PARSE_CONTINUE then Inl insufficient_bytes
                else if ret = PARSE_SUCCESS
                     then Inr (if noff < length data then PARSE_EXTRA_BYTES else ret, obj, noff)
                else Inr (ret, obj, noff)
            | Go c rest _ \<Rightarrow> Inr (PARSE_CONTINUE, v_obj (m_visitor c), length data - length rest)))"

definition msgpack_unpack :: "unpack_limit \<Rightarrow> string \<Rightarrow> msgpack_error + mobject" where
  \<comment> \<open>\<open>msgpack::unpack(data, len)\<close>: the object of the handle, which is nil in a handle without object\<close>
  "msgpack_unpack lim data =
     (case parse_imp lim False data 0 of
        Inl e \<Rightarrow> Inl e
      | Inr (ret, obj, off) \<Rightarrow>
          Inr (if ret = PARSE_SUCCESS \<or> ret = PARSE_EXTRA_BYTES then obj else O_NIL))"

record stream =
  st_ctx :: context_t
  st_pending :: string

datatype next_result = Got mobject | Need_more | Thrown msgpack_error

definition stream_new :: stream where
  "stream_new = \<lparr>st_ctx = context_new True, st_pending = []\<rparr>"

definition stream_feed :: "string \<Rightarrow> stream \<Rightarrow> stream" where
  "stream_feed bs s = s\<lparr>st_pending := st_pending s @ bs\<rparr>"

definition stream_next :: "unpack_limit \<Rightarrow> stream \<Rightarrow> next_result \<times> stream" where
  "stream_next lim s =
     (case execute lim (st_ctx s) (st_pending s) 0 of
        Return ret c rest \<Rightarrow>
          if ret = PARSE_SUCCESS then (Got (v_obj (m_visitor c)), \<lparr>st_ctx = context_init c, st_pending = rest\<rparr>)
          else (Need_more, \<lparr>st_ctx = c, st_pending = rest\<rparr>)
      | Throw e off c \<Rightarrow>
          (Thrown e, \<lparr>st_ctx = c, st_pending = (case off of None \<Rightarrow> st_pending s | Some rest \<Rightarrow> rest)\<rparr>)
      | Go c rest _ \<Rightarrow> (Need_more, \<lparr>st_ctx = c, st_pending = rest\<rparr>))"

definition stream_reset :: "stream \<Rightarrow> stream" where
  "stream_reset s = \<lparr>st_ctx = context_init (st_ctx s), st_pending = []\<rparr>"

fun stream_drain :: "nat \<Rightarrow> unpack_limit \<Rightarrow> stream \<Rightarrow> (mobject list \<times> stream) option" where
  \<comment> \<open>the objects that \<open>while (next())\<close> takes out; the fuel bounds the turns of the loop\<close>
  "stream_drain 0 lim s = None"
| "stream_drain (Suc n) lim s =
     (case stream_next lim s of
        (Got obj, s') \<Rightarrow> map_option (\<lambda>(os, t). (obj # os, t)) (stream_drain n lim s')
      | (Need_more, s') \<Rightarrow> Some ([], s')
      | (Thrown e, s') \<Rightarrow> Some ([], stream_reset s'))"

fun stream_receive :: "unpack_limit \<Rightarrow> string list \<Rightarrow> stream \<Rightarrow> (mobject list \<times> stream) option" where
  \<comment> \<open>pieces of input as they arrive, each followed by a drain\<close>
  "stream_receive lim [] s = Some ([], s)"
| "stream_receive lim (c # cs) s =
     (case stream_drain (Suc (length (st_pending s) + length c)) lim (stream_feed c s) of
        None \<Rightarrow> None
      | Some (os, s') \<Rightarrow> map_option (\<lambda>(ps, t). (os @ ps, t)) (stream_receive lim cs s'))"

definition encodes :: "unpack_limit \<Rightarrow> mobject \<Rightarrow> string \<Rightarrow> bool" where
  "encodes lim obj bs \<longleftrightarrow> wire obj bs \<and> fits lim 0 obj"

definition unfinished :: "unpack_limit \<Rightarrow> string \<Rightarrow> bool" where
  "unfinished lim bs \<longleftrightarrow> (\<exists>obj pad. pad \<noteq> [] \<and> encodes lim obj (bs @ pad))"

definition behaves :: "unpack_limit \<Rightarrow> stream \<Rightarrow> string \<Rightarrow> bool" where
  \<comment> \<open>the stream stands where a fresh parser with the bytes \<open>p\<close> stands\<close>
  "behaves lim s p \<longleftrightarrow> context_ok (st_ctx s) \<and> (\<exists>c. represents c [] \<and>
     (\<forall>d. execute_loop lim (st_ctx s) (st_pending s @ d) False = execute_loop lim c (p @ d) False))"

definition flow_len :: "flow \<Rightarrow> nat \<Rightarrow> bool" where
  "flow_len f k \<longleftrightarrow> (case f of
       Throw e off c \<Rightarrow> True
     | Return ret c rest \<Rightarrow> ret \<noteq> PARSE_CONTINUE \<longrightarrow> length rest \<le> k - 1
     | Go c rest again \<Rightarrow> length rest \<le> k)"

subsection \<open>One-shot unpacking\<close>

text \<open>The parser does not depend on how the bytes are split: parsing two pieces one after the
  other gives what parsing them at once gives.  If the first piece was not enough, the parser
  continues from the context and the bytes it left; otherwise its result stands and the second
  piece is left unread.\<close>
theorem execute_chunks:
  assumes "context_ok c"
  shows "execute lim c (d1 @ d2) 0 = resume_with lim d2 (execute lim c d1 0)"
  using execute_loop_append[OF assms, of False d1 lim d2] by (simp add: execute_def)

theorem execute_chunks_witness:
  "execute unpack_limit_default (context_new True) ([byte 0xa2, byte 0x68] @ [byte 0x69]) 0 =
    resume_with unpack_limit_default [byte 0x69] (execute unpack_limit_default (context_new True) [byte 0xa2, byte 0x68] 0)"
  by (rule execute_chunks) (simp add: context_ok_def context_new_def)

lemma encodes_success:
  assumes "encodes lim obj h" and "represents c []"
  shows "\<exists>c'. execute_loop lim c (h @ rest) again = Return PARSE_SUCCESS c' rest \<and> v_obj (m_visitor c') = obj"
  using wire_outcome(1)[of obj h c "[]" lim rest again] assms by (simp add: encodes_def outcome_def)

lemma wire_pack: "wf_object obj \<Longrightarrow> wire obj (pack_object obj)"
  by (rule pack_object_wire)

lemma unpack_wire:
  assumes "wire obj bs" and "fits lim 0 obj"
  shows "msgpack_unpack lim (bs @ rest) = Inr obj"
proof -
  have "bs \<noteq> []"
    using assms(1) by (cases rule: wire.cases) (auto dest: fmt_nonempty)
  moreover obtain c where "execute lim (context_new False) (bs @ rest) 0 = Return PARSE_SUCCESS c rest"
      "v_obj (m_visitor c) = obj"
    using encodes_success[of lim obj bs "context_new False" rest False] assms
    by (auto simp: encodes_def execute_def)
  ultimately show ?thesis by (simp add: msgpack_unpack_def parse_imp_def Let_def)
qed



lemma execute_trail_continue:
  assumes "context_ok c" and "m_cs c \<noteq> 0" and "execute_trail lim c cur again = Return PARSE_CONTINUE c' rest"
  shows "context_ok c'"
proof -
  define xs where "xs = (if again then tl cur else cur)"
  show ?thesis
  proof (cases "length xs < m_trail c")
    case True
    then show ?thesis using assms by (simp add: execute_trail_def Let_def flip: xs_def)
  next
    case False
    then have "drop (m_trail c - 1) xs \<noteq> []" using context_ok_trail[OF assms(1,2)] by auto
    then show ?thesis
      using execute_switch_ok[of "drop (m_trail c - 1) xs" lim c xs] assms(3) False
      by (simp add: execute_trail_def Let_def flow_ok_def flip: xs_def)
  qed
qed

lemma execute_turn_continue:
  assumes "context_ok c" and "cur \<noteq> []" and "execute_turn lim c cur again = Return PARSE_CONTINUE c' rest"
  shows "context_ok c'"
proof (cases "m_cs c = 0")
  case True
  then show ?thesis
    using assms execute_header_ok[OF assms(2), of lim c] execute_trail_continue[of _ lim _ _ c' rest]
    by (auto simp: execute_turn_def flow_ok_def split: flow.splits if_splits)
next
  case False
  then show ?thesis
    using assms execute_trail_continue[of c lim cur again c' rest] by (simp add: execute_turn_def)
qed

lemma execute_loop_continue:
  "context_ok c \<Longrightarrow> execute_loop lim c cur again = Return PARSE_CONTINUE c' rest \<Longrightarrow> context_ok c'"
proof (induction lim c cur again rule: execute_loop.induct)
  case (1 lim c cur again)
  show ?case
  proof (cases "cur = []")
    case True
    then show ?thesis using 1 by simp
  next
    case False
    show ?thesis
    proof (cases "execute_turn lim c cur again")
      case (Go c1 cur1 again1)
      then show ?thesis
        using 1 False execute_turn_Go[OF 1(2) False Go] by (simp add: execute_loop_run[of lim c])
    qed (use 1 False execute_turn_continue[OF 1(2) False] in \<open>auto simp: execute_loop_run[of lim c]\<close>)
  qed
qed

lemma unfinished_continue:
  assumes "represents c []" and "unfinished lim bs"
  shows "\<exists>c' rest. execute_loop lim c bs False = Return PARSE_CONTINUE c' rest \<and> context_ok c'"
proof -
  have ok: "context_ok c" using represents_ok[OF assms(1)] .
  obtain obj pad where pad: "pad \<noteq> []" "encodes lim obj (bs @ pad)" using assms(2) by (auto simp: unfinished_def)
  obtain c' where "execute_loop lim c (bs @ pad) False = Return PARSE_SUCCESS c' []"
    using encodes_success[OF pad(2) assms(1), of "[]" False] by auto
  then have *: "resume_with lim pad (execute_loop lim c bs False) = Return PARSE_SUCCESS c' []"
    using execute_loop_append[OF ok, of False bs lim pad] by simp
  show ?thesis
  proof (cases "execute_loop lim c bs False")
    case (Return ret c1 rest)
    then have "ret = PARSE_CONTINUE"
      using * pad(1) by (cases ret) (auto simp: resume_with_def)
    then show ?thesis using Return execute_loop_continue[OF ok] by simp
  qed (use * loop_not_Go in \<open>auto simp: resume_with_def\<close>)
qed

text \<open>C17: A truncated encoding is never taken for an error: on a proper prefix of the encoding of an
  object within the limits the parser asks for more bytes.\<close>
theorem prefix_needs_more:
  assumes "wire obj (bs @ pad)" and "fits lim 0 obj" and "pad \<noteq> []"
  shows "\<exists>c rest. execute lim (context_new f) bs 0 = Return PARSE_CONTINUE c rest \<and> context_ok c"
  using unfinished_continue[OF represents_new, of lim bs f] assms
  by (auto simp: unfinished_def encodes_def execute_def)

theorem prefix_needs_more_witness:
  "\<exists>c rest. execute unpack_limit_default (context_new True) [byte 0xa2, CHR ''h''] 0 = Return PARSE_CONTINUE c rest
    \<and> context_ok c"
  by (rule prefix_needs_more[of "O_STR ''hi''" _ "''i''"])
    (use fmt_fixstr[of "''hi''"] in \<open>simp_all add: wire_scalar unpack_limit_default_def scalar_error_def\<close>)

subsection \<open>Streams\<close>

lemma behaves_new: "behaves lim stream_new []"
  using represents_ok[OF represents_new[of True]]
  by (auto simp: behaves_def stream_new_def intro!: exI[of _ "context_new True"])

lemma behaves_feed: "behaves lim s p \<Longrightarrow> behaves lim (stream_feed d s) (p @ d)"
  unfolding behaves_def stream_feed_def by fastforce

lemma represents_init [simp]: "represents (context_init c) []"
  by (simp add: represents_def holds_def context_init_def stack_of_def members_of_def visitor_init_def)

lemma stream_next_got:
  assumes "behaves lim s (h @ p)" and "encodes lim obj h"
  shows "\<exists>s'. stream_next lim s = (Got obj, s') \<and> behaves lim s' p"
proof -
  obtain c where c: "represents c []"
    and eq: "\<And>d. execute_loop lim (st_ctx s) (st_pending s @ d) False = execute_loop lim c ((h @ p) @ d) False"
    using assms(1) by (auto simp: behaves_def)
  obtain c' where "execute_loop lim c (h @ p) False = Return PARSE_SUCCESS c' p" "v_obj (m_visitor c') = obj"
    using encodes_success[OF assms(2) c, of p False] by auto
  then have "stream_next lim s = (Got obj, \<lparr>st_ctx = context_init c', st_pending = p\<rparr>)"
    using eq[of "[]"] by (simp add: stream_next_def execute_def)
  moreover have "behaves lim \<lparr>st_ctx = context_init c', st_pending = p\<rparr> p"
    using represents_ok[OF represents_init] by (auto simp: behaves_def intro!: exI[of _ "context_init c'"])
  ultimately show ?thesis by blast
qed

lemma stream_next_more:
  assumes "behaves lim s p" and "unfinished lim p"
  shows "\<exists>s'. stream_next lim s = (Need_more, s') \<and> behaves lim s' p"
proof -
  obtain c where ok: "context_ok (st_ctx s)" and c: "represents c []"
    and eq: "\<And>d. execute_loop lim (st_ctx s) (st_pending s @ d) False = execute_loop lim c (p @ d) False"
    using assms(1) by (auto simp: behaves_def)
  obtain c' rest where r: "execute_loop lim (st_ctx s) (st_pending s) False = Return PARSE_CONTINUE c' rest"
    using unfinished_continue[OF c assms(2)] eq[of "[]"] by auto
  then have "stream_next lim s = (Need_more, \<lparr>st_ctx = c', st_pending = rest\<rparr>)"
    by (simp add: stream_next_def execute_def)
  moreover have "execute_loop lim c' (rest @ d) False = execute_loop lim c (p @ d) False" for d
    using execute_loop_append[OF ok, of False "st_pending s" lim d] r eq[of d] by (simp add: resume_with_def)
  then have "behaves lim \<lparr>st_ctx = c', st_pending = rest\<rparr> p"
    using c execute_loop_continue[OF ok r] by (auto simp: behaves_def)
  ultimately show ?thesis by blast
qed

lemma stream_drain_objects:
  assumes "list_all2 (encodes lim) objs encs" and "behaves lim s (concat encs @ t)" and "unfinished lim t"
    and "stream_drain n lim s = Some (os, s')"
  shows "os = objs \<and> behaves lim s' t"
  using assms
proof (induction objs encs arbitrary: s n os rule: list_all2_induct)
  case Nil
  then show ?case using stream_next_more[of lim s t] by (cases n) auto
next
  case (Cons obj objs e encs)
  obtain s1 where s1: "stream_next lim s = (Got obj, s1)" "behaves lim s1 (concat encs @ t)"
    using stream_next_got[of lim s e "concat encs @ t" obj] Cons by auto
  obtain m where n: "n = Suc m" using Cons.prems(3) by (cases n) auto
  obtain os1 where "stream_drain m lim s1 = Some (os1, s')" "os = obj # os1"
    using Cons.prems(3) s1 n by auto
  then show ?case using Cons.IH[OF s1(2) Cons.prems(2)] by simp
qed

subsection \<open>How far a drain has to go\<close>

lemma after_visit_len: "flow_len (after_visit_proc r c cur) (length cur)"
  by (auto simp: flow_len_def after_visit_proc_def Let_def split: sum.split prod.split)

lemma start_aggregate_len: "flow_len (start_aggregate ty sv ev sz c cur) (length cur)"
  by (auto simp: flow_len_def start_aggregate_def Let_def split: sum.split prod.split)

lemma load_length_len: "flow_len (load_length t acs vis c cur) (length cur)"
  using after_visit_len by (auto simp: flow_len_def load_length_def Let_def)

lemma if_flow_len: "(P \<Longrightarrow> flow_len f k) \<Longrightarrow> (\<not> P \<Longrightarrow> flow_len g k) \<Longrightarrow> flow_len (if P then f else g) k"
  by simp

lemma execute_switch_len: "flow_len (execute_switch lim c n cur) (length cur)"
  unfolding execute_switch_def Let_def
  by (intro if_flow_len) (simp_all add: after_visit_len start_aggregate_len load_length_len, simp add: flow_len_def)

lemma execute_header_len: "flow_len (execute_header lim c cur) (length cur)"
  unfolding execute_header_def Let_def
  by (intro if_flow_len) (simp_all add: after_visit_len start_aggregate_len, simp_all add: flow_len_def)

lemma execute_trail_len: "length cur \<le> k \<Longrightarrow> flow_len (execute_trail lim c cur again) k"
  using execute_switch_len[of lim c _ "drop (m_trail c - 1) (if again then tl cur else cur)"]
  by (fastforce simp: flow_len_def execute_trail_def Let_def split: flow.splits)

lemma execute_turn_len: "flow_len (execute_turn lim c cur again) (length cur)"
proof (cases "m_cs c = 0")
  case False
  then show ?thesis using execute_trail_len[of cur "length cur" lim c again] by (simp add: execute_turn_def)
next
  case True
  show ?thesis
  proof (cases "execute_header lim c cur")
    case (Go c1 cur1 a)
    then have "length cur1 \<le> length cur" using execute_header_len[of lim c cur] by (simp add: flow_len_def)
    then show ?thesis
      using True Go execute_trail_len[of cur1 "length cur" lim c1 a] by (simp add: execute_turn_def flow_len_def)
  qed (use True execute_header_len[of lim c cur] in \<open>auto simp: execute_turn_def flow_len_def\<close>)
qed

lemma execute_loop_shrinks:
  "execute_loop lim c cur again = Return PARSE_SUCCESS c' rest \<Longrightarrow> length rest < length cur"
proof (induction lim c cur again rule: execute_loop.induct)
  case (1 lim c cur again)
  have ne: "cur \<noteq> []" using 1(2) by auto
  show ?case
  proof (cases "execute_turn lim c cur again")
    case (Go c1 cur1 again1)
    then show ?thesis
      using 1 ne execute_turn_len[of lim c cur again] by (simp add: execute_loop_run[of lim c] flow_len_def)
  qed (use 1 ne execute_turn_len[of lim c cur again] in
      \<open>auto simp: execute_loop_run[of lim c] flow_len_def neq_Nil_conv\<close>)
qed

lemma stream_next_shrinks:
  "stream_next lim s = (Got obj, s') \<Longrightarrow> length (st_pending s') < length (st_pending s)"
  using execute_loop_shrinks by (fastforce simp: stream_next_def execute_def split: flow.splits if_splits)

lemma stream_drain_total: "length (st_pending s) < n \<Longrightarrow> \<exists>r. stream_drain n lim s = Some r"
proof (induction n arbitrary: s)
  case (Suc n)
  show ?case
  proof (cases "stream_next lim s")
    case (Pair res s')
    show ?thesis
    proof (cases res)
      case (Got obj)
      then have "length (st_pending s') < length (st_pending s)"
        using Pair stream_next_shrinks by simp
      then have "\<exists>r. stream_drain n lim s' = Some r" using Suc.prems by (intro Suc.IH) linarith
      then show ?thesis using Pair Got by auto
    qed (use Pair in auto)
  qed
qed simp

lemma split_encodings:
  "list_all2 (encodes lim) objs encs \<Longrightarrow> unfinished lim t \<Longrightarrow> q @ r = concat encs @ t \<Longrightarrow>
   \<exists>i t'. i \<le> length encs \<and> q = concat (take i encs) @ t' \<and> t' @ r = concat (drop i encs) @ t \<and> unfinished lim t'"
proof (induction objs encs arbitrary: q rule: list_all2_induct)
  case Nil
  then have "unfinished lim q" by (auto simp: unfinished_def) (metis append_assoc append_is_Nil_conv)
  then show ?case using Nil by auto
next
  case (Cons obj objs e encs)
  have eq: "q @ r = e @ (concat encs @ t)" using Cons.prems(2) by simp
  then obtain us where us: "q @ us = e \<or> q = e @ us"
    by (auto simp: append_eq_append_conv2)
  show ?case
  proof (cases "length q < length e")
    case True
    then obtain pad where "e = q @ pad" "pad \<noteq> []"
      using us by fastforce
    then show ?thesis
      using Cons.hyps(1) Cons.prems(2) by (intro exI[of _ 0] exI[of _ q]) (auto simp: unfinished_def)
  next
    case False
    then obtain q' where q: "q = e @ q'" using us by fastforce
    then obtain i t' where "i \<le> length encs" "q' = concat (take i encs) @ t'"
        "t' @ r = concat (drop i encs) @ t" "unfinished lim t'"
      using Cons.IH[OF Cons.prems(1), of q'] Cons.prems(2) by auto
    then show ?thesis using q by (intro exI[of _ "Suc i"] exI[of _ t']) simp
  qed
qed

lemma unfinished_no_encodings:
  assumes "list_all2 (encodes lim) objs encs" and "unfinished lim p" and "p = concat encs @ t"
  shows "encs = []"
proof (cases encs)
  case (Cons e es)
  then obtain obj where e: "encodes lim obj e" using assms(1) by (auto simp: list_all2_Cons2)
  obtain obj' pad where "pad \<noteq> []" "encodes lim obj' (e @ concat es @ t @ pad)"
    using assms(2,3) Cons by (auto simp: unfinished_def)
  then show ?thesis
    using encodes_success[OF e represents_new[of True], of "concat es @ t @ pad" False]
      encodes_success[of lim obj' "e @ concat es @ t @ pad" "context_new True" "[]" False] by auto
qed simp

lemma stream_receive_objects:
  "list_all2 (encodes lim) objs encs \<Longrightarrow> unfinished lim t \<Longrightarrow> behaves lim s p \<Longrightarrow> unfinished lim p \<Longrightarrow>
   p @ concat chunks = concat encs @ t \<Longrightarrow>
   \<exists>s'. stream_receive lim chunks s = Some (objs, s') \<and> behaves lim s' t"
proof (induction chunks arbitrary: s p objs encs)
  case Nil
  then have "encs = []" using unfinished_no_encodings[of lim objs encs p t] by simp
  then show ?case using Nil by simp
next
  case (Cons c cs)
  obtain i t' where i: "i \<le> length encs" "p @ c = concat (take i encs) @ t'"
      "t' @ concat cs = concat (drop i encs) @ t" "unfinished lim t'"
    using split_encodings[OF Cons.prems(1,2), of "p @ c" "concat cs"] Cons.prems(5) by auto
  have l: "list_all2 (encodes lim) (take i objs) (take i encs)" "list_all2 (encodes lim) (drop i objs) (drop i encs)"
    using Cons.prems(1) by (auto intro: list_all2_takeI list_all2_dropI)
  obtain os s1 where d: "stream_drain (Suc (length (st_pending s) + length c)) lim (stream_feed c s) = Some (os, s1)"
    using stream_drain_total[of "stream_feed c s" "Suc (length (st_pending s) + length c)" lim]
    by (auto simp: stream_feed_def)
  have "os = take i objs \<and> behaves lim s1 t'"
    using stream_drain_objects[OF l(1) _ i(4) d] behaves_feed[OF Cons.prems(3), of c] i(2) by simp
  moreover obtain s2 where "stream_receive lim cs s1 = Some (drop i objs, s2)" "behaves lim s2 t"
    using Cons.IH[OF l(2) Cons.prems(2) _ i(4,3), of s1] calculation by auto
  ultimately show ?case using d by simp
qed

lemma unfinished_Nil: "unfinished lim []"
  unfolding unfinished_def encodes_def
  by (intro exI[of _ O_NIL] exI[of _ "[byte 0xc0]"]) (simp add: wire_scalar fmt_nil scalar_error_def)

text \<open>C12: The objects that come out of the unpacker do not depend on how the bytes were cut into
  pieces: if the input, in whatever pieces it arrives, is the encodings of some objects followed by
  the beginning of another encoding, then exactly those objects come out, in order, and the
  unpacker stands where a fresh one stands after the bytes that are left over.\<close>
theorem stream_independent_of_chunks:
  assumes "list_all2 (encodes lim) objs encs" and "unfinished lim t"
    and "concat chunks = concat encs @ t"
  shows "\<exists>s. stream_receive lim chunks stream_new = Some (objs, s) \<and> behaves lim s t"
  using stream_receive_objects[OF assms(1,2) behaves_new unfinished_Nil] assms(3) by simp

theorem stream_independent_of_chunks_witness:
  "\<exists>s. stream_receive unpack_limit_default [[byte 0xa2], [CHR ''h''], [CHR ''i'', byte 5]] stream_new
      = Some ([O_STR ''hi'', O_POSITIVE_INTEGER 5], s) \<and> behaves unpack_limit_default s []"
proof (rule stream_independent_of_chunks[of _ _ "[[byte 0xa2, CHR ''h'', CHR ''i''], [byte 5]]"])
  show "list_all2 (encodes unpack_limit_default) [O_STR ''hi'', O_POSITIVE_INTEGER 5]
      [[byte 0xa2, CHR ''h'', CHR ''i''], [byte 5]]"
    using fmt_fixstr[of "''hi''"] fmt_pos_fixint[of 5]
    by (simp add: encodes_def wire_scalar unpack_limit_default_def scalar_error_def)
qed (simp_all add: unfinished_Nil)

end
