(* ===== verification/Msgpack_Unpacker.thy ===== *)
theory Msgpack_Unpacker
  imports Msgpack_Stream "HOL-Library.Sublist"
begin

text \<open>
  The unpacker with its buffer (\<open>class parser\<close> of \<open>v2/parse.hpp\<close>, \<open>class unpacker\<close> of
  \<open>v2/unpack.hpp\<close>).  The objects that come out refer to strings inside the buffer, so that a buffer
  is shared between the unpacker and the zones of the objects and is freed by reference counting.

  The heap maps the address of a buffer to its reference count and its bytes, the counter included.
  A zone is the list of the buffers that its finalizers release, the last one pushed first, which is
  the order in which they run.  Every operation is partial:
  \<open>None\<close> is an access to a buffer that is freed or an access beyond its end.  Properties: no
  operation of the protocol that the server follows is ever such an access, whatever the sizes of
  the pieces of input; the counts are the numbers of references; a buffer that an object refers to
  is neither freed nor overwritten where it was parsed; and on top of all that the unpacker behaves
  as the stream of \<open>Msgpack_Stream\<close>.  \<open>malloc\<close> and \<open>realloc\<close> succeed and a count does not wrap.
\<close>

subsection \<open>Buffers\<close>

record mheap =
  h_next :: nat
  h_bufs :: "nat \<Rightarrow> (nat \<times> string) option"

definition COUNTER_SIZE :: nat where
  "COUNTER_SIZE = 4"

definition buf_malloc :: "string \<Rightarrow> mheap \<Rightarrow> nat \<times> mheap" where
  \<comment> \<open>\<open>malloc\<close> followed by \<open>init_count\<close>, with the bytes that the caller copies in\<close>
  "buf_malloc mem h = (h_next h, \<lparr>h_next = Suc (h_next h), h_bufs = (h_bufs h)(h_next h \<mapsto> (1, mem))\<rparr>)"

definition decr_count :: "nat \<Rightarrow> mheap \<Rightarrow> mheap option" where
  "decr_count b h = (case h_bufs h b of
       None \<Rightarrow> None
     | Some (cnt, mem) \<Rightarrow>
         if cnt = 0 then None
         else if cnt = 1 then Some (h\<lparr>h_bufs := (h_bufs h)(b := None)\<rparr>)
         else Some (h\<lparr>h_bufs := (h_bufs h)(b \<mapsto> (cnt - 1, mem))\<rparr>))"

definition incr_count :: "nat \<Rightarrow> mheap \<Rightarrow> mheap option" where
  "incr_count b h = (case h_bufs h b of
       None \<Rightarrow> None
     | Some (cnt, mem) \<Rightarrow> Some (h\<lparr>h_bufs := (h_bufs h)(b \<mapsto> (Suc cnt, mem))\<rparr>))"

fun zone_destroy :: "nat list \<Rightarrow> mheap \<Rightarrow> mheap option" where
  \<comment> \<open>the finalizers of a zone\<close>
  "zone_destroy [] h = Some h"
| "zone_destroy (b # bs) h = (case decr_count b h of None \<Rightarrow> None | Some h' \<Rightarrow> zone_destroy bs h')"

subsection \<open>The parser and its buffer\<close>

record parser_t =
  p_ctx :: context_t
  m_buffer :: nat
  m_used :: nat
  m_free :: nat
  m_off :: nat
  m_parsed :: nat
  m_initial_buffer_size :: nat
  p_zone :: "nat list"
    \<comment> \<open>\<open>m_z\<close> of the unpacker: the zone of the object that is being parsed\<close>

definition referenced :: "parser_t \<Rightarrow> bool" where
  "referenced p = v_referenced (m_visitor (p_ctx p))"

definition set_referenced :: "bool \<Rightarrow> parser_t \<Rightarrow> parser_t" where
  "set_referenced r p =
     p\<lparr>p_ctx := (p_ctx p)\<lparr>m_visitor := (m_visitor (p_ctx p))\<lparr>v_referenced := r\<rparr>\<rparr>\<rparr>"

definition parser_new :: "nat \<Rightarrow> mheap \<Rightarrow> parser_t \<times> mheap" where
  "parser_new initial_buffer_size h =
     (let n = (if initial_buffer_size < COUNTER_SIZE then COUNTER_SIZE else initial_buffer_size) in
      case buf_malloc (replicate n (byte 0)) h of (b, h') \<Rightarrow>
        (\<lparr>p_ctx = context_new True, m_buffer = b, m_used = COUNTER_SIZE, m_free = n - COUNTER_SIZE,
          m_off = COUNTER_SIZE, m_parsed = 0, m_initial_buffer_size = n, p_zone = []\<rparr>, h'))"

function next_size :: "nat \<Rightarrow> nat \<Rightarrow> nat" where
  \<comment> \<open>doubling in \<open>size_t\<close> until \<open>want\<close> bytes fit, or \<open>want\<close> itself when the doubling overflows\<close>
  "next_size n want =
     (if n < want then
        let tmp = (n * 2) mod 2 ^ 64 in if tmp \<le> n then want else next_size tmp want
      else n)"
  by pat_completeness auto

termination
  by (relation "measure (\<lambda>(n, want). want - n)") auto

declare next_size.simps [simp del]

definition buf_realloc :: "nat \<Rightarrow> nat \<Rightarrow> mheap \<Rightarrow> (nat \<times> mheap) option" where
  \<comment> \<open>\<open>realloc\<close>: the old address is invalid afterwards\<close>
  "buf_realloc b n h = (case h_bufs h b of
       None \<Rightarrow> None
     | Some (cnt, mem) \<Rightarrow>
         Some (h_next h, \<lparr>h_next = Suc (h_next h),
           h_bufs = (h_bufs h)(b := None,
             h_next h \<mapsto> (cnt, take n mem @ replicate (n - length mem) (byte 0)))\<rparr>))"

definition expand_buffer :: "nat \<Rightarrow> parser_t \<times> mheap \<Rightarrow> (parser_t \<times> mheap) option" where
  "expand_buffer sz = (\<lambda>(p0, h).
     case h_bufs h (m_buffer p0) of
       None \<Rightarrow> None
     | Some (cnt, mem) \<Rightarrow>
         let rewind = (m_used p0 = m_off p0 \<and> cnt = 1 \<and> \<not> referenced p0);
             p = (if rewind
                  then p0\<lparr>m_free := m_free p0 + (m_used p0 - COUNTER_SIZE), m_used := COUNTER_SIZE,
                          m_off := COUNTER_SIZE\<rparr>
                  else p0) in
         if rewind \<and> m_free p \<ge> sz then Some (p, h)
         else if m_off p = COUNTER_SIZE then
           let n = next_size (((m_used p + m_free p) * 2) mod 2 ^ 64) ((sz + m_used p) mod 2 ^ 64) in
           map_option (\<lambda>(b, h'). (p\<lparr>m_buffer := b, m_free := n - m_used p\<rparr>, h'))
             (buf_realloc (m_buffer p) n h)
         else
           let not_parsed = m_used p - m_off p;
               n = next_size (m_initial_buffer_size p) ((sz + not_parsed + COUNTER_SIZE) mod 2 ^ 64) in
           if n < COUNTER_SIZE + not_parsed \<or> length mem < m_used p then None
           else
             (case buf_malloc (replicate COUNTER_SIZE (byte 0) @ take not_parsed (drop (m_off p) mem)
                    @ replicate (n - COUNTER_SIZE - not_parsed) (byte 0)) h of (b, h1) \<Rightarrow>
                let p' = p\<lparr>m_buffer := b, m_used := not_parsed + COUNTER_SIZE,
                           m_free := n - (not_parsed + COUNTER_SIZE), m_off := COUNTER_SIZE\<rparr> in
                if referenced p
                then Some (set_referenced False (p'\<lparr>p_zone := m_buffer p # p_zone p\<rparr>), h1)
                else map_option (\<lambda>h2. (p', h2)) (decr_count (m_buffer p) h1)))"

definition reserve_buffer :: "nat \<Rightarrow> parser_t \<times> mheap \<Rightarrow> (parser_t \<times> mheap) option" where
  "reserve_buffer sz = (\<lambda>(p, h). if m_free p \<ge> sz then Some (p, h) else expand_buffer sz (p, h))"

definition write_buffer :: "string \<Rightarrow> parser_t \<times> mheap \<Rightarrow> (parser_t \<times> mheap) option" where
  \<comment> \<open>\<open>memcpy(buffer(), buf, length)\<close> of the client\<close>
  "write_buffer bs = (\<lambda>(p, h). case h_bufs h (m_buffer p) of
       None \<Rightarrow> None
     | Some (cnt, mem) \<Rightarrow>
         if length mem < m_used p + length bs then None
         else Some (p, h\<lparr>h_bufs := (h_bufs h)(m_buffer p \<mapsto>
                (cnt, take (m_used p) mem @ bs @ drop (m_used p + length bs) mem))\<rparr>))"

definition buffer_consumed :: "nat \<Rightarrow> parser_t \<Rightarrow> parser_t" where
  "buffer_consumed n p = p\<lparr>m_used := m_used p + n, m_free := m_free p - n\<rparr>"

definition execute_imp :: "unpack_limit \<Rightarrow> parser_t \<times> mheap \<Rightarrow> ((msgpack_error + parse_return) \<times> parser_t) option" where
  "execute_imp lim = (\<lambda>(p, h). case h_bufs h (m_buffer p) of
       None \<Rightarrow> None
     | Some (cnt, mem) \<Rightarrow>
         if length mem < m_used p then None
         else
           (case execute lim (p_ctx p) (take (m_used p) mem) (m_off p) of
              Return ret c rest \<Rightarrow>
                let off = m_used p - length rest in
                Some (Inr ret, p\<lparr>p_ctx := c, m_off := off,
                                m_parsed := (if off > m_off p then m_parsed p + (off - m_off p) else m_parsed p)\<rparr>)
            | Throw e off c \<Rightarrow>
                Some (Inl e, p\<lparr>p_ctx := c,
                              m_off := (case off of None \<Rightarrow> m_off p | Some rest \<Rightarrow> m_used p - length rest)\<rparr>)
            | Go c rest _ \<Rightarrow> None))"

definition parser_next :: "unpack_limit \<Rightarrow> parser_t \<times> mheap \<Rightarrow> ((msgpack_error + bool) \<times> parser_t) option" where
  "parser_next lim s =
     map_option (\<lambda>(r, p). (case r of Inl e \<Rightarrow> Inl e | Inr ret \<Rightarrow> Inr (ret = PARSE_SUCCESS), p)) (execute_imp lim s)"

definition parser_reset :: "parser_t \<Rightarrow> parser_t" where
  "parser_reset p = p\<lparr>p_ctx := context_init (p_ctx p), m_parsed := 0\<rparr>"

definition message_size :: "parser_t \<Rightarrow> int" where
  "message_size p = int (m_parsed p) - int (m_off p) + int (m_used p)"

definition nonparsed_size :: "parser_t \<Rightarrow> nat" where
  "nonparsed_size p = m_used p - m_off p"

definition skip_nonparsed_buffer :: "nat \<Rightarrow> parser_t \<Rightarrow> parser_t" where
  "skip_nonparsed_buffer n p = p\<lparr>m_off := m_off p + n\<rparr>"

definition remove_nonparsed_buffer :: "parser_t \<Rightarrow> parser_t" where
  "remove_nonparsed_buffer p = p\<lparr>m_used := m_off p\<rparr>"

subsection \<open>The unpacker\<close>

type_synonym object_handle = "nat list \<times> mobject"
  \<comment> \<open>the zone (empty for a null pointer) and the object\<close>

type_synonym unpacker_state = "parser_t \<times> mheap \<times> object_handle"

definition flush_zone :: "parser_t \<times> mheap \<Rightarrow> (parser_t \<times> mheap) option" where
  "flush_zone = (\<lambda>(p, h).
     if referenced p
     then map_option (\<lambda>h'. (set_referenced False (p\<lparr>p_zone := m_buffer p # p_zone p\<rparr>), h'))
            (incr_count (m_buffer p) h)
     else Some (p, h))"

definition release_zone :: "parser_t \<times> mheap \<Rightarrow> (nat list \<times> parser_t \<times> mheap) option" where
  "release_zone s = map_option (\<lambda>(p, h). (p_zone p, p\<lparr>p_zone := []\<rparr>, h)) (flush_zone s)"

definition unpacker_next :: "unpack_limit \<Rightarrow> unpacker_state \<Rightarrow> (next_result \<times> unpacker_state) option" where
  "unpacker_next lim = (\<lambda>(p0, h0, zone, obj).
     case parser_next lim (p0, h0) of
       None \<Rightarrow> None
     | Some (Inl e, p) \<Rightarrow> Some (Thrown e, p, h0, zone, obj)
     | Some (Inr True, p) \<Rightarrow>
         (case release_zone (p, h0) of
            None \<Rightarrow> None
          | Some (z, p1, h1) \<Rightarrow>
              (case zone_destroy zone h1 of
                 None \<Rightarrow> None
               | Some h2 \<Rightarrow>
                   let d = v_obj (m_visitor (p_ctx p1)) in Some (Got d, parser_reset p1, h2, z, d)))
     | Some (Inr False, p) \<Rightarrow>
         map_option (\<lambda>h1. (Need_more, p, h1, [], O_NIL)) (zone_destroy zone h0))"

definition unpacker_new :: unpacker_state where
  "unpacker_new =
     (case parser_new (64 * 1024) \<lparr>h_next = 0, h_bufs = (\<lambda>_. None)\<rparr> of (p, h) \<Rightarrow> (p, h, [], O_NIL))"

definition unpacker_destroy :: "unpacker_state \<Rightarrow> mheap option" where
  \<comment> \<open>the end of \<open>MsgSessionData\<close>: the handle, then the members of the unpacker and its base \<open>parser\<close>\<close>
  "unpacker_destroy = (\<lambda>(p, h, zone, obj).
     case zone_destroy zone h of
       None \<Rightarrow> None
     | Some h1 \<Rightarrow> (case zone_destroy (p_zone p) h1 of None \<Rightarrow> None | Some h2 \<Rightarrow> decr_count (m_buffer p) h2))"

subsection \<open>The protocol of the server\<close>

definition feed :: "string \<Rightarrow> unpacker_state \<Rightarrow> unpacker_state option" where
  \<comment> \<open>\<open>reserve_buffer\<close>, \<open>memcpy\<close> and \<open>buffer_consumed\<close> in \<open>MsgSession::onReceive\<close>\<close>
  "feed buf = (\<lambda>(p, h, hd).
     case reserve_buffer (length buf) (p, h) of
       None \<Rightarrow> None
     | Some s \<Rightarrow>
         map_option (\<lambda>(p', h'). (buffer_consumed (length buf) p', h', hd)) (write_buffer buf s))"

definition drop_input :: "unpacker_state \<Rightarrow> unpacker_state" where
  \<comment> \<open>\<open>reset\<close> and \<open>remove_nonparsed_buffer\<close> after an exception\<close>
  "drop_input = (\<lambda>(p, h, hd). (remove_nonparsed_buffer (parser_reset p), h, hd))"

datatype operation = Feed string | Next_object | Drop_input

fun perform :: "unpack_limit \<Rightarrow> operation \<Rightarrow> unpacker_state \<Rightarrow> (next_result option \<times> unpacker_state) option" where
  "perform lim (Feed buf) s = map_option (\<lambda>t. (None, t)) (feed buf s)"
| "perform lim Next_object s = map_option (\<lambda>(r, t). (Some r, t)) (unpacker_next lim s)"
| "perform lim Drop_input s = Some (None, drop_input s)"

fun perform_all :: "unpack_limit \<Rightarrow> operation list \<Rightarrow> unpacker_state \<Rightarrow> (next_result list \<times> unpacker_state) option" where
  "perform_all lim [] s = Some ([], s)"
| "perform_all lim (op # ops) s =
     (case perform lim op s of
        None \<Rightarrow> None
      | Some (r, t) \<Rightarrow>
          map_option (\<lambda>(rs, u). ((case r of None \<Rightarrow> rs | Some x \<Rightarrow> x # rs), u)) (perform_all lim ops t))"

fun stream_perform :: "unpack_limit \<Rightarrow> operation \<Rightarrow> stream \<Rightarrow> next_result option \<times> stream" where
  "stream_perform lim (Feed buf) s = (None, stream_feed buf s)"
| "stream_perform lim Next_object s = (case stream_next lim s of (r, t) \<Rightarrow> (Some r, t))"
| "stream_perform lim Drop_input s = (None, stream_reset s)"

fun stream_perform_all :: "unpack_limit \<Rightarrow> operation list \<Rightarrow> stream \<Rightarrow> next_result list \<times> stream" where
  "stream_perform_all lim [] s = ([], s)"
| "stream_perform_all lim (op # ops) s =
     (case stream_perform lim op s of (r, t) \<Rightarrow>
        (case stream_perform_all lim ops t of (rs, u) \<Rightarrow> ((case r of None \<Rightarrow> rs | Some x \<Rightarrow> x # rs), u)))"

fun fed :: "operation \<Rightarrow> nat" where
  "fed (Feed buf) = length buf"
| "fed op = 0"

definition vforget :: "create_object_visitor \<Rightarrow> create_object_visitor" where
  "vforget v = v\<lparr>v_referenced := False\<rparr>"

definition cforget :: "context_t \<Rightarrow> context_t" where
  \<comment> \<open>the context without the flag \<open>m_referenced\<close>, which parsing does not read\<close>
  "cforget c = c\<lparr>m_visitor := vforget (m_visitor c)\<rparr>"

primrec fforget :: "flow \<Rightarrow> flow" where
  "fforget (Throw e off c) = Throw e off (cforget c)"
| "fforget (Return r c cur) = Return r (cforget c) cur"
| "fforget (Go c cur again) = Go (cforget c) cur again"

definition buf_bytes :: "mheap \<Rightarrow> nat \<Rightarrow> string option" where
  "buf_bytes h b = map_option snd (h_bufs h b)"

definition buf_count :: "mheap \<Rightarrow> nat \<Rightarrow> nat" where
  "buf_count h b = (case h_bufs h b of None \<Rightarrow> 0 | Some (cnt, mem) \<Rightarrow> cnt)"

definition heap_ok :: "mheap \<Rightarrow> bool" where
  "heap_ok h \<longleftrightarrow> (\<forall>b cnt mem. h_bufs h b = Some (cnt, mem) \<longrightarrow> 1 \<le> cnt \<and> b < h_next h)"

definition references :: "parser_t \<Rightarrow> nat list \<Rightarrow> nat \<Rightarrow> nat" where
  \<comment> \<open>who refers to a buffer: the parser, the zone being filled, the zone of the handle\<close>
  "references p zone b = (if b = m_buffer p then 1 else 0) + count_list (p_zone p) b + count_list zone b"

definition unpacker_ok :: "unpacker_state \<Rightarrow> bool" where
  "unpacker_ok = (\<lambda>(p, h, zone, obj).
     (\<exists>mem. buf_bytes h (m_buffer p) = Some mem \<and> m_used p + m_free p \<le> length mem)
     \<and> COUNTER_SIZE \<le> m_off p \<and> m_off p \<le> m_used p \<and> context_ok (p_ctx p) \<and> heap_ok h
     \<and> (\<forall>b. buf_count h b = references p zone b)
     \<and> (m_off p = COUNTER_SIZE \<longrightarrow> references p zone (m_buffer p) = 1))"

definition pending :: "parser_t \<times> mheap \<Rightarrow> string" where
  "pending = (\<lambda>(p, h). drop (m_off p) (take (m_used p) (the (buf_bytes h (m_buffer p)))))"

definition simulates :: "unpacker_state \<Rightarrow> stream \<Rightarrow> bool" where
  "simulates = (\<lambda>(p, h, hd) s. cforget (p_ctx p) = cforget (st_ctx s) \<and> pending (p, h) = st_pending s)"

definition live_buffers :: "unpacker_state \<Rightarrow> nat set" where
  \<comment> \<open>the buffers that an object may refer to: those of the handle, and those of the object being
      parsed\<close>
  "live_buffers = (\<lambda>(p, h, zone, obj). set zone \<union> set (p_zone p)
     \<union> (if referenced p \<and> m_off p > COUNTER_SIZE then {m_buffer p} else {}))"

definition keeps_bytes :: "unpacker_state \<Rightarrow> unpacker_state \<Rightarrow> bool" where
  \<comment> \<open>live buffers stay allocated, and the bytes parsed so far stay as they are\<close>
  "keeps_bytes = (\<lambda>(p, h, zone, obj) (p', h', zone', obj'). \<forall>b \<in> live_buffers (p, h, zone, obj).
     \<exists>mem mem'. buf_bytes h b = Some mem \<and> buf_bytes h' b = Some mem'
       \<and> (if b = m_buffer p
          then take (m_off p) mem' = take (m_off p) mem \<and> (b = m_buffer p' \<longrightarrow> m_off p \<le> m_off p')
          else mem' = mem \<and> b \<noteq> m_buffer p'))"

definition flow_inv :: "string \<Rightarrow> flow \<Rightarrow> bool" where
  \<comment> \<open>whatever the parser does, it leaves a valid context and a suffix of its input\<close>
  "flow_inv cur f \<longleftrightarrow> (case f of
       Throw e off c \<Rightarrow> context_ok c \<and> (\<forall>rest. off = Some rest \<longrightarrow> suffix rest cur)
     | Return r c rest \<Rightarrow> context_ok c \<and> suffix rest cur
     | Go c rest again \<Rightarrow> context_ok c \<and> suffix rest cur)"

definition reserves :: "nat \<Rightarrow> unpacker_state \<Rightarrow> parser_t \<times> mheap \<Rightarrow> bool" where
  "reserves sz = (\<lambda>(p, h, zone, obj) (p', h').
     unpacker_ok (p', h', zone, obj) \<and> sz \<le> m_free p' \<and> m_used p' \<le> m_used p
     \<and> cforget (p_ctx p') = cforget (p_ctx p) \<and> pending (p', h') = pending (p, h)
     \<and> keeps_bytes (p, h, zone, obj) (p', h', zone, obj))"

subsection \<open>Parsing does not read the flag\<close>

lemma visit_forget:
  "map_sum id vforget (visit_nil v) = visit_nil (vforget v)"
  "map_sum id vforget (visit_boolean b v) = visit_boolean b (vforget v)"
  "map_sum id vforget (visit_positive_integer n v) = visit_positive_integer n (vforget v)"
  "map_sum id vforget (visit_negative_integer i v) = visit_negative_integer i (vforget v)"
  "map_sum id vforget (visit_float32 n v) = visit_float32 n (vforget v)"
  "map_sum id vforget (visit_float64 n v) = visit_float64 n (vforget v)"
  "map_sum id vforget (start_array lim n v) = start_array lim n (vforget v)"
  "map_sum id vforget (start_map lim n v) = start_map lim n (vforget v)"
  by (simp_all add: vforget_def visit_nil_def visit_boolean_def visit_positive_integer_def
      visit_negative_integer_def visit_float32_def visit_float64_def start_array_def start_map_def)

lemma visit_bytes_forget:
  "map_sum id vforget (visit_str lim n sz (vforget v)) = map_sum id vforget (visit_str lim n sz v)"
  "map_sum id vforget (visit_bin lim n sz (vforget v)) = map_sum id vforget (visit_bin lim n sz v)"
  "map_sum id vforget (visit_ext lim n sz (vforget v)) = map_sum id vforget (visit_ext lim n sz v)"
  by (simp_all add: vforget_def visit_str_def visit_bin_def visit_ext_def)

lemma end_forget:
  "end_item (vforget v) = vforget (end_item v)" "end_array (vforget v) = vforget (end_array v)"
  "end_map (vforget v) = vforget (end_map v)"
  by (cases v; simp add: vforget_def end_item_def end_array_def end_map_def)+

lemma stack_consume_forget:
  "stack_consume st (vforget v) = (case stack_consume st v of (r, st', v') \<Rightarrow> (r, st', vforget v'))"
  by (induction st v rule: stack_consume.induct) (simp_all add: end_forget)

lemma cforget_idem [simp]: "cforget (cforget c) = cforget c" "vforget (vforget v) = vforget v"
  by (simp_all add: cforget_def vforget_def)

lemma cforget_fields [simp]:
  "m_trail (cforget c) = m_trail c" "m_cs (cforget c) = m_cs c" "m_stack (cforget c) = m_stack c"
  "m_visitor (cforget c) = vforget (m_visitor c)"
  by (simp_all add: cforget_def)

lemma after_visit_forget:
  assumes "map_sum id vforget r = map_sum id vforget r'" and "cforget c = cforget c'"
  shows "fforget (after_visit_proc r c cur) = fforget (after_visit_proc r' c' cur)"
proof -
  have f: "fforget (after_visit_proc r c cur) = fforget (after_visit_proc (map_sum id vforget r) (cforget c) cur)"
    for r c
    by (cases r) (auto simp: after_visit_proc_def Let_def stack_consume_forget cforget_def split: prod.split)
  show ?thesis using f[of r c] f[of r' c'] assms by simp
qed

lemma start_aggregate_forget:
  assumes "\<And>n v. map_sum id vforget (sv n v) = sv n (vforget v)" and "\<And>v. ev (vforget v) = vforget (ev v)"
    and "cforget c = cforget c'"
  shows "fforget (start_aggregate ty sv ev n c cur) = fforget (start_aggregate ty sv ev n c' cur)"
proof -
  have f: "fforget (start_aggregate ty sv ev n c cur) = fforget (start_aggregate ty sv ev n (cforget c) cur)" for c
    using assms(1)[of n "m_visitor c", symmetric]
    by (cases "sv n (m_visitor c)")
      (auto simp: start_aggregate_def Let_def stack_consume_forget assms(2) cforget_def split: prod.split)
  show ?thesis using f[of c] f[of c'] assms(3) by simp
qed

lemma load_length_forget:
  assumes "\<And>n v. map_sum id vforget (vis n (vforget v)) = map_sum id vforget (vis n v)" and "cforget c = cforget c'"
  shows "fforget (load_length t acs vis c cur) = fforget (load_length t acs vis c' cur)"
proof -
  have v: "vforget (m_visitor c) = vforget (m_visitor c')" and
    u: "cforget (c\<lparr>m_trail := t\<rparr>) = cforget (c'\<lparr>m_trail := t\<rparr>)"
      "cforget (c\<lparr>m_trail := t, m_cs := acs\<rparr>) = cforget (c'\<lparr>m_trail := t, m_cs := acs\<rparr>)"
    using assms(2) by (cases c; cases c'; simp add: cforget_def)+
  have "map_sum id vforget (vis t (m_visitor c)) = map_sum id vforget (vis t (m_visitor c'))"
    using assms(1)[of t "m_visitor c"] assms(1)[of t "m_visitor c'"] v by simp
  then show ?thesis using u by (auto simp: load_length_def Let_def intro!: after_visit_forget)
qed

lemma if_forget: "(P \<Longrightarrow> fforget f = fforget f') \<Longrightarrow> (\<not> P \<Longrightarrow> fforget g = fforget g')
    \<Longrightarrow> fforget (if P then f else g) = fforget (if P then f' else g')"
  by simp

lemma cforget_eq:
  assumes "cforget c = cforget c'"
  shows "m_trail c = m_trail c'" "m_cs c = m_cs c'" "m_stack c = m_stack c'"
    "vforget (m_visitor c) = vforget (m_visitor c')"
    "cforget (c\<lparr>m_trail := t\<rparr>) = cforget (c'\<lparr>m_trail := t\<rparr>)"
    "cforget (c\<lparr>m_trail := t, m_cs := cs\<rparr>) = cforget (c'\<lparr>m_trail := t, m_cs := cs\<rparr>)"
  using assms by (cases c; cases c'; simp add: cforget_def)+

lemma visit_sum_forget:
  assumes "vforget v = vforget v'"
  shows "map_sum id vforget (visit_nil v) = map_sum id vforget (visit_nil v')"
    "map_sum id vforget (visit_boolean b v) = map_sum id vforget (visit_boolean b v')"
    "map_sum id vforget (visit_positive_integer n v) = map_sum id vforget (visit_positive_integer n v')"
    "map_sum id vforget (visit_negative_integer i v) = map_sum id vforget (visit_negative_integer i v')"
    "map_sum id vforget (visit_float32 n v) = map_sum id vforget (visit_float32 n v')"
    "map_sum id vforget (visit_float64 n v) = map_sum id vforget (visit_float64 n v')"
    "map_sum id vforget (visit_str lim s n v) = map_sum id vforget (visit_str lim s n v')"
    "map_sum id vforget (visit_bin lim s n v) = map_sum id vforget (visit_bin lim s n v')"
    "map_sum id vforget (visit_ext lim s n v) = map_sum id vforget (visit_ext lim s n v')"
  using assms visit_bytes_forget[of lim s n v] visit_bytes_forget[of lim s n v'] by (simp_all add: visit_forget)

lemmas forget_rules = if_forget after_visit_forget start_aggregate_forget load_length_forget visit_sum_forget
  visit_bytes_forget end_forget visit_forget(7,8)

lemma execute_switch_forget:
  assumes "cforget c = cforget c'"
  shows "fforget (execute_switch lim c n cur) = fforget (execute_switch lim c' n cur)"
  unfolding execute_switch_def Let_def cforget_eq(1,2)[OF assms]
  by (intro forget_rules assms cforget_eq(4)[OF assms]) (simp only: fforget.simps assms)

lemma execute_header_forget:
  assumes "cforget c = cforget c'"
  shows "fforget (execute_header lim c cur) = fforget (execute_header lim c' cur)"
  unfolding execute_header_def Let_def context_t.simps
  by (intro forget_rules assms cforget_eq(4-)[OF assms])
    (auto intro!: forget_rules assms cforget_eq(4-)[OF assms])

lemma fforget_cases:
  assumes "fforget f = fforget f'"
  obtains e off c c' where "f = Throw e off c" "f' = Throw e off c'" "cforget c = cforget c'"
  | r cur c c' where "f = Return r c cur" "f' = Return r c' cur" "cforget c = cforget c'"
  | cur a c c' where "f = Go c cur a" "f' = Go c' cur a" "cforget c = cforget c'"
  using assms by (cases f; cases f') auto

lemma execute_turn_forget:
  assumes "cforget c = cforget c'"
  shows "fforget (execute_turn lim c cur again) = fforget (execute_turn lim c' cur again)"
proof -
  have trail: "fforget (execute_trail lim c cur a) = fforget (execute_trail lim c' cur a)"
    if "cforget c = cforget c'" for c c' cur a
    using that execute_switch_forget[OF that] by (simp add: execute_trail_def Let_def cforget_eq[OF that])
  show ?thesis
  proof (cases "m_cs c = 0")
    case False
    then show ?thesis using trail[OF assms] cforget_eq(2)[OF assms] by (simp add: execute_turn_def)
  next
    case True
    have cs: "m_cs c' = 0" using True cforget_eq(2)[OF assms] by simp
    from execute_header_forget[OF assms, of lim cur] show ?thesis
    proof (cases rule: fforget_cases)
      case (3 cur1 a c1 c2)
      then show ?thesis
        using True cs trail[OF 3(3), of cur1 a] cforget_eq(2)[OF 3(3)] by (simp add: execute_turn_def)
    qed (use True cs in \<open>simp_all add: execute_turn_def\<close>)
  qed
qed

lemma execute_loop_forget:
  "cforget c = cforget c' \<Longrightarrow> fforget (execute_loop lim c cur again) = fforget (execute_loop lim c' cur again)"
proof (induction lim c cur again arbitrary: c' rule: execute_loop.induct)
  case (1 lim c cur again)
  show ?case
  proof (cases "cur = []")
    case True
    then show ?thesis using 1 by simp
  next
    case False
    from execute_turn_forget[OF 1(2), of lim cur again] show ?thesis
    proof (cases rule: fforget_cases)
      case (3 cur1 a c1 c2)
      then show ?thesis using False 1(1)[OF False 3(1) 3(3)] by (simp add: execute_loop_run[of lim _ cur again])
    qed (use False in \<open>simp_all add: execute_loop_run[of lim _ cur again]\<close>)
  qed
qed

subsection \<open>Reference counts\<close>

lemma next_size_ge: "want \<le> next_size n want"
proof (induction n want rule: next_size.induct)
  case (1 n want)
  then show ?case by (subst next_size.simps) (auto simp: Let_def)
qed

lemma count_list_append [simp]: "count_list (xs @ ys) b = count_list xs b + count_list ys b"
  by (induction xs) auto

lemma count_list_pos: "0 < count_list xs b \<longleftrightarrow> b \<in> set xs"
  by (induction xs) auto

lemma buf_count_upd [simp]:
  "buf_count (h\<lparr>h_bufs := f\<rparr>) b = (case f b of None \<Rightarrow> 0 | Some (cnt, mem) \<Rightarrow> cnt)"
  "buf_bytes (h\<lparr>h_bufs := f\<rparr>) b = map_option snd (f b)"
  "buf_count \<lparr>h_next = n, h_bufs = f\<rparr> b = (case f b of None \<Rightarrow> 0 | Some (cnt, mem) \<Rightarrow> cnt)"
  "buf_bytes \<lparr>h_next = n, h_bufs = f\<rparr> b = map_option snd (f b)"
  by (simp_all add: buf_count_def buf_bytes_def)

lemma buf_count_pos: "buf_count h b > 0 \<Longrightarrow> \<exists>cnt mem. h_bufs h b = Some (cnt, mem) \<and> cnt = buf_count h b"
  by (auto simp: buf_count_def split: option.splits)

lemma decr_count_ok:
  assumes "heap_ok h" and "buf_count h b = Suc n"
  shows "\<exists>h'. decr_count b h = Some h' \<and> heap_ok h' \<and> buf_count h' b = n
    \<and> (\<forall>c. c \<noteq> b \<longrightarrow> buf_count h' c = buf_count h c) \<and> (\<forall>c. c \<noteq> b \<or> n > 0 \<longrightarrow> buf_bytes h' c = buf_bytes h c)
    \<and> h_next h' = h_next h"
proof -
  obtain mem where "h_bufs h b = Some (Suc n, mem)"
    using assms(2) by (auto simp: buf_count_def split: option.splits)
  then show ?thesis
    using assms(1) by (cases n) (auto simp: decr_count_def heap_ok_def buf_count_def[of h] buf_bytes_def[of h])
qed

lemma zone_destroy_ok:
  "heap_ok h \<Longrightarrow> (\<And>b. buf_count h b = n b + count_list zs b) \<Longrightarrow>
   \<exists>h'. zone_destroy zs h = Some h' \<and> heap_ok h' \<and> (\<forall>b. buf_count h' b = n b)
     \<and> (\<forall>b. n b > 0 \<longrightarrow> buf_bytes h' b = buf_bytes h b) \<and> h_next h' = h_next h"
proof (induction zs arbitrary: h)
  case (Cons z zs)
  have "buf_count h z = Suc (n z + count_list zs z)" using Cons.prems(2)[of z] by simp
  from decr_count_ok[OF Cons.prems(1) this] obtain h1 where h1: "decr_count z h = Some h1" "heap_ok h1"
      "buf_count h1 z = n z + count_list zs z" "\<And>c. c \<noteq> z \<Longrightarrow> buf_count h1 c = buf_count h c"
      "\<And>c. c \<noteq> z \<or> n z + count_list zs z > 0 \<Longrightarrow> buf_bytes h1 c = buf_bytes h c" "h_next h1 = h_next h"
    by blast
  have "buf_count h1 b = n b + count_list zs b" for b
    using h1(3) h1(4)[of b] Cons.prems(2)[of b] by (cases "b = z") auto
  then obtain h2 where h2: "zone_destroy zs h1 = Some h2" "heap_ok h2" "\<forall>b. buf_count h2 b = n b"
      "\<forall>b. n b > 0 \<longrightarrow> buf_bytes h2 b = buf_bytes h1 b" "h_next h2 = h_next h1"
    using Cons.IH[OF h1(2)] by blast
  have "\<forall>b. n b > 0 \<longrightarrow> buf_bytes h2 b = buf_bytes h b"
    using h2(4) h1(5) by (metis add_gr_0)
  then show ?case using h1 h2 by auto
qed auto

lemma heap_ok_fresh:
  assumes "heap_ok h"
  shows "h_bufs h (h_next h) = None" and "buf_count h (h_next h) = 0"
proof -
  show "h_bufs h (h_next h) = None" using assms by (cases "h_bufs h (h_next h)") (auto simp: heap_ok_def)
  then show "buf_count h (h_next h) = 0" by (simp add: buf_count_def)
qed

subsection \<open>Making room\<close>

lemma unpacker_okD:
  assumes "unpacker_ok (p, h, zone, obj)"
  obtains cnt mem where "h_bufs h (m_buffer p) = Some (cnt, mem)" "buf_bytes h (m_buffer p) = Some mem"
    "m_used p + m_free p \<le> length mem" "cnt = references p zone (m_buffer p)"
    "COUNTER_SIZE \<le> m_off p" "m_off p \<le> m_used p" "context_ok (p_ctx p)" "heap_ok h"
    "\<And>b. buf_count h b = references p zone b"
    "m_off p = COUNTER_SIZE \<Longrightarrow> references p zone (m_buffer p) = 1"
proof -
  obtain cnt mem where b: "h_bufs h (m_buffer p) = Some (cnt, mem)" "m_used p + m_free p \<le> length mem"
    using assms by (auto simp: unpacker_ok_def buf_bytes_def)
  then have "buf_count h (m_buffer p) = cnt" by (simp add: buf_count_def)
  then show ?thesis using b assms that[of cnt mem] by (auto simp: unpacker_ok_def buf_bytes_def)
qed

lemma keeps_bytes_refl:
  assumes "unpacker_ok (p, h, zone, obj)" and "m_buffer p' = m_buffer p" and "m_off p \<le> m_off p'"
  shows "keeps_bytes (p, h, zone, obj) (p', h, zone, obj)"
proof -
  have "\<exists>mem. buf_bytes h b = Some mem" if "b \<in> live_buffers (p, h, zone, obj)" for b
  proof -
    from assms(1) have c: "buf_count h b = references p zone b" by (auto simp: unpacker_ok_def)
    have "count_list zone b > 0 \<or> count_list (p_zone p) b > 0 \<or> b = m_buffer p"
      using that by (auto simp: live_buffers_def count_list_pos split: if_splits)
    then have "buf_count h b > 0" using c by (auto simp: references_def)
    then show ?thesis using buf_count_pos[of h b] by (auto simp: buf_bytes_def)
  qed
  then show ?thesis using assms(2,3) unfolding keeps_bytes_def by fastforce
qed

lemma realloc_ok:
  assumes ok: "unpacker_ok (p, h, zone, obj)" and off: "m_off p = COUNTER_SIZE" and n: "sz + m_used p \<le> n"
  shows "\<exists>b h'. buf_realloc (m_buffer p) n h = Some (b, h')
    \<and> reserves sz (p, h, zone, obj) (p\<lparr>m_buffer := b, m_free := n - m_used p\<rparr>, h')"
proof -
  from ok obtain cnt mem where b: "h_bufs h (m_buffer p) = Some (cnt, mem)" "buf_bytes h (m_buffer p) = Some mem"
    and i: "m_used p + m_free p \<le> length mem" "COUNTER_SIZE \<le> m_off p" "m_off p \<le> m_used p"
      "context_ok (p_ctx p)" "heap_ok h"
    and r: "\<And>b. buf_count h b = references p zone b" "references p zone (m_buffer p) = 1"
      "cnt = references p zone (m_buffer p)"
    using off by (elim unpacker_okD) auto
  let ?b = "h_next h"
  define mem' where "mem' = take n mem @ replicate (n - length mem) (byte 0)"
  define h' where "h' = \<lparr>h_next = Suc ?b, h_bufs = (h_bufs h)(m_buffer p := None, ?b \<mapsto> (cnt, mem'))\<rparr>"
  define p' where "p' = p\<lparr>m_buffer := ?b, m_free := n - m_used p\<rparr>"
  have rl: "buf_realloc (m_buffer p) n h = Some (?b, h')"
    using b(1) by (simp add: buf_realloc_def h'_def mem'_def)
  have lt: "m_buffer p < ?b" using i(5) b(1) by (auto simp: heap_ok_def)
  have fresh: "references p zone ?b = 0" using heap_ok_fresh(2)[OF i(5)] r(1) by simp
  have z: "count_list (p_zone p) (m_buffer p) = 0" "count_list zone (m_buffer p) = 0"
    using r(2) by (auto simp: references_def)
  have cnt: "buf_count h' b = references p' zone b" for b
    using r lt fresh z by (auto simp: h'_def p'_def references_def buf_count_def[of h])
  have heap: "heap_ok h'" using i(5) r(2,3) by (auto simp: h'_def heap_ok_def less_Suc_eq)
  have len: "length mem' = n" by (simp add: mem'_def)
  have used: "take (m_used p) mem' = take (m_used p) mem" using i(1) n by (simp add: mem'_def min_def)
  have ok': "unpacker_ok (p', h', zone, obj)"
    using cnt heap i n len lt fresh off unfolding unpacker_ok_def
    by (auto simp: p'_def h'_def references_def)
  have pend: "pending (p', h') = pending (p, h)"
    using used b(2) by (simp add: pending_def p'_def h'_def)
  have "b \<noteq> m_buffer p \<and> b \<noteq> ?b \<and> (\<exists>m. buf_bytes h b = Some m \<and> buf_bytes h' b = Some m)"
    if "b \<in> live_buffers (p, h, zone, obj)" for b
  proof -
    have c: "count_list zone b > 0 \<or> count_list (p_zone p) b > 0"
      using that off by (auto simp: live_buffers_def count_list_pos split: if_splits)
    then have ne: "b \<noteq> m_buffer p" and "buf_count h b > 0" using z r(1)[of b] by (auto simp: references_def)
    then obtain cnt1 m where m: "h_bufs h b = Some (cnt1, m)" using buf_count_pos by blast
    moreover have "b \<noteq> ?b" using m i(5) by (auto simp: heap_ok_def)
    ultimately show ?thesis using ne by (simp add: h'_def buf_bytes_def[of h])
  qed
  then have "keeps_bytes (p, h, zone, obj) (p', h', zone, obj)"
    unfolding keeps_bytes_def by (fastforce simp: p'_def)
  then show ?thesis
    using rl ok' pend n by (auto simp: reserves_def p'_def)
qed

lemma malloc_ok:
  assumes ok: "unpacker_ok (p, h, zone, obj)" and off: "m_off p \<noteq> COUNTER_SIZE"
    and n: "sz + (m_used p - m_off p) + COUNTER_SIZE \<le> n" and mem: "h_bufs h (m_buffer p) = Some (cnt, mem)"
  defines "np \<equiv> m_used p - m_off p"
  defines "new_mem \<equiv> replicate COUNTER_SIZE (byte 0) @ take np (drop (m_off p) mem)
      @ replicate (n - COUNTER_SIZE - np) (byte 0)"
  defines "b \<equiv> fst (buf_malloc new_mem h)" and "h1 \<equiv> snd (buf_malloc new_mem h)"
  defines "p' \<equiv> p\<lparr>m_buffer := b, m_used := np + COUNTER_SIZE, m_free := n - (np + COUNTER_SIZE), m_off := COUNTER_SIZE\<rparr>"
  shows "referenced p \<Longrightarrow>
      reserves sz (p, h, zone, obj) (set_referenced False (p'\<lparr>p_zone := m_buffer p # p_zone p\<rparr>), h1)"
    and "\<not> referenced p \<Longrightarrow> \<exists>h2. decr_count (m_buffer p) h1 = Some h2 \<and> reserves sz (p, h, zone, obj) (p', h2)"
proof -
  from ok mem have i: "m_used p + m_free p \<le> length mem" "COUNTER_SIZE \<le> m_off p" "m_off p \<le> m_used p"
      "context_ok (p_ctx p)" and ho: "heap_ok h"
    and r: "\<And>b. buf_count h b = references p zone b" "cnt = references p zone (m_buffer p)"
    by (auto elim: unpacker_okD)
  have h1: "h1 = \<lparr>h_next = Suc b, h_bufs = (h_bufs h)(b \<mapsto> (1, new_mem))\<rparr>" and b: "b = h_next h"
    by (simp_all add: h1_def b_def buf_malloc_def)
  have lt: "m_buffer p < b" using ho mem by (auto simp: heap_ok_def b)
  have fresh: "references p zone b = 0" using heap_ok_fresh(2)[OF ho] r(1) by (simp add: b)
  have h1_ok: "heap_ok h1" using ho by (auto simp: h1 b heap_ok_def less_Suc_eq)
  have len: "length new_mem = n" "np + COUNTER_SIZE \<le> n"
    using n i by (auto simp: new_mem_def np_def min_def)
  have pend: "drop COUNTER_SIZE (take (np + COUNTER_SIZE) new_mem) = drop (m_off p) (take (m_used p) mem)"
    using i by (simp add: new_mem_def np_def COUNTER_SIZE_def drop_take)
  have other: "buf_bytes h1 x = buf_bytes h x" if "buf_count h x > 0" for x
  proof -
    have "x \<noteq> b" using that fresh r(1)[of b] by auto
    then show ?thesis by (simp add: h1 buf_bytes_def[of h])
  qed
  have live: "x \<noteq> b \<and> buf_count h x > 0 \<and> (\<exists>m. buf_bytes h x = Some m)" if "x \<in> live_buffers (p, h, zone, obj)" for x
  proof -
    have "0 < references p zone x"
      using that by (auto simp: live_buffers_def references_def count_list_pos split: if_splits)
    then show ?thesis using fresh r(1)[of x] buf_count_pos[of h x] by (auto simp: buf_bytes_def)
  qed
  show "reserves sz (p, h, zone, obj) (set_referenced False (p'\<lparr>p_zone := m_buffer p # p_zone p\<rparr>), h1)"
    if "referenced p"
  proof -
    let ?q = "set_referenced False (p'\<lparr>p_zone := m_buffer p # p_zone p\<rparr>)"
    have cnt: "buf_count h1 x = references ?q zone x" for x
      using r(1)[of x] lt fresh
      by (auto simp: h1 p'_def references_def set_referenced_def buf_count_def[of h])
    have "context_ok (p_ctx ?q)" using i(4) by (simp add: set_referenced_def p'_def context_ok_def)
    moreover have "references ?q zone b = 1" using cnt[of b] by (simp add: h1)
    ultimately have ok': "unpacker_ok (?q, h1, zone, obj)"
      using cnt h1_ok len unfolding unpacker_ok_def by (auto simp: set_referenced_def p'_def h1)
    moreover have "keeps_bytes (p, h, zone, obj) (?q, h1, zone, obj)"
      using live other lt by (fastforce simp: keeps_bytes_def set_referenced_def p'_def)
    moreover have "pending (?q, h1) = pending (p, h)"
      using pend mem by (simp add: pending_def set_referenced_def p'_def h1 buf_bytes_def[of h])
    ultimately show ?thesis using n i
      by (auto simp: reserves_def set_referenced_def p'_def np_def cforget_def vforget_def)
  qed
  show "\<exists>h2. decr_count (m_buffer p) h1 = Some h2 \<and> reserves sz (p, h, zone, obj) (p', h2)"
    if nr: "\<not> referenced p"
  proof -
    define c where "c = count_list (p_zone p) (m_buffer p) + count_list zone (m_buffer p)"
    have "buf_count h1 (m_buffer p) = Suc c"
      using r(1)[of "m_buffer p"] lt by (simp add: h1 c_def references_def buf_count_def[of h])
    from decr_count_ok[OF h1_ok this] obtain h2 where h2: "decr_count (m_buffer p) h1 = Some h2" "heap_ok h2"
        "buf_count h2 (m_buffer p) = c" "\<And>x. x \<noteq> m_buffer p \<Longrightarrow> buf_count h2 x = buf_count h1 x"
        "\<And>x. x \<noteq> m_buffer p \<or> c > 0 \<Longrightarrow> buf_bytes h2 x = buf_bytes h1 x" by blast
    have cnt: "buf_count h2 x = references p' zone x" for x
    proof (cases "x = m_buffer p")
      case True
      then show ?thesis using h2(3) lt by (simp add: p'_def references_def c_def)
    next
      case False
      then show ?thesis using h2(4)[of x] r(1)[of x] lt fresh
        by (auto simp: h1 p'_def references_def buf_count_def[of h])
    qed
    have bb: "buf_bytes h2 b = Some new_mem" using h2(5)[of b] lt by (simp add: h1)
    have "references p' zone b = 1" using cnt[of b] h2(4)[of b] lt by (simp add: h1)
    then have ok': "unpacker_ok (p', h2, zone, obj)"
      using cnt h2(2) len i bb unfolding unpacker_ok_def by (auto simp: p'_def)
    moreover have "buf_bytes h2 x = buf_bytes h x" if "x \<in> live_buffers (p, h, zone, obj)" for x
    proof -
      have "x \<noteq> m_buffer p \<or> c > 0"
        using that nr by (auto simp: live_buffers_def c_def count_list_pos)
      then show ?thesis using h2(5) other live[OF that] by metis
    qed
    then have "keeps_bytes (p, h, zone, obj) (p', h2, zone, obj)"
      using live lt by (fastforce simp: keeps_bytes_def p'_def)
    moreover have "pending (p', h2) = pending (p, h)"
      using pend mem bb by (simp add: pending_def p'_def buf_bytes_def[of h])
    ultimately show ?thesis using h2(1) n i by (auto simp: reserves_def p'_def np_def)
  qed
qed

lemma rewind_ok:
  assumes ok: "unpacker_ok (p, h, zone, obj)" and used: "m_used p = m_off p" and nr: "\<not> referenced p"
    and mem: "h_bufs h (m_buffer p) = Some (1, mem)"
  defines "p' \<equiv> p\<lparr>m_free := m_free p + (m_used p - COUNTER_SIZE), m_used := COUNTER_SIZE, m_off := COUNTER_SIZE\<rparr>"
  shows "unpacker_ok (p', h, zone, obj)" and "pending (p', h) = pending (p, h)"
    and "keeps_bytes (p', h, zone, obj) s' \<Longrightarrow> keeps_bytes (p, h, zone, obj) s'"
    and "keeps_bytes (p, h, zone, obj) (p', h, zone, obj)"
proof -
  from ok mem have i: "m_used p + m_free p \<le> length mem" "COUNTER_SIZE \<le> m_off p" "m_off p \<le> m_used p"
      "context_ok (p_ctx p)" "heap_ok h" and r: "\<And>b. buf_count h b = references p zone b" "references p zone (m_buffer p) = 1"
    by (auto elim: unpacker_okD)
  have p': "references p' zone = references p zone" "m_buffer p' = m_buffer p" "m_off p' = COUNTER_SIZE"
      "m_used p' = COUNTER_SIZE" "p_ctx p' = p_ctx p" "COUNTER_SIZE + m_free p' = m_used p + m_free p"
    using i(2,3) by (simp_all add: p'_def references_def fun_eq_iff)
  show "unpacker_ok (p', h, zone, obj)"
    using i r mem unfolding unpacker_ok_def by (simp add: p' buf_bytes_def)
  show "pending (p', h) = pending (p, h)" using used by (simp add: pending_def p'_def)
  have z: "m_buffer p \<notin> set (p_zone p)" "m_buffer p \<notin> set zone"
    using r(2) by (auto simp: references_def simp flip: count_list_pos)
  have live: "live_buffers (p', h, zone, obj) = set zone \<union> set (p_zone p)"
      "live_buffers (p, h, zone, obj) = set zone \<union> set (p_zone p)"
    using nr by (auto simp: live_buffers_def p'_def)
  show tr: "keeps_bytes (p, h, zone, obj) s'" if "keeps_bytes (p', h, zone, obj) s'" for s'
  proof -
    obtain q h' zone' obj' where s': "s' = (q, h', zone', obj')" by (cases s')
    have ne: "b \<noteq> m_buffer p" if "b \<in> set zone \<union> set (p_zone p)" for b using that z by auto
    show ?thesis
      using that unfolding keeps_bytes_def s' prod.case live p'(2) by (simp add: ne)
  qed
  show "keeps_bytes (p, h, zone, obj) (p', h, zone, obj)"
    using \<open>unpacker_ok (p', h, zone, obj)\<close> by (intro tr keeps_bytes_refl) simp_all
qed

lemma reserves_mono:
  assumes "reserves sz (p, h, zone, obj) (q, h')" and "m_used p \<le> m_used p0" and "cforget (p_ctx p) = cforget (p_ctx p0)"
    and "pending (p, h) = pending (p0, h)"
    and "\<And>s. keeps_bytes (p, h, zone, obj) s \<Longrightarrow> keeps_bytes (p0, h, zone, obj) s"
  shows "reserves sz (p0, h, zone, obj) (q, h')"
  using assms by (auto simp: reserves_def)

lemma expand_buffer_malloc:
  assumes mem: "h_bufs h (m_buffer p) = Some (cnt, mem)" and nrw: "\<not> (m_used p = m_off p \<and> cnt = 1 \<and> \<not> referenced p)"
    and off: "m_off p \<noteq> COUNTER_SIZE" and np: "np = m_used p - m_off p"
    and n: "n = next_size (m_initial_buffer_size p) ((sz + np + COUNTER_SIZE) mod 2 ^ 64)"
    and fits: "np + COUNTER_SIZE \<le> n" "m_used p \<le> length mem"
    and alloc: "buf_malloc (replicate COUNTER_SIZE (byte 0) @ take np (drop (m_off p) mem)
        @ replicate (n - COUNTER_SIZE - np) (byte 0)) h = (b, h1)"
    and p': "p' = p\<lparr>m_buffer := b, m_used := np + COUNTER_SIZE, m_free := n - (np + COUNTER_SIZE), m_off := COUNTER_SIZE\<rparr>"
  shows "expand_buffer sz (p, h) =
    (if referenced p then Some (set_referenced False (p'\<lparr>p_zone := m_buffer p # p_zone p\<rparr>), h1)
     else map_option (\<lambda>h2. (p', h2)) (decr_count (m_buffer p) h1))"
proof -
  have rw: "(m_used p = m_off p \<and> cnt = 1 \<and> \<not> referenced p) = False" using nrw by blast
  have guard: "(n < COUNTER_SIZE + np \<or> length mem < m_used p) = False" using fits by auto
  show ?thesis
    unfolding expand_buffer_def prod.case mem option.case Let_def rw if_False simp_thms
      np[symmetric] n[symmetric] guard alloc p' using off by simp
qed

lemma expand_buffer_ok:
  assumes ok: "unpacker_ok (p, h, zone, obj)" and sz: "sz + m_used p + COUNTER_SIZE < 2 ^ 64"
  shows "\<exists>p' h'. expand_buffer sz (p, h) = Some (p', h') \<and> reserves sz (p, h, zone, obj) (p', h')"
proof -
  from ok obtain cnt mem where mem: "h_bufs h (m_buffer p) = Some (cnt, mem)"
    and i: "m_used p + m_free p \<le> length mem" "COUNTER_SIZE \<le> m_off p" "m_off p \<le> m_used p"
    by (elim unpacker_okD) auto
  show ?thesis
  proof (cases "m_used p = m_off p \<and> cnt = 1 \<and> \<not> referenced p")
    case True
    let ?p = "p\<lparr>m_free := m_free p + (m_used p - COUNTER_SIZE), m_used := COUNTER_SIZE, m_off := COUNTER_SIZE\<rparr>"
    have mem1: "h_bufs h (m_buffer p) = Some (1, mem)" using True mem by simp
    note rw = rewind_ok[OF ok _ _ mem1, OF conjunct1[OF True] conjunct2[OF conjunct2[OF True]]]
    show ?thesis
    proof (cases "sz \<le> m_free ?p")
      case enough: True
      then show ?thesis using True mem rw(1,2,4) i by (simp add: expand_buffer_def Let_def reserves_def)
    next
      case False
      let ?n = "next_size (((m_used ?p + m_free ?p) * 2) mod 2 ^ 64) ((sz + m_used ?p) mod 2 ^ 64)"
      have "sz + m_used ?p \<le> ?n"
        using next_size_ge[of "(sz + m_used ?p) mod 2 ^ 64"] sz by (simp add: mod_less)
      from realloc_ok[OF rw(1) _ this] obtain b h' where bh: "buf_realloc (m_buffer ?p) ?n h = Some (b, h')"
        "reserves sz (?p, h, zone, obj) (?p\<lparr>m_buffer := b, m_free := ?n - m_used ?p\<rparr>, h')" by auto
      have "reserves sz (p, h, zone, obj) (?p\<lparr>m_buffer := b, m_free := ?n - m_used ?p\<rparr>, h')"
        by (rule reserves_mono[OF bh(2)]) (use rw i in auto)
      then show ?thesis using True False mem bh(1) by (simp add: expand_buffer_def Let_def)
    qed
  next
    case nrw: False
    show ?thesis
    proof (cases "m_off p = COUNTER_SIZE")
      case True
      let ?n = "next_size (((m_used p + m_free p) * 2) mod 2 ^ 64) ((sz + m_used p) mod 2 ^ 64)"
      have "sz + m_used p \<le> ?n"
        using next_size_ge[of "(sz + m_used p) mod 2 ^ 64"] sz by (simp add: mod_less)
      from realloc_ok[OF ok True this] show ?thesis
        using nrw True mem by (auto simp: expand_buffer_def Let_def)
    next
      case False
      let ?np = "m_used p - m_off p"
      let ?n = "next_size (m_initial_buffer_size p) ((sz + ?np + COUNTER_SIZE) mod 2 ^ 64)"
      have n: "sz + ?np + COUNTER_SIZE \<le> ?n"
        using next_size_ge[of "(sz + ?np + COUNTER_SIZE) mod 2 ^ 64"] sz by (simp add: mod_less)
      note m = malloc_ok[OF ok False n mem] and
        e = expand_buffer_malloc[OF mem nrw False refl refl _ _ prod.collapse[symmetric] refl]
      show ?thesis
      proof (cases "referenced p")
        case True
        then show ?thesis using m(1)[OF True] n i by (subst e) auto
      next
        case nr: False
        then show ?thesis using m(2)[OF nr] n i by (subst e) auto
      qed
    qed
  qed
qed

lemma reserve_buffer_ok:
  assumes ok: "unpacker_ok (p, h, zone, obj)" and sz: "sz + m_used p + COUNTER_SIZE < 2 ^ 64"
  shows "\<exists>p' h'. reserve_buffer sz (p, h) = Some (p', h') \<and> reserves sz (p, h, zone, obj) (p', h')"
  using expand_buffer_ok[OF assms] ok keeps_bytes_refl[OF ok, of p]
  by (auto simp: reserve_buffer_def reserves_def)

lemma write_buffer_ok:
  assumes ok: "unpacker_ok (p, h, zone, obj)" and free: "length buf \<le> m_free p"
  defines "p' \<equiv> buffer_consumed (length buf) p"
  shows "\<exists>h'. write_buffer buf (p, h) = Some (p, h') \<and> unpacker_ok (p', h', zone, obj)
    \<and> pending (p', h') = pending (p, h) @ buf
    \<and> (\<forall>s. keeps_bytes s (p, h, zone, obj) \<longrightarrow> keeps_bytes s (p', h', zone, obj))"
proof -
  from ok obtain cnt mem where mem: "h_bufs h (m_buffer p) = Some (cnt, mem)"
    and i: "m_used p + m_free p \<le> length mem" "COUNTER_SIZE \<le> m_off p" "m_off p \<le> m_used p"
      "context_ok (p_ctx p)" "heap_ok h" and r: "\<And>b. buf_count h b = references p zone b"
      "m_off p = COUNTER_SIZE \<Longrightarrow> references p zone (m_buffer p) = 1" by (elim unpacker_okD) auto
  define mem' where "mem' = take (m_used p) mem @ buf @ drop (m_used p + length buf) mem"
  define h' where "h' = h\<lparr>h_bufs := (h_bufs h)(m_buffer p \<mapsto> (cnt, mem'))\<rparr>"
  have w: "write_buffer buf (p, h) = Some (p, h')"
    using mem i(1) free by (simp add: write_buffer_def h'_def mem'_def)
  have len: "length mem' = length mem" using i(1) free by (simp add: mem'_def)
  have p': "references p' zone = references p zone" "m_buffer p' = m_buffer p" "m_off p' = m_off p"
      "m_used p' = m_used p + length buf" "p_ctx p' = p_ctx p" "m_used p' + m_free p' = m_used p + m_free p"
    using free by (simp_all add: p'_def buffer_consumed_def references_def fun_eq_iff)
  have cnt: "buf_count h' b = buf_count h b" for b using mem by (simp add: h'_def buf_count_def[of h])
  have "heap_ok h'" using i(5) mem by (auto simp: heap_ok_def h'_def)
  moreover have "buf_bytes h' (m_buffer p) = Some mem'" by (simp add: h'_def)
  ultimately have "unpacker_ok (p', h', zone, obj)"
    unfolding unpacker_ok_def prod.case p'(1-3) p'(5,6) cnt
    by (intro conjI allI impI exI[of _ mem'] r) (use i(1-4) len p'(4) in simp_all)
  moreover have "pending (p', h') = pending (p, h) @ buf"
    using i mem by (simp add: pending_def p' h'_def mem'_def buf_bytes_def[of h])
  moreover have "keeps_bytes s (p', h', zone, obj)" if k: "keeps_bytes s (p, h, zone, obj)" for s
  proof -
    obtain q g z u where s: "s = (q, g, z, u)" by (cases s)
    have keep: "\<exists>mem mem'. buf_bytes g b = Some mem \<and> buf_bytes h' b = Some mem'
       \<and> (if b = m_buffer q
          then take (m_off q) mem' = take (m_off q) mem \<and> (b = m_buffer p' \<longrightarrow> m_off q \<le> m_off p')
          else mem' = mem \<and> b \<noteq> m_buffer p')" if live: "b \<in> live_buffers (q, g, z, u)" for b
    proof -
      obtain m m1 where m: "buf_bytes g b = Some m" "buf_bytes h b = Some m1"
          "if b = m_buffer q then take (m_off q) m1 = take (m_off q) m \<and> (b = m_buffer p \<longrightarrow> m_off q \<le> m_off p)
           else m1 = m \<and> b \<noteq> m_buffer p"
        using bspec[OF k[unfolded keeps_bytes_def s prod.case] live] by blast
      show ?thesis
      proof (cases "b = m_buffer p")
        case True
        then have "b = m_buffer q" "take (m_off q) m1 = take (m_off q) m" "m_off q \<le> m_off p" "m1 = mem"
          using m mem by (auto simp: buf_bytes_def split: if_splits)
        then show ?thesis using m i(1,3) True
          by (simp add: h'_def p' mem'_def min_def take_take)
      next
        case False
        then have "buf_bytes h' b = Some m1" using m(2) by (simp add: h'_def buf_bytes_def)
        then show ?thesis using m False
          by (intro exI[of _ m] exI[of _ m1]) (auto simp: p' split: if_splits)
      qed
    qed
    then show ?thesis unfolding keeps_bytes_def s by simp
  qed
  ultimately show ?thesis using w by blast
qed

lemma feed_ok:
  assumes ok: "unpacker_ok (p, h, zone, obj)" and sim: "simulates (p, h, zone, obj) s"
    and small: "length buf + m_used p + COUNTER_SIZE < 2 ^ 64"
  shows "\<exists>p' h'. feed buf (p, h, zone, obj) = Some (p', h', zone, obj) \<and> unpacker_ok (p', h', zone, obj)
    \<and> simulates (p', h', zone, obj) (stream_feed buf s) \<and> m_used p' \<le> m_used p + length buf
    \<and> keeps_bytes (p, h, zone, obj) (p', h', zone, obj)"
proof -
  obtain q g where q: "reserve_buffer (length buf) (p, h) = Some (q, g)"
      "reserves (length buf) (p, h, zone, obj) (q, g)"
    using reserve_buffer_ok[OF ok, of "length buf"] small by auto
  then obtain h' where "write_buffer buf (q, g) = Some (q, h')"
      "unpacker_ok (buffer_consumed (length buf) q, h', zone, obj)"
      "pending (buffer_consumed (length buf) q, h') = pending (q, g) @ buf"
      "keeps_bytes (p, h, zone, obj) (buffer_consumed (length buf) q, h', zone, obj)"
    using write_buffer_ok[of q g zone obj buf] by (auto simp: reserves_def)
  then show ?thesis using q sim
    by (auto simp: feed_def reserves_def simulates_def stream_feed_def buffer_consumed_def)
qed

subsection \<open>What the parser leaves\<close>

lemma context_ok_header [simp]: "context_ok (c\<lparr>m_cs := 0\<rparr>)"
  by (simp add: context_ok_def)

lemma suffix_tlI: "suffix cur cur0 \<Longrightarrow> suffix (tl cur) cur0"
  using suffix_order.trans[OF suffix_tl[of cur]] by blast

lemma after_visit_inv:
  "(\<And>e. r = Inl e \<Longrightarrow> context_ok c) \<Longrightarrow> suffix cur cur0 \<Longrightarrow> flow_inv cur0 (after_visit_proc r c cur)"
  by (auto simp: flow_inv_def after_visit_proc_def Let_def context_ok_def suffix_tlI split: sum.split prod.split)

lemma start_aggregate_inv:
  "context_ok c \<Longrightarrow> suffix cur cur0 \<Longrightarrow> flow_inv cur0 (start_aggregate ty sv ev sz c cur)"
  by (auto simp: flow_inv_def start_aggregate_def Let_def context_ok_def suffix_tlI split: sum.split prod.split)

lemma load_length_inv:
  "context_ok c \<Longrightarrow> acs \<in> {32, 33, 34} \<Longrightarrow> (\<And>v e. vis 0 v \<noteq> Inl e) \<Longrightarrow> suffix cur cur0 \<Longrightarrow>
   flow_inv cur0 (load_length t acs vis c cur)"
  using after_visit_inv[of "vis 0 (m_visitor c)" "c\<lparr>m_trail := 0\<rparr>" cur cur0]
  by (auto simp: load_length_def Let_def flow_inv_def[of _ "Go _ _ _"] context_ok_def)

lemma visit_empty: "visit_str lim n 0 v \<noteq> Inl e" "visit_bin lim n 0 v \<noteq> Inl e" "visit_ext lim n 0 v \<noteq> Inl e"
  by (simp_all add: visit_str_def visit_bin_def visit_ext_def)

lemma if_flow_inv: "(P \<Longrightarrow> flow_inv k f) \<Longrightarrow> (\<not> P \<Longrightarrow> flow_inv k g) \<Longrightarrow> flow_inv k (if P then f else g)"
  by simp

lemma execute_switch_inv:
  "context_ok c \<Longrightarrow> suffix cur cur0 \<Longrightarrow> flow_inv cur0 (execute_switch lim c n cur)"
  unfolding execute_switch_def Let_def
  by (intro if_flow_inv)
    (simp_all add: after_visit_inv start_aggregate_inv load_length_inv visit_empty, simp add: flow_inv_def)

lemma execute_header_inv:
  assumes "context_ok c" and "m_cs c = 0" and "cur \<noteq> []"
  shows "flow_inv cur (execute_header lim c cur)"
proof -
  have sel: "context_ok (c\<lparr>m_trail := trail_table ! (sel - 0xc4), m_cs := next_cs (hd cur)\<rparr>)"
    if "0xc4 \<le> sel" "sel \<le> 0xdf" "sel = of_char (hd cur)" for sel
    using that next_cs_byte[of sel] by (simp add: context_ok_def) (intro disjI1, arith)
  have "context_ok (c\<lparr>m_trail := t\<rparr>)" "t \<noteq> 0 \<Longrightarrow> context_ok (c\<lparr>m_trail := t, m_cs := 32\<rparr>)" for t
    using assms(2) by (simp_all add: context_ok_def)
  then show ?thesis
    unfolding execute_header_def Let_def
    by (intro if_flow_inv)
      (simp_all add: after_visit_inv start_aggregate_inv assms, simp_all add: flow_inv_def sel assms)
qed

lemma execute_trail_inv:
  assumes "context_ok c" and "suffix cur cur0"
  shows "flow_inv cur0 (execute_trail lim c cur again)"
proof -
  define xs where "xs = (if again then tl cur else cur)"
  have "suffix xs cur0" using assms(2) by (simp add: xs_def suffix_tlI)
  moreover have "suffix (drop k xs) cur0" for k
    using suffix_order.trans[OF suffix_drop calculation] .
  ultimately show ?thesis
    using assms(1) execute_switch_inv[of c _ cur0]
    by (simp add: execute_trail_def Let_def flow_inv_def[of _ "Return _ _ _"] flip: xs_def)
qed

lemma execute_turn_inv:
  assumes "context_ok c" and "cur \<noteq> []"
  shows "flow_inv cur (execute_turn lim c cur again)"
proof (cases "m_cs c = 0")
  case False
  then show ?thesis using execute_trail_inv[OF assms(1)] by (simp add: execute_turn_def)
next
  case True
  then show ?thesis
    using execute_header_inv[OF assms(1) True assms(2), of lim] execute_trail_inv
    by (auto simp: execute_turn_def flow_inv_def[of _ "Go _ _ _"] split: flow.split)
qed

lemma flow_inv_mono: "flow_inv cur f \<Longrightarrow> suffix cur cur0 \<Longrightarrow> flow_inv cur0 f"
  by (auto simp: flow_inv_def split: flow.splits intro: suffix_order.trans)

lemma execute_loop_inv: "context_ok c \<Longrightarrow> flow_inv cur (execute_loop lim c cur again)"
proof (induction lim c cur again rule: execute_loop.induct)
  case (1 lim c cur again)
  show ?case
  proof (cases "cur = []")
    case True
    then show ?thesis using 1 by (simp add: flow_inv_def)
  next
    case False
    note turn = execute_turn_inv[OF 1(2) False, of lim again]
    show ?thesis
    proof (cases "execute_turn lim c cur again")
      case (Go c1 cur1 again1)
      then have "context_ok c1" "suffix cur1 cur" using turn by (simp_all add: flow_inv_def)
      then show ?thesis using 1(1)[OF False Go] Go False
        by (simp add: execute_loop_run[of lim c] flow_inv_mono)
    qed (use turn False in \<open>simp_all add: execute_loop_run[of lim c]\<close>)
  qed
qed

subsection \<open>Taking an object out\<close>

lemma pending_suffix:
  assumes "suffix rest (drop off (take used mem))" and "off \<le> used" and "used \<le> length mem"
  shows "drop (used - length rest) (take used mem) = rest" and "off \<le> used - length rest"
    and "used - length rest \<le> used"
proof -
  from assms(1) obtain pre where pre: "drop off (take used mem) = pre @ rest" by (auto simp: suffix_def)
  have len: "length rest + length pre = used - off" using arg_cong[OF pre, of length] assms(2,3) by simp
  then show "off \<le> used - length rest" "used - length rest \<le> used" using assms(2) by auto
  have "used - length rest = length pre + off" using len assms(2) by linarith
  then have "drop (used - length rest) (take used mem) = drop (length pre) (drop off (take used mem))"
    by (simp only: drop_drop)
  then show "drop (used - length rest) (take used mem) = rest" by (simp add: pre)
qed

lemma cforget_obj: "cforget c = cforget c' \<Longrightarrow> v_obj (m_visitor c) = v_obj (m_visitor c')"
  by (cases c; cases c'; cases "m_visitor c"; cases "m_visitor c'") (auto simp: cforget_def vforget_def)

lemma cforget_init: "cforget c = cforget c' \<Longrightarrow> cforget (context_init c) = cforget (context_init c')"
  by (cases c; cases c'; cases "m_visitor c"; cases "m_visitor c'")
    (auto simp: cforget_def context_init_def visitor_init_def vforget_def)

lemma context_init_ok [simp]: "context_ok (context_init c)"
  by (simp add: context_ok_def context_init_def)

lemma move_offset_ok:
  assumes ok: "unpacker_ok (p, h, zone, obj)" and off: "m_off p \<le> off" "off \<le> m_used p" and c: "context_ok c"
  shows "unpacker_ok (p\<lparr>p_ctx := c, m_off := off, m_parsed := k\<rparr>, h, zone, obj)"
    and "pending (p\<lparr>p_ctx := c, m_off := off, m_parsed := k\<rparr>, h) = drop off (take (m_used p) (the (buf_bytes h (m_buffer p))))"
proof -
  let ?q = "p\<lparr>p_ctx := c, m_off := off, m_parsed := k\<rparr>"
  have "references ?q zone = references p zone" by (simp add: references_def fun_eq_iff)
  then show "unpacker_ok (?q, h, zone, obj)" using ok off c unfolding unpacker_ok_def by auto
  show "pending (?q, h) = drop off (take (m_used p) (the (buf_bytes h (m_buffer p))))" by (simp add: pending_def)
qed

lemma release_zone_ok:
  assumes ok: "unpacker_ok (p, h, zone, obj)"
  shows "\<exists>z p' h'. release_zone (p, h) = Some (z, p', h') \<and> heap_ok h' \<and> p_zone p' = []
    \<and> (\<forall>b. buf_count h' b = references p' z b + count_list zone b)
    \<and> (\<forall>b. buf_bytes h' b = buf_bytes h b) \<and> p' = p\<lparr>p_ctx := p_ctx p', p_zone := []\<rparr>
    \<and> cforget (p_ctx p') = cforget (p_ctx p)"
proof -
  from ok obtain cnt mem where mem: "h_bufs h (m_buffer p) = Some (cnt, mem)" and ho: "heap_ok h"
    and r: "\<And>b. buf_count h b = references p zone b" by (elim unpacker_okD) auto
  show ?thesis
  proof (cases "referenced p")
    case True
    define h' where "h' = h\<lparr>h_bufs := (h_bufs h)(m_buffer p \<mapsto> (Suc cnt, mem))\<rparr>"
    define z where "z = m_buffer p # p_zone p"
    define p' where "p' = (set_referenced False (p\<lparr>p_zone := z\<rparr>))\<lparr>p_zone := []\<rparr>"
    have "release_zone (p, h) = Some (z, p', h')"
      using True mem by (simp add: release_zone_def flush_zone_def incr_count_def h'_def z_def p'_def set_referenced_def)
    moreover have "heap_ok h'" using ho mem by (auto simp: heap_ok_def h'_def)
    moreover have "buf_count h' b = references p' z b + count_list zone b" for b
      using r[of b] mem by (auto simp: h'_def p'_def z_def references_def set_referenced_def buf_count_def[of h])
    moreover have "buf_bytes h' b = buf_bytes h b" for b using mem by (simp add: h'_def buf_bytes_def[of h])
    moreover have "p' = p\<lparr>p_ctx := p_ctx p', p_zone := []\<rparr>" "p_zone p' = []"
        "cforget (p_ctx p') = cforget (p_ctx p)"
      by (simp_all add: p'_def set_referenced_def cforget_def vforget_def)
    ultimately show ?thesis by blast
  next
    case False
    then show ?thesis using ho r
      by (auto simp: release_zone_def flush_zone_def references_def)
  qed
qed

lemma execute_imp_ok:
  assumes ok: "unpacker_ok (p, h, zone, obj)" and sim: "simulates (p, h, zone, obj) s"
  shows "\<exists>r c off k rest. execute_imp lim (p, h) = Some (r, p\<lparr>p_ctx := c, m_off := off, m_parsed := k\<rparr>)
    \<and> unpacker_ok (p\<lparr>p_ctx := c, m_off := off, m_parsed := k\<rparr>, h, zone, obj)
    \<and> pending (p\<lparr>p_ctx := c, m_off := off, m_parsed := k\<rparr>, h) = rest
    \<and> (r = Inr PARSE_SUCCESS \<longrightarrow> m_off p < off)
    \<and> (case execute lim (st_ctx s) (st_pending s) 0 of
          Return ret c' rest' \<Rightarrow> r = Inr ret \<and> rest = rest' \<and> cforget c = cforget c'
        | Throw e off' c' \<Rightarrow> r = Inl e \<and> cforget c = cforget c'
            \<and> rest = (case off' of None \<Rightarrow> st_pending s | Some rest' \<Rightarrow> rest')
        | Go c' rest' _ \<Rightarrow> False)"
proof -
  from ok obtain cnt mem where mem: "h_bufs h (m_buffer p) = Some (cnt, mem)" and bb: "buf_bytes h (m_buffer p) = Some mem"
    and i: "m_used p + m_free p \<le> length mem" "m_off p \<le> m_used p" "context_ok (p_ctx p)"
    by (elim unpacker_okD) auto
  let ?cur = "drop (m_off p) (take (m_used p) mem)"
  have cur: "st_pending s = ?cur" using sim bb by (simp add: simulates_def pending_def)
  have forget: "cforget (p_ctx p) = cforget (st_ctx s)" using sim by (simp add: simulates_def)
  define f where "f = execute_loop lim (p_ctx p) ?cur False"
  define g where "g = execute_loop lim (st_ctx s) ?cur False"
  have ff: "fforget f = fforget g" unfolding f_def g_def by (rule execute_loop_forget[OF forget])
  have inv: "flow_inv ?cur f" unfolding f_def by (rule execute_loop_inv[OF i(3)])
  have ex: "execute lim (p_ctx p) (take (m_used p) mem) (m_off p) = f" "execute lim (st_ctx s) (st_pending s) 0 = g"
    by (simp_all add: execute_def f_def g_def cur)
  have used: "m_used p \<le> length mem" using i(1) by simp
  have noGo: "f \<noteq> Go c r a" for c r a unfolding f_def by (rule loop_not_Go)
  from ff show ?thesis
  proof (cases rule: fforget_cases)
    case (1 e off c c')
    define rest where "rest = (case off of None \<Rightarrow> ?cur | Some r \<Rightarrow> r)"
    define off2 where "off2 = (case off of None \<Rightarrow> m_off p | Some r \<Rightarrow> m_used p - length r)"
    have c: "context_ok c" and suf: "suffix rest ?cur"
      using inv 1(1) by (auto simp: flow_inv_def rest_def split: option.splits)
    note ps = pending_suffix[OF suf i(2) used]
    have off2: "m_off p \<le> off2" "off2 \<le> m_used p" "drop off2 (take (m_used p) mem) = rest"
      using ps i(2) by (auto simp: off2_def rest_def split: option.splits)
    have "execute_imp lim (p, h) = Some (Inl e, p\<lparr>p_ctx := c, m_off := off2, m_parsed := m_parsed p\<rparr>)"
      using mem used ex(1) 1(1) by (simp add: execute_imp_def off2_def)
    then show ?thesis
      using move_offset_ok[OF ok off2(1,2) c, of "m_parsed p"] off2(3) bb 1 ex(2) cur
      by - (rule exI[of _ "Inl e"], rule exI[of _ c], rule exI[of _ off2], rule exI[of _ "m_parsed p"],
        rule exI[of _ rest], simp add: rest_def cong: option.case_cong)
  next
    case (2 r rest c c')
    define off2 where "off2 = m_used p - length rest"
    define k where "k = (if m_off p < off2 then m_parsed p + (off2 - m_off p) else m_parsed p)"
    have c: "context_ok c" and suf: "suffix rest ?cur"
      using inv 2(1) by (auto simp: flow_inv_def)
    note ps = pending_suffix[OF suf i(2) used, folded off2_def]
    have "execute_imp lim (p, h) = Some (Inr r, p\<lparr>p_ctx := c, m_off := off2, m_parsed := k\<rparr>)"
      using mem used ex(1) 2(1) by (simp add: execute_imp_def Let_def off2_def k_def)
    moreover have "m_off p < off2" if "r = PARSE_SUCCESS"
      using execute_loop_shrinks[of lim "p_ctx p" ?cur False c rest] that 2(1) used i(2)
      by (auto simp: f_def off2_def)
    ultimately show ?thesis
      using move_offset_ok[OF ok ps(2,3) c, of k] ps(1) bb 2 ex(2)
      by - (rule exI[of _ "Inr r"], rule exI[of _ c], rule exI[of _ off2], rule exI[of _ k],
        rule exI[of _ rest], simp)
  next
    case 3
    then show ?thesis using noGo by simp
  qed
qed

lemma unpacker_next_ok:
  assumes ok: "unpacker_ok (p, h, zone, obj)" and sim: "simulates (p, h, zone, obj) s"
  shows "\<exists>r p' h' zone' obj' s'. unpacker_next lim (p, h, zone, obj) = Some (r, p', h', zone', obj')
    \<and> stream_next lim s = (r, s') \<and> unpacker_ok (p', h', zone', obj') \<and> simulates (p', h', zone', obj') s'
    \<and> m_used p' = m_used p"
proof -
  obtain r c off k where ex: "execute_imp lim (p, h) = Some (r, p\<lparr>p_ctx := c, m_off := off, m_parsed := k\<rparr>)"
    and ok1: "unpacker_ok (p\<lparr>p_ctx := c, m_off := off, m_parsed := k\<rparr>, h, zone, obj)"
    and succ: "r = Inr PARSE_SUCCESS \<Longrightarrow> m_off p < off"
    and res: "case execute lim (st_ctx s) (st_pending s) 0 of
          Return ret c' rest' \<Rightarrow> r = Inr ret \<and> pending (p\<lparr>p_ctx := c, m_off := off, m_parsed := k\<rparr>, h) = rest'
            \<and> cforget c = cforget c'
        | Throw e off' c' \<Rightarrow> r = Inl e \<and> cforget c = cforget c'
            \<and> pending (p\<lparr>p_ctx := c, m_off := off, m_parsed := k\<rparr>, h) =
              (case off' of None \<Rightarrow> st_pending s | Some rest' \<Rightarrow> rest')
        | Go c' rest' _ \<Rightarrow> False"
    using execute_imp_ok[OF assms, of lim] by blast
  define q where "q = p\<lparr>p_ctx := c, m_off := off, m_parsed := k\<rparr>"
  note ok1 = ok1[folded q_def] and ex = ex[folded q_def] and res = res[folded q_def]
  have q: "p_ctx q = c" "m_used q = m_used p" "m_off q = off" by (simp_all add: q_def)
  from ok1 have ho: "heap_ok h" and rc: "\<And>b. buf_count h b = references q zone b" by (auto elim: unpacker_okD)
  show ?thesis
  proof (cases "execute lim (st_ctx s) (st_pending s) 0")
    case (Throw e off' c')
    then have "unpacker_next lim (p, h, zone, obj) = Some (Thrown e, q, h, zone, obj)"
      using res ex by (simp add: unpacker_next_def parser_next_def)
    then show ?thesis using Throw res ok1 q
      by (auto simp: stream_next_def simulates_def)
  next
    case (Return ret c' rest)
    show ?thesis
    proof (cases "ret = PARSE_SUCCESS")
      case False
      obtain h1 where h1: "zone_destroy zone h = Some h1" "heap_ok h1" "\<forall>b. buf_count h1 b = references q [] b"
          "\<forall>b. references q [] b > 0 \<longrightarrow> buf_bytes h1 b = buf_bytes h b"
        using zone_destroy_ok[OF ho, of "references q []" zone] rc by (auto simp: references_def)
      have bb: "buf_bytes h1 (m_buffer q) = buf_bytes h (m_buffer q)" using h1(4) by (simp add: references_def)
      have "unpacker_ok (q, h1, [], O_NIL)"
        using ok1 h1(2,3) bb unfolding unpacker_ok_def by (auto simp: references_def)
      moreover have "pending (q, h1) = pending (q, h)" by (simp add: pending_def bb)
      moreover have "unpacker_next lim (p, h, zone, obj) = Some (Need_more, q, h1, [], O_NIL)"
        using res ex False Return h1(1) by (simp add: unpacker_next_def parser_next_def)
      ultimately show ?thesis using Return False res q by (auto simp: stream_next_def simulates_def)
    next
      case True
      obtain z p1 h1 where z: "release_zone (q, h) = Some (z, p1, h1)" "heap_ok h1" "p_zone p1 = []"
          "\<And>b. buf_count h1 b = references p1 z b + count_list zone b" "\<And>b. buf_bytes h1 b = buf_bytes h b"
          "p1 = q\<lparr>p_ctx := p_ctx p1, p_zone := []\<rparr>" "cforget (p_ctx p1) = cforget (p_ctx q)"
        using release_zone_ok[OF ok1] by blast
      obtain h2 where h2: "zone_destroy zone h1 = Some h2" "heap_ok h2" "\<forall>b. buf_count h2 b = references p1 z b"
          "\<forall>b. references p1 z b > 0 \<longrightarrow> buf_bytes h2 b = buf_bytes h1 b"
        using zone_destroy_ok[OF z(2), of "references p1 z" zone] z(4) by auto
      define t where "t = parser_reset p1"
      have t: "references t z = references p1 z" "m_buffer t = m_buffer q" "m_off t = off" "m_used t = m_used q"
          "m_free t = m_free q" "p_ctx t = context_init (p_ctx p1)"
        using arg_cong[OF z(6), of m_buffer] arg_cong[OF z(6), of m_off] arg_cong[OF z(6), of m_used]
          arg_cong[OF z(6), of m_free] q(3)
        by (simp_all add: t_def parser_reset_def references_def fun_eq_iff)
      have bb: "buf_bytes h2 (m_buffer q) = buf_bytes h (m_buffer q)"
        using h2(4) z(5) t(2) by (metis add_gr_0 less_one references_def t(1))
      have "off > COUNTER_SIZE" using succ True res Return ok by (auto simp: unpacker_ok_def)
      then have "unpacker_ok (t, h2, z, v_obj (m_visitor (p_ctx p1)))"
        using ok1 h2(2,3) bb unfolding unpacker_ok_def prod.case t by (simp add: q(3))
      moreover have "pending (t, h2) = pending (q, h)" by (simp add: pending_def bb t q(3))
      moreover have "unpacker_next lim (p, h, zone, obj) =
          Some (Got (v_obj (m_visitor (p_ctx p1))), t, h2, z, v_obj (m_visitor (p_ctx p1)))"
        using res ex True Return z(1) h2(1) by (simp add: unpacker_next_def parser_next_def Let_def t_def)
      moreover have eq: "cforget (p_ctx p1) = cforget c'" using z(7) res Return q by simp
      moreover have "v_obj (m_visitor (p_ctx p1)) = v_obj (m_visitor c')" by (rule cforget_obj[OF eq])
      ultimately show ?thesis using Return True res q t cforget_init[OF eq]
        by (auto simp: stream_next_def simulates_def)
    qed
  next
    case Go
    then show ?thesis using res by simp
  qed
qed

lemma drop_input_ok:
  assumes "unpacker_ok (p, h, zone, obj)" and "simulates (p, h, zone, obj) s"
  shows "unpacker_ok (drop_input (p, h, zone, obj))" and "simulates (drop_input (p, h, zone, obj)) (stream_reset s)"
proof -
  let ?q = "remove_nonparsed_buffer (parser_reset p)"
  have q: "references ?q zone = references p zone" "m_buffer ?q = m_buffer p" "m_off ?q = m_off p"
      "m_used ?q = m_off p" "m_free ?q = m_free p" "p_ctx ?q = context_init (p_ctx p)"
    by (simp_all add: remove_nonparsed_buffer_def parser_reset_def references_def fun_eq_iff)
  show "unpacker_ok (drop_input (p, h, zone, obj))"
    using assms(1) unfolding unpacker_ok_def drop_input_def prod.case q by auto
  show "simulates (drop_input (p, h, zone, obj)) (stream_reset s)"
    using assms(2) cforget_init[of "p_ctx p" "st_ctx s"]
    by (simp add: simulates_def drop_input_def stream_reset_def pending_def q)
qed

subsection \<open>The whole protocol\<close>

lemma unpacker_new_ok: "unpacker_ok unpacker_new" "simulates unpacker_new stream_new"
    "m_used (fst unpacker_new) = COUNTER_SIZE"
  by (auto simp: unpacker_new_def parser_new_def buf_malloc_def Let_def unpacker_ok_def simulates_def pending_def
      references_def heap_ok_def context_ok_def context_new_def stream_new_def COUNTER_SIZE_def)

lemma perform_ok:
  assumes "unpacker_ok st" and "simulates st s" and "fed op + m_used (fst st) + COUNTER_SIZE < 2 ^ 64"
  shows "\<exists>r st'. perform lim op st = Some (r, st') \<and> unpacker_ok st' \<and> r = fst (stream_perform lim op s)
    \<and> simulates st' (snd (stream_perform lim op s)) \<and> m_used (fst st') \<le> m_used (fst st) + fed op"
proof -
  obtain p h zone obj where st: "st = (p, h, zone, obj)" by (cases st)
  show ?thesis
  proof (cases op)
    case (Feed buf)
    then obtain p' h' where "feed buf st = Some (p', h', zone, obj)" "unpacker_ok (p', h', zone, obj)"
        "simulates (p', h', zone, obj) (stream_feed buf s)" "m_used p' \<le> m_used p + length buf"
      using feed_ok[of p h zone obj s buf] assms unfolding st by auto
    then show ?thesis unfolding st Feed by simp
  next
    case Next_object
    obtain r p' h' zone' obj' s' where "unpacker_next lim st = Some (r, p', h', zone', obj')"
        "stream_next lim s = (r, s')" "unpacker_ok (p', h', zone', obj')" "simulates (p', h', zone', obj') s'"
        "m_used p' = m_used p"
      using unpacker_next_ok[OF assms(1,2)[unfolded st], of lim] unfolding st by blast
    then show ?thesis unfolding st Next_object by simp
  next
    case Drop_input
    have "m_used (fst (drop_input st)) \<le> m_used (fst st)"
      using assms(1) by (simp add: st drop_input_def remove_nonparsed_buffer_def parser_reset_def unpacker_ok_def)
    then show ?thesis using drop_input_ok[OF assms(1,2)[unfolded st]] unfolding st Drop_input by simp
  qed
qed

lemma perform_all_ok:
  "unpacker_ok st \<Longrightarrow> simulates st s \<Longrightarrow> sum_list (map fed ops) + m_used (fst st) + COUNTER_SIZE < 2 ^ 64 \<Longrightarrow>
   \<exists>st'. perform_all lim ops st = Some (fst (stream_perform_all lim ops s), st') \<and> unpacker_ok st'
     \<and> simulates st' (snd (stream_perform_all lim ops s))
     \<and> m_used (fst st') \<le> m_used (fst st) + sum_list (map fed ops)"
proof (induction ops arbitrary: st s)
  case (Cons op ops)
  obtain r st1 where 1: "perform lim op st = Some (r, st1)" "unpacker_ok st1" "r = fst (stream_perform lim op s)"
      "simulates st1 (snd (stream_perform lim op s))" "m_used (fst st1) \<le> m_used (fst st) + fed op"
    using perform_ok[OF Cons.prems(1,2), of op lim] Cons.prems(3) by auto
  from Cons.IH[OF 1(2,4)] 1(5) Cons.prems(3) obtain st2 where
      "perform_all lim ops st1 = Some (fst (stream_perform_all lim ops (snd (stream_perform lim op s))), st2)"
      "unpacker_ok st2" "simulates st2 (snd (stream_perform_all lim ops (snd (stream_perform lim op s))))"
      "m_used (fst st2) \<le> m_used (fst st1) + sum_list (map fed ops)" by auto
  then show ?case using 1(1,3,5) by (simp add: split_beta split: option.split)
qed simp

lemma perform_all_new:
  assumes "sum_list (map fed ops) + 8 < 2 ^ 64"
  shows "\<exists>st. perform_all lim ops unpacker_new = Some (fst (stream_perform_all lim ops stream_new), st)
    \<and> unpacker_ok st \<and> simulates st (snd (stream_perform_all lim ops stream_new))
    \<and> m_used (fst st) \<le> COUNTER_SIZE + sum_list (map fed ops)"
proof -
  have "sum_list (map fed ops) + m_used (fst unpacker_new) + COUNTER_SIZE < 2 ^ 64"
    using assms unfolding unpacker_new_ok(3) COUNTER_SIZE_def by linarith
  from perform_all_ok[OF unpacker_new_ok(1,2) this, of lim] show ?thesis unfolding unpacker_new_ok(3) .
qed

text \<open>C8: The unpacker is memory safe and its buffer is invisible.  Whatever pieces of input it is
  given and however the calls that take objects out and drop bad input are interleaved, no buffer is
  read or written after it is freed or beyond its end (the run is defined), at the end every buffer
  has exactly as many references as its counter says, and the objects that came out are those of
  the abstract stream.\<close>
theorem unpacker_safe_refines_stream:
  assumes "sum_list (map fed ops) + 8 < 2 ^ 64"
  shows "\<exists>st. perform_all lim ops unpacker_new = Some (fst (stream_perform_all lim ops stream_new), st)
    \<and> unpacker_ok st \<and> simulates st (snd (stream_perform_all lim ops stream_new))"
  using perform_all_new[OF assms, of lim] by blast

theorem unpacker_safe_refines_stream_witness:
  "\<exists>st. perform_all unpack_limit_default [Feed ''ab'', Next_object, Feed [byte 0xc1], Next_object, Next_object, Drop_input]
      unpacker_new = Some (fst (stream_perform_all unpack_limit_default
        [Feed ''ab'', Next_object, Feed [byte 0xc1], Next_object, Next_object, Drop_input] stream_new), st)
    \<and> unpacker_ok st \<and> simulates st (snd (stream_perform_all unpack_limit_default
        [Feed ''ab'', Next_object, Feed [byte 0xc1], Next_object, Next_object, Drop_input] stream_new))"
  by (rule unpacker_safe_refines_stream) simp

text \<open>C13: Reading more input never invalidates an object.  The objects refer to strings inside the
  buffers, yet when bytes are fed, the buffers of the last object and of the object being parsed
  stay allocated, at the same address, and the bytes that were parsed in them are not changed; a
  buffer that is still needed is never the one that \<open>realloc\<close> moves.\<close>
theorem feed_keeps_objects:
  assumes "unpacker_ok st" and "length buf + m_used (fst st) + COUNTER_SIZE < 2 ^ 64"
  shows "\<exists>st'. feed buf st = Some st' \<and> unpacker_ok st' \<and> snd (snd st') = snd (snd st) \<and> keeps_bytes st st'"
proof -
  obtain p h zone obj where st: "st = (p, h, zone, obj)" by (cases st)
  have "simulates st \<lparr>st_ctx = p_ctx p, st_pending = pending (p, h)\<rparr>" by (simp add: simulates_def st)
  from feed_ok[OF _ this[unfolded st], of buf] assms st show ?thesis by auto
qed

theorem feed_keeps_objects_witness:
  "\<exists>rs st st'. perform_all unpack_limit_default [Feed [byte 0xa1, CHR ''x''], Next_object] unpacker_new = Some (rs, st)
    \<and> feed ''abc'' st = Some st' \<and> snd (snd st') = snd (snd st) \<and> keeps_bytes st st'"
proof -
  define ops where "ops = [Feed [byte 0xa1, CHR ''x''], Next_object]"
  have sum: "sum_list (map fed ops) = 2" by (simp add: ops_def)
  obtain rs st where st: "perform_all unpack_limit_default ops unpacker_new = Some (rs, st)" "unpacker_ok st"
      "m_used (fst st) \<le> COUNTER_SIZE + 2"
    using perform_all_new[of ops unpack_limit_default] unfolding sum by auto
  have "length ''abc'' + m_used (fst st) + COUNTER_SIZE < 2 ^ 64"
    using st(3) by (simp add: COUNTER_SIZE_def)
  from feed_keeps_objects[OF st(2) this] st(1) show ?thesis unfolding ops_def by blast
qed

lemma zone_destroy_append:
  "zone_destroy (xs @ ys) h = (case zone_destroy xs h of None \<Rightarrow> None | Some h' \<Rightarrow> zone_destroy ys h')"
  by (induction xs arbitrary: h) (auto split: option.split)

text \<open>C14: The unpacker neither leaks nor frees twice.  When a session ends, whatever was received on it,
  destroying the handle of the last object and the unpacker is defined and frees every buffer that
  was ever allocated.\<close>
theorem destroy_frees_everything:
  assumes "sum_list (map fed ops) + 8 < 2 ^ 64" and "perform_all lim ops unpacker_new = Some (rs, st)"
  shows "\<exists>h. unpacker_destroy st = Some h \<and> h_bufs h b = None"
proof -
  obtain p h zone obj where st: "st = (p, h, zone, obj)" by (cases st)
  have "unpacker_ok st" using perform_all_new[OF assms(1), of lim] assms(2) by auto
  then have ho: "heap_ok h" and rc: "\<And>b. buf_count h b = references p zone b"
    unfolding st by (auto elim: unpacker_okD)
  have "buf_count h b = 0 + count_list (zone @ p_zone p @ [m_buffer p]) b" for b by (simp add: rc references_def)
  from zone_destroy_ok[OF ho, of "\<lambda>_. 0", OF this] obtain h' where
    h': "zone_destroy (zone @ p_zone p @ [m_buffer p]) h = Some h'" "heap_ok h'" "\<forall>b. buf_count h' b = 0" by auto
  have "h_bufs h' b = None" using h'(2,3) by (fastforce simp: heap_ok_def buf_count_def split: option.splits)
  then show ?thesis
    using h'(1) by (auto simp: st unpacker_destroy_def zone_destroy_append split: option.splits)
qed

theorem destroy_frees_everything_witness:
  "\<exists>rs st h. perform_all unpack_limit_default [Feed [byte 0xa1, CHR ''x''], Next_object] unpacker_new = Some (rs, st)
    \<and> unpacker_destroy st = Some h \<and> h_bufs h 0 = None"
proof -
  define ops where "ops = [Feed [byte 0xa1, CHR ''x''], Next_object]"
  have sum: "sum_list (map fed ops) + 8 < 2 ^ 64" by (simp add: ops_def)
  obtain rs st where st: "perform_all unpack_limit_default ops unpacker_new = Some (rs, st)"
    using perform_all_new[OF sum, of unpack_limit_default] by blast
  from destroy_frees_everything[OF sum st, of 0] st show ?thesis unfolding ops_def by blast
qed

end
