(* ===== verification/Msgpack_Types.thy ===== *)
theory Msgpack_Types
  imports Message_Types
begin

text \<open>
  The C++ types of the values that messages carry, and the members that \<open>MSGPACK_DEFINE_MAP\<close> lists
  for every class with the values that the constructors give them (\<open>Game/GameMessages.h\<close>,
  \<open>Venue/VenueMessages.h\<close>, \<open>Player/PlayerMessages.h\<close>, \<open>Message/MsgWrapper.h\<close>).
\<close>

subsection \<open>Types and values\<close>

datatype cval =
    V_INT int
  | V_BOOL bool
  | V_STRING string
  | V_DOUBLE nat
  | V_VECTOR "cval list"
  | V_STRUCT "cval list"

datatype ctype =
    C_INT32
  | C_INT64
  | C_BOOL
  | C_STRING
  | C_DOUBLE
  | C_VECTOR ctype
  | C_STRUCT "(string \<times> ctype \<times> cval) list"
    \<comment> \<open>the members listed by \<open>MSGPACK_DEFINE_MAP\<close>, with what the constructor sets them to\<close>

record double_casts =
  dc_float32 :: "nat \<Rightarrow> nat"
  dc_uint64 :: "nat \<Rightarrow> nat"
  dc_int64 :: "int \<Rightarrow> nat"

fun default_value :: "ctype \<Rightarrow> cval" where
  "default_value C_INT32 = V_INT 0"
| "default_value C_INT64 = V_INT 0"
| "default_value C_BOOL = V_BOOL False"
| "default_value C_STRING = V_STRING []"
| "default_value C_DOUBLE = V_DOUBLE 0"
| "default_value (C_VECTOR t) = V_VECTOR []"
| "default_value (C_STRUCT fs) = V_STRUCT (map (snd \<circ> snd) fs)"

subsection \<open>The types of the messages\<close>

definition MsgWrapper_type :: ctype where
  "MsgWrapper_type = C_STRUCT [(''msgType'', C_STRING, V_STRING []), (''msgPack'', C_STRING, V_STRING [])]"

definition AvatarInfo_type :: ctype where
  "AvatarInfo_type = C_STRUCT
     [(''playerId'', C_STRING, V_STRING []), (''nickname'', C_STRING, V_STRING []),
      (''headUrl'', C_STRING, V_STRING []), (''seat'', C_INT32, V_INT (- 1)), (''sex'', C_INT32, V_INT 0),
      (''ready'', C_BOOL, V_BOOL False), (''offline'', C_BOOL, V_BOOL False), (''base64'', C_STRING, V_STRING [])]"

definition SpectatorInfo_type :: ctype where
  "SpectatorInfo_type = C_STRUCT
     [(''playerId'', C_STRING, V_STRING []), (''nickname'', C_STRING, V_STRING []),
      (''headUrl'', C_STRING, V_STRING []), (''base64'', C_STRING, V_STRING [])]"

definition PlayerSignature_fields :: "(string \<times> ctype \<times> cval) list" where
  "PlayerSignature_fields =
     [(''playerId'', C_STRING, V_STRING []), (''timestamp'', C_STRING, V_STRING []),
      (''nonce'', C_STRING, V_STRING []), (''signature'', C_STRING, V_STRING [])]"

definition VenueInner_fields :: "(string \<times> ctype \<times> cval) list" where
  "VenueInner_fields = PlayerSignature_fields @ [(''venueId'', C_STRING, V_STRING [])]"

definition str_member :: "string \<Rightarrow> string \<times> ctype \<times> cval" where
  "str_member name = (name, C_STRING, V_STRING [])"

definition int_member :: "string \<Rightarrow> int \<Rightarrow> string \<times> ctype \<times> cval" where
  "int_member name d = (name, C_INT32, V_INT d)"

definition bool_member :: "string \<Rightarrow> string \<times> ctype \<times> cval" where
  "bool_member name = (name, C_BOOL, V_BOOL False)"

definition double_member :: "string \<Rightarrow> string \<times> ctype \<times> cval" where
  "double_member name = (name, C_DOUBLE, V_DOUBLE 0)"

definition vector_member :: "string \<Rightarrow> ctype \<Rightarrow> string \<times> ctype \<times> cval" where
  "vector_member name t = (name, C_VECTOR t, V_VECTOR [])"

fun message_fields :: "msg_class \<Rightarrow> (string \<times> ctype \<times> cval) list option" where
  \<comment> \<open>the \<open>MSGPACK_DEFINE_MAP\<close> of every class; \<open>MsgDisconnect\<close> has none\<close>
  "message_fields AddAvatarC = Some [vector_member ''avatars'' AvatarInfo_type]"
| "message_fields RemoveAvatarC = Some [str_member ''playerId'', int_member ''seat'' 0]"
| "message_fields AddSpectatorC = Some [vector_member ''spectators'' SpectatorInfo_type]"
| "message_fields RemoveSpectatorC = Some [str_member ''playerId'']"
| "message_fields AvatarConnectC =
     Some [str_member ''playerId'', str_member ''ip'', int_member ''seat'' (- 1), bool_member ''offline'']"
| "message_fields GetAvatarsC = Some VenueInner_fields"
| "message_fields GetSpectatorsC = Some VenueInner_fields"
| "message_fields PlayerDiamondsC =
     Some [vector_member ''playerIds'' C_STRING, vector_member ''seats'' C_INT32, vector_member ''diamonds'' C_INT64]"
| "message_fields PlayerReadyC = Some VenueInner_fields"
| "message_fields PlayerReadyRespC = Some [str_member ''playerId'', int_member ''seat'' (- 1)]"
| "message_fields PlayerAuthorizeC = Some VenueInner_fields"
| "message_fields PlayerAuthorizeRespC =
     Some [int_member ''seat'' 0, str_member ''playerId'', bool_member ''authorize'']"
| "message_fields PlayerGeolocationC =
     Some (VenueInner_fields @ [double_member ''latitude'', double_member ''longitude'', double_member ''altitude''])"
| "message_fields GetDistancesC = Some VenueInner_fields"
| "message_fields GetDistancesRespC = Some [vector_member ''distances'' C_INT32]"
| "message_fields DisbandRequestC = Some VenueInner_fields"
| "message_fields DisbandChooseC = Some (VenueInner_fields @ [int_member ''choice'' 0])"
| "message_fields DisbandChoiceC = Some [str_member ''playerId'', int_member ''seat'' 0, int_member ''choice'' 0]"
| "message_fields DisbandC = Some [int_member ''placeholder'' 0]"
| "message_fields DisbandObsoleteC = Some [int_member ''placeholder'' 0]"
| "message_fields ChatClientC =
     Some (VenueInner_fields @ [int_member ''type'' 0, int_member ''index'' 0, str_member ''text''])"
| "message_fields ChatServerC =
     Some [int_member ''seat'' 0, int_member ''type'' 0, int_member ''index'' 0, str_member ''text'', str_member ''playerId'']"
| "message_fields EffectClientC = Some (VenueInner_fields @ [int_member ''index'' 0, str_member ''targetId''])"
| "message_fields EffectServerC =
     Some [int_member ''index'' 0, int_member ''srcSeat'' 0, int_member ''dstSeat'' 0]"
| "message_fields VoiceClientC = Some (VenueInner_fields @ [str_member ''base64''])"
| "message_fields VoiceServerC = Some [int_member ''seat'' 0, str_member ''playerId'', str_member ''base64'']"
| "message_fields EnterVenueC =
     Some (PlayerSignature_fields @ [str_member ''venueId'', int_member ''gameType'' 0, str_member ''base64''])"
| "message_fields EnterVenueRespC = Some [str_member ''venueId'', int_member ''code'' 0, str_member ''errMsg'']"
| "message_fields HeartbeatC = Some (VenueInner_fields @ [int_member ''counter'' 0])"
| "message_fields HeartbeatRespC = Some [int_member ''counter'' 0]"
| "message_fields LeaveVenueC = Some VenueInner_fields"
| "message_fields LeaveVenueRespC = Some [str_member ''venueId'', int_member ''result'' 0, str_member ''errMsg'']"
| "message_fields PlayerConnectC = Some PlayerSignature_fields"
| "message_fields PlayerSignatureErrorC = Some [bool_member ''outdate'']"
| "message_fields DisconnectC = None"

subsection \<open>Recursion over members\<close>

lemma member_size [termination_simp]:
  assumes "((name, t, d), v) \<in> set (zip fs vs)"
  shows "size t < Suc (size_list (\<lambda>x. Suc (Suc (size (fst (snd x))))) fs)"
proof -
  from assms have "(name, t, d) \<in> set fs" by (rule set_zip_leftD)
  from size_list_estimation[OF this, of "size t" "\<lambda>x. Suc (Suc (size (fst (snd x))))"] show ?thesis by simp
qed

end
