(* ===== verification/Msgpack_Adaptor.thy ===== *)
theory Msgpack_Adaptor
  imports Msgpack_Stream Msgpack_Types
begin

text \<open>
  Values of C++ types as MessagePack objects: the adaptors of \<open>v1/adaptor\<close> (\<open>int.hpp\<close>, \<open>bool.hpp\<close>,
  \<open>float.hpp\<close>, \<open>string.hpp\<close>, \<open>vector.hpp\<close>) and the members \<open>msgpack_pack\<close> and \<open>msgpack_unpack\<close> that
  \<open>MSGPACK_DEFINE_MAP\<close> gives a class (\<open>detail/cpp11_define_map.hpp\<close>), one function of the type for
  all the instances of a template.

  Packing fails with \<open>container_size_overflow\<close>, reading with \<open>type_error\<close>; both are \<open>None\<close>, because
  the callers discard what was written.  Reading changes a variable in place, so that its old value
  is an argument.  The conversions of an integer and of a \<open>float\<close> to \<open>double\<close> are the parameter
  \<open>double_casts\<close> on bit patterns.  Properties: every value of every message class is read back from
  what was packed; the order of the members and members the reader does not know are immaterial.
\<close>

subsection \<open>Packing and reading\<close>

definition checked_get_container_size :: "nat \<Rightarrow> nat option" where
  "checked_get_container_size n = (if n > 0xffffffff then None else Some n)"

definition pack_string :: "string \<Rightarrow> string option" where
  "pack_string v = map_option (\<lambda>n. pack_str n @ pack_str_body v) (checked_get_container_size (length v))"

fun adaptor_pack :: "ctype \<Rightarrow> cval \<Rightarrow> string option" where
  "adaptor_pack C_INT32 (V_INT d) = Some (pack_imp_int32 d)"
| "adaptor_pack C_INT64 (V_INT d) = Some (pack_imp_int64 d)"
| "adaptor_pack C_BOOL (V_BOOL v) = Some (if v then pack_true else pack_false)"
| "adaptor_pack C_STRING (V_STRING v) = pack_string v"
| "adaptor_pack C_DOUBLE (V_DOUBLE v) = Some (pack_double v)"
| "adaptor_pack (C_VECTOR t) (V_VECTOR vs) =
     (case checked_get_container_size (length vs) of
        None \<Rightarrow> None
      | Some n \<Rightarrow> map_option (\<lambda>bs. pack_array n @ concat bs) (those (map (adaptor_pack t) vs)))"
| "adaptor_pack (C_STRUCT fs) (V_STRUCT vs) =
     map_option (\<lambda>bs. pack_map (length fs) @ concat bs)
       (those (map2 (\<lambda>(name, t, d) v.
          case pack_string name of None \<Rightarrow> None | Some k \<Rightarrow> map_option (\<lambda>b. k @ b) (adaptor_pack t v)) fs vs))"
| "adaptor_pack t v = None"

definition convert_integer :: "nat \<Rightarrow> mobject \<Rightarrow> int option" where
  \<comment> \<open>\<open>convert_integer<T>\<close> for a signed type of so many bits\<close>
  "convert_integer bits obj = (case obj of
       O_POSITIVE_INTEGER n \<Rightarrow> if n > 2 ^ (bits - 1) - 1 then None else Some (int n)
     | O_NEGATIVE_INTEGER i \<Rightarrow> if i < - (2 ^ (bits - 1)) then None else Some i
     | _ \<Rightarrow> None)"

fun convert_bool :: "mobject \<Rightarrow> bool option" where
  "convert_bool (O_BOOLEAN b) = Some b"
| "convert_bool obj = None"

fun convert_string :: "mobject \<Rightarrow> string option" where
  "convert_string (O_BIN s) = Some s"
| "convert_string (O_STR s) = Some s"
| "convert_string obj = None"

fun convert_double :: "double_casts \<Rightarrow> mobject \<Rightarrow> nat option" where
  "convert_double dc (O_FLOAT32 b) = Some (dc_float32 dc b)"
| "convert_double dc (O_FLOAT64 b) = Some b"
| "convert_double dc (O_POSITIVE_INTEGER n) = Some (dc_uint64 dc n)"
| "convert_double dc (O_NEGATIVE_INTEGER i) = Some (dc_int64 dc i)"
| "convert_double dc obj = None"

fun kvmap_insert :: "(string \<times> mobject) list \<Rightarrow> (mobject \<times> mobject) list \<Rightarrow> (string \<times> mobject) list option" where
  \<comment> \<open>the loop of \<open>msgpack_unpack\<close>; \<open>emplace\<close> keeps the first value of a key\<close>
  "kvmap_insert kvmap [] = Some kvmap"
| "kvmap_insert kvmap ((k, v) # kvs) =
     (case k of
        O_STR s \<Rightarrow> kvmap_insert (case map_of kvmap s of None \<Rightarrow> kvmap @ [(s, v)] | Some _ \<Rightarrow> kvmap) kvs
      | _ \<Rightarrow> None)"

definition resize_vector :: "nat \<Rightarrow> cval \<Rightarrow> cval list \<Rightarrow> cval list" where
  "resize_vector n d vs = take n vs @ replicate (n - length vs) d"

fun adaptor_convert :: "double_casts \<Rightarrow> ctype \<Rightarrow> mobject \<Rightarrow> cval \<Rightarrow> cval option" where
  \<comment> \<open>the last argument is what the variable held before\<close>
  "adaptor_convert dc C_INT32 obj old = map_option V_INT (convert_integer 32 obj)"
| "adaptor_convert dc C_INT64 obj old = map_option V_INT (convert_integer 64 obj)"
| "adaptor_convert dc C_BOOL obj old = map_option V_BOOL (convert_bool obj)"
| "adaptor_convert dc C_STRING obj old = map_option V_STRING (convert_string obj)"
| "adaptor_convert dc C_DOUBLE obj old = map_option V_DOUBLE (convert_double dc obj)"
| "adaptor_convert dc (C_VECTOR t) (O_ARRAY os) (V_VECTOR vs) =
     map_option V_VECTOR
       (those (map2 (\<lambda>obj v. adaptor_convert dc t obj v) os (resize_vector (length os) (default_value t) vs)))"
| "adaptor_convert dc (C_STRUCT fs) (O_MAP kvs) (V_STRUCT vs) =
     (case kvmap_insert [] kvs of
        None \<Rightarrow> None
      | Some kvmap \<Rightarrow>
          map_option V_STRUCT (those (map2 (\<lambda>(name, t, d) v.
            case map_of kvmap name of None \<Rightarrow> Some v | Some obj \<Rightarrow> adaptor_convert dc t obj v) fs vs)))"
| "adaptor_convert dc t obj old = None"

subsection \<open>Messages\<close>

definition pack_message :: "msg_class \<Rightarrow> cval \<Rightarrow> string option" where
  \<comment> \<open>\<open>msgpack::pack(sbuf1, msg)\<close>\<close>
  "pack_message c v = (case message_fields c of None \<Rightarrow> None | Some fs \<Rightarrow> adaptor_pack (C_STRUCT fs) v)"

definition unpack_message :: "double_casts \<Rightarrow> unpack_limit \<Rightarrow> msg_class \<Rightarrow> string \<Rightarrow> cval option" where
  \<comment> \<open>\<open>msgpack::unpack\<close> and \<open>convert\<close> into a new message\<close>
  "unpack_message dc limits c content =
     (case message_fields c of
        None \<Rightarrow> None
      | Some fs \<Rightarrow>
          (case msgpack_unpack limits content of
             Inl e \<Rightarrow> None
           | Inr obj \<Rightarrow> adaptor_convert dc (C_STRUCT fs) obj (default_value (C_STRUCT fs))))"

definition pack_wrapper :: "MsgWrapper \<Rightarrow> string option" where
  "pack_wrapper w = adaptor_pack MsgWrapper_type (V_STRUCT [V_STRING (mw_msgType w), V_STRING (mw_msgPack w)])"

definition convert_wrapper :: "double_casts \<Rightarrow> mobject \<Rightarrow> MsgWrapper option" where
  \<comment> \<open>\<open>obj.convert( *wrapper)\<close> into a new wrapper\<close>
  "convert_wrapper dc obj =
     (case adaptor_convert dc MsgWrapper_type obj (default_value MsgWrapper_type) of
        Some (V_STRUCT [V_STRING ty, V_STRING pk]) \<Rightarrow> Some \<lparr>mw_msgType = ty, mw_msgPack = pk\<rparr>
      | _ \<Rightarrow> None)"

subsection \<open>Vocabulary of the properties\<close>

fun has_type :: "ctype \<Rightarrow> cval \<Rightarrow> bool" where
  \<comment> \<open>the values that a variable of the type can hold\<close>
  "has_type C_INT32 (V_INT d) \<longleftrightarrow> - (2 ^ 31) \<le> d \<and> d < 2 ^ 31"
| "has_type C_INT64 (V_INT d) \<longleftrightarrow> - (2 ^ 63) \<le> d \<and> d < 2 ^ 63"
| "has_type C_BOOL (V_BOOL v) \<longleftrightarrow> True"
| "has_type C_STRING (V_STRING v) \<longleftrightarrow> length v < 2 ^ 32"
| "has_type C_DOUBLE (V_DOUBLE v) \<longleftrightarrow> v < 2 ^ 64"
| "has_type (C_VECTOR t) (V_VECTOR vs) \<longleftrightarrow> length vs < 2 ^ 32 \<and> (\<forall>v \<in> set vs. has_type t v)"
| "has_type (C_STRUCT fs) (V_STRUCT vs) \<longleftrightarrow>
     length vs = length fs \<and> (\<forall>((name, t, d), v) \<in> set (zip fs vs). has_type t v)"
| "has_type t v \<longleftrightarrow> False"

fun to_object :: "ctype \<Rightarrow> cval \<Rightarrow> mobject" where
  \<comment> \<open>the object that represents a value\<close>
  "to_object (C_VECTOR t) (V_VECTOR vs) = O_ARRAY (map (to_object t) vs)"
| "to_object (C_STRUCT fs) (V_STRUCT vs) =
     O_MAP (map2 (\<lambda>(name, t, d) v. (O_STR name, to_object t v)) fs vs)"
| "to_object t (V_INT d) = int_object d"
| "to_object t (V_BOOL b) = O_BOOLEAN b"
| "to_object t (V_STRING s) = O_STR s"
| "to_object t (V_DOUBLE b) = O_FLOAT64 b"
| "to_object t v = O_NIL"

fun type_ok :: "nat \<Rightarrow> ctype \<Rightarrow> bool" where
  \<comment> \<open>a type that is nested at most \<open>k\<close> deep, with different member names and initial values of the
      types of the members\<close>
  "type_ok k (C_VECTOR t) \<longleftrightarrow> 0 < k \<and> type_ok (k - 1) t"
| "type_ok k (C_STRUCT fs) \<longleftrightarrow> 0 < k \<and> length fs < 2 ^ 32 \<and> distinct (map fst fs)
     \<and> (\<forall>(name, t, d) \<in> set fs. length name < 2 ^ 32 \<and> has_type t d \<and> type_ok (k - 1) t)"
| "type_ok k t \<longleftrightarrow> True"

subsection \<open>Packing\<close>

lemma has_type_member:
  "has_type (C_STRUCT fs) (V_STRUCT vs) \<Longrightarrow> ((name, t, d), v) \<in> set (zip fs vs) \<Longrightarrow> has_type t v"
  by fastforce

lemma type_ok_member:
  "type_ok k (C_STRUCT fs) \<Longrightarrow> (name, t, d) \<in> set fs \<Longrightarrow> length name < 2 ^ 32 \<and> has_type t d \<and> type_ok (k - 1) t"
  by fastforce

lemma those_map: "(\<And>x. x \<in> set xs \<Longrightarrow> f x = Some (g x)) \<Longrightarrow> those (map f xs) = Some (map g xs)"
  by (induction xs) auto

lemma pack_imp_int32_64: "- (2 ^ 31) \<le> d \<Longrightarrow> d < 2 ^ 31 \<Longrightarrow> pack_imp_int32 d = pack_imp_int64 d"
  by (simp add: pack_imp_int32_def pack_imp_int64_def)

lemma pack_int_object: "pack_object (int_object d) = pack_imp_int64 d"
  by (auto simp: int_object_def pack_imp_int64_def pack_imp_uint64_def)

lemma pack_string_ok: "length s < 2 ^ 32 \<Longrightarrow> pack_string s = Some (pack_object (O_STR s))"
  by (simp add: pack_string_def checked_get_container_size_def)

lemma adaptor_pack_object:
  "has_type t v \<Longrightarrow> type_ok k t \<Longrightarrow> adaptor_pack t v = Some (pack_object (to_object t v))"
proof (induction t v arbitrary: k rule: has_type.induct)
  case (6 t vs)
  have "those (map (adaptor_pack t) vs) = Some (map (\<lambda>v. pack_object (to_object t v)) vs)"
    using 6 by (intro those_map) auto
  then show ?case using 6(2) by (simp add: checked_get_container_size_def comp_def)
next
  case (7 fs vs)
  have len: "length vs = length fs" using 7(2) by simp
  have "those (map2 (\<lambda>(name, t, d) v.
          case pack_string name of None \<Rightarrow> None | Some k \<Rightarrow> map_option (\<lambda>b. k @ b) (adaptor_pack t v)) fs vs)
      = Some (map2 (\<lambda>(name, t, d) v. pack_object (O_STR name) @ pack_object (to_object t v)) fs vs)"
  proof (rule those_map, clarify)
    fix name t d v assume m: "((name, t, d), v) \<in> set (zip fs vs)"
    then have "(name, t, d) \<in> set fs" by (rule set_zip_leftD)
    then show "(case pack_string name of None \<Rightarrow> None | Some k \<Rightarrow> map_option (\<lambda>b. k @ b) (adaptor_pack t v))
        = Some (pack_object (O_STR name) @ pack_object (to_object t v))"
      using 7(1)[OF m refl refl refl has_type_member[OF 7(2) m], of "k - 1"] type_ok_member[OF 7(3)]
      by (simp add: pack_string_ok)
  qed
  moreover have "pack_object (to_object (C_STRUCT fs) (V_STRUCT vs)) = pack_map (length fs)
      @ concat (map2 (\<lambda>(name, t, d) v. pack_object (O_STR name) @ pack_object (to_object t v)) fs vs)"
    by (simp add: len comp_def case_prod_unfold)
  ultimately show ?case by (simp only: adaptor_pack.simps option.map)
qed (auto simp: pack_imp_int32_64 pack_int_object pack_string_ok)

subsection \<open>Reading\<close>

lemma kvmap_insert_map:
  "\<exists>m. kvmap_insert kvmap (map (\<lambda>(s, obj). (O_STR s, obj)) al) = Some m \<and> map_of m = map_of (kvmap @ al)"
proof (induction al arbitrary: kvmap)
  case (Cons a al)
  obtain s obj where a: "a = (s, obj)" by (cases a)
  show ?case
  proof (cases "map_of kvmap s")
    case None
    then show ?thesis using Cons[of "kvmap @ [(s, obj)]"] by (simp add: a)
  next
    case (Some x)
    then show ?thesis using Cons[of kvmap] by (auto simp: a fun_eq_iff map_add_def split: option.split)
  qed
qed simp

lemma default_value_type: "type_ok k t \<Longrightarrow> has_type t (default_value t)"
proof (cases t)
  case (C_STRUCT fs)
  have "has_type t' (snd (snd (name, t', d)))" if "((name, t', d), v) \<in> set (zip fs (map (snd \<circ> snd) fs))" "type_ok k t"
    for name t' d v
    using type_ok_member[of k fs name t' d] that set_zip_leftD[OF that(1)] by (simp add: C_STRUCT)
  moreover have "v = d" if "((name, t', d), v) \<in> set (zip fs (map (snd \<circ> snd) fs))" for name t' d v
    using that by (auto simp: set_zip) (metis snd_conv)
  ultimately show "type_ok k t \<Longrightarrow> has_type t (default_value t)" by (fastforce simp: C_STRUCT)
qed auto

lemma convert_integer_object:
  "- (2 ^ (b - 1)) \<le> d \<Longrightarrow> d < 2 ^ (b - 1) \<Longrightarrow> convert_integer b (int_object d) = Some d"
proof -
  assume d: "- (2 ^ (b - 1)) \<le> d" "d < 2 ^ (b - 1)"
  show ?thesis
  proof (cases "0 \<le> d")
    case True
    then have "nat d < 2 ^ (b - 1)" using d(2) by (simp add: nat_less_iff)
    then have "\<not> 2 ^ (b - 1) - 1 < nat d" by linarith
    then show ?thesis using True by (simp add: convert_integer_def int_object_def)
  qed (use d in \<open>simp add: convert_integer_def int_object_def\<close>)
qed

lemma map2_option:
  "length xs = length ys \<Longrightarrow> (\<And>x y. (x, y) \<in> set (zip xs ys) \<Longrightarrow> f x y = Some (g x)) \<Longrightarrow>
   those (map2 f xs ys) = Some (map g xs)"
  by (induction xs ys rule: list_induct2) auto

lemma struct_object:
  "length vs = length fs \<Longrightarrow> map2 (\<lambda>(name, t, d) v. (O_STR name, to_object t v)) fs vs
     = map (\<lambda>(s, obj). (O_STR s, obj)) (map2 (\<lambda>(name, t, d) v. (name, to_object t v)) fs vs)"
  by (induction vs fs rule: list_induct2) auto

lemma struct_find:
  "length vs = length fs \<Longrightarrow> distinct (map fst fs) \<Longrightarrow> ((name, t, d), v) \<in> set (zip fs vs) \<Longrightarrow>
   map_of (map2 (\<lambda>(name, t, d) v. (name, to_object t v)) fs vs) name = Some (to_object t v)"
proof (induction vs fs rule: list_induct2)
  case (Cons x xs y ys)
  have "name \<noteq> fst y" if "((name, t, d), v) \<in> set (zip ys xs)"
  proof -
    have "name \<in> fst ` set ys" using set_zip_leftD[OF that] by force
    moreover have "fst y \<notin> fst ` set ys" using Cons.prems(1) by simp
    ultimately show ?thesis by blast
  qed
  then show ?case using Cons by (cases y) auto
qed simp

lemma adaptor_convert_object:
  "has_type t v \<Longrightarrow> type_ok k t \<Longrightarrow> has_type t old \<Longrightarrow> adaptor_convert dc t (to_object t v) old = Some v"
proof (induction t v arbitrary: k old rule: has_type.induct)
  case (6 t vs)
  from 6(4) obtain ws where old: "old = V_VECTOR ws" "\<forall>w \<in> set ws. has_type t w" by (cases old) auto
  let ?rs = "resize_vector (length vs) (default_value t) ws"
  have rs: "length ?rs = length vs" "\<forall>r \<in> set ?rs. has_type t r"
    using old(2) 6(3) by (auto simp: resize_vector_def dest: in_set_takeD intro!: default_value_type)
  have "those (map2 (\<lambda>v r. adaptor_convert dc t (to_object t v) r) vs ?rs) = Some (map (\<lambda>v. v) vs)"
  proof (rule map2_option)
    fix v r assume "(v, r) \<in> set (zip vs ?rs)"
    then have "v \<in> set vs" "r \<in> set ?rs" by (auto dest: set_zip_leftD set_zip_rightD)
    then show "adaptor_convert dc t (to_object t v) r = Some v"
      using 6(1)[of v "k - 1" r] 6(2,3) rs(2) by simp
  qed (simp add: rs)
  then show ?case by (simp add: old zip_map1 case_prod_unfold comp_def)
next
  case (7 fs vs)
  from 7(4) obtain ws where old: "old = V_STRUCT ws" "length ws = length fs" by (cases old) auto
  have len: "length vs = length fs" using 7(2) by simp
  define al where "al = map2 (\<lambda>(name, t, d) v. (name, to_object t v)) fs vs"
  obtain m where m: "kvmap_insert [] (map (\<lambda>(s, obj). (O_STR s, obj)) al) = Some m" "map_of m = map_of al"
    using kvmap_insert_map[of "[]" al] by auto
  have "those (map2 (\<lambda>(name, t, d) v. case map_of m name of None \<Rightarrow> Some v
      | Some obj \<Rightarrow> adaptor_convert dc t obj v) fs ws) = Some vs"
  proof -
    have "those (map2 (\<lambda>fv w. case map_of m (fst (fst fv)) of None \<Rightarrow> Some w
      | Some obj \<Rightarrow> adaptor_convert dc (fst (snd (fst fv))) obj w) (zip fs vs) ws) = Some (map snd (zip fs vs))"
    proof (rule map2_option)
      fix fv w assume fw: "(fv, w) \<in> set (zip (zip fs vs) ws)"
      obtain name t d v where fv: "fv = ((name, t, d), v)" by (metis surj_pair)
      have mem: "((name, t, d), v) \<in> set (zip fs vs)" using fw fv by (auto dest: set_zip_leftD)
      have "((name, t, d), w) \<in> set (zip fs ws)" using fw fv by (auto simp: set_zip)
      then have "has_type t w" using 7(4) has_type_member unfolding old by blast
      moreover have "type_ok (k - 1) t" using type_ok_member[OF 7(3) set_zip_leftD[OF mem]] by blast
      ultimately show "(case map_of m (fst (fst fv)) of None \<Rightarrow> Some w
          | Some obj \<Rightarrow> adaptor_convert dc (fst (snd (fst fv))) obj w) = Some (snd fv)"
        using struct_find[OF len _ mem] 7(3) 7(1)[OF mem refl refl refl has_type_member[OF 7(2) mem], of "k - 1" w]
        by (simp add: fv m(2) al_def)
    qed (simp add: len old)
    moreover have "map2 (\<lambda>fv w. case map_of m (fst (fst fv)) of None \<Rightarrow> Some w
        | Some obj \<Rightarrow> adaptor_convert dc (fst (snd (fst fv))) obj w) (zip fs vs) ws
      = map2 (\<lambda>(name, t, d) v. case map_of m name of None \<Rightarrow> Some v
        | Some obj \<Rightarrow> adaptor_convert dc t obj v) fs ws"
      using len old(2) by (intro nth_equalityI) (simp_all add: split_beta cong: option.case_cong)
    ultimately show ?thesis using len by simp
  qed
  then show ?case using m(1) len unfolding old(1) al_def by (simp add: struct_object del: map_map map_zip_map)
qed (auto simp: convert_integer_object)

lemma fits_default:
  "has_type t v \<Longrightarrow> type_ok k t \<Longrightarrow> depth + k \<le> 0xffffffff \<Longrightarrow> fits unpack_limit_default depth (to_object t v)"
proof (induction t v arbitrary: k depth rule: has_type.induct)
  case (6 t vs)
  have "fits unpack_limit_default (Suc depth) (to_object t v)" if "v \<in> set vs" for v
    using 6(1)[OF that, of "k - 1" "Suc depth"] 6(2-4) that by auto
  then show ?case using 6(2-4) by (auto simp: token_error_def unpack_limit_default_def)
next
  case (7 fs vs)
  have "fits unpack_limit_default (Suc depth) (to_object t v) \<and> fits unpack_limit_default (Suc depth) (O_STR name)"
    if m: "((name, t, d), v) \<in> set (zip fs vs)" for name t d v
    using 7(1)[OF m refl refl refl has_type_member[OF 7(2) m], of "k - 1" "Suc depth"] 7(3,4)
      type_ok_member[OF 7(3) set_zip_leftD[OF m]] by (auto simp: scalar_error_def unpack_limit_default_def)
  then show ?case using 7(2-4) by (auto simp: token_error_def unpack_limit_default_def)
qed (auto simp: int_object_def scalar_error_def unpack_limit_default_def)

lemma wf_to_object:
  "has_type t v \<Longrightarrow> type_ok k t \<Longrightarrow> wf_object (to_object t v)"
proof (induction t v arbitrary: k rule: has_type.induct)
  case (6 t vs)
  have "wf_object (to_object t v)" if "v \<in> set vs" for v using 6(1)[OF that, of "k - 1"] 6(2,3) that by auto
  then show ?case using 6(2) by auto
next
  case (7 fs vs)
  have "wf_object (to_object t v) \<and> wf_object (O_STR name)" if m: "((name, t, d), v) \<in> set (zip fs vs)" for name t d v
    using 7(1)[OF m refl refl refl has_type_member[OF 7(2) m], of "k - 1"]
      type_ok_member[OF 7(3) set_zip_leftD[OF m]] by auto
  then show ?case using 7(2,3) by auto
qed (auto simp: int_object_def nat_less_iff)

lemma value_roundtrip:
  assumes "has_type t v" and "type_ok k t" and "k \<le> 0xffffffff" and "has_type t old"
  shows "\<exists>bs. adaptor_pack t v = Some bs \<and> wire (to_object t v) bs
    \<and> msgpack_unpack unpack_limit_default (bs @ rest) = Inr (to_object t v)
    \<and> adaptor_convert dc t (to_object t v) old = Some v"
  using adaptor_pack_object[OF assms(1,2)] pack_object_wire[OF wf_to_object[OF assms(1,2)]]
    unpack_wire[OF pack_object_wire[OF wf_to_object[OF assms(1,2)]] fits_default[OF assms(1,2)], where rest = rest]
    adaptor_convert_object[OF assms(1,2,4)] assms(3) by simp

lemma message_types_ok: "message_fields c = Some fs \<Longrightarrow> type_ok 3 (C_STRUCT fs)"
  by (cases c) (auto simp: VenueInner_fields_def PlayerSignature_fields_def AvatarInfo_type_def SpectatorInfo_type_def
      str_member_def int_member_def bool_member_def double_member_def vector_member_def)

text \<open>C10: Messages survive the wire.  Every value of every message class that has a MessagePack form is
  packed without an error, and unpacking the bytes and reading them into a new message of the class
  gives exactly the value back, for all the members, whatever bytes follow.\<close>
theorem message_roundtrip:
  assumes "message_fields c = Some fs" and "has_type (C_STRUCT fs) v"
  shows "\<exists>bs. pack_message c v = Some bs \<and> unpack_message dc unpack_limit_default c (bs @ rest) = Some v"
  using value_roundtrip[OF assms(2) message_types_ok[OF assms(1)] _
      default_value_type[OF message_types_ok[OF assms(1)]], of rest dc] assms(1)
  by (auto simp: pack_message_def unpack_message_def simp del: default_value.simps)

theorem message_roundtrip_witness:
  "\<exists>bs. pack_message ChatServerC (V_STRUCT [V_INT 2, V_INT 0, V_INT (- 7), V_STRING ''hi'', V_STRING ''p1'']) = Some bs
    \<and> unpack_message \<lparr>dc_float32 = id, dc_uint64 = id, dc_int64 = nat\<rparr> unpack_limit_default ChatServerC (bs @ [])
      = Some (V_STRUCT [V_INT 2, V_INT 0, V_INT (- 7), V_STRING ''hi'', V_STRING ''p1''])"
  by (rule message_roundtrip[OF message_fields.simps(22)]) (simp add: str_member_def int_member_def)

text \<open>C11: The members of a message are found by name: what is read depends only on the first value of
  each member that the class has, not on the order of the members, on repeated ones or on members
  the class does not know.\<close>
theorem members_found_by_name:
  assumes "\<And>name t d. (name, t, d) \<in> set fs \<Longrightarrow> map_of al name = map_of al' name"
  shows "adaptor_convert dc (C_STRUCT fs) (O_MAP (map (\<lambda>(s, obj). (O_STR s, obj)) al)) (V_STRUCT vs) =
    adaptor_convert dc (C_STRUCT fs) (O_MAP (map (\<lambda>(s, obj). (O_STR s, obj)) al')) (V_STRUCT vs)"
proof -
  obtain m m' where m: "kvmap_insert [] (map (\<lambda>(s, obj). (O_STR s, obj)) al) = Some m" "map_of m = map_of al"
      and m': "kvmap_insert [] (map (\<lambda>(s, obj). (O_STR s, obj)) al') = Some m'" "map_of m' = map_of al'"
    using kvmap_insert_map[of "[]" al] kvmap_insert_map[of "[]" al'] by auto
  have "map2 (\<lambda>(name, t, d) v. case map_of m name of None \<Rightarrow> Some v | Some obj \<Rightarrow> adaptor_convert dc t obj v) fs vs
      = map2 (\<lambda>(name, t, d) v. case map_of m' name of None \<Rightarrow> Some v | Some obj \<Rightarrow> adaptor_convert dc t obj v) fs vs"
    using assms by (intro map_cong refl) (auto simp: m(2) m'(2) dest!: set_zip_leftD)
  then show ?thesis by (simp only: adaptor_convert.simps m(1) m'(1) option.case)
qed

theorem members_found_by_name_witness:
  "adaptor_convert \<lparr>dc_float32 = id, dc_uint64 = id, dc_int64 = nat\<rparr> (C_STRUCT [int_member ''seat'' 0])
     (O_MAP (map (\<lambda>(s, obj). (O_STR s, obj)) [(''x'', O_NIL), (''seat'', O_POSITIVE_INTEGER 3), (''seat'', O_NIL)])) (V_STRUCT [V_INT 0])
   = adaptor_convert \<lparr>dc_float32 = id, dc_uint64 = id, dc_int64 = nat\<rparr> (C_STRUCT [int_member ''seat'' 0])
     (O_MAP (map (\<lambda>(s, obj). (O_STR s, obj)) [(''seat'', O_POSITIVE_INTEGER 3)])) (V_STRUCT [V_INT 0])"
  by (rule members_found_by_name) (auto simp: int_member_def)

end
