(* ===== verification/Msgpack_Session.thy ===== *)
theory Msgpack_Session
  imports Msgpack_Adaptor
begin

text \<open>
  Sessions over the real MessagePack: the parameter \<open>unpacker\<close> of \<open>Sessions\<close> is given the stream of
  \<open>Msgpack_Stream\<close>, which the buffered unpacker refines, and the reading of a \<open>MsgWrapper\<close>.

  \<open>receive_all\<close> is a sequence of calls of \<open>MsgSession::onReceive\<close>, one for each piece that the network
  delivers, at the times given; the number of rounds of its loop is bounded by the bytes that are
  there.  \<open>deliver_all\<close> is what should happen: every message is created and pushed, in order.
\<close>

definition stream_unpacker :: "double_casts \<Rightarrow> (stream, mobject) unpacker" where
  "stream_unpacker dc =
     \<lparr>up_feed = stream_feed,
      up_next = (\<lambda>s. case stream_next unpack_limit_default s of
          (Got obj, t) \<Rightarrow> (Next obj, t) | (Need_more, t) \<Rightarrow> (NoMore, t) | (Thrown e, t) \<Rightarrow> (Throws, t)),
      up_reset = stream_reset,
      up_convert = convert_wrapper dc\<rparr>"

fun receive_all ::
  "double_casts \<Rightarrow> ('c \<Rightarrow> MsgWrapper \<Rightarrow> 'm option) \<Rightarrow> 'r redis_env \<Rightarrow> nat \<Rightarrow> (int \<times> string) list
     \<Rightarrow> (stream, 'm, 'c, 'r) net_state \<Rightarrow> (stream, 'm, 'c, 'r) net_state option" where
  "receive_all dc deser e self [] x = Some x"
| "receive_all dc deser e self ((now, buf) # bufs) x =
     (case MsgSession_onReceive (Suc (length (st_pending (md_unpacker (fst x))) + length buf)) (stream_unpacker dc)
             deser e now self buf x of
        None \<Rightarrow> None
      | Some y \<Rightarrow> receive_all dc deser e self bufs y)"

fun deliver_all ::
  "('c \<Rightarrow> MsgWrapper \<Rightarrow> 'm option) \<Rightarrow> nat \<Rightarrow> MsgWrapper list \<Rightarrow> stream MsgSession \<times> ('m, 'c) MessageManager
     \<Rightarrow> (stream MsgSession \<times> ('m, 'c) MessageManager) option" where
  "deliver_all deser self [] x = Some x"
| "deliver_all deser self (w # ws) (s, mm) =
     (case createMessage deser (Some w) mm of
        None \<Rightarrow> None
      | Some msg \<Rightarrow>
          (case pushMsg \<lparr>nm_type = mw_msgType w, nm_session = Some self, nm_msg = Some msg\<rparr> (s, mm) of
             None \<Rightarrow> None
           | Some x \<Rightarrow> deliver_all deser self ws x))"

definition wrapper_object :: "MsgWrapper \<Rightarrow> mobject" where
  "wrapper_object w = to_object MsgWrapper_type (V_STRUCT [V_STRING (mw_msgType w), V_STRING (mw_msgPack w)])"

subsection \<open>Wrappers\<close>

lemma wrapper_type_ok: "type_ok 1 MsgWrapper_type"
  by (simp add: MsgWrapper_type_def)

lemma pack_wrapper_object:
  assumes "pack_wrapper w = Some bs"
  shows "encodes unpack_limit_default (wrapper_object w) bs" and "convert_wrapper dc (wrapper_object w) = Some w"
proof -
  let ?v = "V_STRUCT [V_STRING (mw_msgType w), V_STRING (mw_msgPack w)]"
  have "length (mw_msgType w) < 2 ^ 32 \<and> length (mw_msgPack w) < 2 ^ 32"
    using assms by (auto simp: pack_wrapper_def MsgWrapper_type_def pack_string_def checked_get_container_size_def
        split: option.splits if_splits)
  then have ty: "has_type MsgWrapper_type ?v" by (simp add: MsgWrapper_type_def)
  have old: "has_type MsgWrapper_type (default_value MsgWrapper_type)" by (rule default_value_type[OF wrapper_type_ok])
  obtain b where b: "adaptor_pack MsgWrapper_type ?v = Some b" "wire (wrapper_object w) b"
      "adaptor_convert dc MsgWrapper_type (wrapper_object w) (default_value MsgWrapper_type) = Some ?v"
    using value_roundtrip[OF ty wrapper_type_ok _ old, of "[]" dc] by (auto simp: wrapper_object_def)
  show "encodes unpack_limit_default (wrapper_object w) bs"
    using b(1,2) assms fits_default[OF ty wrapper_type_ok, of 0]
    by (simp add: encodes_def pack_wrapper_def wrapper_object_def)
  show "convert_wrapper dc (wrapper_object w) = Some w" using b(3) by (simp add: convert_wrapper_def)
qed

subsection \<open>Delivery\<close>

lemma pushMsg_unpacker:
  "pushMsg msg (s\<lparr>md_unpacker := u\<rparr>, mm) = map_option (\<lambda>(s', mm'). (s'\<lparr>md_unpacker := u\<rparr>, mm')) (pushMsg msg (s, mm))"
  by (cases "push_first (md_handlers (synchronizeHandlers mm s)) msg mm")
    (auto simp: pushMsg_def synchronizeHandlers_def Let_def)

lemma pushMsg_keeps: "pushMsg msg (s, mm) = Some (s', mm') \<Longrightarrow> se_remoteIp s' = se_remoteIp s"
  by (auto simp: pushMsg_def synchronizeHandlers_def Let_def)

lemma deliver_unpacker:
  "deliver_all deser self ws (s\<lparr>md_unpacker := u\<rparr>, mm) =
     map_option (\<lambda>(s', mm'). (s'\<lparr>md_unpacker := u\<rparr>, mm')) (deliver_all deser self ws (s, mm))"
  by (induction ws arbitrary: s mm) (auto simp: pushMsg_unpacker split: option.split)

lemma deliver_append:
  "deliver_all deser self (xs @ ys) x = Option.bind (deliver_all deser self xs x) (deliver_all deser self ys)"
  by (induction xs arbitrary: x) (auto split: option.split)

lemma deliver_keeps: "deliver_all deser self ws (s, mm) = Some (s', mm') \<Longrightarrow> se_remoteIp s' = se_remoteIp s"
  by (induction ws arbitrary: s mm) (auto split: option.splits dest: pushMsg_keeps)

lemma receive_loop_delivers:
  assumes "list_all2 (\<lambda>w bs. pack_wrapper w = Some bs) ws encs"
    and "behaves unpack_limit_default (md_unpacker s) (concat encs @ t)" and "unfinished unpack_limit_default t"
    and "deliver_all deser self ws (s, mm) = Some (s', mm')" and "length (st_pending (md_unpacker s)) < n"
  shows "\<exists>u. receive_loop n (stream_unpacker dc) deser e now self test (s, mm, sm, st)
      = Some (s'\<lparr>md_unpacker := u\<rparr>, mm', sm, st) \<and> behaves unpack_limit_default u t"
  using assms
proof (induction ws encs arbitrary: s s' mm n rule: list_all2_induct)
  case Nil
  then obtain u where "stream_next unpack_limit_default (md_unpacker s) = (Need_more, u)" "behaves unpack_limit_default u t"
    using stream_next_more[of unpack_limit_default "md_unpacker s" t] by auto
  moreover obtain k where "n = Suc k" using Nil.prems(4) by (cases n) auto
  ultimately show ?case using Nil.prems(3) by (auto simp: MsgSessionData_next_def stream_unpacker_def)
next
  case (Cons w ws b bs)
  obtain k where n: "n = Suc k" using Cons.prems(4) by (cases n) auto
  note w = pack_wrapper_object[OF Cons.hyps(1)]
  obtain u where u: "stream_next unpack_limit_default (md_unpacker s) = (Got (wrapper_object w), u)"
      "behaves unpack_limit_default u (concat bs @ t)"
    using stream_next_got[OF _ w(1), of "md_unpacker s" "concat bs @ t"] Cons.prems(1) by auto
  obtain msg s1 mm1 where d: "createMessage deser (Some w) mm = Some msg"
      "pushMsg \<lparr>nm_type = mw_msgType w, nm_session = Some self, nm_msg = Some msg\<rparr> (s, mm) = Some (s1, mm1)"
      "deliver_all deser self ws (s1, mm1) = Some (s', mm')"
    using Cons.prems(3) by (auto split: option.splits)
  have "deliver_all deser self ws (s1\<lparr>md_unpacker := u\<rparr>, mm1) = Some (s'\<lparr>md_unpacker := u\<rparr>, mm')"
    by (simp add: deliver_unpacker d(3))
  moreover have "length (st_pending u) < k" using stream_next_shrinks[OF u(1)] Cons.prems(4) n by simp
  ultimately obtain v where "receive_loop k (stream_unpacker dc) deser e now self test (s1\<lparr>md_unpacker := u\<rparr>, mm1, sm, st)
      = Some (s'\<lparr>md_unpacker := v\<rparr>, mm', sm, st)" "behaves unpack_limit_default v t"
    using Cons.IH[where s = "s1\<lparr>md_unpacker := u\<rparr>" and mm = mm1 and n = k] u(2) Cons.prems(2) by auto
  then show ?case
    using u(1) d(1,2) w(2)[of dc] pushMsg_unpacker[where s = s and u = u and mm = mm]
    by (auto simp: n MsgSessionData_next_def stream_unpacker_def)
qed

lemma wrappers_encode:
  "list_all2 (\<lambda>w bs. pack_wrapper w = Some bs) ws encs \<Longrightarrow>
   list_all2 (encodes unpack_limit_default) (map wrapper_object ws) encs"
  by (induction ws encs rule: list_all2_induct) (auto intro: pack_wrapper_object(1))

lemma receive_all_delivers:
  "list_all2 (\<lambda>w bs. pack_wrapper w = Some bs) ws encs \<Longrightarrow> unfinished unpack_limit_default t \<Longrightarrow>
   behaves unpack_limit_default (md_unpacker s) p \<Longrightarrow> unfinished unpack_limit_default p \<Longrightarrow>
   p @ concat (map snd bufs) = concat encs @ t \<Longrightarrow> getTimeStramp (se_remoteIp s) sm = None \<Longrightarrow>
   deliver_all deser self ws (s, mm) = Some (s', mm') \<Longrightarrow>
   \<exists>u. receive_all dc deser e self bufs (s, mm, sm, st) = Some (s'\<lparr>md_unpacker := u\<rparr>, mm', sm, st)
     \<and> behaves unpack_limit_default u t"
proof (induction bufs arbitrary: s s' p ws encs mm)
  case Nil
  then have "encs = []" using unfinished_no_encodings[OF wrappers_encode[OF Nil(1)]] by simp
  then have "s' = s" "mm' = mm" "p = t" using Nil by auto
  then show ?case using Nil(3) by (intro exI[of _ "md_unpacker s"]) simp
next
  case (Cons a bufs)
  obtain now buf where a: "a = (now, buf)" by (cases a)
  let ?lim = unpack_limit_default
  obtain i t' where i: "i \<le> length encs" "p @ buf = concat (take i encs) @ t'"
      "t' @ concat (map snd bufs) = concat (drop i encs) @ t" "unfinished ?lim t'"
    using split_encodings[OF wrappers_encode[OF Cons.prems(1)] Cons.prems(2), of "p @ buf" "concat (map snd bufs)"]
      Cons.prems(5) by (auto simp: a)
  have l: "list_all2 (\<lambda>w bs. pack_wrapper w = Some bs) (take i ws) (take i encs)"
      "list_all2 (\<lambda>w bs. pack_wrapper w = Some bs) (drop i ws) (drop i encs)"
    using Cons.prems(1) by (auto intro: list_all2_takeI list_all2_dropI)
  obtain s1 mm1 where d: "deliver_all deser self (take i ws) (s, mm) = Some (s1, mm1)"
      "deliver_all deser self (drop i ws) (s1, mm1) = Some (s', mm')"
    using Cons.prems(7) deliver_append[of deser self "take i ws" "drop i ws" "(s, mm)"]
    by (cases "deliver_all deser self (take i ws) (s, mm)") auto
  define up where "up = stream_unpacker dc"
  define fuel where "fuel = Suc (length (st_pending (md_unpacker s)) + length buf)"
  have black: "checkBlackList e now (se_remoteIp s) (sm, st) = Some (False, sm, st)"
    using Cons.prems(6) by (simp add: checkBlackList_def)
  have "\<exists>u. MsgSession_onReceive fuel up deser e now self buf (s, mm, sm, st) = Some (s1\<lparr>md_unpacker := u\<rparr>, mm1, sm, st)
      \<and> behaves ?lim u t'"
  proof (cases "buf = []")
    case True
    then have "take i encs = []"
      using unfinished_no_encodings[OF wrappers_encode[OF l(1)] Cons.prems(4), of t'] i(2) by simp
    then have "s1 = s" "mm1 = mm" "t' = p" using l(1) d(1) i(2) True by auto
    then show ?thesis using True Cons.prems(3)
      by (intro exI[of _ "md_unpacker s"]) (simp add: MsgSession_onReceive_def)
  next
    case False
    let ?s = "s\<lparr>md_unpacker := stream_feed buf (md_unpacker s)\<rparr>"
    have "behaves ?lim (md_unpacker ?s) (concat (take i encs) @ t')"
      using behaves_feed[OF Cons.prems(3), of buf] i(2) by simp
    moreover have "deliver_all deser self (take i ws) (?s, mm) = Some (s1\<lparr>md_unpacker := stream_feed buf (md_unpacker s)\<rparr>, mm1)"
      by (simp add: deliver_unpacker d(1))
    moreover have "length (st_pending (md_unpacker ?s)) < fuel" by (simp add: fuel_def stream_feed_def)
    ultimately obtain u where "receive_loop fuel up deser e now self True (?s, mm, sm, st)
        = Some (s1\<lparr>md_unpacker := u\<rparr>, mm1, sm, st)" "behaves ?lim u t'"
      using receive_loop_delivers[OF l(1) _ i(4), of ?s deser self mm "s1\<lparr>md_unpacker := stream_feed buf (md_unpacker s)\<rparr>" mm1
          fuel dc e now True sm st] by (auto simp: up_def)
    then show ?thesis using False black by (auto simp: MsgSession_onReceive_def up_def stream_unpacker_def)
  qed
  then obtain u where u: "MsgSession_onReceive fuel up deser e now self buf (s, mm, sm, st)
      = Some (s1\<lparr>md_unpacker := u\<rparr>, mm1, sm, st)" "behaves ?lim u t'" by blast
  have "deliver_all deser self (drop i ws) (s1\<lparr>md_unpacker := u\<rparr>, mm1) = Some (s'\<lparr>md_unpacker := u\<rparr>, mm')"
    by (simp add: deliver_unpacker d(2))
  then obtain v where "receive_all dc deser e self bufs (s1\<lparr>md_unpacker := u\<rparr>, mm1, sm, st)
      = Some (s'\<lparr>md_unpacker := u\<rparr>\<lparr>md_unpacker := v\<rparr>, mm', sm, st)" "behaves ?lim v t"
    using Cons.IH[OF l(2) Cons.prems(2) _ i(4,3), where s = "s1\<lparr>md_unpacker := u\<rparr>" and mm = mm1] u(2) Cons.prems(6)
      deliver_keeps[OF d(1)] by auto
  then show ?case using u(1) by (auto simp: a up_def fuel_def)
qed

subsection \<open>Properties\<close>



end
