(* ===== verification/Spec2Isabelle.thy ===== *)
theory Spec2Isabelle
  imports Room_Properties Room_Distances Debt_Liquidation Venue_Loading Message_Types Mysql_Async Session_Transport Server_Jobs Msgpack_Unpacker Msgpack_Session
begin

text \<open>
  A verification library for the game server framework under \<open>src/Framework\<close> and for the MessagePack
  library it is built with, which reads whatever a client sends. This theory
  brings the components together and holds a property that spans them; each of the others models
  one component, or the composition of a few, and proves its properties. File names below are relative to \<open>src/Framework\<close>,
  those of the MessagePack theories to \<open>src/3rdpart/msgpack/msgpack\<close>.

  \<^bold>\<open>The program.\<close> The server accepts TCP connections (\<open>Network/TcpServer.cpp\<close>). The bytes of a
  connection go to its session (\<open>Network/MsgSession.cpp\<close>), which unpacks messages and pushes each
  to the first message handler that wants its type (\<open>Message/MessageHandler.cpp\<close>,
  \<open>Message/MessageManager.cpp\<close>); handlers are run by a pool of worker threads
  (\<open>Message/MessageThreadPool.cpp\<close>, \<open>Thread/ThreadWorker.cpp\<close>). Addresses that misbehave are put on a
  black list (\<open>Network/SecurityManager.cpp\<close>) and the messages of players are authenticated by a
  signature with a nonce (\<open>Player/PlayerManager.cpp\<close>, \<open>Player/Player.cpp\<close>). A player enters a venue
  (\<open>Venue/Venue.cpp\<close>), which the venue manager (\<open>Venue/VenueManager.cpp\<close>) loads and gives to one of
  the handlers; the usual venue is a game room (\<open>Game/GameRoom.cpp\<close>) with seats, avatars and
  spectators, which takes a pledge from the player's gold. Gold, diamonds and pledges are in MySQL
  (\<open>Mysql/MysqlPool.cpp\<close>), sessions and venues in Redis (\<open>Redis/RedisPool.cpp\<close>); both clients share
  a pool of connections (\<open>DataBase/DataBasePool.cpp\<close>). Servers talk to each other over RabbitMQ
  (\<open>RabbitMQ/RabbitmqClient.cpp\<close>, \<open>RabbitMQ/RabbitmqConsumer.cpp\<close>). Debts among the players of a game
  are cleared by \<open>Game/DebtLiquidation.cpp\<close>. Periodic work is done by timers
  (\<open>Timer/TimerManager.cpp\<close>).

  \<^bold>\<open>The theories.\<close>

  \<^item> \<open>Prelude\<close>: unordered maps as association lists, the cast to \<open>int\<close>, and the locale \<open>fifo\<close> of
    first-in first-out queues, which is interpreted for the queues of a worker, of a message
    handler and of the asynchronous MySQL tasks.

  \<^item> \<open>Base_Utils\<close> (\<open>Base/BaseUtils.cpp\<close>, \<open>Base/BaseUtils.h\<close>, \<open>Base/Log.cpp\<close>): \<open>getInSequence\<close> visits
    the entries of a map in turn; the Base64 wrappers do not round-trip.

  \<^item> \<open>Timers\<close> (\<open>Timer/TimerManager.cpp\<close> and the timers of \<open>Thread/ThreadWorker.cpp\<close>): a pass over the due
    timers ends and runs each once, in order. Both timer lists are instances of the
    locale \<open>timer_pass\<close>.

  \<^item> \<open>Thread_Worker\<close> (\<open>Thread/*.cpp\<close>): the queues of a worker refine a FIFO queue; the thread function
    is the step relation \<open>wstep\<close>, interleaved with the steps of other threads.

  \<^item> \<open>Database_Pool\<close> (\<open>DataBase/*.cpp\<close>): callers that take, return and drop connections are the step
    relation \<open>pool_step\<close>; connections are exclusive, their number is bounded and no waiting caller is
    forgotten.

  \<^item> \<open>Redis_Pool\<close> (\<open>Redis/RedisPool.cpp\<close>) and \<open>Mysql_Pool\<close> (\<open>Mysql/*.cpp\<close>): the clients, over the locale
    \<open>conn_pool\<close> of what a pool promises; every operation gives its connection back, and a hash
    field that is written is read back. \<open>Mysql_Async\<close> adds the asynchronous queries
    (\<open>Mysql/MysqlPool.cpp\<close>, \<open>Thread/ThreadDispatch.cpp\<close>): they run in the order they were asked for and
    each result is handed to the thread that asked.

  \<^item> \<open>Message\<close>, \<open>Security\<close>, \<open>Sessions\<close>, \<open>Players\<close>: queues, handlers and their threads; abnormal
    behaviour and the black list; receiving and delivering messages; nonces, signatures and
    dormant players.

  \<^item> \<open>Capital\<close> (\<open>Game/GetCapitalTask.cpp\<close>, \<open>Game/GetCashPledgeTask.cpp\<close>, \<open>Game/GetAgencyTask.cpp\<close> and the
    operations on gold of \<open>Game/GameRoom.cpp\<close>): gold is conserved, also when other servers change the
    capital of the player between two statements, except in the cases the theorems name.

  \<^item> \<open>Game_Messages\<close> (\<open>Venue/VenueMessages.h\<close>, \<open>Game/GameMessages.h\<close>): the message classes. \<open>Message_Types\<close>
    (\<open>Game/GameMessages.cpp\<close>, \<open>Venue/VenueMessages.cpp\<close>, \<open>Player/PlayerMessages.cpp\<close>): their type names and
    the catalogue of the messages that are received, which has exactly the types the handlers
    subscribe to.

  \<^item> \<open>Venues\<close> (\<open>Venue/Venue.cpp\<close>, \<open>Venue/VenueInnerHandler.cpp\<close>, \<open>Game/GameDumb.cpp\<close>): entering and leaving
    keep the counts of the handlers and the places of the players consistent, proved once in
    the locale \<open>venue_kind\<close> for every kind of venue.

  \<^item> \<open>Venue_Manager\<close> (\<open>Venue/VenueManager.cpp\<close>, \<open>Venue/VenueOuterHandler.cpp\<close>): loading, distribution and
    removal of venues, and the tasks dispatched to the threads of venues. \<open>Venue_Loading\<close> splits
    \<open>loadVenue\<close> into the steps between which other threads run: a venue is loaded by one thread at a
    time, all get the same object, every thread returns, and undisturbed it does what the
    sequential model does.

  \<^item> \<open>Game_Room\<close> and \<open>Room_Properties\<close> (\<open>Game/GameRoom.cpp\<close>, \<open>Game/GameAvatar.cpp\<close>,
    \<open>Game/GameRoomHandler.cpp\<close>, \<open>Game/RobotManager.cpp\<close>): rooms as an instance of \<open>venue_kind\<close>; seats,
    avatars and spectators stay consistent, a stay in a room conserves gold, broadcasts reach
    those they should, and the bounds on seats and pledges. \<open>Room_Distances\<close>: the array of the
    distances between the players of a room.

  \<^item> \<open>Debt_Liquidation\<close> (\<open>Game/DebtLiquidation.cpp\<close>): the recursive liquidation always succeeds on a
    balanced net, clears every net debt and conserves the capital; in a solvent net it equals
    the payment of all debts at once.

  \<^item> \<open>Tcp_Server\<close> (\<open>Network/TcpServer.cpp\<close>): accepting, the table of connections and its periodic check,
    the send queue. \<open>Session_Transport\<close> (\<open>Network/Session.cpp\<close>, \<open>Network/EchoSession.cpp\<close>,
    \<open>Message/MsgBase.cpp\<close>) puts sessions on top of connections, through the locale \<open>connection\<close> of what a
    session needs of them: as the code is, nothing that is sent is ever transmitted.

  \<^item> \<open>Rabbitmq\<close> (\<open>RabbitMQ/*.cpp\<close>): the queue of publications is bounded and sent in order, a message
    reaches the handlers of its tag; over the step relation \<open>mq_step\<close>, no message is ever queued
    and no handler ever registered by the code as it is, and what \<open>publishJson\<close> encodes is not what
    the handler of JSON messages decodes.

  \<^item> \<open>Server_Jobs\<close> (\<open>PlayerManager::init\<close>, \<open>VenueManager::init\<close>, \<open>VenueInnerHandler::initialize\<close>): the start
    of the managers, their periodic jobs on the timer thread, which take turns, and the command
    to leave a venue that arrives over RabbitMQ.

  \<^item> \<open>Msgpack_Pack\<close> (\<open>v1/pack.hpp\<close>, \<open>v1/object.hpp\<close>): the packer and the traversal of an object, the grammar of
    the wire format as an inductive relation; what is packed is the shortest encoding of the object.
    \<open>Msgpack_Parse\<close> (\<open>v3/parse.hpp\<close>, \<open>v2/create_object_visitor.hpp\<close>): the parser as a state machine that can
    stop after any byte. \<open>Msgpack_Grammar\<close> and \<open>Msgpack_Correct\<close>: the parser accepts exactly the wire
    format, within the limits, and yields the object that was encoded. \<open>Msgpack_Stream\<close>: it does not
    matter how the bytes are cut into pieces; unpacking what was packed gives the object back; a
    truncated message is never taken for a bad one. \<open>Msgpack_Unpacker\<close> (\<open>v2/parse.hpp\<close>, \<open>v2/unpack.hpp\<close>):
    the buffers on an explicit heap with reference counts; the unpacker never touches freed memory
    or memory beyond a buffer, refines the stream, keeps the buffers that objects refer to, and
    frees all of them in the end.
    \<open>Msgpack_Types\<close> (\<open>MSGPACK_DEFINE_MAP\<close> in \<open>Message/MsgWrapper.h\<close>, \<open>Game/GameMessages.h\<close>, \<open>Venue/VenueMessages.h\<close>,
    \<open>Player/PlayerMessages.h\<close>): the members of every message class. \<open>Msgpack_Adaptor\<close> (\<open>v1/adaptor\<close>): the values
    of the members as objects; every message survives the wire, and members are found by name.
    \<open>Msgpack_Session\<close> puts the sessions of \<open>Sessions\<close> on this codec: what a session delivers does not
    depend on the pieces in which the bytes arrive.

  \<^bold>\<open>Conventions.\<close> Objects several components point to live in stores, and a pointer is a number or
    the key of the object; a weak pointer is looked up and may be dangling. A null pointer is \<open>None\<close>.
    Values of type \<open>time_t\<close> and \<open>int64_t\<close> are integers; a narrowing cast is written out with
    \<open>to_int32\<close>. A \<open>double\<close> is a rational number. An operation that throws, waits for ever or has
    undefined behaviour returns \<open>None\<close>, as the theory says. Critical sections are atomic steps.

  \<^bold>\<open>Fuel.\<close> A loop whose number of rounds depends on what others do (\<open>handle\<close>, the passes over timers,
    \<open>splitSend\<close>, the scan of a pool) takes the number of rounds it may run. The theorems show how
    many are enough (the length of the queue and one; the number of due timers and one; 212 steps of
    a thread that loads a venue) or that none are. The loops of the capital operations have the ten attempts of the code. The liquidation
    recurses on nets with fewer nodes and its termination is proved.

  \<^bold>\<open>Parameters.\<close> The clock, MD5 and EVP functions, hiredis and the Redis server, the MySQL driver and the
    database, Boost.Asio, the AMQP library and its broker, and the subclasses
    of rooms are parameters of the definitions, and so is MessagePack in the theories of the server,
    which rest on a few of its operations only (\<open>Msgpack_Session\<close> instantiates them); what the code relies on is stated by named predicates
    (\<open>sql_contract\<close>, \<open>redis_hash_ok\<close>, \<open>evp_encode_ok\<close> and others), each with an instance in the theory that
    satisfies it. Constants whose declaration is missing from the repository are parameters, too.

    In the MessagePack theories \<open>malloc\<close> succeeds and the counter of a buffer does not wrap; a \<open>float\<close> is
    its bit pattern, and the casts of other numbers to \<open>double\<close> are a parameter.

  \<^bold>\<open>Not modelled.\<close> The other vendored libraries under \<open>src/3rdpart\<close> and the parts of MessagePack that the
    server does not use; the text of log entries and of SQL statements and
    the sinks of the log; the trigonometry of geographic distances; the methods of
    \<open>RabbitmqConfig\<close> that do not type-check; accessors that only read or write one member.
\<close>

section \<open>Properties across components\<close>

text \<open>C34: An address that misbehaves twenty times within three seconds is shut out of the whole
  server for five minutes: a connection it opens is closed and does not get into the table of
  connections, and whatever arrives on the sessions it already has is dropped before it is
  unpacked, so that no handler sees it.\<close>
theorem flooding_address_shut_out:
  assumes "misbehave e ip ts (sm, st) = Some (sm', st')" and "um_find (sm_abnormalRecords sm) ip = None"
    and "sorted ts" and "20 \<le> length (filter (\<lambda>t. last ts - t \<le> 3) ts)"
    and "now < last ts + 300" and "se_remoteIp s = ip"
  shows "onAccept e now True ip con (srv, sm', st') = Some (con_close now con, srv, sm', st')
    \<and> MsgSession_onReceive fuel up deser e now self buf (s, mm, sm', st') = Some (s, mm, sm', st')"
  using listed_refused[OF flood_listed[OF assms(1-4)] assms(5), of e st'] assms(6)
  by (simp add: onAccept_def MsgSession_onReceive_def)

lemma demo_flood:
  obtains sm' st' where "misbehave demo_env ''1.2.3.4'' (replicate 20 10) (SecurityManager_new, demo_impl) = Some (sm', st')"
proof -
  have "misbehave demo_env ''1.2.3.4'' (replicate 20 10) (SecurityManager_new, demo_impl) \<noteq> None" by code_simp
  then show ?thesis using that by fastforce
qed

theorem flooding_address_shut_out_witness:
  "\<exists>sm' st'. misbehave demo_env ''1.2.3.4'' (replicate 20 10) (SecurityManager_new, demo_impl) = Some (sm', st')
    \<and> onAccept demo_env 300 True ''1.2.3.4'' (ConnectionImpl_new ''u'') (demo_tcp, sm', st')
        = Some (con_close 300 (ConnectionImpl_new ''u''), demo_tcp, sm', st')"
proof -
  obtain sm' st' where m: "misbehave demo_env ''1.2.3.4'' (replicate 20 10) (SecurityManager_new, demo_impl) = Some (sm', st')"
    by (rule demo_flood)
  have "onAccept demo_env 300 True ''1.2.3.4'' (ConnectionImpl_new ''u'') (demo_tcp, sm', st')
        = Some (con_close 300 (ConnectionImpl_new ''u''), demo_tcp, sm', st')"
    by (rule flooding_address_shut_out[where s = "MsgSession_new () 0 1 ''1.2.3.4'' 10", OF m, THEN conjunct1])
      (simp_all add: SecurityManager_new_def MsgSession_new_def last_replicate)
  with m show ?thesis by blast
qed

end
